(* ===== verification/Prelude.thy ===== *)
theory Prelude
  imports Main "HOL-Library.Word" "HOL-Library.AList"
begin

text \<open>
  Shared vocabulary of the development: the machine types of the 64-bit build, the
  collections of simplification facts the component theories fill, and generic lemmas on
  lists, association lists and words that several components use.
\<close>

section \<open>Machine types\<close>

text \<open>\<open>size_t\<close> and \<open>uintptr_t\<close> are 64 bits wide, \<open>unsigned\<close> is 32 bits wide.\<close>

type_synonym u8 = "8 word"
type_synonym u16 = "16 word"
type_synonym u32 = "32 word"
type_synonym u64 = "64 word"

text \<open>Pointers are addresses; the null pointer is the address 0.\<close>

type_synonym addr = u64

section \<open>Collections of facts\<close>

named_theorems find_simps \<open>what a look-up returns after each container operation\<close>
named_theorems wf_intros \<open>operations preserve the well-formedness of their component\<close>

section \<open>Lists\<close>

lemma fold_invariant_prefix:
  assumes "P s" and "\<And>x s. x \<in> set xs \<Longrightarrow> P s \<Longrightarrow> P (f x s)"
  shows "P (fold f xs s)"
  using assms by (induction xs arbitrary: s) auto

lemma map_of_append_single:
  "map_of (m @ [(k, v)]) x = (case map_of m x of None \<Rightarrow> if x = k then Some v else None | Some w \<Rightarrow> Some w)"
  by (auto simp: map_add_def split: option.splits)

lemma distinct_fst_append_single:
  "distinct (map fst m) \<Longrightarrow> map_of m k = None \<Longrightarrow> distinct (map fst (m @ [(k, v)]))"
  by (auto simp: map_of_eq_None_iff)

lemma map_of_map_values: "map_of (map (\<lambda>(k, v). (k, f k v)) m) x = map_option (f x) (map_of m x)"
  by (induction m) auto

lemma fst_map_values: "map fst (map (\<lambda>(k, v). (k, f k v)) m) = map fst m"
  by (induction m) auto

lemma last_drop_eq: "n < length xs \<Longrightarrow> last (drop n xs) = last xs"
  by simp

section \<open>Words\<close>

lemma unat_bound: "unat (w :: 'a::len word) < 2 ^ LENGTH('a)"
  by (rule unsigned_less)

lemma unat_ucast_mod: "unat (ucast (w :: 'a::len word) :: 'b::len word) = unat w mod 2 ^ LENGTH('b)"
  by (simp add: unsigned_ucast_eq take_bit_eq_mod)

lemma unat_inc_no_wrap:
  fixes w :: "'a::len word"
  assumes "w \<noteq> - 1"
  shows "unat (w + 1) = Suc (unat w)"
  using assms by (metis Suc_eq_plus1 add.commute add.right_neutral max_word_wrap unatSuc add_eq_0_iff)

lemma unat_add_no_wrap:
  fixes a b :: "'a::len word"
  assumes "unat a + unat b < 2 ^ LENGTH('a)"
  shows "unat (a + b) = unat a + unat b"
  using assms by (simp add: unat_word_ariths)

end
