(* ===== verification/HashMap.thy ===== *)
theory HashMap
  imports Prelude
begin

text \<open>
  The containers of the program (\<^verbatim>\<open>phmap::flat_hash_map\<close>,
  \<^verbatim>\<open>phmap::node_hash_map\<close>, \<^verbatim>\<open>std::map\<close>,
  \<^verbatim>\<open>std::unordered_map\<close>) through the part of the \<^verbatim>\<open>std::unordered_map\<close>
  contract that the code uses. A container is an association list with distinct keys; the
  order of the list is the iteration order, about which nothing is promised, so results
  that must not depend on it are proved to depend on the look-ups only. The interface is
  the locale \<open>hash_map\<close>, interpreted on the association lists.
\<close>

type_synonym ('k, 'v) hmap = "('k \<times> 'v) list"

section \<open>Operations\<close>

definition hm_wf :: "('k, 'v) hmap \<Rightarrow> bool" where
  "hm_wf m \<longleftrightarrow> distinct (map fst m)"

text \<open>\<^verbatim>\<open>find\<close>: the mapped value, or the end iterator (\<open>None\<close>).\<close>

definition hm_find :: "('k, 'v) hmap \<Rightarrow> 'k \<Rightarrow> 'v option" where
  "hm_find m k = map_of m k"

text \<open>\<^verbatim>\<open>emplace\<close> / \<^verbatim>\<open>insert\<close>: an existing entry is kept.\<close>

definition hm_emplace :: "'k \<Rightarrow> 'v \<Rightarrow> ('k, 'v) hmap \<Rightarrow> ('k, 'v) hmap" where
  "hm_emplace k v m = (case hm_find m k of None \<Rightarrow> m @ [(k, v)] | Some _ \<Rightarrow> m)"

text \<open>Assignment through \<^verbatim>\<open>operator[]\<close> or an iterator: overwrites.\<close>

definition hm_assign :: "'k \<Rightarrow> 'v \<Rightarrow> ('k, 'v) hmap \<Rightarrow> ('k, 'v) hmap" where
  "hm_assign k v m = AList.update k v m"

definition hm_erase :: "'k \<Rightarrow> ('k, 'v) hmap \<Rightarrow> ('k, 'v) hmap" where
  "hm_erase k m = AList.delete k m"

text \<open>A loop over all entries that rewrites each mapped value in place.\<close>

definition hm_map :: "('k \<Rightarrow> 'v \<Rightarrow> 'w) \<Rightarrow> ('k, 'v) hmap \<Rightarrow> ('k, 'w) hmap" where
  "hm_map f m = map (\<lambda>(k, v). (k, f k v)) m"

section \<open>The interface\<close>

locale hash_map =
  fixes find :: "'m \<Rightarrow> 'k \<Rightarrow> 'v option"
    and emplace :: "'k \<Rightarrow> 'v \<Rightarrow> 'm \<Rightarrow> 'm"
    and assign :: "'k \<Rightarrow> 'v \<Rightarrow> 'm \<Rightarrow> 'm"
    and erase :: "'k \<Rightarrow> 'm \<Rightarrow> 'm"
    and invar :: "'m \<Rightarrow> bool"
  assumes find_emplace:
      "find (emplace k v m) x = (case find m x of None \<Rightarrow> if x = k then Some v else None | Some w \<Rightarrow> Some w)"
    and find_assign: "find (assign k v m) x = (if x = k then Some v else find m x)"
    and find_erase: "invar m \<Longrightarrow> find (erase k m) x = (if x = k then None else find m x)"
    and invar_emplace: "invar m \<Longrightarrow> invar (emplace k v m)"
    and invar_assign: "invar m \<Longrightarrow> invar (assign k v m)"
    and invar_erase: "invar m \<Longrightarrow> invar (erase k m)"
begin

lemma find_emplace_new: "find m k = None \<Longrightarrow> find (emplace k v m) k = Some v"
  by (simp add: find_emplace)

lemma find_emplace_keeps: "find m x = Some w \<Longrightarrow> find (emplace k v m) x = Some w"
  by (simp add: find_emplace)

lemma find_emplace_other: "x \<noteq> k \<Longrightarrow> find (emplace k v m) x = find m x"
  by (simp add: find_emplace split: option.split)

lemma emplace_absorb: "find (emplace k v (emplace k w m)) x = find (emplace k w m) x"
  by (simp add: find_emplace split: option.split)

lemma erase_assign: "invar m \<Longrightarrow> find (erase k (assign k v m)) x = find (erase k m) x"
  by (simp add: find_assign find_erase invar_assign)

end

lemma hm_find_Nil [simp]: "hm_find [] k = None"
  by (simp add: hm_find_def)

lemma hm_wf_Nil [simp, wf_intros]: "hm_wf []"
  by (simp add: hm_wf_def)

lemma hm_emplace_find:
  "hm_find (hm_emplace k v m) x = (case hm_find m x of None \<Rightarrow> if x = k then Some v else None | Some w \<Rightarrow> Some w)"
proof (cases "map_of m k")
  case None
  then show ?thesis
    unfolding hm_emplace_def hm_find_def by (simp only: map_of_append_single option.case)
next
  case (Some w)
  then show ?thesis by (auto simp: hm_emplace_def hm_find_def split: option.split)
qed

lemma hm_assign_find: "hm_find (hm_assign k v m) x = (if x = k then Some v else hm_find m x)"
  by (simp add: hm_assign_def hm_find_def update_conv')

lemma hm_erase_find: "hm_find (hm_erase k m) x = (if x = k then None else hm_find m x)"
  by (simp add: hm_erase_def hm_find_def delete_conv')

lemma hm_emplace_wf: "hm_wf m \<Longrightarrow> hm_wf (hm_emplace k v m)"
  unfolding hm_wf_def hm_emplace_def hm_find_def
  by (cases "map_of m k") (simp_all add: distinct_fst_append_single del: map_append)

lemma hm_assign_wf: "hm_wf m \<Longrightarrow> hm_wf (hm_assign k v m)"
  by (simp add: hm_wf_def hm_assign_def distinct_update)

lemma hm_erase_wf: "hm_wf m \<Longrightarrow> hm_wf (hm_erase k m)"
  by (simp add: hm_wf_def hm_erase_def distinct_delete)

interpretation hm: hash_map hm_find hm_emplace hm_assign hm_erase hm_wf
  by unfold_locales
    (simp_all add: hm_emplace_find hm_assign_find hm_erase_find hm_emplace_wf hm_assign_wf hm_erase_wf)

lemma hm_map_find [find_simps]: "hm_find (hm_map f m) k = map_option (f k) (hm_find m k)"
  by (simp add: hm_map_def hm_find_def map_of_map_values)

lemma hm_map_wf [wf_intros]: "hm_wf m \<Longrightarrow> hm_wf (hm_map f m)"
  unfolding hm_map_def hm_wf_def fst_map_values .

lemmas hm_find_simps [find_simps] = hm_emplace_find hm_assign_find hm_erase_find

lemmas hm_wf_simps [wf_intros] = hm.invar_emplace hm.invar_assign hm.invar_erase

lemma hm_find_in: "hm_wf m \<Longrightarrow> (k, v) \<in> set m \<longleftrightarrow> hm_find m k = Some v"
  by (simp add: hm_wf_def hm_find_def)

lemma hm_wf_ConsD: "hm_wf ((k, v) # m) \<Longrightarrow> hm_wf m \<and> hm_find m k = None"
  by (simp add: hm_wf_def hm_find_def map_of_eq_None_iff)

lemma hm_find_Cons: "hm_find ((k, v) # m) x = (if x = k then Some v else hm_find m x)"
  by (simp add: hm_find_def)

end
