(* ===== verification/VectorClocks.thy ===== *)
theory VectorClocks
  imports HashMap
begin

text \<open>
  The vector clock of the FastTrack detector
  (\<^verbatim>\<open>standalone/detectors/fasttrack/include/vectorclock.h\<close>), 64-bit build. An id
  packs a thread id (upper 32 bits) and that thread's clock (lower 32 bits); a vector clock
  maps thread ids to ids. The packing is proved to be a bijection, the update loop to be the
  pointwise maximum whatever the iteration order, and the contract the detector relies on is
  the locale \<open>causal_clock\<close>.
\<close>

section \<open>Ids\<close>

definition multplier :: u64 where
  "multplier = 0x100000000"

definition make_tid :: "u64 \<Rightarrow> u32" where
  "make_tid vid = ucast (vid div multplier)"

definition make_clock :: "u64 \<Rightarrow> u32" where
  "make_clock vid = ucast (vid mod multplier)"

definition make_id :: "u32 \<Rightarrow> u64" where
  "make_id tid = ucast tid * multplier"

section \<open>Vector clocks\<close>

type_synonym vclock = "(u32, u64) hmap"

text \<open>\<^verbatim>\<open>get_thr\<close> and \<^verbatim>\<open>get_length\<close> depend on the iteration order.\<close>

definition get_thr :: "vclock \<Rightarrow> u32 \<Rightarrow> u32" where
  "get_thr vc pos = (if unat pos < length vc then fst (vc ! unat pos) else 0)"

definition get_length :: "vclock \<Rightarrow> u32" where
  "get_length vc = of_nat (length vc)"

definition get_id_by_tid :: "vclock \<Rightarrow> u32 \<Rightarrow> u64" where
  "get_id_by_tid vc tid = (case hm_find vc tid of Some vid \<Rightarrow> vid | None \<Rightarrow> 0)"

definition get_clock_by_tid :: "vclock \<Rightarrow> u32 \<Rightarrow> u32" where
  "get_clock_by_tid vc tid = (case hm_find vc tid of Some vid \<Rightarrow> make_clock vid | None \<Rightarrow> 0)"

text \<open>\<^verbatim>\<open>update(TID, VC_ID)\<close>: create the entry, or raise it.\<close>

definition vc_update_entry :: "u32 \<Rightarrow> u64 \<Rightarrow> vclock \<Rightarrow> vclock" where
  "vc_update_entry tid vid vc =
     (case hm_find vc tid of
        None \<Rightarrow> hm_emplace tid vid vc
      | Some old \<Rightarrow> if old < vid then hm_assign tid vid vc else vc)"

text \<open>\<^verbatim>\<open>update(VectorClock)\<close>: the loop over the other clock's entries.\<close>

fun vc_update :: "vclock \<Rightarrow> vclock \<Rightarrow> vclock" where
  "vc_update vc [] = vc"
| "vc_update vc ((tid, vid) # other) =
     vc_update (if get_id_by_tid vc tid < vid then vc_update_entry tid vid vc else vc) other"

definition delete_vc :: "u32 \<Rightarrow> vclock \<Rightarrow> vclock" where
  "delete_vc tid vc = hm_erase tid vc"

section \<open>The packing of ids\<close>

lemma unat_div_multplier: "unat (vid div multplier) = unat vid div 2 ^ 32"
  by (simp add: multplier_def unat_div)

lemma unat_mod_multplier: "unat (vid mod multplier) = unat vid mod 2 ^ 32"
  by (simp add: multplier_def unat_mod)

lemma unat_make_tid: "unat (make_tid vid) = unat vid div 2 ^ 32"
proof -
  have "unat vid div 2 ^ 32 < 2 ^ 32"
    using unat_bound [of vid] by (simp add: less_mult_imp_div_less)
  then show ?thesis
    by (simp add: make_tid_def unat_ucast_mod unat_div_multplier)
qed

lemma unat_make_clock: "unat (make_clock vid) = unat vid mod 2 ^ 32"
  by (simp add: make_clock_def unat_ucast_mod unat_mod_multplier)

lemma unat_make_id: "unat (make_id tid) = unat tid * 2 ^ 32"
proof -
  have "unat tid * 2 ^ 32 < 2 ^ 64"
    using unat_bound [of tid] by simp
  then show ?thesis
    by (simp add: make_id_def multplier_def unat_word_ariths unat_ucast_mod)
qed

lemma unat_id_split: "unat vid = unat (make_tid vid) * 2 ^ 32 + unat (make_clock vid)"
  by (simp add: unat_make_tid unat_make_clock)

lemma make_tid_make_id [simp]: "make_tid (make_id tid) = tid"
  by (rule word_unat_eq_iff [THEN iffD2]) (simp add: unat_make_tid unat_make_id)

lemma make_clock_make_id [simp]: "make_clock (make_id tid) = 0"
  by (rule word_unat_eq_iff [THEN iffD2]) (simp add: unat_make_clock unat_make_id)

lemma id_eq_iff: "a = b \<longleftrightarrow> make_tid a = make_tid b \<and> make_clock a = make_clock b"
  by (metis unat_id_split word_unat_eq_iff)

lemma id_less_iff:
  "make_tid a = make_tid b \<Longrightarrow> a < b \<longleftrightarrow> make_clock a < make_clock b"
  by (simp add: word_less_nat_alt unat_id_split [of a] unat_id_split [of b])

lemma id_zero_iff: "vid = 0 \<longleftrightarrow> make_tid vid = 0 \<and> make_clock vid = 0"
proof -
  have "make_tid 0 = 0" "make_clock 0 = 0"
    by (simp_all add: make_tid_def make_clock_def)
  then show ?thesis using id_eq_iff [of vid 0] by simp
qed

text \<open>Incrementing an vid steps the clock, until the clock overflows into the thread vid.\<close>

lemma inc_id:
  assumes "make_clock vid \<noteq> - 1"
  shows "make_tid (vid + 1) = make_tid vid" and "make_clock (vid + 1) = make_clock vid + 1"
proof -
  have c: "unat (make_clock vid) < 2 ^ 32 - 1"
    using assms unat_bound [of "make_clock vid"] word_unat_eq_iff [of "make_clock vid" "- 1"]
    by (simp add: unsigned_minus_1_eq_mask mask_eq_exp_minus_1)
  have "vid \<noteq> - 1"
    using c by (auto simp: unat_make_clock unsigned_minus_1_eq_mask mask_eq_exp_minus_1)
  then have s: "unat (vid + 1) = Suc (unat vid)" by (rule unat_inc_no_wrap)
  have d: "unat vid = unat (make_tid vid) * 2 ^ 32 + unat (make_clock vid)" by (rule unat_id_split)
  have "unat (make_tid (vid + 1)) = unat (make_tid vid)"
    using c by (simp add: unat_make_tid [of "vid + 1"] s d)
  then show "make_tid (vid + 1) = make_tid vid" by (simp add: word_unat_eq_iff)
  have "unat (make_clock (vid + 1)) = Suc (unat (make_clock vid))"
    using c by (simp add: unat_make_clock [of "vid + 1"] s d)
  also have "\<dots> = unat (make_clock vid + 1)"
    using assms by (simp add: unat_inc_no_wrap)
  finally show "make_clock (vid + 1) = make_clock vid + 1" by (simp add: word_unat_eq_iff)
qed

section \<open>What the operations do to the look-ups\<close>

lemma get_id_Nil [simp]: "get_id_by_tid [] t = 0"
  by (simp add: get_id_by_tid_def)

lemma get_clock_of_id: "get_clock_by_tid vc t = make_clock (get_id_by_tid vc t)"
  by (simp add: get_clock_by_tid_def get_id_by_tid_def make_clock_def split: option.split)

lemma get_id_update_entry [find_simps]:
  "get_id_by_tid (vc_update_entry t vid vc) u =
     (if u = t then max (get_id_by_tid vc t) vid else get_id_by_tid vc u)"
  by (auto simp: get_id_by_tid_def vc_update_entry_def find_simps max_def split: option.split)

lemma get_id_delete [find_simps]:
  "hm_wf vc \<Longrightarrow> get_id_by_tid (delete_vc t vc) u = (if u = t then 0 else get_id_by_tid vc u)"
  by (simp add: get_id_by_tid_def delete_vc_def hm.find_erase)

lemma get_id_assign [find_simps]:
  "get_id_by_tid (hm_assign t vid vc) u = (if u = t then vid else get_id_by_tid vc u)"
  by (simp add: get_id_by_tid_def find_simps)

lemma vc_update_entry_wf [wf_intros]: "hm_wf vc \<Longrightarrow> hm_wf (vc_update_entry t vid vc)"
  by (simp add: vc_update_entry_def wf_intros split: option.split)

lemma delete_vc_wf [wf_intros]: "hm_wf vc \<Longrightarrow> hm_wf (delete_vc t vc)"
  by (simp add: delete_vc_def wf_intros)

lemma vc_update_wf [wf_intros]: "hm_wf vc \<Longrightarrow> hm_wf (vc_update vc other)"
  by (induction vc other rule: vc_update.induct) (simp_all add: wf_intros)

lemma vc_update_step:
  "get_id_by_tid (if get_id_by_tid vc t < vid then vc_update_entry t vid vc else vc) u =
     (if u = t then max (get_id_by_tid vc t) vid else get_id_by_tid vc u)"
  by (simp add: find_simps max_def)

lemma get_id_vc_update [find_simps]:
  "hm_wf other \<Longrightarrow>
     get_id_by_tid (vc_update vc other) u = max (get_id_by_tid vc u) (get_id_by_tid other u)"
proof (induction vc other rule: vc_update.induct)
  case (1 vc)
  then show ?case by simp
next
  case (2 vc t vid other)
  have w: "hm_wf other" and n: "hm_find other t = None"
    using hm_wf_ConsD [OF "2.prems"] by simp_all
  from n have z: "get_id_by_tid other t = 0" by (simp add: get_id_by_tid_def)
  have c: "get_id_by_tid ((t, vid) # other) u = (if u = t then vid else get_id_by_tid other u)"
    by (simp add: get_id_by_tid_def hm_find_Cons)
  have m: "max x (0 :: u64) = x" for x
    by (simp add: max_def)
  show ?case
    unfolding vc_update.simps(2) "2.IH" [OF w] vc_update_step c
    by (cases "u = t") (simp_all add: z m)
qed

text \<open>The same maximum, whatever the order in which the hash map is walked.\<close>

lemma vc_update_order:
  assumes "hm_wf a" and "hm_wf b" and "\<And>t. hm_find a t = hm_find b t"
  shows "get_id_by_tid (vc_update vc a) u = get_id_by_tid (vc_update vc b) u"
proof -
  have "get_id_by_tid a u = get_id_by_tid b u"
    using assms(3) by (simp add: get_id_by_tid_def)
  then show ?thesis using assms(1,2) by (simp add: find_simps)
qed

section \<open>The contract of a vector clock\<close>

text \<open>
  What the detector uses of a vector clock: \<open>known\<close> reads an entry, \<open>join\<close> is the one-way
  update, \<open>put\<close> writes the thread's own entry, \<open>drop\<close> forgets a thread.
\<close>

locale causal_clock =
  fixes known :: "'vc \<Rightarrow> 't \<Rightarrow> 'c::linorder"
    and join :: "'vc \<Rightarrow> 'vc \<Rightarrow> 'vc"
    and put :: "'t \<Rightarrow> 'c \<Rightarrow> 'vc \<Rightarrow> 'vc"
    and drop :: "'t \<Rightarrow> 'vc \<Rightarrow> 'vc"
    and zero :: "'c"
    and invar :: "'vc \<Rightarrow> bool"
  assumes known_join: "invar b \<Longrightarrow> known (join a b) t = max (known a t) (known b t)"
    and known_put: "known (put t c a) u = (if u = t then c else known a u)"
    and known_drop: "invar a \<Longrightarrow> known (drop t a) u = (if u = t then zero else known a u)"
    and zero_least: "zero \<le> c"
    and invar_join: "invar a \<Longrightarrow> invar (join a b)"
    and invar_put: "invar a \<Longrightarrow> invar (put t c a)"
    and invar_drop: "invar a \<Longrightarrow> invar (drop t a)"
begin

lemma known_join_less: "invar b \<Longrightarrow> c < known (join a b) t \<longleftrightarrow> c < known a t \<or> c < known b t"
  by (simp add: known_join less_max_iff_disj)

lemma join_idem: "invar a \<Longrightarrow> known (join a a) t = known a t"
  by (simp add: known_join)

lemma join_commute: "invar a \<Longrightarrow> invar b \<Longrightarrow> known (join a b) t = known (join b a) t"
  by (simp add: known_join max.commute)

lemma join_assoc:
  "invar b \<Longrightarrow> invar c \<Longrightarrow> known (join (join a b) c) t = known (join a (join b c)) t"
  by (simp add: known_join invar_join max.assoc)

lemma join_least:
  "invar b \<Longrightarrow> (\<forall>t. known a t \<le> known c t \<and> known b t \<le> known c t) \<longleftrightarrow> (\<forall>t. known (join a b) t \<le> known c t)"
  by (auto simp: known_join)

lemma drop_forgets: "invar a \<Longrightarrow> known (drop t a) u \<le> known a u"
  by (simp add: known_drop zero_least)

end

interpretation vcl: causal_clock get_id_by_tid vc_update hm_assign delete_vc 0 hm_wf
  by unfold_locales (simp_all add: find_simps wf_intros)

lemma clock_less_of_id_less:
  "make_tid a = make_tid b \<Longrightarrow> make_clock a < make_clock b \<Longrightarrow> a < b"
  by (simp add: id_less_iff)

lemma inc_id_overflow:
  assumes "make_clock vid = - 1"
  shows "make_tid (vid + 1) = make_tid vid + 1" and "make_clock (vid + 1) = 0"
proof -
  have c: "unat (make_clock vid) = 2 ^ 32 - 1"
    using assms by (simp add: unsigned_minus_1_eq_mask mask_eq_exp_minus_1)
  have "unat (vid + 1) = (unat (make_tid vid) + 1) * 2 ^ 32 mod 2 ^ 64"
    using unat_id_split [of vid] c by (simp add: unat_word_ariths)
  then have v: "unat (vid + 1) = ((unat (make_tid vid) + 1) mod 2 ^ 32) * 2 ^ 32"
    using mult_mod_right [of "2 ^ 32 :: nat" "unat (make_tid vid) + 1" "2 ^ 32"] by (simp add: mult.commute)
  then have "unat (make_tid (vid + 1)) = unat (make_tid vid + 1)"
    by (simp add: unat_make_tid unat_word_ariths)
  then show "make_tid (vid + 1) = make_tid vid + 1" by (simp add: word_unat_eq_iff)
  have "unat (make_clock (vid + 1)) = 0" by (simp add: unat_make_clock v)
  then show "make_clock (vid + 1) = 0" by (simp add: word_unat_eq_iff)
qed

text \<open>C22: Updating a vector clock by another one takes the maximum of the ids entry by entry, for
  every order in which the hash map iterates the other clock; it is therefore the least clock
  above both.\<close>

theorem vc_update_join:
  assumes "hm_wf b" and "hm_wf b'" and "\<forall>t. hm_find b t = hm_find b' t"
  shows "(\<forall>t. get_id_by_tid (vc_update a b) t = max (get_id_by_tid a t) (get_id_by_tid b t)) \<and>
    (\<forall>t. get_id_by_tid (vc_update a b') t = get_id_by_tid (vc_update a b) t) \<and>
    ((\<forall>t. get_id_by_tid a t \<le> get_id_by_tid c t \<and> get_id_by_tid b t \<le> get_id_by_tid c t) \<longleftrightarrow>
     (\<forall>t. get_id_by_tid (vc_update a b) t \<le> get_id_by_tid c t))"
  using vcl.known_join [OF assms(1)] vc_update_order [OF assms(1,2)] assms(3)
    vcl.join_least [OF assms(1), of a c] by simp

lemma vc_update_join_witness:
  "get_id_by_tid (vc_update [(1, 5), (2, 9)] [(2, 11), (3, 4)]) 2 = 11 \<and>
   (\<forall>t. get_id_by_tid (vc_update [(1, 5), (2, 9)] [(3, 4), (2, 11)]) t =
        get_id_by_tid (vc_update [(1, 5), (2, 9)] [(2, 11), (3, 4)]) t)"
proof -
  let ?b = "[(2, 11), (3, 4)] :: vclock" and ?b' = "[(3, 4), (2, 11)] :: vclock"
  have "hm_wf ?b" "hm_wf ?b'" "\<forall>t. hm_find ?b t = hm_find ?b' t"
    by (auto simp: hm_wf_def hm_find_def)
  from vc_update_join [OF this, of "[(1, 5), (2, 9)]"]
  have "get_id_by_tid (vc_update [(1, 5), (2, 9)] ?b) 2 =
      max (get_id_by_tid [(1, 5), (2, 9)] 2) (get_id_by_tid ?b 2)"
    and "\<forall>t. get_id_by_tid (vc_update [(1, 5), (2, 9)] ?b') t = get_id_by_tid (vc_update [(1, 5), (2, 9)] ?b) t"
    by blast+
  then show ?thesis by (simp add: get_id_by_tid_def hm_find_def)
qed

end
