(* ===== verification/StackDepot.thy ===== *)
theory StackDepot
  imports HashMap
begin

text \<open>
  The stack depot of the FastTrack detector
  (\<^verbatim>\<open>standalone/detectors/fasttrack/include/stacktrace.h\<close> and
  \<^verbatim>\<open>src/stacktrace.cpp\<close>): a tree of call sites whose nodes are shared by all the
  stacks with the same prefix, a cursor to the current node, and for each accessed address
  the program counter and node of the last access. The depot is refined to plain stacks: a
  recorded access keeps the call stack it was made with, whatever is pushed or popped later.
\<close>

section \<open>The tree\<close>

text \<open>
  \<^verbatim>\<open>boost::adjacency_list<vecS, vecS, bidirectionalS>\<close>: vertices are indices into a
  vector, each with its property, its out edges (targets) and its in edges (sources).
\<close>

record vertex =
  v_addr :: u64
  v_out :: "nat list"
  v_in :: "nat list"

type_synonym stack_tree = "vertex list"

definition add_vertex :: "u64 \<Rightarrow> stack_tree \<Rightarrow> nat \<times> stack_tree" where
  "add_vertex a g = (length g, g @ [\<lparr>v_addr = a, v_out = [], v_in = []\<rparr>])"

definition add_edge :: "nat \<Rightarrow> nat \<Rightarrow> stack_tree \<Rightarrow> stack_tree" where
  "add_edge u v g =
     (let g' = g[u := (g ! u)\<lparr>v_out := v_out (g ! u) @ [v]\<rparr>]
      in g'[v := (g' ! v)\<lparr>v_in := v_in (g' ! v) @ [u]\<rparr>])"

record depot =
  read_write :: "(u64, u64 \<times> nat) hmap"
  local_stack :: stack_tree
  ce :: nat
  root :: nat

section \<open>Operations\<close>

definition depot_init :: depot where
  "depot_init =
     (let (v, g) = add_vertex 0 [] in \<lparr>read_write = [], local_stack = g, ce = v, root = v\<rparr>)"

text \<open>
  The loop of \<^verbatim>\<open>make_trace\<close>. Dereferencing the first out edge of a vertex that has
  none is undefined in C++; it is \<open>None\<close> here, as is a walk that never meets the root.
\<close>

partial_function (option) walk :: "stack_tree \<Rightarrow> nat \<Rightarrow> nat \<Rightarrow> u64 list \<Rightarrow> u64 list option" where
  "walk g r v acc =
     (if v = r then Some acc
      else (case v_out (g ! v) of
              [] \<Rightarrow> None
            | p # ps \<Rightarrow> walk g r p (v_addr (g ! v) # acc)))"

declare walk.simps [code]

definition make_trace :: "depot \<Rightarrow> u64 \<times> nat \<Rightarrow> u64 list option" where
  "make_trace d data = walk (local_stack d) (root d) (snd data) [fst data]"

definition pop_stack_element :: "depot \<Rightarrow> depot option" where
  "pop_stack_element d =
     (case v_out (local_stack d ! ce d) of
        [] \<Rightarrow> None
      | p # _ \<Rightarrow> Some (d\<lparr>ce := p\<rparr>))"

text \<open>The loop over the in edges of the current element, looking for the call site.\<close>

fun find_child :: "stack_tree \<Rightarrow> u64 \<Rightarrow> nat list \<Rightarrow> nat option" where
  "find_child g e [] = None"
| "find_child g e (c # cs) = (if e = v_addr (g ! c) then Some c else find_child g e cs)"

definition push_stack_element :: "u64 \<Rightarrow> depot \<Rightarrow> depot" where
  "push_stack_element e d =
     (case find_child (local_stack d) e (v_in (local_stack d ! ce d)) of
        Some c \<Rightarrow> d\<lparr>ce := c\<rparr>
      | None \<Rightarrow>
          (let (tmp, g) = add_vertex e (local_stack d)
           in d\<lparr>local_stack := add_edge tmp (ce d) g, ce := tmp\<rparr>))"

definition set_read_write :: "u64 \<Rightarrow> u64 \<Rightarrow> depot \<Rightarrow> depot" where
  "set_read_write a pc d =
     (case hm_find (read_write d) a of
        None \<Rightarrow> d\<lparr>read_write := hm_emplace a (pc, ce d) (read_write d)\<rparr>
      | Some _ \<Rightarrow> d\<lparr>read_write := hm_assign a (pc, ce d) (read_write d)\<rparr>)"

definition return_stack_trace :: "depot \<Rightarrow> u64 \<Rightarrow> u64 list option" where
  "return_stack_trace d a =
     (case hm_find (read_write d) a of
        Some data \<Rightarrow> make_trace d data
      | None \<Rightarrow> Some [])"

section \<open>The tree invariant and the path of a node\<close>

definition tree_ok :: "stack_tree \<Rightarrow> bool" where
  "tree_ok g \<longleftrightarrow> g \<noteq> [] \<and> v_out (g ! 0) = [] \<and>
     (\<forall>v<length g. v \<noteq> 0 \<longrightarrow> (\<exists>p<v. v_out (g ! v) = [p] \<and> v \<in> set (v_in (g ! p)))) \<and>
     (\<forall>v<length g. \<forall>c\<in>set (v_in (g ! v)). c < length g \<and> v_out (g ! c) = [v]) \<and>
     (\<forall>v<length g. distinct (map (\<lambda>c. v_addr (g ! c)) (v_in (g ! v))))"

definition depot_ok :: "depot \<Rightarrow> bool" where
  "depot_ok d \<longleftrightarrow> tree_ok (local_stack d) \<and> root d = 0 \<and> ce d < length (local_stack d) \<and>
     hm_wf (read_write d) \<and>
     (\<forall>a pc v. hm_find (read_write d) a = Some (pc, v) \<longrightarrow> v < length (local_stack d))"

function path :: "stack_tree \<Rightarrow> nat \<Rightarrow> u64 list" where
  "path g v =
     (case v_out (g ! v) of
        [] \<Rightarrow> []
      | p # _ \<Rightarrow> if p < v then path g p @ [v_addr (g ! v)] else [])"
  by pat_completeness auto
termination by (relation "measure snd") auto

declare path.simps [simp del]

text \<open>The abstraction: the current call stack, and the stack recorded for an address.\<close>

definition abs_stack :: "depot \<Rightarrow> u64 list" where
  "abs_stack d = path (local_stack d) (ce d)"

definition abs_access :: "depot \<Rightarrow> u64 \<Rightarrow> u64 list" where
  "abs_access d a =
     (case hm_find (read_write d) a of None \<Rightarrow> [] | Some (pc, v) \<Rightarrow> path (local_stack d) v @ [pc])"

lemma tree_parent:
  assumes "tree_ok g" and "v < length g" and "v \<noteq> 0"
  obtains p where "p < v" and "v_out (g ! v) = [p]" and "v \<in> set (v_in (g ! p))"
  using assms unfolding tree_ok_def by blast

lemma tree_child:
  assumes "tree_ok g" and "v < length g" and "c \<in> set (v_in (g ! v))"
  shows "c < length g" and "v_out (g ! c) = [v]" and "v < c"
proof -
  show c: "c < length g" and o: "v_out (g ! c) = [v]"
    using assms unfolding tree_ok_def by blast+
  have "c \<noteq> 0"
    using assms(1) o unfolding tree_ok_def by (metis not_Cons_self2)
  then show "v < c"
    using tree_parent [OF assms(1) c] o by (metis list.inject)
qed

lemma path_root: "tree_ok g \<Longrightarrow> path g 0 = []"
  by (simp add: path.simps [of g 0] tree_ok_def)

lemma path_step: "v_out (g ! v) = [p] \<Longrightarrow> p < v \<Longrightarrow> path g v = path g p @ [v_addr (g ! v)]"
  by (simp add: path.simps [of g v])

lemma walk_path:
  assumes "tree_ok g"
  shows "v < length g \<Longrightarrow> walk g 0 v acc = Some (path g v @ acc)"
proof (induction v arbitrary: acc rule: less_induct)
  case (less v)
  show ?case
  proof (cases "v = 0")
    case True
    then show ?thesis by (simp add: walk.simps path_root assms)
  next
    case False
    with less.prems assms obtain p where p: "p < v" "v_out (g ! v) = [p]"
      by (blast elim: tree_parent)
    have "walk g 0 v acc = walk g 0 p (v_addr (g ! v) # acc)"
      using False p by (simp add: walk.simps [of g 0 v])
    also have "\<dots> = Some (path g p @ v_addr (g ! v) # acc)"
      using less.IH [OF p(1)] p(1) less.prems by simp
    finally show ?thesis using p by (simp add: path_step)
  qed
qed

lemma path_cong:
  "(\<And>u. u \<le> v \<Longrightarrow> v_out (g ! u) = v_out (h ! u) \<and> v_addr (g ! u) = v_addr (h ! u)) \<Longrightarrow>
   path g v = path h v"
proof (induction v rule: less_induct)
  case (less v)
  then have "\<And>p. p < v \<Longrightarrow> path g p = path h p" by (meson le_trans less_imp_le)
  moreover have "v_out (g ! v) = v_out (h ! v)" "v_addr (g ! v) = v_addr (h ! v)"
    using less.prems by simp_all
  ultimately show ?case
    by (simp add: path.simps [of g v] path.simps [of h v] split: list.split)
qed

section \<open>Growing the tree\<close>

definition grow :: "u64 \<Rightarrow> nat \<Rightarrow> stack_tree \<Rightarrow> stack_tree" where
  "grow e u g = add_edge (length g) u (g @ [\<lparr>v_addr = e, v_out = [], v_in = []\<rparr>])"

lemma length_grow [simp]: "length (grow e u g) = Suc (length g)"
  by (simp add: grow_def add_edge_def Let_def)

lemma grow_nth:
  assumes "u < length g" and "v \<le> length g"
  shows "v_addr (grow e u g ! v) = (if v = length g then e else v_addr (g ! v))"
    and "v_out (grow e u g ! v) = (if v = length g then [u] else v_out (g ! v))"
    and "v_in (grow e u g ! v) =
      (if v = length g then [] else if v = u then v_in (g ! u) @ [length g] else v_in (g ! v))"
  using assms by (auto simp: grow_def add_edge_def Let_def nth_append nth_list_update)

lemma find_child_None: "find_child g e cs = None \<longleftrightarrow> e \<notin> set (map (\<lambda>c. v_addr (g ! c)) cs)"
  by (induction cs) auto

lemma find_child_Some: "find_child g e cs = Some c \<Longrightarrow> c \<in> set cs \<and> v_addr (g ! c) = e"
  by (induction cs) (auto split: if_splits)

lemma grow_tree_ok:
  assumes ok: "tree_ok g" and u: "u < length g" and new: "find_child g e (v_in (g ! u)) = None"
  shows "tree_ok (grow e u g)"
  unfolding tree_ok_def
proof (intro conjI allI impI ballI)
  have ne: "g \<noteq> []" "v_out (g ! 0) = []" using ok by (simp_all add: tree_ok_def)
  show "grow e u g \<noteq> []" using length_grow [of e u g] by force
  show "v_out (grow e u g ! 0) = []" using u ne by (simp add: grow_nth)
next
  fix v assume v: "v < length (grow e u g)" "v \<noteq> 0"
  show "\<exists>p<v. v_out (grow e u g ! v) = [p] \<and> v \<in> set (v_in (grow e u g ! p))"
  proof (cases "v = length g")
    case True
    then show ?thesis using u by (simp add: grow_nth)
  next
    case False
    with v ok obtain p where p: "p < v" "v_out (g ! v) = [p]" "v \<in> set (v_in (g ! p))"
      by (metis length_grow less_antisym tree_parent)
    with v False u show ?thesis by (intro exI [of _ p]) (auto simp: grow_nth)
  qed
next
  fix v c assume v: "v < length (grow e u g)" and c: "c \<in> set (v_in (grow e u g ! v))"
  have "(v < length g \<and> c \<in> set (v_in (g ! v))) \<or> (v = u \<and> c = length g)"
    using v c u by (auto simp: grow_nth less_Suc_eq_le split: if_splits)
  then show "c < length (grow e u g)" and "v_out (grow e u g ! c) = [v]"
    using u tree_child [OF ok, of v c] by (auto simp: grow_nth)
next
  fix v assume v: "v < length (grow e u g)"
  have inl: "\<And>w c. w < length g \<Longrightarrow> c \<in> set (v_in (g ! w)) \<Longrightarrow> c < length g"
    using tree_child [OF ok] by blast
  have same: "map (\<lambda>c. v_addr (grow e u g ! c)) (v_in (g ! w)) = map (\<lambda>c. v_addr (g ! c)) (v_in (g ! w))"
    if "w < length g" for w
    using inl [OF that] u by (force simp: grow_nth)
  have d: "distinct (map (\<lambda>c. v_addr (g ! c)) (v_in (g ! w)))" if "w < length g" for w
    using ok that by (simp add: tree_ok_def)
  have d': "distinct (map (\<lambda>c. v_addr (grow e u g ! c)) (v_in (g ! w)))" if "w < length g" for w
    unfolding same [OF that] by (rule d [OF that])
  have new': "e \<notin> set (map (\<lambda>c. v_addr (grow e u g ! c)) (v_in (g ! u)))"
    unfolding same [OF u] by (rule new [unfolded find_child_None])
  show "distinct (map (\<lambda>c. v_addr (grow e u g ! c)) (v_in (grow e u g ! v)))"
  proof (cases "v = length g")
    case True
    then show ?thesis using u by (simp add: grow_nth)
  next
    case False
    with v have "v < length g" by simp
    then show ?thesis
      using d' [of v] new' u by (auto simp: grow_nth)
  qed
qed

lemma grow_path:
  assumes "tree_ok g" and "u < length g"
  shows "v < length g \<Longrightarrow> path (grow e u g) v = path g v"
    and "path (grow e u g) (length g) = path g u @ [e]"
proof -
  show old: "path (grow e u g) v = path g v" if "v < length g" for v
    using assms(2) that by (intro path_cong) (simp add: grow_nth)
  have "path (grow e u g) (length g) = path (grow e u g) u @ [v_addr (grow e u g ! length g)]"
    using assms(2) by (intro path_step) (simp_all add: grow_nth)
  then show "path (grow e u g) (length g) = path g u @ [e]"
    using assms(2) by (simp add: old grow_nth)
qed

lemma push_cases:
  "push_stack_element e d =
     (case find_child (local_stack d) e (v_in (local_stack d ! ce d)) of
        Some c \<Rightarrow> d\<lparr>ce := c\<rparr>
      | None \<Rightarrow> d\<lparr>local_stack := grow e (ce d) (local_stack d), ce := length (local_stack d)\<rparr>)"
  by (simp add: push_stack_element_def add_vertex_def grow_def split: option.split)

section \<open>Every operation keeps the invariant and acts on the plain stack\<close>

lemma depot_init_ok [wf_intros]: "depot_ok depot_init"
  by (simp add: depot_ok_def depot_init_def add_vertex_def tree_ok_def)

lemma abs_stack_init: "abs_stack depot_init = []"
  by (simp add: abs_stack_def depot_init_def add_vertex_def path.simps)

lemma abs_access_init: "abs_access depot_init a = []"
  by (simp add: abs_access_def depot_init_def add_vertex_def)

lemma depot_okD:
  assumes "depot_ok d"
  shows "tree_ok (local_stack d)" and "root d = 0" and "ce d < length (local_stack d)"
    and "hm_wf (read_write d)"
    and "\<And>a pc v. hm_find (read_write d) a = Some (pc, v) \<Longrightarrow> v < length (local_stack d)"
  using assms unfolding depot_ok_def by blast+

lemma push_ok [wf_intros]:
  assumes "depot_ok d"
  shows "depot_ok (push_stack_element e d)"
proof (cases "find_child (local_stack d) e (v_in (local_stack d ! ce d))")
  case None
  with depot_okD [OF assms] show ?thesis
    by (auto simp: push_cases depot_ok_def grow_tree_ok intro: less_SucI)
next
  case (Some c)
  then have "c < length (local_stack d)"
    using depot_okD [OF assms] tree_child(1) find_child_Some by blast
  with Some depot_okD [OF assms] show ?thesis
    by (simp add: push_cases depot_ok_def)
qed

lemma push_abs:
  assumes "depot_ok d"
  shows "abs_stack (push_stack_element e d) = abs_stack d @ [e]"
proof (cases "find_child (local_stack d) e (v_in (local_stack d ! ce d))")
  case None
  with depot_okD [OF assms] show ?thesis
    by (simp add: push_cases abs_stack_def grow_path)
next
  case (Some c)
  then have "c \<in> set (v_in (local_stack d ! ce d))" and a: "v_addr (local_stack d ! c) = e"
    using find_child_Some by fastforce+
  then have "v_out (local_stack d ! c) = [ce d]" "ce d < c"
    using tree_child depot_okD [OF assms] by blast+
  with Some a show ?thesis
    by (simp add: push_cases abs_stack_def path_step)
qed

lemma push_access:
  assumes "depot_ok d"
  shows "abs_access (push_stack_element e d) a = abs_access d a"
proof (cases "find_child (local_stack d) e (v_in (local_stack d ! ce d))")
  case None
  with depot_okD [OF assms] show ?thesis
    by (auto simp: push_cases abs_access_def grow_path split: option.split)
next
  case (Some c)
  then show ?thesis by (simp add: push_cases abs_access_def split: option.split prod.split)
qed

lemma pop_root:
  assumes "depot_ok d"
  shows "pop_stack_element d = None \<longleftrightarrow> abs_stack d = []"
proof (cases "ce d = 0")
  case True
  with depot_okD(1) [OF assms] show ?thesis
    by (simp add: pop_stack_element_def abs_stack_def path_root tree_ok_def)
next
  case False
  then obtain p where "p < ce d" "v_out (local_stack d ! ce d) = [p]"
    by (rule tree_parent [OF depot_okD(1) [OF assms] depot_okD(3) [OF assms]])
  then show ?thesis
    by (simp add: pop_stack_element_def abs_stack_def path_step)
qed

lemma pop_Some:
  assumes "depot_ok d" and "pop_stack_element d = Some d'"
  shows "depot_ok d'" and "abs_stack d' = butlast (abs_stack d)" and "abs_access d' a = abs_access d a"
proof -
  have nz: "ce d \<noteq> 0"
    using assms(2) pop_root [OF assms(1)] path_root [OF depot_okD(1) [OF assms(1)]]
    by (metis abs_stack_def option.distinct(1))
  then obtain p where p: "p < ce d" "v_out (local_stack d ! ce d) = [p]"
    by (rule tree_parent [OF depot_okD(1) [OF assms(1)] depot_okD(3) [OF assms(1)]])
  with assms have d': "d' = d\<lparr>ce := p\<rparr>" by (simp add: pop_stack_element_def)
  show "depot_ok d'"
    using assms(1) p(1) by (auto simp: d' depot_ok_def)
  show "abs_stack d' = butlast (abs_stack d)"
    using p by (simp add: d' abs_stack_def path_step)
  show "abs_access d' a = abs_access d a"
    by (simp add: d' abs_access_def split: option.split prod.split)
qed

lemma set_read_write_rw:
  "hm_find (read_write (set_read_write a pc d)) b = (if b = a then Some (pc, ce d) else hm_find (read_write d) b)"
  by (auto simp: set_read_write_def find_simps split: option.split)

lemma set_read_write_frame:
  "local_stack (set_read_write a pc d) = local_stack d" "ce (set_read_write a pc d) = ce d"
  "root (set_read_write a pc d) = root d"
  "hm_wf (read_write d) \<Longrightarrow> hm_wf (read_write (set_read_write a pc d))"
  by (simp_all add: set_read_write_def wf_intros split: option.split)

lemma set_read_write_ok [wf_intros]: "depot_ok d \<Longrightarrow> depot_ok (set_read_write a pc d)"
  unfolding depot_ok_def by (auto simp: set_read_write_frame set_read_write_rw split: if_splits)

lemma set_read_write_abs:
  "abs_stack (set_read_write a pc d) = abs_stack d"
  "abs_access (set_read_write a pc d) b = (if b = a then abs_stack d @ [pc] else abs_access d b)"
  by (simp_all add: abs_stack_def abs_access_def set_read_write_frame set_read_write_rw
      split: option.split prod.split)

lemma return_stack_trace_abs:
  assumes "depot_ok d"
  shows "return_stack_trace d a = Some (abs_access d a)"
proof (cases "hm_find (read_write d) a")
  case None
  then show ?thesis by (simp add: return_stack_trace_def abs_access_def)
next
  case (Some data)
  then obtain pc v where data: "data = (pc, v)" by (cases data)
  with Some depot_okD [OF assms] have "walk (local_stack d) 0 v [pc] = Some (path (local_stack d) v @ [pc])"
    by (intro walk_path) auto
  then show ?thesis
    using Some data depot_okD(2) [OF assms] by (simp add: return_stack_trace_def abs_access_def make_trace_def)
qed

section \<open>The contract of the depot\<close>

locale call_depot =
  fixes push :: "u64 \<Rightarrow> 'd \<Rightarrow> 'd"
    and pop :: "'d \<Rightarrow> 'd option"
    and mark :: "u64 \<Rightarrow> u64 \<Rightarrow> 'd \<Rightarrow> 'd"
    and trace :: "'d \<Rightarrow> u64 \<Rightarrow> u64 list option"
    and stack :: "'d \<Rightarrow> u64 list"
    and access :: "'d \<Rightarrow> u64 \<Rightarrow> u64 list"
    and invar :: "'d \<Rightarrow> bool"
  assumes push_invar: "invar d \<Longrightarrow> invar (push e d)"
    and push_stack: "invar d \<Longrightarrow> stack (push e d) = stack d @ [e]"
    and push_frame: "invar d \<Longrightarrow> access (push e d) a = access d a"
    and pop_None: "invar d \<Longrightarrow> pop d = None \<longleftrightarrow> stack d = []"
    and pop_invar: "invar d \<Longrightarrow> pop d = Some d' \<Longrightarrow> invar d'"
    and pop_stack: "invar d \<Longrightarrow> pop d = Some d' \<Longrightarrow> stack d' = butlast (stack d)"
    and pop_frame: "invar d \<Longrightarrow> pop d = Some d' \<Longrightarrow> access d' a = access d a"
    and mark_invar: "invar d \<Longrightarrow> invar (mark a pc d)"
    and mark_stack: "stack (mark a pc d) = stack d"
    and mark_access: "access (mark a pc d) b = (if b = a then stack d @ [pc] else access d b)"
    and trace_access: "invar d \<Longrightarrow> trace d a = Some (access d a)"
begin

lemma trace_mark: "invar d \<Longrightarrow> trace (mark a pc d) a = Some (stack d @ [pc])"
  by (simp add: trace_access mark_invar mark_access)

lemma trace_push: "invar d \<Longrightarrow> trace (push e d) a = trace d a"
  by (simp add: trace_access push_invar push_frame)

lemma trace_pop: "invar d \<Longrightarrow> pop d = Some d' \<Longrightarrow> trace d' a = trace d a"
  by (simp add: trace_access pop_invar pop_frame)

lemma pop_push:
  assumes "invar d"
  obtains d' where "pop (push e d) = Some d'" and "invar d'" and "stack d' = stack d"
proof -
  have "pop (push e d) \<noteq> None"
    using assms by (simp add: pop_None push_invar push_stack)
  then obtain d' where "pop (push e d) = Some d'" by blast
  then show thesis
    using assms that [of d'] pop_invar [of "push e d" d'] pop_stack [of "push e d" d']
    by (simp add: push_invar push_stack)
qed

end

interpretation sd: call_depot push_stack_element pop_stack_element set_read_write return_stack_trace
    abs_stack abs_access depot_ok
  by unfold_locales
    (simp_all add: push_ok push_abs push_access pop_root pop_Some set_read_write_ok set_read_write_abs
      return_stack_trace_abs)

section \<open>Refinement to plain stacks\<close>

datatype depot_op = Push u64 | Pop | Access u64 u64

text \<open>The specification: a list of call sites and, per address, the stack of its last access.\<close>

type_synonym plain = "u64 list \<times> (u64 \<Rightarrow> u64 list)"

fun plain_step :: "depot_op \<Rightarrow> plain \<Rightarrow> plain option" where
  "plain_step (Push e) (st, m) = Some (st @ [e], m)"
| "plain_step Pop (st, m) = (if st = [] then None else Some (butlast st, m))"
| "plain_step (Access a pc) (st, m) = Some (st, m(a := st @ [pc]))"

fun depot_step :: "depot_op \<Rightarrow> depot \<Rightarrow> depot option" where
  "depot_step (Push e) d = Some (push_stack_element e d)"
| "depot_step Pop d = pop_stack_element d"
| "depot_step (Access a pc) d = Some (set_read_write a pc d)"

fun depot_run :: "depot_op list \<Rightarrow> depot \<Rightarrow> depot option" where
  "depot_run [] d = Some d"
| "depot_run (x # xs) d = (case depot_step x d of None \<Rightarrow> None | Some d' \<Rightarrow> depot_run xs d')"

fun plain_run :: "depot_op list \<Rightarrow> plain \<Rightarrow> plain option" where
  "plain_run [] s = Some s"
| "plain_run (x # xs) s = (case plain_step x s of None \<Rightarrow> None | Some s' \<Rightarrow> plain_run xs s')"

definition abs_depot :: "depot \<Rightarrow> plain" where
  "abs_depot d = (abs_stack d, abs_access d)"

lemma depot_step_refines:
  assumes "depot_ok d"
  shows "map_option abs_depot (depot_step x d) = plain_step x (abs_depot d)"
proof (cases x)
  case (Push e)
  then show ?thesis
    using assms by (auto simp: abs_depot_def sd.push_stack sd.push_frame)
next
  case Pop
  then show ?thesis
    using assms sd.pop_None [OF assms] sd.pop_stack [OF assms] sd.pop_frame [OF assms]
    by (cases "pop_stack_element d") (auto simp: abs_depot_def)
next
  case (Access a pc)
  then show ?thesis
    by (auto simp: abs_depot_def sd.mark_stack sd.mark_access)
qed

lemma depot_step_ok: "depot_ok d \<Longrightarrow> depot_step x d = Some d' \<Longrightarrow> depot_ok d'"
  by (cases x) (auto intro: sd.push_invar sd.pop_invar sd.mark_invar)

lemma depot_run_ok: "depot_ok d \<Longrightarrow> depot_run xs d = Some d' \<Longrightarrow> depot_ok d'"
  by (induction xs arbitrary: d) (auto split: option.splits dest: depot_step_ok)

lemma depot_run_refines:
  "depot_ok d \<Longrightarrow> map_option abs_depot (depot_run xs d) = plain_run xs (abs_depot d)"
proof (induction xs arbitrary: d)
  case Nil
  then show ?case by simp
next
  case (Cons x xs)
  from depot_step_refines [OF Cons.prems, of x] show ?case
    by (cases "depot_step x d")
      (auto simp: Cons.IH depot_step_ok [OF Cons.prems] split: option.split dest: sym)
qed

text \<open>C21: For every sequence of calls, returns and accesses starting from the empty call tree, the
  tree behaves like a plain list of call sites with, per address, a copy of the stack at its last
  access: it runs without error exactly when the plain version does (a return on an empty stack
  is the only error), the current stack is the same list, and the trace rebuilt for any address
  is the recorded copy.\<close>

theorem stack_depot_refines:
  "map_option (\<lambda>d. (abs_stack d, return_stack_trace d)) (depot_run xs depot_init) =
   map_option (\<lambda>(st, m). (st, \<lambda>a. Some (m a))) (plain_run xs ([], \<lambda>_. []))"
proof -
  have init: "abs_depot depot_init = ([], \<lambda>_. [])"
    by (auto simp: abs_depot_def abs_stack_init abs_access_init)
  note r = depot_run_refines [OF depot_init_ok, of xs, unfolded init, symmetric]
  show ?thesis
  proof (cases "depot_run xs depot_init")
    case None
    with r show ?thesis by simp
  next
    case (Some d)
    have "return_stack_trace d = (\<lambda>a. Some (abs_access d a))"
      using sd.trace_access [OF depot_run_ok [OF depot_init_ok Some]] by auto
    with r Some show ?thesis by (simp add: abs_depot_def)
  qed
qed

end
