(* ===== verification/VarStates.thy ===== *)
theory VarStates
  imports VectorClocks StackDepot
begin

text \<open>
  The per-thread and per-variable state of the FastTrack detector
  (\<^verbatim>\<open>threadstate.h\<close>, \<^verbatim>\<open>threadstate.cpp\<close>, \<^verbatim>\<open>varstate.h\<close>,
  \<^verbatim>\<open>varstate.cpp\<close>): the race predicates as the code computes them, the update of
  a variable after an access, and what they mean in terms of epochs.
\<close>

section \<open>Threads\<close>

record thread_state =
  ts_vc :: vclock
  ts_id :: u64
  ts_depot :: depot

text \<open>
  The constructor first inserts the thread's own id; with a parent the whole clock is then
  overwritten with the parent's.
\<close>

definition new_thread_state :: "u32 \<Rightarrow> thread_state option \<Rightarrow> thread_state" where
  "new_thread_state own_tid parent =
     (let vid = make_id own_tid;
          vc = hm_emplace own_tid vid []
      in \<lparr>ts_vc = (case parent of None \<Rightarrow> vc | Some p \<Rightarrow> ts_vc p), ts_id = vid, ts_depot = depot_init\<rparr>)"

definition inc_vc :: "thread_state \<Rightarrow> thread_state" where
  "inc_vc t =
     (let vid = ts_id t + 1
      in t\<lparr>ts_id := vid, ts_vc := hm_assign (make_tid vid) vid (ts_vc t)\<rparr>)"

definition return_own_id :: "thread_state \<Rightarrow> u64" where
  "return_own_id t = ts_id t"

definition get_tid :: "thread_state \<Rightarrow> u32" where
  "get_tid t = make_tid (ts_id t)"

definition get_clock :: "thread_state \<Rightarrow> u32" where
  "get_clock t = make_clock (ts_id t)"

definition ts_known :: "thread_state \<Rightarrow> u32 \<Rightarrow> u32" where
  "ts_known t tid = get_clock_by_tid (ts_vc t) tid"

section \<open>Variables\<close>

definition VAR_NOT_INIT :: u64 where
  "VAR_NOT_INIT = 0"

text \<open>\<^verbatim>\<open>shared_vc\<close> is a null pointer unless the variable is read-shared.\<close>

record var_state =
  shared_vc :: "u64 list option"
  w_id :: u64
  r_id :: u64
  vsize :: u16

definition new_var_state :: "u16 \<Rightarrow> var_state" where
  "new_var_state sz = \<lparr>shared_vc = None, w_id = VAR_NOT_INIT, r_id = VAR_NOT_INIT, vsize = sz\<rparr>"

definition get_w_tid :: "var_state \<Rightarrow> u32" where
  "get_w_tid v = make_tid (w_id v)"

definition get_r_tid :: "var_state \<Rightarrow> u32" where
  "get_r_tid v = make_tid (r_id v)"

definition get_w_clock :: "var_state \<Rightarrow> u32" where
  "get_w_clock v = make_clock (w_id v)"

definition get_r_clock :: "var_state \<Rightarrow> u32" where
  "get_r_clock v = make_clock (r_id v)"

definition is_read_shared :: "var_state \<Rightarrow> bool" where
  "is_read_shared v = (case shared_vc v of None \<Rightarrow> False | Some _ \<Rightarrow> True)"

definition is_ww_race :: "var_state \<Rightarrow> thread_state \<Rightarrow> bool" where
  "is_ww_race v t \<longleftrightarrow> w_id v \<noteq> VAR_NOT_INIT \<and> get_tid t \<noteq> get_w_tid v \<and>
     get_w_clock v \<ge> ts_known t (get_w_tid v)"

definition is_wr_race :: "var_state \<Rightarrow> thread_state \<Rightarrow> bool" where
  "is_wr_race v t \<longleftrightarrow>
     (let var_tid = get_w_tid v
      in w_id v \<noteq> VAR_NOT_INIT \<and> var_tid \<noteq> get_tid t \<and> get_w_clock v \<ge> ts_known t var_tid)"

definition is_rw_ex_race :: "var_state \<Rightarrow> thread_state \<Rightarrow> bool" where
  "is_rw_ex_race v t \<longleftrightarrow>
     (let var_tid = get_r_tid v
      in r_id v \<noteq> VAR_NOT_INIT \<and> get_tid t \<noteq> var_tid \<and> get_r_clock v \<ge> ts_known t var_tid)"

text \<open>The test of one reader in the loop of \<^verbatim>\<open>is_rw_sh_race\<close>.\<close>

definition sh_entry_race :: "u64 \<Rightarrow> thread_state \<Rightarrow> bool" where
  "sh_entry_race act_id t \<longleftrightarrow>
     (let act_tid = make_tid act_id
      in act_id \<noteq> 0 \<and> get_tid t \<noteq> act_tid \<and> make_clock act_id \<ge> ts_known t act_tid)"

fun rw_sh_loop :: "u64 list \<Rightarrow> thread_state \<Rightarrow> u32" where
  "rw_sh_loop [] t = 0"
| "rw_sh_loop (i # is) t = (if sh_entry_race i t then make_tid i else rw_sh_loop is t)"

text \<open>Without a shared vector the code would dereference a null pointer: \<open>None\<close>.\<close>

definition is_rw_sh_race :: "var_state \<Rightarrow> thread_state \<Rightarrow> u32 option" where
  "is_rw_sh_race v t = (case shared_vc v of None \<Rightarrow> None | Some vec \<Rightarrow> Some (rw_sh_loop vec t))"

text \<open>\<^verbatim>\<open>find_in_vec\<close>: the index of the first entry of the thread, or the end.\<close>

fun find_in_vec :: "u32 \<Rightarrow> u64 list \<Rightarrow> nat" where
  "find_in_vec tid [] = 0"
| "find_in_vec tid (i # is) = (if make_tid i = tid then 0 else Suc (find_in_vec tid is))"

definition get_sh_id :: "var_state \<Rightarrow> u32 \<Rightarrow> u64 option" where
  "get_sh_id v pos =
     (case shared_vc v of
        None \<Rightarrow> None
      | Some vec \<Rightarrow> Some (if unat pos < length vec then vec ! unat pos else 0))"

definition get_vc_by_thr :: "var_state \<Rightarrow> u32 \<Rightarrow> u64 option" where
  "get_vc_by_thr v tid =
     (case shared_vc v of
        None \<Rightarrow> None
      | Some vec \<Rightarrow> (let it = find_in_vec tid vec in Some (if it < length vec then vec ! it else 0)))"

definition get_clock_by_thr :: "var_state \<Rightarrow> u32 \<Rightarrow> u32 option" where
  "get_clock_by_thr v tid =
     (case shared_vc v of
        None \<Rightarrow> None
      | Some vec \<Rightarrow> (let it = find_in_vec tid vec in Some (if it < length vec then make_clock (vec ! it) else 0)))"

definition var_update :: "bool \<Rightarrow> u64 \<Rightarrow> var_state \<Rightarrow> var_state" where
  "var_update is_write vid v =
     (if is_write then v\<lparr>shared_vc := None, r_id := VAR_NOT_INIT, w_id := vid\<rparr>
      else (case shared_vc v of
              None \<Rightarrow> v\<lparr>r_id := vid\<rparr>
            | Some vec \<Rightarrow>
                (let it = find_in_vec (make_tid vid) vec;
                     vec' = (if it < length vec then take it vec @ drop (Suc it) vec else vec)
                 in v\<lparr>shared_vc := Some (vec' @ [vid])\<rparr>)))"

definition set_read_shared :: "u64 \<Rightarrow> var_state \<Rightarrow> var_state" where
  "set_read_shared vid v = v\<lparr>shared_vc := Some [r_id v, vid], r_id := VAR_NOT_INIT\<rparr>"

section \<open>Threads: what the operations keep\<close>

definition thread_ok :: "thread_state \<Rightarrow> bool" where
  "thread_ok t \<longleftrightarrow> hm_wf (ts_vc t) \<and> depot_ok (ts_depot t)"

lemma new_thread_state_tid [simp]: "get_tid (new_thread_state tid p) = tid"
  by (simp add: get_tid_def new_thread_state_def Let_def)

lemma new_thread_state_clock [simp]: "get_clock (new_thread_state tid p) = 0"
  by (simp add: get_clock_def new_thread_state_def Let_def)

lemma new_thread_state_ok [wf_intros]:
  "(\<And>q. p = Some q \<Longrightarrow> thread_ok q) \<Longrightarrow> thread_ok (new_thread_state tid p)"
  by (auto simp: thread_ok_def new_thread_state_def Let_def wf_intros split: option.split)

lemma inc_vc_ok [wf_intros]: "thread_ok t \<Longrightarrow> thread_ok (inc_vc t)"
  by (simp add: thread_ok_def inc_vc_def Let_def wf_intros)

lemma inc_vc_tid: "get_clock t \<noteq> - 1 \<Longrightarrow> get_tid (inc_vc t) = get_tid t"
  by (simp add: get_tid_def get_clock_def inc_vc_def Let_def inc_id)

lemma inc_vc_clock: "get_clock t \<noteq> - 1 \<Longrightarrow> get_clock (inc_vc t) = get_clock t + 1"
  by (simp add: get_clock_def inc_vc_def Let_def inc_id)

lemma inc_vc_known:
  "get_clock t \<noteq> - 1 \<Longrightarrow>
   ts_known (inc_vc t) u = (if u = get_tid t then get_clock t + 1 else ts_known t u)"
  by (auto simp: ts_known_def get_tid_def get_clock_def inc_vc_def Let_def inc_id get_clock_of_id find_simps)

section \<open>The readers of a variable\<close>

lemma find_in_vec_le: "find_in_vec tid vec \<le> length vec"
  by (induction vec) auto

lemma find_in_vec_hit: "find_in_vec tid vec < length vec \<Longrightarrow> make_tid (vec ! find_in_vec tid vec) = tid"
  by (induction vec) auto

lemma find_in_vec_miss: "find_in_vec tid vec = length vec \<longleftrightarrow> tid \<notin> make_tid ` set vec"
  using find_in_vec_le by (induction vec) (auto simp: image_iff)

text \<open>The shared readers: at most one id per thread.\<close>

definition readers_ok :: "u64 list \<Rightarrow> bool" where
  "readers_ok vec \<longleftrightarrow> distinct (map make_tid vec)"

lemma drop_reader:
  assumes "readers_ok vec"
  shows "(if find_in_vec tid vec < length vec
          then take (find_in_vec tid vec) vec @ drop (Suc (find_in_vec tid vec)) vec else vec)
         = filter (\<lambda>i. make_tid i \<noteq> tid) vec"
  using assms
proof (induction vec)
  case Nil
  then show ?case by simp
next
  case (Cons i vec)
  have "filter (\<lambda>i. make_tid i \<noteq> tid) vec = vec" if "tid \<notin> make_tid ` set vec"
    using that by (auto simp: filter_id_conv)
  with Cons show ?case by (auto simp: readers_ok_def)
qed

lemma var_update_read_shared:
  assumes "shared_vc v = Some vec" and "readers_ok vec"
  shows "var_update False vid v =
           v\<lparr>shared_vc := Some (filter (\<lambda>i. make_tid i \<noteq> make_tid vid) vec @ [vid])\<rparr>"
  unfolding var_update_def Let_def using assms drop_reader [of vec "make_tid vid"] by simp

definition var_ok :: "var_state \<Rightarrow> bool" where
  "var_ok v \<longleftrightarrow> (\<forall>vec. shared_vc v = Some vec \<longrightarrow> readers_ok vec \<and> vec \<noteq> [] \<and> r_id v = VAR_NOT_INIT)"

lemma new_var_ok [wf_intros]: "var_ok (new_var_state sz)"
  by (simp add: var_ok_def new_var_state_def)

lemma var_update_ok [wf_intros]: "var_ok v \<Longrightarrow> var_ok (var_update wr vid v)"
proof (cases "shared_vc v")
  case None
  then show ?thesis by (simp add: var_ok_def var_update_def)
next
  case (Some vec)
  assume "var_ok v"
  with Some have r: "readers_ok vec" "r_id v = VAR_NOT_INIT" by (simp_all add: var_ok_def)
  have "readers_ok (filter (\<lambda>i. make_tid i \<noteq> make_tid vid) vec @ [vid])"
    using r(1) by (auto simp: readers_ok_def distinct_map inj_on_def)
  then show ?thesis
    using Some r var_update_read_shared [OF Some r(1)]
    by (cases wr) (simp_all add: var_ok_def, simp add: var_update_def)
qed

lemma set_read_shared_ok [wf_intros]:
  "get_r_tid v \<noteq> make_tid vid \<Longrightarrow> var_ok (set_read_shared vid v)"
  by (simp add: var_ok_def set_read_shared_def readers_ok_def get_r_tid_def)

text \<open>The result 0 means that no reader races, provided that no reader is thread 0.\<close>

lemma rw_sh_loop_none:
  "\<forall>i\<in>set vec. make_tid i \<noteq> 0 \<Longrightarrow> rw_sh_loop vec t = 0 \<Longrightarrow> i \<in> set vec \<Longrightarrow> \<not> sh_entry_race i t"
  by (induction vec) (auto split: if_splits)

lemma rw_sh_loop_some: "rw_sh_loop vec t \<noteq> 0 \<Longrightarrow> \<exists>i\<in>set vec. sh_entry_race i t \<and> rw_sh_loop vec t = make_tid i"
  by (induction vec) (auto split: if_splits)

text \<open>Starting a new epoch adds one to the thread's 32-bit clock and files the new id under the
  thread's own entry of its vector clock, leaving the other entries alone, except that the clock
  of a thread that has reached 2^32 - 1 carries into the thread id: the object then claims to
  be the next thread, at clock zero.\<close>

theorem epoch_increment:
  "get_clock (inc_vc t) = get_clock t + 1 \<and>
   get_tid (inc_vc t) = (if get_clock t = - 1 then get_tid t + 1 else get_tid t) \<and>
   ts_known (inc_vc t) (get_tid (inc_vc t)) = get_clock (inc_vc t) \<and>
   (\<forall>u. u \<noteq> get_tid (inc_vc t) \<longrightarrow> ts_known (inc_vc t) u = ts_known t u)"
proof (cases "get_clock t = - 1")
  case True
  then have "make_clock (ts_id t) = - 1" by (simp add: get_clock_def)
  from inc_id_overflow [OF this] show ?thesis
    using True by (simp add: get_clock_def get_tid_def inc_vc_def Let_def ts_known_def get_clock_of_id find_simps)
next
  case False
  then show ?thesis
    by (simp add: inc_vc_tid inc_vc_clock)
      (simp add: get_tid_def get_clock_def inc_vc_def Let_def ts_known_def get_clock_of_id find_simps inc_id)
qed

lemma epoch_increment_witness:
  "get_tid (inc_vc (new_thread_state 3 None\<lparr>ts_id := make_id 3 + 0xFFFFFFFF\<rparr>)) = 4 \<and>
   ts_known (inc_vc (new_thread_state 3 None\<lparr>ts_id := make_id 3 + 0xFFFFFFFF\<rparr>)) 3 =
     ts_known (new_thread_state 3 None\<lparr>ts_id := make_id 3 + 0xFFFFFFFF\<rparr>) 3"
proof -
  let ?t = "new_thread_state 3 None\<lparr>ts_id := make_id 3 + 0xFFFFFFFF\<rparr>"
  have "get_clock ?t = - 1" "get_tid ?t + 1 = 4" by code_simp+
  with epoch_increment [of ?t] show ?thesis by simp
qed

end
