(* ===== verification/DetectorApi.thy ===== *)
theory DetectorApi
  imports HashMap
begin

text \<open>
  The interface between the runtime and a detector back-end
  (\<^verbatim>\<open>common/detector/Detector.h\<close>): the access entry and the race handed to the
  callback, and the calls a detector receives, as data. Thread ids are 32 bits wide
  (\<^verbatim>\<open>unsigned long\<close> on Windows); a \<^verbatim>\<open>tls_t\<close> is an address.
\<close>

definition max_stack_size :: nat where
  "max_stack_size = 16"

record access_entry =
  ae_write :: bool
  ae_onheap :: bool
  ae_thread_id :: u32
  ae_access_type :: int
  ae_stack_size :: nat
  ae_access_size :: u64
  ae_heap_block_size :: u64
  ae_accessed_memory :: u64
  ae_heap_block_begin :: u64
  ae_stack_trace :: "u64 list"

text \<open>The member initialisers; \<^verbatim>\<open>std::array\<close> fills the trace with zeros.\<close>

definition access_entry_init :: access_entry where
  "access_entry_init = \<lparr>ae_write = False, ae_onheap = False, ae_thread_id = 0, ae_access_type = 0,
     ae_stack_size = 0, ae_access_size = 0, ae_heap_block_size = 0, ae_accessed_memory = 0,
     ae_heap_block_begin = 0, ae_stack_trace = replicate max_stack_size 0\<rparr>"

type_synonym race = "access_entry \<times> access_entry"

text \<open>
  The virtual functions of \<^verbatim>\<open>Detector\<close> that report an event of the program under
  test. The argument of \<open>DFork\<close> after the two ids is the value stored through the out
  parameter \<^verbatim>\<open>tls\<close>.
\<close>

datatype detector_call =
    DAcquire addr addr int bool
  | DRelease addr addr bool
  | DFuncEnter addr addr
  | DFuncExit addr
  | DHappensBefore addr addr
  | DHappensAfter addr addr
  | DRead addr addr addr u64
  | DWrite addr addr addr u64
  | DAllocate addr addr addr u64
  | DDeallocate addr addr
  | DFork u32 u32 addr
  | DJoin u32 u32
  | DDetach addr u32
  | DFinish addr u32

text \<open>\<^verbatim>\<open>std::copy\<close> of a stack of at most 16 entries to the begin of the array.\<close>

definition copy_to_array :: "u64 list \<Rightarrow> u64 list \<Rightarrow> u64 list" where
  "copy_to_array src arr = src @ drop (length src) arr"

lemma length_copy_to_array: "length src \<le> length arr \<Longrightarrow> length (copy_to_array src arr) = length arr"
  by (simp add: copy_to_array_def)

lemma take_copy_to_array: "take (length src) (copy_to_array src arr) = src"
  by (simp add: copy_to_array_def)

end
