(* ===== verification/Fasttrack.thy ===== *)
theory Fasttrack
  imports VarStates DetectorApi "HOL-Library.Monad_Syntax"
begin

text \<open>
  The FastTrack detector (\<^verbatim>\<open>standalone/detectors/fasttrack/include/fasttrack.h\<close>,
  class \<^verbatim>\<open>Fasttrack\<close>): its tables and its handlers. Every handler runs under the
  detector's locks and is one step here. A step returns the new state and the races handed to
  the callback, in order; \<open>None\<close> stands for undefined behaviour (a dangling
  \<^verbatim>\<open>tls\<close> pointer, popping an empty call stack). The \<^verbatim>\<open>ThreadState\<close> objects
  live in a store \<open>objs\<close> indexed by their address, because the runtime keeps raw pointers to
  them (\<^verbatim>\<open>tls\<close>) while \<^verbatim>\<open>threads\<close> owns them.
\<close>

section \<open>State\<close>

record log_counters =
  read_ex_same_epoch :: u32
  read_sh_same_epoch :: u32
  read_shared :: u32
  read_exclusive :: u32
  read_share :: u32
  write_same_epoch :: u32
  write_exclusive :: u32
  write_shared :: u32

record ft_state =
  allocs :: "(u64, u64) hmap"
  vars :: "(u64, var_state) hmap"
  locks :: "(addr, vclock) hmap"
  threads :: "(u32, addr) hmap"
  happens_states :: "(addr, vclock) hmap"
  objs :: "(addr, thread_state) hmap"
  log_flag :: bool
  log_count :: log_counters

definition log_counters_init :: log_counters where
  "log_counters_init = \<lparr>read_ex_same_epoch = 0, read_sh_same_epoch = 0, read_shared = 0,
     read_exclusive = 0, read_share = 0, write_same_epoch = 0, write_exclusive = 0, write_shared = 0\<rparr>"

definition ft_init :: ft_state where
  "ft_init = \<lparr>allocs = [], vars = [], locks = [], threads = [], happens_states = [], objs = [],
     log_flag = False, log_count = log_counters_init\<rparr>"

text \<open>\<^verbatim>\<open>parse_args\<close> scans the arguments after the program name.\<close>

fun parse_args :: "string list \<Rightarrow> ft_state \<Rightarrow> ft_state" where
  "parse_args [] s = s"
| "parse_args (a # as) s = (if a = ''--stats'' then s\<lparr>log_flag := True\<rparr> else parse_args as s)"

definition fasttrack_init :: "string list \<Rightarrow> ft_state \<Rightarrow> ft_state" where
  "fasttrack_init argv s = parse_args (tl argv) s"

text \<open>A counter is only touched when logging is on.\<close>

definition bump :: "(log_counters \<Rightarrow> log_counters) \<Rightarrow> ft_state \<Rightarrow> ft_state" where
  "bump f s = (if log_flag s then s\<lparr>log_count := f (log_count s)\<rparr> else s)"

section \<open>Reporting\<close>

text \<open>The oldest frames go first while the stack exceeds the detector's limit.\<close>

fun trim_stack :: "u64 list \<Rightarrow> u64 list" where
  "trim_stack [] = []"
| "trim_stack (x # xs) = (if length (x # xs) > max_stack_size then trim_stack xs else x # xs)"

definition fill_access :: "u32 \<Rightarrow> bool \<Rightarrow> u64 \<Rightarrow> u16 \<Rightarrow> u64 list \<Rightarrow> access_entry" where
  "fill_access thr wr address sz stack =
     access_entry_init\<lparr>ae_thread_id := thr, ae_write := wr, ae_accessed_memory := address,
       ae_access_size := ucast sz, ae_access_type := 0, ae_heap_block_begin := 0,
       ae_heap_block_size := 0, ae_onheap := False, ae_stack_size := length stack,
       ae_stack_trace := copy_to_array stack (ae_stack_trace access_entry_init)\<rparr>"

definition report_race ::
    "ft_state \<Rightarrow> u32 \<Rightarrow> u32 \<Rightarrow> bool \<Rightarrow> bool \<Rightarrow> var_state \<Rightarrow> u64 \<Rightarrow> race list option" where
  "report_race s thr1 thr2 wr1 wr2 v address =
     (case (hm_find (threads s) thr1, hm_find (threads s) thr2) of
        (Some p1, Some p2) \<Rightarrow> do {
          t1 \<leftarrow> hm_find (objs s) p1;
          t2 \<leftarrow> hm_find (objs s) p2;
          stack1 \<leftarrow> return_stack_trace (ts_depot t1) address;
          stack2 \<leftarrow> return_stack_trace (ts_depot t2) address;
          Some [(fill_access thr1 wr1 address (vsize v) (trim_stack stack1),
                 fill_access thr2 wr2 address (vsize v) (trim_stack stack2))]
        }
      | _ \<Rightarrow> Some [])"

section \<open>The access rules\<close>

definition read_var ::
    "ft_state \<Rightarrow> thread_state \<Rightarrow> var_state \<Rightarrow> u64 \<Rightarrow> (ft_state \<times> var_state \<times> race list) option" where
  "read_var s t v a =
     (if return_own_id t = r_id v
      then Some (bump (\<lambda>c. c\<lparr>read_ex_same_epoch := read_ex_same_epoch c + 1\<rparr>) s, v, [])
      else let vid = return_own_id t; tid = get_tid t in
      if is_read_shared v \<and> get_vc_by_thr v tid = Some vid
      then Some (bump (\<lambda>c. c\<lparr>read_sh_same_epoch := read_sh_same_epoch c + 1\<rparr>) s, v, [])
      else do {
        races \<leftarrow> (if is_wr_race v t then report_race s (get_w_tid v) tid True False v a else Some []);
        if \<not> is_read_shared v then
          (if r_id v = VAR_NOT_INIT \<or> get_r_tid v = tid
           then Some (bump (\<lambda>c. c\<lparr>read_exclusive := read_exclusive c + 1\<rparr>) s, var_update False vid v, races)
           else Some (bump (\<lambda>c. c\<lparr>read_share := read_share c + 1\<rparr>) s, set_read_shared vid v, races))
        else Some (bump (\<lambda>c. c\<lparr>read_shared := read_shared c + 1\<rparr>) s, var_update False vid v, races)
      })"

definition write_var ::
    "ft_state \<Rightarrow> thread_state \<Rightarrow> var_state \<Rightarrow> u64 \<Rightarrow> (ft_state \<times> var_state \<times> race list) option" where
  "write_var s t v a =
     (if return_own_id t = w_id v
      then Some (bump (\<lambda>c. c\<lparr>write_same_epoch := write_same_epoch c + 1\<rparr>) s, v, [])
      else if w_id v = VAR_NOT_INIT
      then Some (bump (\<lambda>c. c\<lparr>write_exclusive := write_exclusive c + 1\<rparr>) s,
                 var_update True (return_own_id t) v, [])
      else let tid = get_tid t in do {
        ww \<leftarrow> (if is_ww_race v t then report_race s (get_w_tid v) tid True True v a else Some []);
        (s', rw) \<leftarrow>
          (if \<not> is_read_shared v then do {
             r \<leftarrow> (if is_rw_ex_race v t
                  then report_race s (get_r_tid v) (get_tid t) False True v a else Some []);
             Some (bump (\<lambda>c. c\<lparr>write_exclusive := write_exclusive c + 1\<rparr>) s, r)
           } else do {
             act_tid \<leftarrow> is_rw_sh_race v t;
             r \<leftarrow> (if act_tid \<noteq> 0 then report_race s act_tid tid False True v a else Some []);
             Some (bump (\<lambda>c. c\<lparr>write_shared := write_shared c + 1\<rparr>) s, r)
           });
        Some (s', var_update True (return_own_id t) v, ww @ rw)
      })"

section \<open>Handlers\<close>

definition find_or_create_var :: "u64 \<Rightarrow> u64 \<Rightarrow> ft_state \<Rightarrow> ft_state \<times> var_state" where
  "find_or_create_var a sz s =
     (case hm_find (vars s) a of
        Some v \<Rightarrow> (s, v)
      | None \<Rightarrow> (let v = new_var_state (ucast sz)
                 in (s\<lparr>vars := hm_emplace a v (vars s)\<rparr>, v)))"

definition log_access :: "addr \<Rightarrow> u64 \<Rightarrow> u64 \<Rightarrow> ft_state \<Rightarrow> (ft_state \<times> thread_state) option" where
  "log_access tls pc a s = do {
     t \<leftarrow> hm_find (objs s) tls;
     let t' = t\<lparr>ts_depot := set_read_write a pc (ts_depot t)\<rparr>;
     Some (s\<lparr>objs := hm_assign tls t' (objs s)\<rparr>, t')
   }"

definition ft_read :: "addr \<Rightarrow> u64 \<Rightarrow> u64 \<Rightarrow> u64 \<Rightarrow> ft_state \<Rightarrow> (ft_state \<times> race list) option" where
  "ft_read tls pc a sz s = do {
     (s1, t) \<leftarrow> log_access tls pc a s;
     let (s2, v) = find_or_create_var a sz s1;
     (s3, v', races) \<leftarrow> read_var s2 t v a;
     Some (s3\<lparr>vars := hm_assign a v' (vars s3)\<rparr>, races)
   }"

definition ft_write :: "addr \<Rightarrow> u64 \<Rightarrow> u64 \<Rightarrow> u64 \<Rightarrow> ft_state \<Rightarrow> (ft_state \<times> race list) option" where
  "ft_write tls pc a sz s = do {
     (s1, t) \<leftarrow> log_access tls pc a s;
     let (s2, v) = find_or_create_var a sz s1;
     (s3, v', races) \<leftarrow> write_var s2 t v a;
     Some (s3\<lparr>vars := hm_assign a v' (vars s3)\<rparr>, races)
   }"

definition ft_func_enter :: "addr \<Rightarrow> u64 \<Rightarrow> ft_state \<Rightarrow> ft_state option" where
  "ft_func_enter tls pc s = do {
     t \<leftarrow> hm_find (objs s) tls;
     Some (s\<lparr>objs := hm_assign tls (t\<lparr>ts_depot := push_stack_element pc (ts_depot t)\<rparr>) (objs s)\<rparr>)
   }"

definition ft_func_exit :: "addr \<Rightarrow> ft_state \<Rightarrow> ft_state option" where
  "ft_func_exit tls s = do {
     t \<leftarrow> hm_find (objs s) tls;
     d \<leftarrow> pop_stack_element (ts_depot t);
     Some (s\<lparr>objs := hm_assign tls (t\<lparr>ts_depot := d\<rparr>) (objs s)\<rparr>)
   }"

text \<open>
  \<^verbatim>\<open>create_thread\<close>: \<open>p\<close> is the address at which the new object is allocated. If the
  table already has the id, the new object is dropped and the old one returned.
\<close>

definition create_thread :: "u32 \<Rightarrow> thread_state option \<Rightarrow> addr \<Rightarrow> ft_state \<Rightarrow> ft_state \<times> addr" where
  "create_thread tid parent p s =
     (case hm_find (threads s) tid of
        Some q \<Rightarrow> (s, q)
      | None \<Rightarrow> (s\<lparr>threads := hm_emplace tid p (threads s),
                  objs := hm_assign p (new_thread_state tid parent) (objs s)\<rparr>, p))"

definition ft_fork :: "u32 \<Rightarrow> u32 \<Rightarrow> addr \<Rightarrow> ft_state \<Rightarrow> (ft_state \<times> addr) option" where
  "ft_fork parent child p s =
     (case hm_find (threads s) parent of
        Some pp \<Rightarrow> do {
          pt \<leftarrow> hm_find (objs s) pp;
          let pt' = inc_vc pt;
          Some (create_thread child (Some pt') p (s\<lparr>objs := hm_assign pp pt' (objs s)\<rparr>))
        }
      | None \<Rightarrow> Some (create_thread child None p s))"

text \<open>\<^verbatim>\<open>cleanup\<close> forgets the thread in every lock, live thread and happens state.\<close>

definition cleanup :: "u32 \<Rightarrow> ft_state \<Rightarrow> ft_state" where
  "cleanup tid s =
     s\<lparr>locks := hm_map (\<lambda>_. delete_vc tid) (locks s),
       objs := hm_map (\<lambda>p t. if p \<in> snd ` set (threads s) then t\<lparr>ts_vc := delete_vc tid (ts_vc t)\<rparr> else t) (objs s),
       happens_states := hm_map (\<lambda>_. delete_vc tid) (happens_states s)\<rparr>"

text \<open>Erasing the table entry destroys the object it owns.\<close>

definition erase_thread :: "u32 \<Rightarrow> ft_state \<Rightarrow> ft_state" where
  "erase_thread tid s =
     (case hm_find (threads s) tid of
        None \<Rightarrow> s
      | Some p \<Rightarrow> s\<lparr>threads := hm_erase tid (threads s), objs := hm_erase p (objs s)\<rparr>)"

definition ft_join :: "u32 \<Rightarrow> u32 \<Rightarrow> ft_state \<Rightarrow> ft_state option" where
  "ft_join parent child s =
     (case (hm_find (threads s) child, hm_find (threads s) parent) of
        (Some cp, Some pp) \<Rightarrow> do {
          del \<leftarrow> hm_find (objs s) cp;
          let del' = inc_vc del;
          let s1 = s\<lparr>objs := hm_assign cp del' (objs s)\<rparr>;
          par \<leftarrow> hm_find (objs s1) pp;
          let par' = par\<lparr>ts_vc := vc_update (ts_vc par) (ts_vc del')\<rparr>;
          let s2 = s1\<lparr>objs := hm_assign pp par' (objs s1)\<rparr>;
          Some (cleanup child (erase_thread child s2))
        }
      | _ \<Rightarrow> Some s)"

definition ft_acquire :: "addr \<Rightarrow> addr \<Rightarrow> int \<Rightarrow> bool \<Rightarrow> ft_state \<Rightarrow> ft_state option" where
  "ft_acquire tls mutex recursive wr s =
     (if recursive > 1 then Some s
      else
        let s1 = (case hm_find (locks s) mutex of
                    None \<Rightarrow> s\<lparr>locks := hm_emplace mutex [] (locks s)\<rparr> | Some _ \<Rightarrow> s);
            lvc = (case hm_find (locks s) mutex of None \<Rightarrow> [] | Some vc \<Rightarrow> vc)
        in do {
          t \<leftarrow> hm_find (objs s1) tls;
          Some (s1\<lparr>objs := hm_assign tls (t\<lparr>ts_vc := vc_update (ts_vc t) lvc\<rparr>) (objs s1)\<rparr>)
        })"

definition ft_release :: "addr \<Rightarrow> addr \<Rightarrow> bool \<Rightarrow> ft_state \<Rightarrow> ft_state option" where
  "ft_release tls mutex wr s =
     (case hm_find (locks s) mutex of
        None \<Rightarrow> Some (s\<lparr>locks := hm_emplace mutex [] (locks s)\<rparr>)
      | Some lvc \<Rightarrow> do {
          t \<leftarrow> hm_find (objs s) tls;
          let t' = inc_vc t;
          Some (s\<lparr>objs := hm_assign tls t' (objs s),
                  locks := hm_assign mutex (vc_update lvc (ts_vc t')) (locks s)\<rparr>)
        })"

definition ft_happens_before :: "addr \<Rightarrow> addr \<Rightarrow> ft_state \<Rightarrow> ft_state option" where
  "ft_happens_before tls ident s =
     (let hvc = (case hm_find (happens_states s) ident of None \<Rightarrow> [] | Some vc \<Rightarrow> vc)
      in do {
        t \<leftarrow> hm_find (objs s) tls;
        let t' = inc_vc t;
        Some (s\<lparr>objs := hm_assign tls t' (objs s),
                happens_states :=
                  hm_assign ident (vc_update_entry (get_tid t') (return_own_id t') hvc) (happens_states s)\<rparr>)
      })"

definition ft_happens_after :: "addr \<Rightarrow> addr \<Rightarrow> ft_state \<Rightarrow> ft_state option" where
  "ft_happens_after tls ident s =
     (case hm_find (happens_states s) ident of
        None \<Rightarrow> Some (s\<lparr>happens_states := hm_emplace ident [] (happens_states s)\<rparr>)
      | Some hvc \<Rightarrow> do {
          t \<leftarrow> hm_find (objs s) tls;
          Some (s\<lparr>objs := hm_assign tls (t\<lparr>ts_vc := vc_update (ts_vc t) hvc\<rparr>) (objs s)\<rparr>)
        })"

definition ft_allocate :: "u64 \<Rightarrow> u64 \<Rightarrow> ft_state \<Rightarrow> ft_state" where
  "ft_allocate address sz s =
     (if hm_find (allocs s) address = None
      then s\<lparr>allocs := hm_emplace address sz (allocs s)\<rparr> else s)"

text \<open>The loop over the freed addresses; it also returns the address it stopped at.\<close>

function dealloc_loop :: "u64 \<Rightarrow> u64 \<Rightarrow> (u64, var_state) hmap \<Rightarrow> u64 \<times> (u64, var_state) hmap" where
  "dealloc_loop address end_addr vs =
     (if address < end_addr
      then (if hm_find vs address \<noteq> None
            then dealloc_loop (address + 1) end_addr (hm_erase address vs)
            else dealloc_loop (address + 1) end_addr vs)
      else (address, vs))"
  by pat_completeness auto
termination
proof (relation "measure (\<lambda>(a, e, vs). unat e - unat a)")
  fix a e :: u64 and vs :: "(u64, var_state) hmap"
  have "unat e - unat (a + 1) < unat e - unat a" if "a < e"
  proof -
    have "a \<noteq> - 1" using that word_order.extremum_strict by blast
    then show ?thesis using that unat_inc_no_wrap [of a] by (simp add: word_less_nat_alt)
  qed
  then show "a < e \<Longrightarrow> ((a + 1, e, hm_erase a vs), a, e, vs) \<in> measure (\<lambda>(a, e, vs). unat e - unat a)"
    and "a < e \<Longrightarrow> ((a + 1, e, vs), a, e, vs) \<in> measure (\<lambda>(a, e, vs). unat e - unat a)"
    by simp_all
qed simp

declare dealloc_loop.simps [simp del]

definition ft_deallocate :: "u64 \<Rightarrow> ft_state \<Rightarrow> ft_state" where
  "ft_deallocate address s =
     (let allocs1 = hm_emplace address 0 (allocs s);
          sz = (case hm_find allocs1 address of None \<Rightarrow> 0 | Some n \<Rightarrow> n);
          (address', vs) = dealloc_loop address (address + sz) (vars s)
      in s\<lparr>vars := vs, allocs := hm_erase address' allocs1\<rparr>)"

definition ft_finish :: "u32 \<Rightarrow> ft_state \<Rightarrow> ft_state" where
  "ft_finish thread_id s = cleanup thread_id (erase_thread thread_id s)"

definition ft_finalize :: "ft_state \<Rightarrow> ft_state" where
  "ft_finalize s = s\<lparr>vars := [], locks := [], happens_states := [], allocs := [], threads := [], objs := []\<rparr>"

section \<open>One step per call of the interface\<close>

fun ft_step :: "detector_call \<Rightarrow> ft_state \<Rightarrow> (ft_state \<times> race list) option" where
  "ft_step (DAcquire tls m rec wr) s = map_option (\<lambda>s. (s, [])) (ft_acquire tls m rec wr s)"
| "ft_step (DRelease tls m wr) s = map_option (\<lambda>s. (s, [])) (ft_release tls m wr s)"
| "ft_step (DFuncEnter tls pc) s = map_option (\<lambda>s. (s, [])) (ft_func_enter tls pc s)"
| "ft_step (DFuncExit tls) s = map_option (\<lambda>s. (s, [])) (ft_func_exit tls s)"
| "ft_step (DHappensBefore tls i) s = map_option (\<lambda>s. (s, [])) (ft_happens_before tls i s)"
| "ft_step (DHappensAfter tls i) s = map_option (\<lambda>s. (s, [])) (ft_happens_after tls i s)"
| "ft_step (DRead tls pc a sz) s = ft_read tls pc a sz s"
| "ft_step (DWrite tls pc a sz) s = ft_write tls pc a sz s"
| "ft_step (DAllocate tls pc a sz) s = Some (ft_allocate a sz s, [])"
| "ft_step (DDeallocate tls a) s = Some (ft_deallocate a s, [])"
| "ft_step (DFork p c q) s = map_option (\<lambda>(s, _). (s, [])) (ft_fork p c q s)"
| "ft_step (DJoin p c) s = map_option (\<lambda>s. (s, [])) (ft_join p c s)"
| "ft_step (DDetach tls t) s = Some (s, [])"
| "ft_step (DFinish tls t) s = Some (ft_finish t s, [])"

fun ft_run :: "detector_call list \<Rightarrow> ft_state \<Rightarrow> (ft_state \<times> race list) option" where
  "ft_run [] s = Some (s, [])"
| "ft_run (c # cs) s = do {
     (s1, r1) \<leftarrow> ft_step c s;
     (s2, r2) \<leftarrow> ft_run cs s1;
     Some (s2, r1 @ r2)
   }"

end
