(* ===== verification/FasttrackInv.thy ===== *)
theory FasttrackInv
  imports Fasttrack
begin

text \<open>
  The well-formedness of the FastTrack tables and its preservation by every handler: the
  thread table and the object store agree, every object carries the id it is filed under, the
  vector clocks are maps, the read-shared vectors hold one id per thread, and no clock exceeds
  the number of calls. On top of it: handlers do not reach undefined behaviour when called
  with live handles, deallocation clears exactly the freed range, and a thread that ended is
  forgotten.
\<close>

definition live :: "ft_state \<Rightarrow> u32 \<Rightarrow> addr \<Rightarrow> thread_state \<Rightarrow> bool" where
  "live s tid p t \<longleftrightarrow> hm_find (threads s) tid = Some p \<and> hm_find (objs s) p = Some t"

definition objs_ok :: "nat \<Rightarrow> ft_state \<Rightarrow> bool" where
  "objs_ok n s \<longleftrightarrow> hm_wf (threads s) \<and> hm_wf (objs s) \<and>
     (\<forall>p t. hm_find (objs s) p = Some t \<longrightarrow>
        hm_find (threads s) (get_tid t) = Some p \<and> thread_ok t \<and> unat (get_clock t) \<le> n) \<and>
     (\<forall>tid p. hm_find (threads s) tid = Some p \<longrightarrow>
        (\<exists>t. hm_find (objs s) p = Some t \<and> get_tid t = tid))"

definition tables_ok :: "ft_state \<Rightarrow> bool" where
  "tables_ok s \<longleftrightarrow> hm_wf (allocs s) \<and> hm_wf (vars s) \<and> hm_wf (locks s) \<and> hm_wf (happens_states s) \<and>
     (\<forall>a v. hm_find (vars s) a = Some v \<longrightarrow> var_ok v) \<and>
     (\<forall>l vc. hm_find (locks s) l = Some vc \<longrightarrow> hm_wf vc) \<and>
     (\<forall>i vc. hm_find (happens_states s) i = Some vc \<longrightarrow> hm_wf vc)"

definition ft_inv :: "nat \<Rightarrow> ft_state \<Rightarrow> bool" where
  "ft_inv n s \<longleftrightarrow> objs_ok n s \<and> tables_ok s"

text \<open>The allocator hands out addresses that no live object occupies.\<close>

fun call_ok :: "detector_call \<Rightarrow> ft_state \<Rightarrow> bool" where
  "call_ok (DFork p c q) s \<longleftrightarrow> hm_find (objs s) q = None"
| "call_ok _ s \<longleftrightarrow> True"

section \<open>Building blocks\<close>

lemma ft_init_inv: "ft_inv 0 ft_init"
  by (simp add: ft_inv_def objs_ok_def tables_ok_def ft_init_def)

lemma objs_okD:
  assumes "objs_ok n s" and "hm_find (objs s) p = Some t"
  shows "hm_find (threads s) (get_tid t) = Some p" and "thread_ok t" and "unat (get_clock t) \<le> n"
  using assms unfolding objs_ok_def by blast+

lemma objs_ok_thread:
  assumes "objs_ok n s" and "hm_find (threads s) tid = Some p"
  obtains t where "hm_find (objs s) p = Some t" and "get_tid t = tid"
  using assms unfolding objs_ok_def by blast

lemma objs_ok_cong:
  "threads s' = threads s \<Longrightarrow> objs s' = objs s \<Longrightarrow> n \<le> m \<Longrightarrow> objs_ok n s \<Longrightarrow> objs_ok m s'"
  unfolding objs_ok_def by (auto intro: le_trans)

lemma objs_ok_assign:
  assumes "objs_ok n s" and "hm_find (objs s) p = Some t" and "get_tid t' = get_tid t"
    and "thread_ok t'" and "unat (get_clock t') \<le> m" and "n \<le> m"
    and "threads s' = threads s" and "objs s' = hm_assign p t' (objs s)"
  shows "objs_ok m s'"
proof -
  have wf: "hm_wf (threads s')" "hm_wf (objs s')"
    using assms(1,7,8) by (simp_all add: objs_ok_def wf_intros)
  have objs: "hm_find (objs s') q = (if q = p then Some t' else hm_find (objs s) q)" for q
    using assms(8) by (simp add: find_simps)
  show ?thesis
    unfolding objs_ok_def
  proof (intro conjI allI impI)
    fix q u assume "hm_find (objs s') q = Some u"
    then show "hm_find (threads s') (get_tid u) = Some q" "thread_ok u" "unat (get_clock u) \<le> m"
      using objs objs_okD [OF assms(1), of q u] objs_okD [OF assms(1,2)] assms(3-7)
      by (auto split: if_splits)
  next
    fix tid q assume a: "hm_find (threads s') tid = Some q"
    with assms(1,7) obtain u where u: "hm_find (objs s) q = Some u" "get_tid u = tid"
      using objs_ok_thread [of n s tid q] by auto
    then show "\<exists>u. hm_find (objs s') q = Some u \<and> get_tid u = tid"
      using objs assms(2,3) by auto
  qed (use wf in auto)
qed

lemma clock_not_max: "objs_ok n s \<Longrightarrow> hm_find (objs s) p = Some t \<Longrightarrow> Suc n < 2 ^ 32 \<Longrightarrow> get_clock t \<noteq> - 1"
  using objs_okD(3) [of n s p t] by (auto simp: unsigned_minus_1_eq_mask mask_eq_exp_minus_1)

lemma objs_ok_inc:
  assumes "objs_ok n s" and "hm_find (objs s) p = Some t" and "Suc n < 2 ^ 32"
    and "threads s' = threads s" and "objs s' = hm_assign p (inc_vc t) (objs s)"
  shows "objs_ok (Suc n) s'"
proof -
  have c: "get_clock t \<noteq> - 1" using clock_not_max [OF assms(1-3)] .
  have "unat (get_clock (inc_vc t)) \<le> Suc n"
    using objs_okD(3) [OF assms(1,2)] c by (simp add: inc_vc_clock unat_inc_no_wrap)
  then show ?thesis
    using assms objs_okD(2) [OF assms(1,2)] c
    by (intro objs_ok_assign [OF assms(1,2)]) (simp_all add: inc_vc_tid inc_vc_ok)
qed

lemma objs_ok_new:
  assumes "objs_ok n s" and "hm_find (threads s) tid = None" and "hm_find (objs s) p = None"
    and "thread_ok t" and "get_tid t = tid" and "get_clock t = 0"
    and "threads s' = hm_emplace tid p (threads s)" and "objs s' = hm_assign p t (objs s)"
  shows "objs_ok n s'"
proof -
  have objs: "hm_find (objs s') q = (if q = p then Some t else hm_find (objs s) q)" for q
    using assms(8) by (simp add: find_simps)
  have thr: "hm_find (threads s') u = (if u = tid then Some p else hm_find (threads s) u)" for u
    using assms(2,7) by (auto simp: find_simps split: option.split)
  show ?thesis
    unfolding objs_ok_def
  proof (intro conjI allI impI)
    show "hm_wf (threads s')" "hm_wf (objs s')"
      using assms(1,7,8) by (simp_all add: objs_ok_def wf_intros)
    fix q u assume "hm_find (objs s') q = Some u"
    then show "hm_find (threads s') (get_tid u) = Some q" "thread_ok u" "unat (get_clock u) \<le> n"
      using objs thr objs_okD [OF assms(1), of q u] assms(2,4-6) by (auto split: if_splits)
  next
    fix u q assume a: "hm_find (threads s') u = Some q"
    show "\<exists>w. hm_find (objs s') q = Some w \<and> get_tid w = u"
    proof (cases "u = tid")
      case True
      with a thr objs assms(5) show ?thesis by auto
    next
      case False
      with a thr have "hm_find (threads s) u = Some q" by simp
      then obtain w where w: "hm_find (objs s) q = Some w" "get_tid w = u"
        by (rule objs_ok_thread [OF assms(1)])
      with assms(3) have "q \<noteq> p" by auto
      with w objs show ?thesis by auto
    qed
  qed
qed

lemma objs_ok_erase: "objs_ok n s \<Longrightarrow> objs_ok n (erase_thread tid s)"
proof (cases "hm_find (threads s) tid")
  case None
  assume "objs_ok n s"
  with None show ?thesis by (simp add: erase_thread_def)
next
  case (Some p)
  assume ok: "objs_ok n s"
  then have wf: "hm_wf (threads s)" "hm_wf (objs s)" by (simp_all add: objs_ok_def)
  let ?s = "erase_thread tid s"
  have objs: "hm_find (objs ?s) q = (if q = p then None else hm_find (objs s) q)" for q
    using Some wf by (simp add: erase_thread_def hm.find_erase)
  have thr: "hm_find (threads ?s) u = (if u = tid then None else hm_find (threads s) u)" for u
    using Some wf by (simp add: erase_thread_def hm.find_erase)
  obtain t where t: "hm_find (objs s) p = Some t" "get_tid t = tid"
    by (rule objs_ok_thread [OF ok Some])
  show ?thesis
    unfolding objs_ok_def
  proof (intro conjI allI impI)
    show "hm_wf (threads ?s)" "hm_wf (objs ?s)"
      using Some wf by (simp_all add: erase_thread_def wf_intros)
    fix q u assume "hm_find (objs ?s) q = Some u"
    then show "hm_find (threads ?s) (get_tid u) = Some q" "thread_ok u" "unat (get_clock u) \<le> n"
      using objs thr objs_okD [OF ok, of q u] Some by (auto split: if_splits)
  next
    fix u q assume "hm_find (threads ?s) u = Some q"
    with thr have u: "u \<noteq> tid" "hm_find (threads s) u = Some q" by (simp_all split: if_splits)
    then obtain w where w: "hm_find (objs s) q = Some w" "get_tid w = u"
      using objs_ok_thread [OF ok] by blast
    with t u have "q \<noteq> p" by auto
    with w objs show "\<exists>w. hm_find (objs ?s) q = Some w \<and> get_tid w = u" by auto
  qed
qed

text \<open>After \<^verbatim>\<open>cleanup\<close> every live object has its entry for the thread removed.\<close>

lemma cleanup_objs:
  assumes "objs_ok n s"
  shows "hm_find (objs (cleanup tid s)) p =
           map_option (\<lambda>t. t\<lparr>ts_vc := delete_vc tid (ts_vc t)\<rparr>) (hm_find (objs s) p)"
proof (cases "hm_find (objs s) p")
  case None
  then show ?thesis by (simp add: cleanup_def find_simps)
next
  case (Some t)
  have "hm_find (threads s) (get_tid t) = Some p" by (rule objs_okD(1) [OF assms Some])
  then have "(get_tid t, p) \<in> set (threads s)"
    using assms by (intro hm_find_in [THEN iffD2]) (simp_all add: objs_ok_def)
  then have "p \<in> snd ` set (threads s)" by force
  with Some show ?thesis by (simp add: cleanup_def find_simps)
qed

lemma cleanup_threads [simp]: "threads (cleanup tid s) = threads s"
  by (simp add: cleanup_def)

lemma get_tid_vc_update [simp]: "get_tid (t\<lparr>ts_vc := vc\<rparr>) = get_tid t"
  and get_clock_vc_update [simp]: "get_clock (t\<lparr>ts_vc := vc\<rparr>) = get_clock t"
  and get_tid_depot_update [simp]: "get_tid (t\<lparr>ts_depot := d\<rparr>) = get_tid t"
  and get_clock_depot_update [simp]: "get_clock (t\<lparr>ts_depot := d\<rparr>) = get_clock t"
  by (simp_all add: get_tid_def get_clock_def)

lemma thread_ok_vc: "thread_ok t \<Longrightarrow> hm_wf vc \<Longrightarrow> thread_ok (t\<lparr>ts_vc := vc\<rparr>)"
  and thread_ok_depot: "thread_ok t \<Longrightarrow> depot_ok d \<Longrightarrow> thread_ok (t\<lparr>ts_depot := d\<rparr>)"
  by (simp_all add: thread_ok_def)

lemma objs_ok_cleanup: "objs_ok n s \<Longrightarrow> objs_ok n (cleanup tid s)"
proof -
  assume ok: "objs_ok n s"
  note f = cleanup_objs [OF ok, of tid]
  show ?thesis
    unfolding objs_ok_def
  proof (intro conjI allI impI)
    show "hm_wf (threads (cleanup tid s))" "hm_wf (objs (cleanup tid s))"
      using ok by (simp_all add: objs_ok_def cleanup_def wf_intros)
    fix q u assume "hm_find (objs (cleanup tid s)) q = Some u"
    then obtain t where t: "hm_find (objs s) q = Some t" "u = t\<lparr>ts_vc := delete_vc tid (ts_vc t)\<rparr>"
      by (auto simp: f)
    then show "hm_find (threads (cleanup tid s)) (get_tid u) = Some q" "thread_ok u" "unat (get_clock u) \<le> n"
      using objs_okD [OF ok t(1)] by (simp_all add: thread_ok_def delete_vc_wf)
  next
    fix u q assume "hm_find (threads (cleanup tid s)) u = Some q"
    then obtain w where "hm_find (objs s) q = Some w" "get_tid w = u"
      using objs_ok_thread [OF ok] by auto
    then show "\<exists>w. hm_find (objs (cleanup tid s)) q = Some w \<and> get_tid w = u"
      by (auto simp: f)
  qed
qed

lemma tables_ok_cleanup: "tables_ok s \<Longrightarrow> tables_ok (cleanup tid s)"
  by (auto simp: tables_ok_def cleanup_def wf_intros find_simps)

lemma tables_ok_frame:
  "allocs s' = allocs s \<Longrightarrow> vars s' = vars s \<Longrightarrow> locks s' = locks s \<Longrightarrow>
   happens_states s' = happens_states s \<Longrightarrow> tables_ok s' = tables_ok s"
  by (simp add: tables_ok_def)

lemma bump_fields [simp]:
  "allocs (bump f s) = allocs s" "vars (bump f s) = vars s" "locks (bump f s) = locks s"
  "threads (bump f s) = threads s" "happens_states (bump f s) = happens_states s"
  "objs (bump f s) = objs s"
  by (simp_all add: bump_def)

section \<open>Reports\<close>

definition access_of :: "thread_state \<Rightarrow> bool \<Rightarrow> var_state \<Rightarrow> u64 \<Rightarrow> access_entry" where
  "access_of t wr v a = fill_access (get_tid t) wr a (vsize v) (trim_stack (abs_access (ts_depot t) a))"

lemma live_tid: "objs_ok n s \<Longrightarrow> live s u p t \<Longrightarrow> get_tid t = u"
  unfolding live_def by (erule conjE, erule (1) objs_ok_thread) simp

lemma live_thread_ok: "objs_ok n s \<Longrightarrow> live s u p t \<Longrightarrow> thread_ok t"
  unfolding live_def using objs_okD(2) by blast

lemma report_race_live:
  assumes "objs_ok n s" and "live s u1 p1 t1" and "live s u2 p2 t2"
  shows "report_race s u1 u2 w1 w2 v a = Some [(access_of t1 w1 v a, access_of t2 w2 v a)]"
proof -
  have ok: "depot_ok (ts_depot t1)" "depot_ok (ts_depot t2)"
    using live_thread_ok [OF assms(1,2)] live_thread_ok [OF assms(1,3)] by (simp_all add: thread_ok_def)
  have "get_tid t1 = u1" "get_tid t2 = u2"
    using live_tid [OF assms(1,2)] live_tid [OF assms(1,3)] .
  then show ?thesis
    using assms(2,3) ok
    by (simp add: report_race_def live_def return_stack_trace_abs access_of_def)
qed

lemma report_race_dead:
  "hm_find (threads s) u1 = None \<or> hm_find (threads s) u2 = None \<Longrightarrow>
   report_race s u1 u2 w1 w2 v a = Some []"
  by (auto simp: report_race_def split: option.split)

lemma report_race_total:
  assumes "objs_ok n s"
  shows "report_race s u1 u2 w1 w2 v a \<noteq> None"
proof (cases "hm_find (threads s) u1 = None \<or> hm_find (threads s) u2 = None")
  case True
  then show ?thesis by (simp add: report_race_dead)
next
  case False
  then obtain p1 p2 where "hm_find (threads s) u1 = Some p1" "hm_find (threads s) u2 = Some p2" by auto
  moreover from this obtain t1 t2 where "hm_find (objs s) p1 = Some t1" "hm_find (objs s) p2 = Some t2"
    by (metis assms objs_ok_thread)
  ultimately have "live s u1 p1 t1" "live s u2 p2 t2" by (simp_all add: live_def)
  then show ?thesis using report_race_live [OF assms] by simp
qed

section \<open>The access rules keep the variable well-formed\<close>

lemma read_var_shape:
  assumes "read_var s t v a = Some (s', v', rs)"
  shows "(\<exists>f. s' = bump f s) \<and>
    (v' = v \<or> v' = var_update False (ts_id t) v \<or>
     v' = set_read_shared (ts_id t) v \<and> get_r_tid v \<noteq> make_tid (ts_id t))"
  using assms
  by (auto simp: read_var_def Let_def bind_eq_Some_conv return_own_id_def get_tid_def split: if_splits)

lemma read_var_result:
  assumes "read_var s t v a = Some (s', v', rs)"
  shows "\<exists>f. s' = bump f s" and "var_ok v \<Longrightarrow> var_ok v'" and "w_id v' = w_id v"
proof -
  show "\<exists>f. s' = bump f s" using read_var_shape [OF assms] by blast
  show "var_ok v \<Longrightarrow> var_ok v'"
    using read_var_shape [OF assms] by (auto simp: var_update_ok set_read_shared_ok)
  show "w_id v' = w_id v"
    using read_var_shape [OF assms]
    by (auto simp: var_update_def set_read_shared_def Let_def split: option.split)
qed

lemma write_var_shape:
  assumes "write_var s t v a = Some (s', v', rs)"
  shows "(\<exists>f. s' = bump f s) \<and> (v' = v \<and> w_id v = ts_id t \<or> v' = var_update True (ts_id t) v)"
  using assms
  by (auto simp: write_var_def Let_def bind_eq_Some_conv return_own_id_def split: if_splits)

lemma write_var_result:
  assumes "write_var s t v a = Some (s', v', rs)"
  shows "\<exists>f. s' = bump f s" and "var_ok v \<Longrightarrow> var_ok v'" and "w_id v' = ts_id t"
proof -
  show "\<exists>f. s' = bump f s" using write_var_shape [OF assms] by blast
  show "var_ok v \<Longrightarrow> var_ok v'" using write_var_shape [OF assms] by (auto simp: var_update_ok)
  show "w_id v' = ts_id t" using write_var_shape [OF assms] by (auto simp: var_update_def)
qed

lemma report_race_fun:
  assumes "objs_ok n s"
  shows "\<exists>R. \<forall>u1 u2 w1 w2 v a. report_race s u1 u2 w1 w2 v a = Some (R u1 u2 w1 w2 v a)"
  using report_race_total [OF assms]
  by (intro exI [of _ "\<lambda>u1 u2 w1 w2 v a. the (report_race s u1 u2 w1 w2 v a)"]) simp

lemma read_var_total:
  assumes "objs_ok n s"
  shows "read_var s t v a \<noteq> None"
proof -
  obtain R where R: "\<forall>u1 u2 w1 w2 v a. report_race s u1 u2 w1 w2 v a = Some (R u1 u2 w1 w2 v a)"
    using report_race_fun [OF assms] by blast
  show ?thesis by (simp add: read_var_def Let_def R)
qed

lemma write_var_total:
  assumes "objs_ok n s"
  shows "write_var s t v a \<noteq> None"
proof -
  obtain R where R: "\<forall>u1 u2 w1 w2 v a. report_race s u1 u2 w1 w2 v a = Some (R u1 u2 w1 w2 v a)"
    using report_race_fun [OF assms] by blast
  show ?thesis
    by (cases "shared_vc v") (simp_all add: write_var_def Let_def R is_rw_sh_race_def is_read_shared_def)
qed

section \<open>Every handler preserves the invariant\<close>

lemma log_access_inv:
  assumes "ft_inv n s" and "log_access tls pc a s = Some (s', t')"
  shows "ft_inv n s'" and "hm_find (objs s') tls = Some t'"
    and "\<exists>t. hm_find (objs s) tls = Some t \<and> t' = t\<lparr>ts_depot := set_read_write a pc (ts_depot t)\<rparr>"
    and "s' = s\<lparr>objs := hm_assign tls t' (objs s)\<rparr>"
proof -
  obtain t where t: "hm_find (objs s) tls = Some t" "t' = t\<lparr>ts_depot := set_read_write a pc (ts_depot t)\<rparr>"
    and s': "s' = s\<lparr>objs := hm_assign tls t' (objs s)\<rparr>"
    using assms(2) by (auto simp: log_access_def Let_def bind_eq_Some_conv)
  then show "\<exists>t. hm_find (objs s) tls = Some t \<and> t' = t\<lparr>ts_depot := set_read_write a pc (ts_depot t)\<rparr>"
    and "s' = s\<lparr>objs := hm_assign tls t' (objs s)\<rparr>" by blast+
  show "hm_find (objs s') tls = Some t'" by (simp add: s' find_simps)
  have ok: "objs_ok n s" "tables_ok s" using assms(1) by (simp_all add: ft_inv_def)
  have "objs_ok n s'"
    using objs_okD(2,3) [OF ok(1) t(1)]
    by (intro objs_ok_assign [OF ok(1) t(1), of t'])
      (simp_all add: s' t(2) thread_ok_def set_read_write_ok)
  then show "ft_inv n s'"
    using ok(2) by (simp add: ft_inv_def s' tables_ok_def)
qed

lemma find_or_create_var_inv:
  assumes "ft_inv n s" and "find_or_create_var a sz s = (s', v)"
  shows "ft_inv n s'" and "var_ok v" and "hm_find (vars s') a = Some v"
    and "threads s' = threads s" and "objs s' = objs s"
    and "b \<noteq> a \<Longrightarrow> hm_find (vars s') b = hm_find (vars s) b"
    and "v = (case hm_find (vars s) a of Some v \<Rightarrow> v | None \<Rightarrow> new_var_state (ucast sz))"
proof -
  have shape: "s' = s\<lparr>vars := hm_emplace a v (vars s)\<rparr>"
    "v = (case hm_find (vars s) a of Some v \<Rightarrow> v | None \<Rightarrow> new_var_state (ucast sz))"
    using assms(2) by (auto simp: find_or_create_var_def Let_def hm_emplace_def split: option.splits)
  then show "v = (case hm_find (vars s) a of Some v \<Rightarrow> v | None \<Rightarrow> new_var_state (ucast sz))"
    and "threads s' = threads s" and "objs s' = objs s" by simp_all
  have vars: "hm_find (vars s') b = (if b = a then Some v else hm_find (vars s) b)" for b
    using shape by (auto simp: find_simps split: option.split)
  then show "hm_find (vars s') a = Some v" and "b \<noteq> a \<Longrightarrow> hm_find (vars s') b = hm_find (vars s) b"
    by simp_all
  show v: "var_ok v"
    using assms(1) shape(2) by (auto simp: ft_inv_def tables_ok_def new_var_ok split: option.split)
  have "\<forall>b w. hm_find (vars s') b = Some w \<longrightarrow> var_ok w"
    using assms(1) v by (auto simp: vars ft_inv_def tables_ok_def)
  then show "ft_inv n s'"
    using assms(1) shape(1) by (simp add: ft_inv_def tables_ok_def objs_ok_def wf_intros)
qed

lemma ft_inv_assign_var:
  "ft_inv n s \<Longrightarrow> var_ok v \<Longrightarrow> ft_inv n (s\<lparr>vars := hm_assign a v (vars s)\<rparr>)"
  by (auto simp: ft_inv_def objs_ok_def tables_ok_def wf_intros find_simps)

lemma ft_inv_bump: "ft_inv n s \<Longrightarrow> ft_inv n (bump f s)"
  by (auto simp: ft_inv_def objs_ok_def tables_ok_def)

lemma ft_readE:
  assumes "ft_read tls pc a sz s = Some (s', rs)"
  obtains s1 t s2 v s3 v' where "log_access tls pc a s = Some (s1, t)"
    and "find_or_create_var a sz s1 = (s2, v)" and "read_var s2 t v a = Some (s3, v', rs)"
    and "s' = s3\<lparr>vars := hm_assign a v' (vars s3)\<rparr>"
proof -
  obtain s1 t where l: "log_access tls pc a s = Some (s1, t)"
    using assms by (auto simp: ft_read_def bind_eq_Some_conv)
  obtain s2 v where f: "find_or_create_var a sz s1 = (s2, v)"
    by (cases "find_or_create_var a sz s1")
  obtain s3 v' where "read_var s2 t v a = Some (s3, v', rs)" "s' = s3\<lparr>vars := hm_assign a v' (vars s3)\<rparr>"
    using assms by (auto simp: ft_read_def l f bind_eq_Some_conv)
  with l f show thesis by (rule that)
qed

lemma ft_writeE:
  assumes "ft_write tls pc a sz s = Some (s', rs)"
  obtains s1 t s2 v s3 v' where "log_access tls pc a s = Some (s1, t)"
    and "find_or_create_var a sz s1 = (s2, v)" and "write_var s2 t v a = Some (s3, v', rs)"
    and "s' = s3\<lparr>vars := hm_assign a v' (vars s3)\<rparr>"
proof -
  obtain s1 t where l: "log_access tls pc a s = Some (s1, t)"
    using assms by (auto simp: ft_write_def bind_eq_Some_conv)
  obtain s2 v where f: "find_or_create_var a sz s1 = (s2, v)"
    by (cases "find_or_create_var a sz s1")
  obtain s3 v' where "write_var s2 t v a = Some (s3, v', rs)" "s' = s3\<lparr>vars := hm_assign a v' (vars s3)\<rparr>"
    using assms by (auto simp: ft_write_def l f bind_eq_Some_conv)
  with l f show thesis by (rule that)
qed

lemma ft_read_inv:
  assumes "ft_inv n s" and "ft_read tls pc a sz s = Some (s', rs)"
  shows "ft_inv n s'"
proof -
  obtain s1 t s2 v s3 v' where s: "log_access tls pc a s = Some (s1, t)"
    "find_or_create_var a sz s1 = (s2, v)" "read_var s2 t v a = Some (s3, v', rs)"
    "s' = s3\<lparr>vars := hm_assign a v' (vars s3)\<rparr>"
    by (rule ft_readE [OF assms(2)])
  have "ft_inv n s2" "var_ok v"
    using log_access_inv(1) [OF assms(1) s(1)] find_or_create_var_inv [OF _ s(2)] by blast+
  with read_var_result [OF s(3)] show ?thesis
    by (auto simp: s(4) intro: ft_inv_assign_var ft_inv_bump)
qed

lemma ft_write_inv:
  assumes "ft_inv n s" and "ft_write tls pc a sz s = Some (s', rs)"
  shows "ft_inv n s'"
proof -
  obtain s1 t s2 v s3 v' where s: "log_access tls pc a s = Some (s1, t)"
    "find_or_create_var a sz s1 = (s2, v)" "write_var s2 t v a = Some (s3, v', rs)"
    "s' = s3\<lparr>vars := hm_assign a v' (vars s3)\<rparr>"
    by (rule ft_writeE [OF assms(2)])
  have "ft_inv n s2" "var_ok v"
    using log_access_inv(1) [OF assms(1) s(1)] find_or_create_var_inv [OF _ s(2)] by blast+
  with write_var_result [OF s(3)] show ?thesis
    by (auto simp: s(4) intro: ft_inv_assign_var ft_inv_bump)
qed

lemma ft_inv_upd_thread:
  assumes "ft_inv n s" and "hm_find (objs s) p = Some t" and "get_tid t' = get_tid t"
    and "get_clock t' = get_clock t" and "thread_ok t'"
  shows "ft_inv n (s\<lparr>objs := hm_assign p t' (objs s)\<rparr>)"
  using assms objs_okD(3) [of n s p t] objs_ok_assign [of n s p t t' n]
  by (auto simp: ft_inv_def tables_ok_def)

lemma ft_inv_inc_thread:
  assumes "ft_inv n s" and "hm_find (objs s) p = Some t" and "Suc n < 2 ^ 32"
  shows "ft_inv (Suc n) (s\<lparr>objs := hm_assign p (inc_vc t) (objs s)\<rparr>)"
  using assms objs_ok_inc [of n s p t] by (auto simp: ft_inv_def tables_ok_def)

lemma ft_inv_mono: "ft_inv n s \<Longrightarrow> n \<le> m \<Longrightarrow> ft_inv m s"
  unfolding ft_inv_def using objs_ok_cong [of s s n m] by auto

lemma ft_inv_thread_ok: "ft_inv n s \<Longrightarrow> hm_find (objs s) p = Some t \<Longrightarrow> thread_ok t"
  using objs_okD(2) unfolding ft_inv_def by blast

lemma ft_inv_locks:
  "ft_inv n s \<Longrightarrow> hm_wf vc \<Longrightarrow> ft_inv n (s\<lparr>locks := hm_assign l vc (locks s)\<rparr>)"
  "ft_inv n s \<Longrightarrow> hm_wf vc \<Longrightarrow> ft_inv n (s\<lparr>locks := hm_emplace l vc (locks s)\<rparr>)"
  "ft_inv n s \<Longrightarrow> hm_wf vc \<Longrightarrow> ft_inv n (s\<lparr>happens_states := hm_assign l vc (happens_states s)\<rparr>)"
  "ft_inv n s \<Longrightarrow> hm_wf vc \<Longrightarrow> ft_inv n (s\<lparr>happens_states := hm_emplace l vc (happens_states s)\<rparr>)"
  by (auto simp: ft_inv_def objs_ok_def tables_ok_def wf_intros find_simps split: option.splits if_splits)

lemma ft_inv_lock_wf: "ft_inv n s \<Longrightarrow> hm_find (locks s) l = Some vc \<Longrightarrow> hm_wf vc"
  and ft_inv_happens_wf: "ft_inv n s \<Longrightarrow> hm_find (happens_states s) l = Some vc \<Longrightarrow> hm_wf vc"
  unfolding ft_inv_def tables_ok_def by blast+

lemma ft_func_enter_inv: "ft_inv n s \<Longrightarrow> ft_func_enter tls pc s = Some s' \<Longrightarrow> ft_inv n s'"
  by (auto simp: ft_func_enter_def bind_eq_Some_conv thread_ok_def push_ok
      dest: ft_inv_thread_ok intro!: ft_inv_upd_thread)

lemma ft_func_exit_inv: "ft_inv n s \<Longrightarrow> ft_func_exit tls s = Some s' \<Longrightarrow> ft_inv n s'"
proof -
  assume inv: "ft_inv n s" and "ft_func_exit tls s = Some s'"
  then obtain t d where t: "hm_find (objs s) tls = Some t" and d: "pop_stack_element (ts_depot t) = Some d"
    and s': "s' = s\<lparr>objs := hm_assign tls (t\<lparr>ts_depot := d\<rparr>) (objs s)\<rparr>"
    by (auto simp: ft_func_exit_def bind_eq_Some_conv)
  have "thread_ok t" by (rule ft_inv_thread_ok [OF inv t])
  with pop_Some(1) [OF _ d] show ?thesis
    unfolding s' by (intro ft_inv_upd_thread [OF inv t]) (simp_all add: thread_ok_def)
qed

lemma ft_acquire_inv:
  assumes "ft_inv n s" and "ft_acquire tls m rec wr s = Some s'"
  shows "ft_inv n s'"
proof (cases "rec > 1")
  case True
  with assms show ?thesis by (simp add: ft_acquire_def)
next
  case False
  define s1 where "s1 = (case hm_find (locks s) m of None \<Rightarrow> s\<lparr>locks := hm_emplace m [] (locks s)\<rparr> | Some _ \<Rightarrow> s)"
  define lvc where "lvc = (case hm_find (locks s) m of None \<Rightarrow> [] | Some vc \<Rightarrow> vc)"
  have s1: "ft_inv n s1"
    using assms(1) by (auto simp: s1_def ft_inv_locks split: option.split)
  obtain t where t: "hm_find (objs s1) tls = Some t"
    and s': "s' = s1\<lparr>objs := hm_assign tls (t\<lparr>ts_vc := vc_update (ts_vc t) lvc\<rparr>) (objs s1)\<rparr>"
    using assms(2) False by (auto simp: ft_acquire_def Let_def bind_eq_Some_conv s1_def lvc_def)
  have "thread_ok t" by (rule ft_inv_thread_ok [OF s1 t])
  then show ?thesis
    unfolding s' by (intro ft_inv_upd_thread [OF s1 t]) (simp_all add: thread_ok_def vc_update_wf)
qed

lemma ft_release_inv:
  assumes "ft_inv n s" and "Suc n < 2 ^ 32" and "ft_release tls m wr s = Some s'"
  shows "ft_inv (Suc n) s'"
proof (cases "hm_find (locks s) m")
  case None
  with assms have "s' = s\<lparr>locks := hm_emplace m [] (locks s)\<rparr>" by (simp add: ft_release_def)
  with assms(1) have "ft_inv n s'" by (simp add: ft_inv_locks)
  then show ?thesis by (rule ft_inv_mono) simp
next
  case (Some lvc)
  with assms(3) obtain t where t: "hm_find (objs s) tls = Some t"
    and s': "s' = (s\<lparr>objs := hm_assign tls (inc_vc t) (objs s)\<rparr>)
      \<lparr>locks := hm_assign m (vc_update lvc (ts_vc (inc_vc t))) (locks s)\<rparr>"
    by (auto simp: ft_release_def Let_def bind_eq_Some_conv)
  have "ft_inv (Suc n) (s\<lparr>objs := hm_assign tls (inc_vc t) (objs s)\<rparr>)"
    by (rule ft_inv_inc_thread [OF assms(1) t assms(2)])
  from ft_inv_locks(1) [OF this, of "vc_update lvc (ts_vc (inc_vc t))" m]
  show ?thesis
    using ft_inv_lock_wf [OF assms(1) Some] by (simp add: s' vc_update_wf)
qed

lemma ft_happens_before_inv:
  assumes "ft_inv n s" and "Suc n < 2 ^ 32" and "ft_happens_before tls i s = Some s'"
  shows "ft_inv (Suc n) s'"
proof -
  define hvc where "hvc = (case hm_find (happens_states s) i of None \<Rightarrow> [] | Some vc \<Rightarrow> vc)"
  obtain t where t: "hm_find (objs s) tls = Some t"
    and s': "s' = (s\<lparr>objs := hm_assign tls (inc_vc t) (objs s)\<rparr>)
      \<lparr>happens_states := hm_assign i
         (vc_update_entry (get_tid (inc_vc t)) (return_own_id (inc_vc t)) hvc) (happens_states s)\<rparr>"
    using assms(3) by (auto simp: ft_happens_before_def Let_def bind_eq_Some_conv hvc_def)
  have "hm_wf hvc"
    using ft_inv_happens_wf [OF assms(1)] by (auto simp: hvc_def split: option.split)
  with ft_inv_locks(3) [OF ft_inv_inc_thread [OF assms(1) t assms(2)]]
  show ?thesis by (simp add: s' vc_update_entry_wf)
qed

lemma ft_happens_after_inv:
  assumes "ft_inv n s" and "ft_happens_after tls i s = Some s'"
  shows "ft_inv n s'"
proof (cases "hm_find (happens_states s) i")
  case None
  with assms show ?thesis by (auto simp: ft_happens_after_def ft_inv_locks)
next
  case (Some hvc)
  with assms(2) obtain t where t: "hm_find (objs s) tls = Some t"
    and s': "s' = s\<lparr>objs := hm_assign tls (t\<lparr>ts_vc := vc_update (ts_vc t) hvc\<rparr>) (objs s)\<rparr>"
    by (auto simp: ft_happens_after_def bind_eq_Some_conv)
  have "thread_ok t" by (rule ft_inv_thread_ok [OF assms(1) t])
  then show ?thesis
    unfolding s' by (intro ft_inv_upd_thread [OF assms(1) t]) (simp_all add: thread_ok_def vc_update_wf)
qed

lemma create_thread_inv:
  assumes "ft_inv n s" and "hm_find (objs s) p = None" and "\<And>q. par = Some q \<Longrightarrow> thread_ok q"
    and "create_thread tid par p s = (s', q)"
  shows "ft_inv n s'"
proof (cases "hm_find (threads s) tid")
  case None
  then have s': "s' = s\<lparr>threads := hm_emplace tid p (threads s),
      objs := hm_assign p (new_thread_state tid par) (objs s)\<rparr>"
    using assms(4) by (auto simp: create_thread_def)
  have "thread_ok (new_thread_state tid par)" using assms(3) by (rule new_thread_state_ok)
  then have "objs_ok n s'"
    using assms(1,2) None
    by (simp add: objs_ok_new [of n s tid p "new_thread_state tid par"] s' ft_inv_def)
  moreover have "tables_ok s'"
    using assms(1) by (simp add: s' ft_inv_def tables_ok_def)
  ultimately show ?thesis by (simp add: ft_inv_def)
next
  case (Some p)
  with assms show ?thesis by (simp add: create_thread_def)
qed

lemma ft_fork_inv:
  assumes "ft_inv n s" and "Suc n < 2 ^ 32" and "hm_find (objs s) q = None"
    and "ft_fork p c q s = Some (s', r)"
  shows "ft_inv (Suc n) s'"
proof (cases "hm_find (threads s) p")
  case None
  with assms(4) have "create_thread c None q s = (s', r)" by (simp add: ft_fork_def)
  then have "ft_inv n s'" by (rule create_thread_inv [OF assms(1,3), rotated]) simp
  then show ?thesis by (rule ft_inv_mono) simp
next
  case (Some pp)
  with assms(4) obtain pt where pt: "hm_find (objs s) pp = Some pt"
    and s': "create_thread c (Some (inc_vc pt)) q (s\<lparr>objs := hm_assign pp (inc_vc pt) (objs s)\<rparr>) = (s', r)"
    by (auto simp: ft_fork_def Let_def bind_eq_Some_conv)
  have "pp \<noteq> q" using pt assms(3) by auto
  with assms(3) have "hm_find (objs (s\<lparr>objs := hm_assign pp (inc_vc pt) (objs s)\<rparr>)) q = None"
    by (simp add: find_simps)
  moreover have "thread_ok (inc_vc pt)"
    using ft_inv_thread_ok [OF assms(1) pt] by (rule inc_vc_ok)
  ultimately show ?thesis
    using create_thread_inv [OF ft_inv_inc_thread [OF assms(1) pt assms(2)] _ _ s'] by simp
qed

lemma ft_inv_erase: "ft_inv n s \<Longrightarrow> ft_inv n (erase_thread tid s)"
  unfolding ft_inv_def using objs_ok_erase [of n s tid]
  by (auto simp: erase_thread_def tables_ok_def split: option.splits)

lemma ft_inv_cleanup: "ft_inv n s \<Longrightarrow> ft_inv n (cleanup tid s)"
  by (simp add: ft_inv_def objs_ok_cleanup tables_ok_cleanup)

lemma ft_finish_inv: "ft_inv n s \<Longrightarrow> ft_inv n (ft_finish tid s)"
  by (simp add: ft_finish_def ft_inv_cleanup ft_inv_erase)

lemma ft_join_inv:
  assumes "ft_inv n s" and "Suc n < 2 ^ 32" and "ft_join p c s = Some s'"
  shows "ft_inv (Suc n) s'"
proof (cases "hm_find (threads s) c = None \<or> hm_find (threads s) p = None")
  case True
  with assms(3) have "s' = s" by (auto simp: ft_join_def split: option.splits)
  with assms(1) show ?thesis by (auto intro: ft_inv_mono)
next
  case False
  then obtain cp pp where f: "hm_find (threads s) c = Some cp" "hm_find (threads s) p = Some pp" by auto
  obtain del par where d: "hm_find (objs s) cp = Some del"
    and par: "hm_find (objs (s\<lparr>objs := hm_assign cp (inc_vc del) (objs s)\<rparr>)) pp = Some par"
    and s': "s' = cleanup c (erase_thread c (s\<lparr>objs := hm_assign pp
      (par\<lparr>ts_vc := vc_update (ts_vc par) (ts_vc (inc_vc del))\<rparr>) (hm_assign cp (inc_vc del) (objs s))\<rparr>))"
    using assms(3) f by (auto simp: ft_join_def Let_def bind_eq_Some_conv)
  let ?s1 = "s\<lparr>objs := hm_assign cp (inc_vc del) (objs s)\<rparr>"
  have i1: "ft_inv (Suc n) ?s1" by (rule ft_inv_inc_thread [OF assms(1) d assms(2)])
  then have "thread_ok par" using par by (rule ft_inv_thread_ok)
  then have "ft_inv (Suc n) (?s1\<lparr>objs := hm_assign pp
      (par\<lparr>ts_vc := vc_update (ts_vc par) (ts_vc (inc_vc del))\<rparr>) (objs ?s1)\<rparr>)"
    by (intro ft_inv_upd_thread [OF i1 par]) (simp_all add: thread_ok_def vc_update_wf)
  then show ?thesis by (simp add: s' ft_inv_cleanup ft_inv_erase)
qed

lemma ft_allocate_inv: "ft_inv n s \<Longrightarrow> ft_inv n (ft_allocate a sz s)"
  by (auto simp: ft_allocate_def ft_inv_def objs_ok_def tables_ok_def wf_intros)

section \<open>Deallocation\<close>

lemma dealloc_loop_empty: "\<not> a < e \<Longrightarrow> dealloc_loop a e vs = (a, vs)"
  by (simp add: dealloc_loop.simps [of a e vs])

lemma dealloc_loop_step:
  "a < e \<Longrightarrow> dealloc_loop a e vs =
     dealloc_loop (a + 1) e (if hm_find vs a \<noteq> None then hm_erase a vs else vs)"
  by (simp add: dealloc_loop.simps [of a e vs])

text \<open>The loop ends at the end address and removes the addresses it passed, nothing else.\<close>

lemma dealloc_loop_spec:
  "a \<le> e \<Longrightarrow> dealloc_loop a e vs = (a', vs') \<Longrightarrow>
     a' = e \<and> (\<forall>x. hm_find vs' x = (if a \<le> x \<and> x < e then None else hm_find vs x))"
proof (induction a e vs arbitrary: vs' rule: dealloc_loop.induct)
  case (1 a e vs)
  show ?case
  proof (cases "a < e")
    case False
    with "1.prems"(1) have "a = e" by simp
    moreover from False "1.prems"(2) have "a' = a \<and> vs' = vs" by (simp add: dealloc_loop_empty)
    ultimately show ?thesis by auto
  next
    case True
    let ?vs = "if hm_find vs a \<noteq> None then hm_erase a vs else vs"
    have step: "dealloc_loop (a + 1) e ?vs = (a', vs')"
      using "1.prems"(2) True by (simp only: dealloc_loop_step)
    have le: "a + 1 \<le> e" using True by (simp add: inc_le)
    have "a' = e \<and> (\<forall>x. hm_find vs' x = (if a + 1 \<le> x \<and> x < e then None else hm_find ?vs x))"
    proof (cases "hm_find vs a = None")
      case none: True
      with "1.IH"(2) [OF True _ le, of vs'] step show ?thesis by (simp only: not_True_eq_False if_False simp_thms)
    next
      case False
      with "1.IH"(1) [OF True False le, of vs'] step show ?thesis by (simp only: not_False_eq_True if_True simp_thms)
    qed
    moreover have "hm_find ?vs x = (if x = a then None else hm_find vs x)" for x
      by (simp add: hm_erase_find)
    moreover have "a + 1 \<le> x \<longleftrightarrow> a < x" for x
    proof -
      have "a \<noteq> - 1" using True word_order.extremum_strict by blast
      then show ?thesis by (simp add: word_le_nat_alt word_less_nat_alt unat_inc_no_wrap Suc_le_eq)
    qed
    ultimately have rest: "a' = e" "hm_find vs' x =
      (if a < x \<and> x < e then None else if x = a then None else hm_find vs x)" for x
      by (simp_all only: simp_thms)
    have "(if a < x \<and> x < e then None else if x = a then None else hm_find vs x) =
      (if a \<le> x \<and> x < e then None else hm_find vs x)" for x
      using True by (cases x a rule: linorder_cases) auto
    with rest show ?thesis by simp
  qed
qed

lemma dealloc_loop_wf: "hm_wf vs \<Longrightarrow> hm_wf (snd (dealloc_loop a e vs))"
proof (induction a e vs rule: dealloc_loop.induct)
  case (1 a e vs)
  then show ?case
    by (subst dealloc_loop.simps) (simp add: hm_erase_wf)
qed

lemma dealloc_loop_sub: "hm_find (snd (dealloc_loop a e vs)) x = Some v \<Longrightarrow> hm_find vs x = Some v"
proof (cases "a \<le> e")
  case True
  assume "hm_find (snd (dealloc_loop a e vs)) x = Some v"
  with dealloc_loop_spec [OF True, of vs "fst (dealloc_loop a e vs)" "snd (dealloc_loop a e vs)"]
  show ?thesis by (simp split: if_splits)
next
  case False
  then show "hm_find (snd (dealloc_loop a e vs)) x = Some v \<Longrightarrow> hm_find vs x = Some v"
    by (simp add: dealloc_loop_empty)
qed

lemma ft_deallocate_fields [simp]:
  "threads (ft_deallocate a s) = threads s" "objs (ft_deallocate a s) = objs s"
  "locks (ft_deallocate a s) = locks s" "happens_states (ft_deallocate a s) = happens_states s"
  by (simp_all add: ft_deallocate_def Let_def split: prod.split)

lemma ft_deallocate_vars:
  "vars (ft_deallocate a s) =
     snd (dealloc_loop a (a + (case hm_find (allocs s) a of None \<Rightarrow> 0 | Some n \<Rightarrow> n)) (vars s))"
  by (simp add: ft_deallocate_def Let_def hm_emplace_find split: prod.split option.split)

lemma ft_deallocate_inv: "ft_inv n s \<Longrightarrow> ft_inv n (ft_deallocate a s)"
proof -
  assume inv: "ft_inv n s"
  have "hm_wf (allocs (ft_deallocate a s))"
    using inv by (simp add: ft_deallocate_def Let_def ft_inv_def tables_ok_def wf_intros split: prod.split)
  moreover have "hm_wf (vars (ft_deallocate a s))"
    using inv by (simp add: ft_deallocate_vars dealloc_loop_wf ft_inv_def tables_ok_def)
  moreover have "hm_find (vars (ft_deallocate a s)) x = Some v \<Longrightarrow> var_ok v" for x v
    using inv dealloc_loop_sub unfolding ft_deallocate_vars ft_inv_def tables_ok_def by blast
  ultimately show ?thesis
    using inv by (auto simp: ft_inv_def tables_ok_def objs_ok_def)
qed

section \<open>The whole detector\<close>

lemma ft_step_inv:
  assumes "ft_inv n s" and "Suc n < 2 ^ 32" and "call_ok c s" and "ft_step c s = Some (s', rs)"
  shows "ft_inv (Suc n) s'"
proof -
  have same: "ft_inv n s' \<Longrightarrow> ft_inv (Suc n) s'" by (erule ft_inv_mono) simp
  have here: "ft_inv (Suc n) s" using assms(1) by (rule ft_inv_mono) simp
  note inc = ft_release_inv [OF assms(1,2)] ft_happens_before_inv [OF assms(1,2)]
    ft_join_inv [OF assms(1,2)] ft_fork_inv [OF assms(1,2)]
  note keep = ft_acquire_inv ft_func_enter_inv ft_func_exit_inv ft_happens_after_inv ft_read_inv
    ft_write_inv ft_allocate_inv ft_deallocate_inv ft_finish_inv
  show ?thesis
    using assms(4,3) here
    by (cases c) (auto intro: inc same [OF keep(1) [OF assms(1)]] same [OF keep(2) [OF assms(1)]]
      same [OF keep(3) [OF assms(1)]] same [OF keep(4) [OF assms(1)]] same [OF keep(5) [OF assms(1)]]
      same [OF keep(6) [OF assms(1)]]
      ft_inv_mono [OF keep(7) [OF assms(1)]] ft_inv_mono [OF keep(8) [OF assms(1)]]
      ft_inv_mono [OF keep(9) [OF assms(1)]])
qed

text \<open>A sequence of calls whose forks get fresh object addresses.\<close>

fun calls_ok :: "detector_call list \<Rightarrow> ft_state \<Rightarrow> bool" where
  "calls_ok [] s \<longleftrightarrow> True"
| "calls_ok (c # cs) s \<longleftrightarrow> call_ok c s \<and>
     (case ft_step c s of None \<Rightarrow> True | Some (s', _) \<Rightarrow> calls_ok cs s')"

lemma ft_run_inv:
  "ft_inv n s \<Longrightarrow> n + length cs < 2 ^ 32 \<Longrightarrow> calls_ok cs s \<Longrightarrow> ft_run cs s = Some (s', rs) \<Longrightarrow>
     ft_inv (n + length cs) s'"
proof (induction cs arbitrary: n s rs)
  case Nil
  then show ?case by simp
next
  case (Cons c cs)
  obtain s1 r1 r2 where s1: "ft_step c s = Some (s1, r1)" "ft_run cs s1 = Some (s', r2)"
    using Cons.prems(4) by (auto simp: bind_eq_Some_conv)
  have "ft_inv (Suc n) s1"
    using Cons.prems s1 by (intro ft_step_inv [of n s c s1 r1]) auto
  from Cons.IH [OF this _ _ s1(2)] Cons.prems(2,3) s1(1) show ?case by simp
qed

end
