(* ===== verification/FasttrackProps.thy ===== *)
theory FasttrackProps
  imports FasttrackInv
begin

text \<open>
  What the detector guarantees to the runtime that calls it: it stays well-formed, live handles
  never lead to undefined behaviour, a report names live threads and carries the call stacks of
  the two accesses, freed memory is forgotten, and so is a thread that ended.
\<close>

section \<open>Calls with live handles\<close>

fun handle_ok :: "detector_call \<Rightarrow> ft_state \<Rightarrow> bool" where
  "handle_ok (DAcquire tls m r w) s \<longleftrightarrow> hm_find (objs s) tls \<noteq> None"
| "handle_ok (DRelease tls m w) s \<longleftrightarrow> hm_find (objs s) tls \<noteq> None"
| "handle_ok (DFuncEnter tls pc) s \<longleftrightarrow> hm_find (objs s) tls \<noteq> None"
| "handle_ok (DFuncExit tls) s \<longleftrightarrow>
     (case hm_find (objs s) tls of None \<Rightarrow> False | Some t \<Rightarrow> abs_stack (ts_depot t) \<noteq> [])"
| "handle_ok (DHappensBefore tls i) s \<longleftrightarrow> hm_find (objs s) tls \<noteq> None"
| "handle_ok (DHappensAfter tls i) s \<longleftrightarrow> hm_find (objs s) tls \<noteq> None"
| "handle_ok (DRead tls pc a n) s \<longleftrightarrow> hm_find (objs s) tls \<noteq> None"
| "handle_ok (DWrite tls pc a n) s \<longleftrightarrow> hm_find (objs s) tls \<noteq> None"
| "handle_ok _ s \<longleftrightarrow> True"

lemma access_total:
  assumes "ft_inv n s" and "hm_find (objs s) tls \<noteq> None"
  shows "ft_read tls pc a sz s \<noteq> None" and "ft_write tls pc a sz s \<noteq> None"
proof -
  obtain s1 t where l: "log_access tls pc a s = Some (s1, t)"
    using assms(2) by (auto simp: log_access_def Let_def)
  obtain s2 v where f: "find_or_create_var a sz s1 = (s2, v)" by (cases "find_or_create_var a sz s1")
  have "objs_ok n s2"
    using find_or_create_var_inv(1) [OF log_access_inv(1) [OF assms(1) l] f] by (simp add: ft_inv_def)
  then show "ft_read tls pc a sz s \<noteq> None" "ft_write tls pc a sz s \<noteq> None"
    using read_var_total [of n s2 t v a] write_var_total [of n s2 t v a]
    by (auto simp: ft_read_def ft_write_def l f)
qed

lemma fork_join_total:
  assumes "ft_inv n s"
  shows "ft_fork p c q s \<noteq> None" and "ft_join p c s \<noteq> None"
proof -
  have ok: "objs_ok n s" using assms by (simp add: ft_inv_def)
  have obj: "\<exists>t. hm_find (objs s) a = Some t" if "hm_find (threads s) u = Some a" for u a
    using objs_ok_thread [OF ok that] by metis
  show "ft_fork p c q s \<noteq> None"
  proof (cases "hm_find (threads s) p")
    case None
    then show ?thesis by (simp add: ft_fork_def)
  next
    case (Some a)
    with obj obtain t where "hm_find (objs s) a = Some t" by blast
    with Some show ?thesis by (simp add: ft_fork_def Let_def)
  qed
  show "ft_join p c s \<noteq> None"
  proof (cases "hm_find (threads s) c = None \<or> hm_find (threads s) p = None")
    case True
    then show ?thesis by (auto simp: ft_join_def split: option.split)
  next
    case False
    then obtain cp pp where f: "hm_find (threads s) c = Some cp" "hm_find (threads s) p = Some pp" by auto
    with obj obtain t u where "hm_find (objs s) cp = Some t" "hm_find (objs s) pp = Some u" by blast
    with f show ?thesis by (auto simp: ft_join_def Let_def find_simps split: bind_splits)
  qed
qed

lemma ft_step_total:
  assumes "ft_inv n s" and "handle_ok c s"
  shows "ft_step c s \<noteq> None"
proof (cases c)
  case (DFuncExit tls)
  with assms(2) obtain t where t: "hm_find (objs s) tls = Some t" "abs_stack (ts_depot t) \<noteq> []"
    by (auto split: option.splits)
  have "depot_ok (ts_depot t)" using ft_inv_thread_ok [OF assms(1) t(1)] by (simp add: thread_ok_def)
  with t(2) have "pop_stack_element (ts_depot t) \<noteq> None" by (simp add: pop_root)
  with DFuncExit t(1) show ?thesis by (auto simp: ft_func_exit_def)
next
  case (DAcquire tls m r w)
  with assms(2) show ?thesis by (auto simp: ft_acquire_def Let_def split: option.split)
qed (use assms access_total [OF assms(1)] fork_join_total [OF assms(1)] in
      \<open>auto simp: ft_release_def ft_func_enter_def ft_happens_before_def ft_happens_after_def Let_def
        split: option.split\<close>)

section \<open>What a report holds\<close>

text \<open>The newest frames of a stack, as many as the interface can carry.\<close>

definition last_frames :: "u64 list \<Rightarrow> u64 list" where
  "last_frames st = drop (length st - max_stack_size) st"

lemma trim_stack_last: "trim_stack st = last_frames st"
proof (induction st)
  case Nil
  then show ?case by (simp add: last_frames_def)
next
  case (Cons x xs)
  then show ?case by (cases "length xs < max_stack_size") (auto simp: last_frames_def Suc_diff_le not_less)
qed

lemma length_last_frames: "length (last_frames st) \<le> max_stack_size"
  by (simp add: last_frames_def)

definition entry_for :: "access_entry \<Rightarrow> u32 \<Rightarrow> bool \<Rightarrow> u64 \<Rightarrow> u64 list \<Rightarrow> bool" where
  "entry_for e u wr a st \<longleftrightarrow> ae_thread_id e = u \<and> ae_write e = wr \<and> ae_accessed_memory e = a \<and>
     ae_stack_size e = length (last_frames st) \<and> length (ae_stack_trace e) = max_stack_size \<and>
     take (ae_stack_size e) (ae_stack_trace e) = last_frames st"

lemma entry_for_access:
  "entry_for (access_of t wr v a) (get_tid t) wr a (abs_access (ts_depot t) a)"
  using length_last_frames [of "abs_access (ts_depot t) a"]
  by (simp add: entry_for_def access_of_def fill_access_def access_entry_init_def trim_stack_last
      take_copy_to_array length_copy_to_array)

lemma report_race_shape:
  assumes "objs_ok n s" and "report_race s u1 u2 w1 w2 v a = Some rs" and "r \<in> set rs"
  shows "\<exists>p1 t1 p2 t2. live s u1 p1 t1 \<and> live s u2 p2 t2 \<and> r = (access_of t1 w1 v a, access_of t2 w2 v a)"
proof (cases "hm_find (threads s) u1 = None \<or> hm_find (threads s) u2 = None")
  case True
  then show ?thesis using assms(2,3) by (simp add: report_race_dead)
next
  case False
  then obtain p1 p2 where "hm_find (threads s) u1 = Some p1" "hm_find (threads s) u2 = Some p2" by auto
  moreover from this obtain t1 t2 where "hm_find (objs s) p1 = Some t1" "hm_find (objs s) p2 = Some t2"
    by (metis assms(1) objs_ok_thread)
  ultimately have l: "live s u1 p1 t1" "live s u2 p2 t2" by (simp_all add: live_def)
  from report_race_live [OF assms(1) this, of w1 w2 v a] have "r = (access_of t1 w1 v a, access_of t2 w2 v a)"
    using assms(2,3) by simp
  with l show ?thesis by blast
qed

definition reports :: "ft_state \<Rightarrow> u32 \<Rightarrow> bool \<Rightarrow> var_state \<Rightarrow> u64 \<Rightarrow> race \<Rightarrow> bool" where
  "reports s u wr v a r \<longleftrightarrow> (\<exists>u1 w1 p1 t1 p2 t2. u1 \<noteq> u \<and> (w1 \<or> wr) \<and> live s u1 p1 t1 \<and> live s u p2 t2 \<and>
     r = (access_of t1 w1 v a, access_of t2 wr v a))"

lemma reportsI:
  assumes "objs_ok n s" and "report_race s u1 u w1 wr v a = Some rs" and "r \<in> set rs"
    and "u1 \<noteq> u" and "w1 \<or> wr"
  shows "reports s u wr v a r"
  using report_race_shape [OF assms(1-3)] assms(4,5) unfolding reports_def by blast

lemma read_var_reports:
  assumes "objs_ok n s" and "read_var s t v a = Some (s', v', rs)" and "r \<in> set rs"
  shows "reports s (get_tid t) False v a r"
proof -
  have "is_wr_race v t \<and> report_race s (get_w_tid v) (get_tid t) True False v a = Some rs"
    using assms(2,3) by (auto simp: read_var_def Let_def bind_eq_Some_conv split: if_splits)
  moreover from this have "get_w_tid v \<noteq> get_tid t" by (simp add: is_wr_race_def Let_def)
  ultimately show ?thesis using reportsI [OF assms(1) _ assms(3)] by blast
qed

lemma rw_sh_loop_other: "rw_sh_loop vec t \<noteq> 0 \<Longrightarrow> rw_sh_loop vec t \<noteq> get_tid t"
  using rw_sh_loop_some [of vec t] by (auto simp: sh_entry_race_def Let_def)

lemma write_var_reports:
  assumes "objs_ok n s" and "write_var s t v a = Some (s', v', rs)" and "r \<in> set rs"
  shows "reports s (get_tid t) True v a r"
proof -
  note mk = reportsI [OF assms(1), of _ _ _ True v a _ r, OF _ _ _ disjI2 [OF TrueI]]
  have ww: "get_w_tid v \<noteq> get_tid t" if "is_ww_race v t" using that by (auto simp: is_ww_race_def)
  have rw: "get_r_tid v \<noteq> get_tid t" if "is_rw_ex_race v t" using that by (auto simp: is_rw_ex_race_def Let_def)
  have sh: "x \<noteq> get_tid t" if "is_rw_sh_race v t = Some x" "x \<noteq> 0" for x
    using that rw_sh_loop_other by (auto simp: is_rw_sh_race_def split: option.splits)
  obtain xs ys where x: "xs = [] \<or> is_ww_race v t \<and> report_race s (get_w_tid v) (get_tid t) True True v a = Some xs"
    and y: "ys = [] \<or> (\<exists>u. u \<noteq> get_tid t \<and> report_race s u (get_tid t) False True v a = Some ys)"
    and rs: "rs = [] \<or> rs = xs @ ys"
    using assms(2) rw sh
    by (auto simp: write_var_def Let_def bind_eq_Some_conv split: if_splits)
  show ?thesis using x y rs assms(3) mk ww by auto
qed

lemma access_reports:
  assumes inv: "ft_inv n s" and l: "live s u tls t"
    and step: "(if wr then ft_write tls pc a sz s else ft_read tls pc a sz s) = Some (s', rs)"
    and r: "(e1, e2) \<in> set rs"
  shows "entry_for e2 u wr a (abs_stack (ts_depot t) @ [pc])"
    and "\<exists>u1 w1 p1 t1. u1 \<noteq> u \<and> (w1 \<or> wr) \<and> live s u1 p1 t1 \<and> entry_for e1 u1 w1 a (abs_access (ts_depot t1) a)"
proof -
  have ok: "objs_ok n s" using inv by (simp add: ft_inv_def)
  obtain s1 t' s2 v where acc: "log_access tls pc a s = Some (s1, t')"
      "find_or_create_var a sz s1 = (s2, v)"
    and rep: "objs_ok n s2 \<Longrightarrow> reports s2 (get_tid t') wr v a (e1, e2)"
  proof (cases wr)
    case True
    with step have "ft_write tls pc a sz s = Some (s', rs)" by simp
    from this [THEN ft_writeE] show ?thesis using that write_var_reports r True by metis
  next
    case False
    with step have "ft_read tls pc a sz s = Some (s', rs)" by simp
    from this [THEN ft_readE] show ?thesis using that read_var_reports r False by metis
  qed
  have t': "t' = t\<lparr>ts_depot := set_read_write a pc (ts_depot t)\<rparr>"
    using log_access_inv(3) [OF inv acc(1)] l by (auto simp: live_def)
  then have tid: "get_tid t' = u" using live_tid [OF ok l] by simp
  have s2: "threads s2 = threads s" "hm_find (objs s2) p = (if p = tls then Some t' else hm_find (objs s) p)" for p
    using find_or_create_var_inv(4,5) [OF log_access_inv(1) [OF inv acc(1)] acc(2)]
      log_access_inv(4) [OF inv acc(1)] by (simp_all add: find_simps)
  have ok2: "objs_ok n s2"
    using find_or_create_var_inv(1) [OF log_access_inv(1) [OF inv acc(1)] acc(2)] by (simp add: ft_inv_def)
  obtain u1 w1 p1 t1 p2 t2 where q: "u1 \<noteq> u" "w1 \<or> wr" "live s2 u1 p1 t1" "live s2 u p2 t2"
      and e: "e1 = access_of t1 w1 v a" "e2 = access_of t2 wr v a"
    using rep [OF ok2] unfolding reports_def tid by blast
  have "p2 = tls" "t2 = t'" using q(4) l s2 by (auto simp: live_def)
  then show "entry_for e2 u wr a (abs_stack (ts_depot t) @ [pc])"
    using entry_for_access [of t' wr v a] tid by (simp add: e t' set_read_write_abs)
  have "p1 \<noteq> tls" using q(1,3) live_tid [OF ok2] tid s2(2) by (fastforce simp: live_def)
  then have "live s u1 p1 t1" using q(3) s2 by (simp add: live_def)
  with q(1,2) entry_for_access [of t1 w1 v a] live_tid [OF ok2 q(3)]
  show "\<exists>u1 w1 p1 t1. u1 \<noteq> u \<and> (w1 \<or> wr) \<and> live s u1 p1 t1 \<and> entry_for e1 u1 w1 a (abs_access (ts_depot t1) a)"
    by (auto simp: e)
qed

section \<open>A thread that ended is forgotten\<close>

definition forgotten :: "u32 \<Rightarrow> ft_state \<Rightarrow> bool" where
  "forgotten u s \<longleftrightarrow> hm_find (threads s) u = None \<and>
     (\<forall>p t. hm_find (objs s) p = Some t \<longrightarrow> get_tid t \<noteq> u \<and> get_id_by_tid (ts_vc t) u = 0) \<and>
     (\<forall>l vc. hm_find (locks s) l = Some vc \<longrightarrow> get_id_by_tid vc u = 0) \<and>
     (\<forall>i vc. hm_find (happens_states s) i = Some vc \<longrightarrow> get_id_by_tid vc u = 0)"

lemma erase_thread_gone: "hm_find (threads (erase_thread u s)) u = None"
  by (simp add: erase_thread_def hm_erase_find split: option.split)

lemma cleanup_forgets:
  assumes "ft_inv n s" and "hm_find (threads s) u = None"
  shows "forgotten u (cleanup u s)"
proof -
  have ok: "objs_ok n s" and tab: "tables_ok s" using assms(1) by (simp_all add: ft_inv_def)
  have drop: "hm_wf vc \<Longrightarrow> get_id_by_tid (delete_vc u vc) u = 0" for vc
    by (simp add: vcl.known_drop)
  have "get_tid t \<noteq> u \<and> get_id_by_tid (ts_vc t) u = 0" if a: "hm_find (objs (cleanup u s)) p = Some t" for p t
  proof -
    obtain t0 where t0: "hm_find (objs s) p = Some t0" "t = t0\<lparr>ts_vc := delete_vc u (ts_vc t0)\<rparr>"
      using a by (auto simp: cleanup_objs [OF ok])
    have "get_tid t0 \<noteq> u" using objs_okD(1) [OF ok t0(1)] assms(2) by auto
    moreover have "hm_wf (ts_vc t0)" using objs_okD(2) [OF ok t0(1)] by (simp add: thread_ok_def)
    ultimately show ?thesis by (simp add: t0(2) drop)
  qed
  moreover have "get_id_by_tid vc u = 0" if "hm_find (locks (cleanup u s)) l = Some vc" for l vc
    using that tab drop by (auto simp: cleanup_def find_simps tables_ok_def)
  moreover have "get_id_by_tid vc u = 0" if "hm_find (happens_states (cleanup u s)) l = Some vc" for l vc
    using that tab drop by (auto simp: cleanup_def find_simps tables_ok_def)
  ultimately show ?thesis using assms(2) by (auto simp: forgotten_def)
qed

lemma finish_forgets: "ft_inv n s \<Longrightarrow> forgotten u (ft_finish u s)"
  unfolding ft_finish_def by (rule cleanup_forgets [OF ft_inv_erase erase_thread_gone])

lemma join_forgets:
  assumes inv: "ft_inv n s" and n: "Suc n < 2 ^ 32" and step: "ft_join p c s = Some s'"
    and live: "hm_find (threads s) c \<noteq> None" "hm_find (threads s) p \<noteq> None"
  shows "forgotten c s'"
proof -
  obtain cp pp where f: "hm_find (threads s) c = Some cp" "hm_find (threads s) p = Some pp" using live by auto
  obtain del par where d: "hm_find (objs s) cp = Some del"
    and par: "hm_find (objs (s\<lparr>objs := hm_assign cp (inc_vc del) (objs s)\<rparr>)) pp = Some par"
    and s': "s' = cleanup c (erase_thread c (s\<lparr>objs := hm_assign pp
      (par\<lparr>ts_vc := vc_update (ts_vc par) (ts_vc (inc_vc del))\<rparr>) (hm_assign cp (inc_vc del) (objs s))\<rparr>))"
    using step f by (auto simp: ft_join_def Let_def bind_eq_Some_conv)
  let ?s1 = "s\<lparr>objs := hm_assign cp (inc_vc del) (objs s)\<rparr>"
  have i1: "ft_inv (Suc n) ?s1" by (rule ft_inv_inc_thread [OF inv d n])
  then have "thread_ok par" using par by (rule ft_inv_thread_ok)
  then have "ft_inv (Suc n) (?s1\<lparr>objs := hm_assign pp
      (par\<lparr>ts_vc := vc_update (ts_vc par) (ts_vc (inc_vc del))\<rparr>) (objs ?s1)\<rparr>)"
    by (intro ft_inv_upd_thread [OF i1 par]) (simp_all add: thread_ok_def vc_update_wf)
  from cleanup_forgets [OF ft_inv_erase [OF this] erase_thread_gone, of c] show ?thesis
    by (simp add: s')
qed

section \<open>Properties\<close>

text \<open>Concrete runs, for the witnesses.\<close>

definition ft_after :: "detector_call list \<Rightarrow> ft_state" where
  "ft_after cs = (case ft_run cs ft_init of None \<Rightarrow> ft_init | Some (s, _) \<Rightarrow> s)"

lemma ft_after_run:
  "ft_run cs ft_init \<noteq> None \<Longrightarrow> \<exists>races. ft_run cs ft_init = Some (ft_after cs, races)"
  by (auto simp: ft_after_def)

lemma ft_after_inv:
  assumes "calls_ok cs ft_init" and "ft_run cs ft_init \<noteq> None" and "length cs < 2 ^ 32"
  shows "ft_inv (length cs) (ft_after cs)"
proof -
  obtain races where "ft_run cs ft_init = Some (ft_after cs, races)" using ft_after_run [OF assms(2)] by blast
  from ft_run_inv [OF ft_init_inv _ assms(1) this] assms(3) show ?thesis by simp
qed

definition demo_calls :: "detector_call list" where
  "demo_calls = [DFork 0 1 100, DFork 1 2 200, DFuncEnter 100 7, DFuncEnter 200 9,
     DWrite 100 70 4096 4]"

lemma demo_ok: "calls_ok demo_calls ft_init" and demo_runs: "ft_run demo_calls ft_init \<noteq> None"
  by code_simp+

lemma demo_length: "length demo_calls < 2 ^ 32" "Suc (length demo_calls) < 2 ^ 32"
  by (simp_all add: demo_calls_def)

lemmas demo_inv = ft_after_inv [OF demo_ok demo_runs demo_length(1)]

text \<open>C3: After any sequence of fewer than 2^32 calls (with the allocator handing out fresh
  addresses at forks) the detector's tables agree with each other: every thread id in the table
  owns the object of that id, the clocks are maps and bounded by the number of calls, the
  read-shared vectors hold at most one entry per thread.\<close>

theorem fasttrack_wellformed:
  assumes "length cs < 2 ^ 32" and "calls_ok cs ft_init" and "ft_run cs ft_init = Some (s, races)"
  shows "ft_inv (length cs) s"
  using ft_run_inv [OF ft_init_inv _ assms(2,3)] assms(1) by simp

lemma fasttrack_wellformed_witness:
  "ft_inv (length demo_calls) (ft_after demo_calls) \<and> hm_find (threads (ft_after demo_calls)) 2 = Some 200"
proof -
  obtain races where "ft_run demo_calls ft_init = Some (ft_after demo_calls, races)"
    using ft_after_run [OF demo_runs] by blast
  from fasttrack_wellformed [OF demo_length(1) demo_ok this] have "ft_inv (length demo_calls) (ft_after demo_calls)" .
  moreover have "hm_find (threads (ft_after demo_calls)) 2 = Some 200" by code_simp
  ultimately show ?thesis by (rule conjI)
qed

text \<open>C9: In a well-formed state no call reaches undefined behaviour (a dangling handle, a null
  read-shared vector, a pop of the root of the call tree): a call whose handle is live, and for
  a function exit whose shadow stack is not empty, always yields a next state.\<close>

theorem fasttrack_defined:
  assumes "ft_inv n s" and "handle_ok c s"
  shows "\<exists>s' races. ft_step c s = Some (s', races)"
  using ft_step_total [OF assms] by auto

lemma fasttrack_defined_witness:
  "\<exists>s' races. ft_step (DFuncExit 100) (ft_after demo_calls) = Some (s', races)"
proof -
  have "handle_ok (DFuncExit 100) (ft_after demo_calls)" by code_simp
  from fasttrack_defined [OF demo_inv this] show ?thesis .
qed

text \<open>C13: Every race handed to the callback by a read or write of thread \<open>u\<close> at \<open>a\<close> names \<open>u\<close> as
  second accessor, with its current call stack and the program counter, cut to the newest 16
  frames, and as first accessor a different thread that is still alive, with the stack of the
  last access it made to \<open>a\<close>; at least one of the two accesses is a write.\<close>

theorem race_report_content:
  assumes "ft_inv n s" and "live s u tls t"
    and "(if wr then ft_write tls pc a sz s else ft_read tls pc a sz s) = Some (s', rs)"
    and "(e1, e2) \<in> set rs"
  shows "entry_for e2 u wr a (abs_stack (ts_depot t) @ [pc]) \<and>
    (\<exists>u1 w1 p1 t1. u1 \<noteq> u \<and> (w1 \<or> wr) \<and> live s u1 p1 t1 \<and> entry_for e1 u1 w1 a (abs_access (ts_depot t1) a))"
  using access_reports [OF assms] by blast

lemma race_report_content_witness:
  "\<exists>e1 e2 s'. ft_write 200 90 4096 4 (ft_after demo_calls) = Some (s', [(e1, e2)]) \<and>
     entry_for e2 2 True 4096 [9, 90]"
proof -
  let ?s = "ft_after demo_calls"
  let ?t = "the (hm_find (objs ?s) 200)"
  have l: "live ?s 2 200 ?t" unfolding live_def by code_simp
  have "map_option (length \<circ> snd) (ft_write 200 90 4096 4 ?s) = Some 1" by code_simp
  then obtain s' e1 e2 where w: "ft_write 200 90 4096 4 ?s = Some (s', [(e1, e2)])"
    by (auto simp: length_Suc_conv)
  have st: "abs_stack (ts_depot ?t) = [9]" by code_simp
  have "entry_for e2 2 True 4096 (abs_stack (ts_depot ?t) @ [90])"
    using race_report_content [OF demo_inv l, of True 90 4096 4 s' "[(e1, e2)]" e1 e2] w by simp
  with w st show ?thesis by auto
qed

text \<open>C16: Deallocating a block recorded with size \<open>sz\<close> (whose end does not wrap around) removes the
  state of exactly the addresses of the block and keeps that of all others; an address without
  a recorded block removes nothing.\<close>

theorem deallocate_clears_block:
  assumes "unat a + (case hm_find (allocs s) a of None \<Rightarrow> 0 | Some sz \<Rightarrow> unat sz) < 2 ^ 64"
  shows "hm_find (vars (ft_deallocate a s)) x =
    (if \<exists>sz. hm_find (allocs s) a = Some sz \<and> unat a \<le> unat x \<and> unat x < unat a + unat sz
     then None else hm_find (vars s) x)"
proof -
  let ?sz = "case hm_find (allocs s) a of None \<Rightarrow> 0 | Some n \<Rightarrow> n"
  have e: "unat (a + ?sz) = unat a + unat ?sz"
    using assms unat_add_no_wrap [of a ?sz] by (auto split: option.splits)
  then have "a \<le> a + ?sz" by (simp add: word_le_nat_alt)
  from dealloc_loop_spec [OF this, of "vars s" _ "vars (ft_deallocate a s)"]
  have "hm_find (vars (ft_deallocate a s)) x = (if a \<le> x \<and> x < a + ?sz then None else hm_find (vars s) x)"
    by (metis ft_deallocate_vars prod.collapse)
  then show ?thesis
    using e by (auto simp: word_le_nat_alt word_less_nat_alt split: option.splits)
qed

lemma deallocate_clears_block_witness:
  "hm_find (vars (ft_deallocate 4094 (ft_allocate 4094 8 (ft_after demo_calls)))) 4096 = None \<and>
   hm_find (vars (ft_after demo_calls)) 4096 \<noteq> None"
proof -
  let ?s = "ft_allocate 4094 8 (ft_after demo_calls)"
  have h: "hm_find (allocs ?s) 4094 = Some 8" by code_simp
  have "hm_find (vars (ft_after demo_calls)) 4096 \<noteq> None" by code_simp
  with h deallocate_clears_block [of 4094 ?s 4096] show ?thesis by simp
qed

text \<open>C19: Once a thread was joined its id is gone from the detector: no table entry, no object, no
  component of any live thread's, lock's or happens-before object's vector clock mentions it.\<close>

theorem join_forgets_child:
  assumes "ft_inv n s" and "Suc n < 2 ^ 32" and "hm_find (threads s) c \<noteq> None"
    and "hm_find (threads s) p \<noteq> None" and "ft_join p c s = Some s'"
  shows "forgotten c s'"
  using join_forgets [OF assms(1,2,5,3,4)] .

lemma join_forgets_child_witness:
  "\<exists>s'. ft_join 1 2 (ft_after demo_calls) = Some s' \<and> forgotten 2 s'"
proof -
  let ?s = "ft_after demo_calls"
  have t: "hm_find (threads ?s) 2 \<noteq> None" "hm_find (threads ?s) 1 \<noteq> None" by code_simp+
  have "ft_join 1 2 ?s \<noteq> None" by code_simp
  then obtain s' where j: "ft_join 1 2 ?s = Some s'" by auto
  from join_forgets_child [OF demo_inv demo_length(2) t j] j show ?thesis by blast
qed

text \<open>C31: The first write to an address is never checked against earlier reads: whatever reads are
  recorded for the variable, a write that finds no earlier write reports nothing and discards
  the recorded reads.\<close>

theorem initial_write_silent:
  assumes "hm_find (objs s) tls = Some t" and "ts_id t \<noteq> 0"
    and "case hm_find (vars s) a of None \<Rightarrow> True | Some v \<Rightarrow> w_id v = VAR_NOT_INIT"
  shows "\<exists>s' v'. ft_write tls pc a sz s = Some (s', []) \<and> hm_find (vars s') a = Some v' \<and>
    w_id v' = ts_id t \<and> r_id v' = VAR_NOT_INIT \<and> \<not> is_read_shared v'"
proof -
  let ?t = "t\<lparr>ts_depot := set_read_write a pc (ts_depot t)\<rparr>"
  obtain s1 where l: "log_access tls pc a s = Some (s1, ?t)" "vars s1 = vars s"
    using assms(1) by (auto simp: log_access_def Let_def)
  obtain s2 v where f: "find_or_create_var a sz s1 = (s2, v)" by (cases "find_or_create_var a sz s1")
  have "w_id v = VAR_NOT_INIT"
    using f l(2) assms(3) by (auto simp: find_or_create_var_def Let_def new_var_state_def split: option.splits)
  then have "\<exists>s3. write_var s2 ?t v a = Some (s3, var_update True (ts_id t) v, [])"
    using assms(2) by (simp add: write_var_def return_own_id_def VAR_NOT_INIT_def)
  then show ?thesis
    using l f by (auto simp: ft_write_def find_simps var_update_def is_read_shared_def)
qed

lemma initial_write_silent_witness:
  "\<exists>s'. ft_write 200 90 8192 4 (ft_after (demo_calls @ [DRead 100 70 8192 4])) = Some (s', [])"
proof -
  let ?s = "ft_after (demo_calls @ [DRead 100 70 8192 4])"
  have "case hm_find (objs ?s) 200 of None \<Rightarrow> False | Some t \<Rightarrow> ts_id t \<noteq> 0" by code_simp
  then obtain t where t: "hm_find (objs ?s) 200 = Some t" "ts_id t \<noteq> 0" by (auto split: option.splits)
  have "case hm_find (vars ?s) 8192 of None \<Rightarrow> True | Some v \<Rightarrow> w_id v = VAR_NOT_INIT" by code_simp
  from initial_write_silent [OF t this] show ?thesis by blast
qed

end
