(* ===== verification/HappensOrder.thy ===== *)
theory HappensOrder
  imports FasttrackProps
begin

text \<open>
  The happens-before order of a run of the detector, stated over a log of events that does not
  mention vector clocks: program order, fork, join, release to acquire of the same mutex, and the
  explicit happens-before annotations. The log keeps, next to each event, the clock at which its
  thread was and the races that were reported; both are ghosts the order does not depend on.
\<close>

section \<open>Events\<close>

datatype event =
    EWrite u32 u64
  | ERead u32 u64
  | ERel u32 addr
  | EAcq u32 addr
  | ESignal u32 addr
  | EWait u32 addr
  | EFork u32 u32
  | EJoin u32 u32
  | EFree u64 u64
  | EOther

fun actor :: "event \<Rightarrow> u32 option" where
  "actor (EWrite t a) = Some t"
| "actor (ERead t a) = Some t"
| "actor (ERel t l) = Some t"
| "actor (EAcq t l) = Some t"
| "actor (ESignal t x) = Some t"
| "actor (EWait t x) = Some t"
| "actor (EFork p c) = Some p"
| "actor (EJoin p c) = Some p"
| "actor _ = None"

fun forked :: "event \<Rightarrow> u32 option" where
  "forked (EFork p c) = Some c" | "forked _ = None"

fun joined :: "event \<Rightarrow> u32 option" where
  "joined (EJoin p c) = Some c" | "joined _ = None"

fun released :: "event \<Rightarrow> addr option" where
  "released (ERel t l) = Some l" | "released _ = None"

fun acquired :: "event \<Rightarrow> addr option" where
  "acquired (EAcq t l) = Some l" | "acquired _ = None"

fun signalled :: "event \<Rightarrow> addr option" where
  "signalled (ESignal t x) = Some x" | "signalled _ = None"

fun awaited :: "event \<Rightarrow> addr option" where
  "awaited (EWait t x) = Some x" | "awaited _ = None"

text \<open>The event is in the past of everything \<open>t\<close> does afterwards.\<close>

definition into :: "event \<Rightarrow> u32 \<Rightarrow> bool" where
  "into e t \<longleftrightarrow> actor e = Some t \<or> forked e = Some t"

definition ordered_by :: "event \<Rightarrow> event \<Rightarrow> bool" where
  "ordered_by e f \<longleftrightarrow>
     (\<exists>t. into e t \<and> (actor f = Some t \<or> joined f = Some t)) \<or>
     (\<exists>l. released e = Some l \<and> acquired f = Some l) \<or>
     (\<exists>x. signalled e = Some x \<and> awaited f = Some x)"

section \<open>The log and the order\<close>

record entry =
  e_event :: event
  e_clock :: u32
  e_races :: "race list"

type_synonym log = "entry list"

abbreviation ev :: "log \<Rightarrow> nat \<Rightarrow> event" where
  "ev log i \<equiv> e_event (log ! i)"

inductive hb :: "log \<Rightarrow> nat \<Rightarrow> nat \<Rightarrow> bool" for log where
  hb_edge: "i < j \<Longrightarrow> j < length log \<Longrightarrow> ordered_by (ev log i) (ev log j) \<Longrightarrow> hb log i j"
| hb_trans: "hb log i j \<Longrightarrow> hb log j k \<Longrightarrow> hb log i k"

lemma hb_less: "hb log i j \<Longrightarrow> i < j \<and> j < length log"
  by (induction rule: hb.induct) auto

lemma hb_append: "hb log i j \<Longrightarrow> hb (log @ rest) i j"
proof (induction rule: hb.induct)
  case (hb_edge i j)
  then show ?case by (intro hb.hb_edge) (auto simp: nth_append)
next
  case (hb_trans i j k)
  then show ?case by (blast intro: hb.hb_trans)
qed

section \<open>Carriers of knowledge\<close>

text \<open>Whatever has a vector clock: a thread, a mutex, a happens-before identifier.\<close>

datatype carrier = OfThread u32 | OfLock addr | OfSignal addr

fun feeds :: "event \<Rightarrow> carrier \<Rightarrow> bool" where
  "feeds e (OfThread t) \<longleftrightarrow> into e t"
| "feeds e (OfLock l) \<longleftrightarrow> released e = Some l"
| "feeds e (OfSignal x) \<longleftrightarrow> signalled e = Some x"

text \<open>Event \<open>i\<close> reached the carrier: it is, or is ordered before, an event that feeds it.\<close>

definition arrives :: "log \<Rightarrow> carrier \<Rightarrow> nat \<Rightarrow> bool" where
  "arrives log x i \<longleftrightarrow> (\<exists>k < length log. (i = k \<or> hb log i k) \<and> feeds (ev log k) x)"

lemma arrivesI: "k < length log \<Longrightarrow> i = k \<or> hb log i k \<Longrightarrow> feeds (ev log k) x \<Longrightarrow> arrives log x i"
  unfolding arrives_def by blast

lemma arrives_append:
  assumes "arrives log x i"
  shows "arrives (log @ rest) x i"
proof -
  obtain k where "k < length log" "i = k \<or> hb log i k" "feeds (ev log k) x"
    using assms unfolding arrives_def by blast
  then show ?thesis by (intro arrivesI [of k]) (auto simp: nth_append intro: hb_append)
qed

lemma arrives_last:
  "e_event e = f \<Longrightarrow> feeds f x \<Longrightarrow> arrives (log @ [e]) x (length log)"
  unfolding arrives_def by (intro exI [of _ "length log"]) simp

lemma hb_to_last:
  assumes "arrives log y i" and "\<And>k. feeds k y \<Longrightarrow> ordered_by k (e_event e)"
  shows "hb (log @ [e]) i (length log)"
proof -
  obtain k where k: "k < length log" "i = k \<or> hb log i k" "feeds (ev log k) y"
    using assms(1) unfolding arrives_def by blast
  have "hb (log @ [e]) k (length log)"
    using k(1,3) assms(2) by (intro hb_edge) (simp_all add: nth_append)
  with k(2) show ?thesis by (auto intro: hb_append hb_trans)
qed

lemma into_ordered: "into e t \<Longrightarrow> actor f = Some t \<or> joined f = Some t \<Longrightarrow> ordered_by e f"
  unfolding ordered_by_def by blast

lemma thread_to_last:
  "arrives log (OfThread t) i \<Longrightarrow> actor (e_event e) = Some t \<Longrightarrow> hb (log @ [e]) i (length log)"
  by (erule hb_to_last) (simp add: into_ordered)

lemma program_order:
  assumes "i < j" and "j < length log" and "actor (ev log i) = Some t" and "actor (ev log j) = Some t"
  shows "hb log i j"
  using assms by (intro hb_edge into_ordered [of _ t]) (simp_all add: into_def)

section \<open>What a carrier knows\<close>

definition thread_at :: "ft_state \<Rightarrow> u32 \<Rightarrow> thread_state option" where
  "thread_at s u = Option.bind (hm_find (threads s) u) (hm_find (objs s))"

fun vc_at :: "ft_state \<Rightarrow> carrier \<Rightarrow> vclock" where
  "vc_at s (OfThread t) = (case thread_at s t of None \<Rightarrow> [] | Some th \<Rightarrow> ts_vc th)"
| "vc_at s (OfLock l) = (case hm_find (locks s) l of None \<Rightarrow> [] | Some vc \<Rightarrow> vc)"
| "vc_at s (OfSignal x) = (case hm_find (happens_states s) x of None \<Rightarrow> [] | Some vc \<Rightarrow> vc)"

definition clk :: "ft_state \<Rightarrow> u32 \<Rightarrow> u32" where
  "clk s u = (case thread_at s u of None \<Rightarrow> 0 | Some th \<Rightarrow> get_clock th)"

text \<open>A clock whose entries carry the thread they are filed under.\<close>

definition vc_sane :: "vclock \<Rightarrow> bool" where
  "vc_sane vc \<longleftrightarrow> hm_wf vc \<and> (\<forall>u vid. hm_find vc u = Some vid \<longrightarrow> make_tid vid = u)"

lemma vc_sane_Nil [simp]: "vc_sane []"
  by (simp add: vc_sane_def)

lemma vc_sane_wf: "vc_sane vc \<Longrightarrow> hm_wf vc"
  by (simp add: vc_sane_def)

lemma vc_sane_assign: "vc_sane vc \<Longrightarrow> make_tid vid = u \<Longrightarrow> vc_sane (hm_assign u vid vc)"
  by (auto simp: vc_sane_def wf_intros find_simps)

lemma vc_sane_delete: "vc_sane vc \<Longrightarrow> vc_sane (delete_vc u vc)"
  by (auto simp: vc_sane_def delete_vc_def wf_intros find_simps)

lemma vc_sane_update_entry: "vc_sane vc \<Longrightarrow> make_tid vid = u \<Longrightarrow> vc_sane (vc_update_entry u vid vc)"
  by (auto simp: vc_sane_def vc_update_entry_def wf_intros find_simps split: option.splits if_splits)

lemma vc_sane_update: "vc_sane a \<Longrightarrow> vc_sane b \<Longrightarrow> vc_sane (vc_update a b)"
proof (induction a b rule: vc_update.induct)
  case (1 a)
  then show ?case by simp
next
  case (2 vc t vid other)
  have o: "vc_sane other"
    using "2.prems"(2) hm_wf_ConsD [of t vid other] unfolding vc_sane_def
    by (metis hm_find_Cons option.distinct(1))
  have "make_tid vid = t"
    using "2.prems"(2) unfolding vc_sane_def by (simp add: hm_find_Cons)
  then have "vc_sane (if get_id_by_tid vc t < vid then vc_update_entry t vid vc else vc)"
    using "2.prems"(1) by (simp add: vc_sane_update_entry)
  from "2.IH" [OF this o] show ?case by simp
qed

lemma known_less_iff:
  assumes "vc_sane vc"
  shows "get_id_by_tid vc u = 0 \<and> get_clock_by_tid vc u = 0 \<or> make_tid (get_id_by_tid vc u) = u \<and>
    get_clock_by_tid vc u = make_clock (get_id_by_tid vc u)"
  using assms by (auto simp: vc_sane_def get_clock_by_tid_def get_id_by_tid_def split: option.split)

lemma make_clock_mono: "make_tid a = make_tid b \<Longrightarrow> a \<le> b \<Longrightarrow> make_clock a \<le> make_clock b"
  using id_less_iff [of b a] by (metis linorder_not_le)

lemma known_vc_update:
  assumes "vc_sane a" and "vc_sane b"
  shows "get_clock_by_tid (vc_update a b) u = max (get_clock_by_tid a u) (get_clock_by_tid b u)"
proof -
  let ?i = "get_id_by_tid a u" and ?j = "get_id_by_tid b u"
  have "get_clock_by_tid (vc_update a b) u = make_clock (max ?i ?j)"
    using get_id_vc_update [OF vc_sane_wf [OF assms(2)]] by (simp add: get_clock_of_id)
  also have "\<dots> = max (make_clock ?i) (make_clock ?j)"
    using known_less_iff [OF assms(1), of u] known_less_iff [OF assms(2), of u]
      make_clock_mono [of ?i ?j] make_clock_mono [of ?j ?i]
    by (auto simp: max_def get_clock_of_id)
  finally show ?thesis by (simp add: get_clock_of_id)
qed

lemma known_simps:
  "get_clock_by_tid [] u = 0"
  "get_clock_by_tid (hm_assign t vid vc) u = (if u = t then make_clock vid else get_clock_by_tid vc u)"
  "hm_wf vc \<Longrightarrow> get_clock_by_tid (delete_vc t vc) u = (if u = t then 0 else get_clock_by_tid vc u)"
  by (simp_all add: get_clock_by_tid_def delete_vc_def find_simps)

end
