(* ===== verification/FasttrackOrder.thy ===== *)
theory FasttrackOrder
  imports HappensOrder
begin

text \<open>
  The vector clocks of the detector only grow along the happens-before order: whatever a thread,
  mutex or identifier knows about a thread's clock arrived there through an ordered event. Each
  handler is one step of the flow of knowledge.
\<close>

section \<open>Threads after an update\<close>

lemma thread_at_live: "thread_at s u = Some th \<longleftrightarrow> (\<exists>p. live s u p th)"
  by (auto simp: thread_at_def live_def bind_eq_Some_conv)

lemma thread_at_cong: "threads s' = threads s \<Longrightarrow> objs s' = objs s \<Longrightarrow> thread_at s' = thread_at s"
  by (simp add: thread_at_def fun_eq_iff)

lemma thread_at_tid: "objs_ok n s \<Longrightarrow> hm_find (objs s) p = Some t \<Longrightarrow> thread_at s (get_tid t) = Some t"
  by (simp add: thread_at_def objs_okD(1))

lemma thread_at_inj:
  assumes "objs_ok n s" and "hm_find (threads s) u = Some p" and "hm_find (objs s) p = Some t"
  shows "get_tid t = u"
  using objs_ok_thread [OF assms(1,2)] assms(3) by auto

lemma thread_at_assign:
  assumes "objs_ok n s" and "hm_find (objs s) p = Some t"
    and "threads s' = threads s" and "objs s' = hm_assign p t' (objs s)"
  shows "thread_at s' u = (if u = get_tid t then Some t' else thread_at s u)"
proof (cases "hm_find (threads s) u")
  case None
  then have "u \<noteq> get_tid t" using objs_okD(1) [OF assms(1,2)] by auto
  with None show ?thesis by (simp add: thread_at_def assms(3))
next
  case (Some q)
  then show ?thesis
    using thread_at_inj [OF assms(1) Some] objs_okD(1) [OF assms(1,2)] assms(2)
    by (auto simp: thread_at_def assms(3,4) find_simps)
qed

lemma thread_at_new:
  assumes "objs_ok n s" and "hm_find (threads s) c = None" and "hm_find (objs s) q = None"
    and "threads s' = hm_emplace c q (threads s)" and "objs s' = hm_assign q t (objs s)"
  shows "thread_at s' u = (if u = c then Some t else thread_at s u)"
proof (cases "hm_find (threads s) u")
  case None
  with assms show ?thesis by (simp add: thread_at_def find_simps)
next
  case (Some p)
  then obtain w where "hm_find (objs s) p = Some w" by (rule objs_ok_thread [OF assms(1)])
  with assms(3) have "p \<noteq> q" by auto
  with Some assms show ?thesis by (auto simp: thread_at_def find_simps)
qed

lemma thread_at_erase:
  assumes "objs_ok n s"
  shows "thread_at (erase_thread c s) u = (if u = c then None else thread_at s u)"
proof (cases "hm_find (threads s) c")
  case None
  then show ?thesis by (simp add: erase_thread_def thread_at_def)
next
  case (Some p)
  obtain t where t: "hm_find (objs s) p = Some t" "get_tid t = c"
    by (rule objs_ok_thread [OF assms Some])
  have "q \<noteq> p" if "hm_find (threads s) u = Some q" "u \<noteq> c" for q
    using thread_at_inj [OF assms that(1)] t that(2) by auto
  with Some show ?thesis
    by (cases "hm_find (threads s) u") (auto simp: erase_thread_def thread_at_def find_simps)
qed

lemma thread_at_cleanup:
  "objs_ok n s \<Longrightarrow> thread_at (cleanup c s) u = map_option (\<lambda>t. t\<lparr>ts_vc := delete_vc c (ts_vc t)\<rparr>) (thread_at s u)"
  by (cases "hm_find (threads s) u") (simp_all add: thread_at_def cleanup_objs)

section \<open>The flow of knowledge in one step\<close>

definition known_at :: "ft_state \<Rightarrow> carrier \<Rightarrow> u32 \<Rightarrow> u32" where
  "known_at s x u = get_clock_by_tid (vc_at s x) u"

text \<open>The clocks are sane and no carrier knows more of a thread than the thread reached.\<close>

definition clocks_ok :: "ft_state \<Rightarrow> bool" where
  "clocks_ok s \<longleftrightarrow> (\<forall>x. vc_sane (vc_at s x)) \<and> (\<forall>x u. known_at s x u \<le> clk s u)"

text \<open>Where the knowledge that carrier \<open>x\<close> has of clock \<open>c\<close> of \<open>u\<close> after event \<open>e\<close> came from.\<close>

definition source :: "ft_state \<Rightarrow> event \<Rightarrow> carrier \<Rightarrow> u32 \<Rightarrow> u32 \<Rightarrow> bool" where
  "source s e x u c \<longleftrightarrow> c < known_at s x u \<or>
     (\<exists>y. c < known_at s y u \<and> (\<forall>k. feeds k y \<longrightarrow> ordered_by k e) \<and> feeds e x) \<or>
     (actor e = Some u \<and> feeds e x)"

definition flow :: "ft_state \<Rightarrow> event \<Rightarrow> ft_state \<Rightarrow> bool" where
  "flow s e s' \<longleftrightarrow> clocks_ok s' \<and> (\<forall>x u c. c < known_at s' x u \<longrightarrow> source s e x u c)"

text \<open>Knowledge of an epoch before \<open>c\<close> of a thread means its events up to \<open>c\<close> arrived.\<close>

definition order_inv :: "ft_state \<Rightarrow> log \<Rightarrow> bool" where
  "order_inv s log \<longleftrightarrow> clocks_ok s \<and>
     (\<forall>x i u. i < length log \<and> actor (ev log i) = Some u \<and> e_clock (log ! i) < known_at s x u \<longrightarrow>
        arrives log x i)"

definition event_clock :: "ft_state \<Rightarrow> event \<Rightarrow> u32" where
  "event_clock s e = (case actor e of None \<Rightarrow> 0 | Some u \<Rightarrow> clk s u)"

lemma order_step:
  assumes inv: "order_inv s log" and flow: "flow s e s'"
  shows "order_inv s' (log @ [\<lparr>e_event = e, e_clock = event_clock s e, e_races = rs\<rparr>])"
proof -
  let ?e = "\<lparr>e_event = e, e_clock = event_clock s e, e_races = rs\<rparr>"
  let ?log = "log @ [?e]"
  have "arrives ?log x i"
    if i: "i < length ?log" "actor (ev ?log i) = Some u" "e_clock (?log ! i) < known_at s' x u" for x i u
  proof (cases "i < length log")
    case True
    with i have old: "actor (ev log i) = Some u" and src: "source s e x u (e_clock (log ! i))"
      using flow by (auto simp: nth_append flow_def)
    have known: "arrives log y i" if "e_clock (log ! i) < known_at s y u" for y
      using inv True old that by (auto simp: order_inv_def)
    show ?thesis
      using src unfolding source_def
    proof (elim disjE exE conjE)
      assume "e_clock (log ! i) < known_at s x u"
      then show ?thesis by (intro arrives_append known)
    next
      fix y assume "e_clock (log ! i) < known_at s y u" "\<forall>k. feeds k y \<longrightarrow> ordered_by k e" "feeds e x"
      then have "hb ?log i (length log)" by (intro hb_to_last [of log y]) (auto intro: known)
      with \<open>feeds e x\<close> show ?thesis by (intro arrivesI [of "length log"]) auto
    next
      assume "actor e = Some u" "feeds e x"
      with old True have "hb ?log i (length log)"
        by (intro program_order [of _ _ _ u]) (auto simp: nth_append)
      with \<open>feeds e x\<close> show ?thesis by (intro arrivesI [of "length log"]) auto
    qed
  next
    case False
    with i have u: "i = length log" "actor e = Some u" "clk s u < known_at s' x u"
      by (auto simp: nth_append event_clock_def)
    have "\<not> clk s u < known_at s y u" for y
      using inv by (auto simp: order_inv_def clocks_ok_def not_less)
    with u flow have "feeds e x" by (auto simp: flow_def source_def)
    with u show ?thesis by (simp add: arrives_last)
  qed
  then show ?thesis using flow by (auto simp: order_inv_def flow_def)
qed

lemma flow_same:
  assumes "clocks_ok s" and "\<And>x. vc_at s' x = vc_at s x" and "\<And>u. clk s' u = clk s u"
  shows "flow s e s'"
  using assms by (simp add: flow_def clocks_ok_def known_at_def source_def)

lemma clk_cong: "thread_at s' = thread_at s \<Longrightarrow> clk s' = clk s"
  by (simp add: clk_def fun_eq_iff)

lemma vc_at_cong:
  "thread_at s' = thread_at s \<Longrightarrow> locks s' = locks s \<Longrightarrow> happens_states s' = happens_states s \<Longrightarrow>
     vc_at s' x = vc_at s x"
  by (cases x) simp_all

text \<open>A carrier takes over what another one knows.\<close>

lemma flow_join:
  assumes ok: "clocks_ok s"
    and at: "\<And>x. vc_at s' x = (if x = X then vc_update (vc_at s X) (vc_at s Y) else vc_at s x)"
    and clk: "clk s' = clk s" and e: "feeds e X" "\<And>k. feeds k Y \<Longrightarrow> ordered_by k e"
  shows "flow s e s'"
proof -
  have sane: "vc_sane (vc_at s x)" for x using ok by (simp add: clocks_ok_def)
  have known: "known_at s' x u = (if x = X then max (known_at s X u) (known_at s Y u) else known_at s x u)" for x u
    by (simp add: known_at_def at known_vc_update sane)
  have "clocks_ok s'"
    using ok by (auto simp: clocks_ok_def at clk known vc_sane_update)
  moreover have "source s e x u c" if "c < known_at s' x u" for x u c
    using that e unfolding known source_def by (auto simp: less_max_iff_disj split: if_splits)
  ultimately show ?thesis by (simp add: flow_def)
qed

text \<open>A thread starts a new epoch and publishes it to another carrier.\<close>

lemma flow_publish:
  assumes ok: "clocks_ok s" and V: "V = hm_assign t vid (vc_at s (OfThread t))"
    and vid: "make_tid vid = t" "make_clock vid = clk s t + 1" "clk s t \<noteq> - 1"
    and at: "\<And>x. vc_at s' x = (if x = OfThread t then V else if x = Y then P else vc_at s x)"
    and P: "vc_sane P" "\<And>u. get_clock_by_tid P u \<le> max (known_at s Y u) (get_clock_by_tid V u)"
    and clk: "\<And>u. clk s' u = (if u = t then clk s t + 1 else clk s u)"
    and e: "actor e = Some t" "feeds e Y"
  shows "flow s e s'"
proof -
  have sane: "vc_sane (vc_at s x)" and le: "known_at s x u \<le> clk s u" for x u
    using ok by (simp_all add: clocks_ok_def)
  have V_known: "get_clock_by_tid V u = (if u = t then clk s t + 1 else known_at s (OfThread t) u)" for u
    by (simp add: V known_simps known_at_def vid)
  have "clk s t \<le> clk s t + 1" using vid(3) by (simp add: word_le_nat_alt unat_inc_no_wrap)
  then have le': "known_at s x u \<le> clk s' u" "get_clock_by_tid V u \<le> clk s' u" for x u
    using le [of x u] le [of "OfThread t" u] by (auto simp: clk V_known intro: order_trans)
  have known: "known_at s' x u = (if x = OfThread t then get_clock_by_tid V u
      else if x = Y then get_clock_by_tid P u else known_at s x u)" for x u
    by (simp add: known_at_def at)
  have fed: "feeds e (OfThread t)" "\<And>k. feeds k (OfThread t) \<Longrightarrow> ordered_by k e"
    using e(1) by (simp_all add: into_def into_ordered)
  have "get_clock_by_tid P u \<le> clk s' u" for u
    using P(2) [of u] le'(1) [of Y u] le'(2) [of u] by (simp add: le_max_iff_disj) (meson order_trans)
  moreover have "vc_sane V" unfolding V using sane vid(1) by (rule vc_sane_assign)
  ultimately have "clocks_ok s'"
    using P(1) le' sane by (simp add: clocks_ok_def known at)
  moreover have "source s e x u c" if c: "c < known_at s' x u" for x u c
  proof -
    have V_src: "source s e x u c" if "c < get_clock_by_tid V u" "feeds e x" for x
      using that e(1) fed(2) by (auto simp: source_def V_known split: if_splits)
    have "source s e Y u c" if "c < get_clock_by_tid P u"
      using less_le_trans [OF that P(2)] V_src [OF _ e(2)] by (auto simp: source_def less_max_iff_disj)
    with c V_src fed(1) show ?thesis by (auto simp: known source_def split: if_splits)
  qed
  ultimately show ?thesis by (simp add: flow_def)
qed

section \<open>The handlers\<close>

lemma flow_acquire:
  assumes ok: "objs_ok n s" "clocks_ok s" and t: "hm_find (objs s) tls = Some th"
    and step: "ft_acquire tls m rec wr s = Some s'"
  shows "flow s (EAcq (get_tid th) m) s'"
proof (cases "rec > 1")
  case True
  with step ok(2) show ?thesis by (auto simp: ft_acquire_def intro: flow_same)
next
  case False
  define s1 where "s1 = (case hm_find (locks s) m of None \<Rightarrow> s\<lparr>locks := hm_emplace m [] (locks s)\<rparr> | Some _ \<Rightarrow> s)"
  have s1: "threads s1 = threads s" "objs s1 = objs s" "happens_states s1 = happens_states s"
    and l: "(case hm_find (locks s1) x of None \<Rightarrow> [] | Some vc \<Rightarrow> vc) = vc_at s (OfLock x)" for x
    by (auto simp: s1_def find_simps split: option.split)
  let ?t = "th\<lparr>ts_vc := vc_update (ts_vc th) (vc_at s (OfLock m))\<rparr>"
  have s': "s' = s1\<lparr>objs := hm_assign tls ?t (objs s)\<rparr>"
    using step False t by (auto simp: ft_acquire_def Let_def s1_def [symmetric] s1 bind_eq_Some_conv)
  have at: "thread_at s' u = (if u = get_tid th then Some ?t else thread_at s u)" for u
    by (rule thread_at_assign [OF ok(1) t]) (simp_all add: s' s1)
  have th: "thread_at s (get_tid th) = Some th" by (rule thread_at_tid [OF ok(1) t])
  have rest: "locks s' = locks s1" "happens_states s' = happens_states s" by (simp_all add: s' s1)
  show ?thesis
  proof (rule flow_join [OF ok(2), of _ "OfThread (get_tid th)" "OfLock m"])
    show "vc_at s' x = (if x = OfThread (get_tid th)
        then vc_update (vc_at s (OfThread (get_tid th))) (vc_at s (OfLock m)) else vc_at s x)" for x
      using l by (cases x) (simp_all add: at th rest)
    show "clk s' = clk s" by (auto simp: clk_def at th fun_eq_iff)
  qed (auto simp: into_def ordered_by_def)
qed

lemma flow_happens_after:
  assumes ok: "objs_ok n s" "clocks_ok s" and t: "hm_find (objs s) tls = Some th"
    and step: "ft_happens_after tls i s = Some s'"
  shows "flow s (EWait (get_tid th) i) s'"
proof (cases "hm_find (happens_states s) i")
  case None
  with step have s': "s' = s\<lparr>happens_states := hm_emplace i [] (happens_states s)\<rparr>"
    by (simp add: ft_happens_after_def)
  have ta: "thread_at s' = thread_at s" by (rule thread_at_cong) (simp_all add: s')
  have rest: "locks s' = locks s" "happens_states s' = hm_emplace i [] (happens_states s)" by (simp_all add: s')
  show ?thesis
  proof (rule flow_same [OF ok(2)])
    show "vc_at s' x = vc_at s x" for x
      using None by (cases x) (auto simp: ta rest find_simps split: option.split)
  qed (simp add: clk_cong [OF ta])
next
  case (Some hvc)
  let ?t = "th\<lparr>ts_vc := vc_update (ts_vc th) hvc\<rparr>"
  have s': "s' = s\<lparr>objs := hm_assign tls ?t (objs s)\<rparr>"
    using step Some t by (simp add: ft_happens_after_def)
  have at: "thread_at s' u = (if u = get_tid th then Some ?t else thread_at s u)" for u
    by (rule thread_at_assign [OF ok(1) t]) (simp_all add: s')
  have th: "thread_at s (get_tid th) = Some th" by (rule thread_at_tid [OF ok(1) t])
  have rest: "locks s' = locks s" "happens_states s' = happens_states s" by (simp_all add: s')
  show ?thesis
  proof (rule flow_join [OF ok(2), of _ "OfThread (get_tid th)" "OfSignal i"])
    show "vc_at s' x = (if x = OfThread (get_tid th)
        then vc_update (vc_at s (OfThread (get_tid th))) (vc_at s (OfSignal i)) else vc_at s x)" for x
      using Some by (cases x) (simp_all add: at th rest)
    show "clk s' = clk s" by (auto simp: clk_def at th fun_eq_iff)
  qed (auto simp: into_def ordered_by_def)
qed

text \<open>What \<^verbatim>\<open>inc_vc\<close> publishes, for a thread that is alive.\<close>

lemma inc_vc_publish:
  assumes "objs_ok n s" and "hm_find (objs s) p = Some th" and "Suc n < 2 ^ 32"
  shows "ts_vc (inc_vc th) = hm_assign (get_tid th) (ts_id th + 1) (vc_at s (OfThread (get_tid th)))"
    and "make_tid (ts_id th + 1) = get_tid th" and "make_clock (ts_id th + 1) = clk s (get_tid th) + 1"
    and "clk s (get_tid th) \<noteq> - 1" and "get_clock (inc_vc th) = clk s (get_tid th) + 1"
    and "get_tid (inc_vc th) = get_tid th"
proof -
  have c: "get_clock th \<noteq> - 1" by (rule clock_not_max [OF assms])
  have th: "thread_at s (get_tid th) = Some th" by (rule thread_at_tid [OF assms(1,2)])
  have i: "make_tid (ts_id th + 1) = get_tid th" "make_clock (ts_id th + 1) = get_clock th + 1"
    using inc_id [of "ts_id th"] c by (simp_all add: get_tid_def get_clock_def)
  then show "make_tid (ts_id th + 1) = get_tid th" "make_clock (ts_id th + 1) = clk s (get_tid th) + 1"
    "clk s (get_tid th) \<noteq> - 1" using c by (simp_all add: clk_def th)
  show "ts_vc (inc_vc th) = hm_assign (get_tid th) (ts_id th + 1) (vc_at s (OfThread (get_tid th)))"
    using i(1) by (simp add: inc_vc_def Let_def th)
  show "get_clock (inc_vc th) = clk s (get_tid th) + 1" using inc_vc_clock [OF c] by (simp add: clk_def th)
  show "get_tid (inc_vc th) = get_tid th" using c by (rule inc_vc_tid)
qed

lemma flow_release:
  assumes ok: "objs_ok n s" "clocks_ok s" and t: "hm_find (objs s) tls = Some th" and n: "Suc n < 2 ^ 32"
    and step: "ft_release tls m wr s = Some s'"
  shows "flow s (ERel (get_tid th) m) s'"
proof (cases "hm_find (locks s) m")
  case None
  with step have s': "s' = s\<lparr>locks := hm_emplace m [] (locks s)\<rparr>" by (simp add: ft_release_def)
  have ta: "thread_at s' = thread_at s" by (rule thread_at_cong) (simp_all add: s')
  have rest: "locks s' = hm_emplace m [] (locks s)" "happens_states s' = happens_states s" by (simp_all add: s')
  show ?thesis
  proof (rule flow_same [OF ok(2)])
    show "vc_at s' x = vc_at s x" for x
      using None by (cases x) (auto simp: ta rest find_simps split: option.split)
  qed (simp add: clk_cong [OF ta])
next
  case (Some lvc)
  let ?V = "ts_vc (inc_vc th)"
  have s': "s' = s\<lparr>objs := hm_assign tls (inc_vc th) (objs s), locks := hm_assign m (vc_update lvc ?V) (locks s)\<rparr>"
    using step Some t by (simp add: ft_release_def Let_def)
  have at: "thread_at s' u = (if u = get_tid th then Some (inc_vc th) else thread_at s u)" for u
    by (rule thread_at_assign [OF ok(1) t]) (simp_all add: s')
  have rest: "locks s' = hm_assign m (vc_update lvc ?V) (locks s)" "happens_states s' = happens_states s"
    by (simp_all add: s')
  note pub = inc_vc_publish [OF ok(1) t n]
  have lvc: "lvc = vc_at s (OfLock m)" using Some by simp
  have sane: "vc_sane (vc_at s x)" for x using ok(2) by (simp add: clocks_ok_def)
  then have V: "vc_sane ?V" unfolding pub(1) using pub(2) by (rule vc_sane_assign)
  show ?thesis
  proof (rule flow_publish [OF ok(2) pub(1-4), of s' "OfLock m" "vc_update lvc ?V"])
    show "vc_at s' x = (if x = OfThread (get_tid th) then ?V else if x = OfLock m then vc_update lvc ?V else vc_at s x)" for x
      by (cases x) (simp_all add: at rest find_simps)
    show "vc_sane (vc_update lvc ?V)" using sane V by (simp add: lvc vc_sane_update del: vc_at.simps)
    show "get_clock_by_tid (vc_update lvc ?V) u \<le> max (known_at s (OfLock m) u) (get_clock_by_tid ?V u)" for u
      using sane V by (simp add: lvc known_vc_update known_at_def del: vc_at.simps)
    show "clk s' u = (if u = get_tid th then clk s (get_tid th) + 1 else clk s u)" for u
      by (simp add: clk_def [of s'] at pub(5)) (simp add: clk_def)
  qed simp_all
qed

lemma known_update_entry:
  assumes "vc_sane vc" and "make_tid vid = t"
  shows "get_clock_by_tid (vc_update_entry t vid vc) u \<le>
    max (get_clock_by_tid vc u) (if u = t then make_clock vid else 0)"
  using assms make_clock_mono [of _ vid]
  by (auto simp: vc_update_entry_def get_clock_by_tid_def vc_sane_def find_simps split: option.splits)

lemma flow_happens_before:
  assumes ok: "objs_ok n s" "clocks_ok s" and t: "hm_find (objs s) tls = Some th" and n: "Suc n < 2 ^ 32"
    and step: "ft_happens_before tls i s = Some s'"
  shows "flow s (ESignal (get_tid th) i) s'"
proof -
  let ?V = "ts_vc (inc_vc th)"
  let ?P = "vc_update_entry (get_tid th) (ts_id th + 1) (vc_at s (OfSignal i))"
  note pub = inc_vc_publish [OF ok(1) t n]
  have s': "s' = s\<lparr>objs := hm_assign tls (inc_vc th) (objs s), happens_states := hm_assign i ?P (happens_states s)\<rparr>"
    using step t pub(6) by (simp add: ft_happens_before_def Let_def return_own_id_def inc_vc_def)
  have at: "thread_at s' u = (if u = get_tid th then Some (inc_vc th) else thread_at s u)" for u
    by (rule thread_at_assign [OF ok(1) t]) (simp_all add: s')
  have rest: "happens_states s' = hm_assign i ?P (happens_states s)" "locks s' = locks s"
    by (simp_all add: s')
  have sane: "vc_sane (vc_at s x)" for x using ok(2) by (simp add: clocks_ok_def)
  have V: "get_clock_by_tid ?V (get_tid th) = make_clock (ts_id th + 1)" unfolding pub(1) by (simp add: known_simps)
  show ?thesis
  proof (rule flow_publish [OF ok(2) pub(1-4), of s' "OfSignal i" ?P])
    show "vc_at s' x = (if x = OfThread (get_tid th) then ?V else if x = OfSignal i then ?P else vc_at s x)" for x
      by (cases x) (simp_all add: at rest find_simps)
    show "vc_sane ?P" using sane pub(2) by (rule vc_sane_update_entry)
    show "get_clock_by_tid ?P u \<le> max (known_at s (OfSignal i) u) (get_clock_by_tid ?V u)" for u
      using known_update_entry [OF sane pub(2), of "OfSignal i" u] V
      by (auto simp: known_at_def le_max_iff_disj split: if_splits simp del: vc_at.simps)
    show "clk s' u = (if u = get_tid th then clk s (get_tid th) + 1 else clk s u)" for u
      by (simp add: clk_def [of s'] at pub(5)) (simp add: clk_def)
  qed simp_all
qed

text \<open>Steps in which knowledge is only lost or taken over.\<close>

lemma flow_mono:
  assumes "\<And>x. vc_sane (vc_at s' x)" and "\<And>x u. known_at s' x u \<le> clk s' u"
    and "\<And>x u. known_at s' x u \<le> known_at s x u \<or>
      (\<exists>y. known_at s' x u \<le> known_at s y u \<and> feeds e x \<and> (\<forall>k. feeds k y \<longrightarrow> ordered_by k e))"
  shows "flow s e s'"
proof -
  have "source s e x u c" if "c < known_at s' x u" for x u c
    using assms(3) [of x u] that unfolding source_def by (meson order_less_le_trans)
  with assms(1,2) show ?thesis by (simp add: flow_def clocks_ok_def)
qed

lemma flow_fork:
  assumes ok: "objs_ok n s" "clocks_ok s" and n: "Suc n < 2 ^ 32"
    and new: "hm_find (threads s) c = None" "hm_find (objs s) q = None"
    and step: "ft_fork p c q s = Some (s', r)"
  shows "flow s (EFork p c) s'"
proof (cases "hm_find (threads s) p")
  case None
  have s': "s' = s\<lparr>threads := hm_emplace c q (threads s), objs := hm_assign q (new_thread_state c None) (objs s)\<rparr>"
    using step None new(1) by (auto simp: ft_fork_def create_thread_def)
  have at: "thread_at s' u = (if u = c then Some (new_thread_state c None) else thread_at s u)" for u
    by (rule thread_at_new [OF ok(1) new]) (simp_all add: s')
  have rest: "locks s' = locks s" "happens_states s' = happens_states s" by (simp_all add: s')
  have vc: "vc_at s' x = (if x = OfThread c then hm_emplace c (make_id c) [] else vc_at s x)" for x
    by (cases x) (simp_all add: at rest new_thread_state_def Let_def)
  have known: "known_at s' x u = (if x = OfThread c then 0 else known_at s x u)" for x u
    by (auto simp: known_at_def vc get_clock_by_tid_def find_simps)
  have clk: "clk s' u = (if u = c then 0 else clk s u)" for u by (simp add: clk_def at)
  have "clk s c = 0" using new(1) by (simp add: clk_def thread_at_def)
  then have clk': "clk s' = clk s" by (auto simp: clk fun_eq_iff)
  show ?thesis
  proof (rule flow_mono)
    show "vc_sane (vc_at s' x)" for x
      using ok(2) by (auto simp: vc clocks_ok_def vc_sane_def find_simps wf_intros split: if_splits)
    show "known_at s' x u \<le> clk s' u" for x u using ok(2) by (simp add: known clk' clocks_ok_def)
  qed (simp add: known)
next
  case (Some pp)
  then obtain th where th: "hm_find (objs s) pp = Some th" "get_tid th = p" by (rule objs_ok_thread [OF ok(1)])
  note pub = inc_vc_publish [OF ok(1) th(1) n, unfolded th(2)]
  let ?V = "ts_vc (inc_vc th)"
  let ?s1 = "s\<lparr>objs := hm_assign pp (inc_vc th) (objs s)\<rparr>"
  have s': "s' = ?s1\<lparr>threads := hm_emplace c q (threads s),
      objs := hm_assign q (new_thread_state c (Some (inc_vc th))) (objs ?s1)\<rparr>"
    using step Some new(1) th(1) by (auto simp: ft_fork_def create_thread_def Let_def)
  have at1: "thread_at ?s1 u = (if u = p then Some (inc_vc th) else thread_at s u)" for u
    using thread_at_assign [OF ok(1) th(1), of ?s1 "inc_vc th" u] th(2) by simp
  have ok1: "objs_ok (Suc n) ?s1" by (rule objs_ok_inc [OF ok(1) th(1) n]) simp_all
  have q1: "hm_find (objs ?s1) q = None" using new(2) th(1) by (auto simp: find_simps)
  have at: "thread_at s' u = (if u = c then Some (new_thread_state c (Some (inc_vc th))) else thread_at ?s1 u)" for u
    by (rule thread_at_new [OF ok1 _ q1]) (simp_all add: s' new(1))
  have rest: "locks s' = locks s" "happens_states s' = happens_states s" by (simp_all add: s')
  have cp: "c \<noteq> p" using new(1) Some by auto
  have c0: "clk s c = 0" using new(1) by (simp add: clk_def thread_at_def)
  have sane: "vc_sane (vc_at s x)" for x using ok(2) by (simp add: clocks_ok_def)
  show ?thesis
  proof (rule flow_publish [OF ok(2) pub(1-4), of s' "OfThread c" ?V])
    show "vc_at s' x = (if x = OfThread p then ?V else if x = OfThread c then ?V else vc_at s x)" for x
      using cp by (cases x) (simp_all add: at at1 rest new_thread_state_def Let_def)
    show "vc_sane ?V" unfolding pub(1) using sane pub(2) by (rule vc_sane_assign)
    show "clk s' u = (if u = p then clk s p + 1 else clk s u)" for u
      using cp c0 by (simp add: clk_def [of s'] at at1 pub(5)) (simp add: clk_def)
  qed (simp_all add: into_def)
qed

text \<open>Erasing a thread and forgetting it everywhere.\<close>

lemma forget_effect:
  assumes ok: "objs_ok n s" and sane: "\<And>x. vc_sane (vc_at s x)"
    and s'_def: "s' = cleanup c (erase_thread c s)"
  shows "vc_sane (vc_at s' x)"
    and "known_at s' x u = (if u = c \<or> x = OfThread c then 0 else known_at s x u)"
    and "clk s' u = (if u = c then 0 else clk s u)"
    and "thread_at s' u = (if u = c then None else map_option (\<lambda>t. t\<lparr>ts_vc := delete_vc c (ts_vc t)\<rparr>) (thread_at s u))"
proof -
  have at: "thread_at s' u =
      (if u = c then None else map_option (\<lambda>t. t\<lparr>ts_vc := delete_vc c (ts_vc t)\<rparr>) (thread_at s u))" for u
    unfolding s'_def thread_at_cleanup [OF objs_ok_erase [OF ok]] thread_at_erase [OF ok] by simp
  then show "thread_at s' u =
      (if u = c then None else map_option (\<lambda>t. t\<lparr>ts_vc := delete_vc c (ts_vc t)\<rparr>) (thread_at s u))" .
  have e: "locks (erase_thread c s) = locks s" "happens_states (erase_thread c s) = happens_states s"
    by (simp_all add: erase_thread_def split: option.split)
  then have rest: "locks s' = hm_map (\<lambda>_. delete_vc c) (locks s)"
    "happens_states s' = hm_map (\<lambda>_. delete_vc c) (happens_states s)"
    by (simp_all add: s'_def cleanup_def)
  have vc: "vc_at s' x = (if x = OfThread c then [] else delete_vc c (vc_at s x))" for x
    by (cases x) (auto simp: at rest find_simps delete_vc_def hm_erase_def split: option.split)
  show "vc_sane (vc_at s' x)" using sane by (simp add: vc vc_sane_delete)
  show "known_at s' x u = (if u = c \<or> x = OfThread c then 0 else known_at s x u)"
    using vc_sane_wf [OF sane] by (auto simp: known_at_def vc known_simps)
  show "clk s' u = (if u = c then 0 else clk s u)"
    by (auto simp: clk_def at split: option.split)
qed

lemma flow_finish:
  assumes "objs_ok n s" and "clocks_ok s"
  shows "flow s e (ft_finish c s)"
proof -
  have sane: "vc_sane (vc_at s x)" for x using assms(2) by (simp add: clocks_ok_def)
  note f = forget_effect [OF assms(1) sane refl, of c]
  show ?thesis
    unfolding ft_finish_def by (rule flow_mono) (use f assms(2) in \<open>auto simp: clocks_ok_def\<close>)
qed

lemma flow_join_thread:
  assumes ok: "objs_ok n s" "clocks_ok s" and n: "Suc n < 2 ^ 32" and step: "ft_join p c s = Some s'"
  shows "flow s (EJoin p c) s'"
proof (cases "hm_find (threads s) c = None \<or> hm_find (threads s) p = None")
  case True
  with step have "s' = s" by (auto simp: ft_join_def split: option.splits)
  with ok(2) show ?thesis by (simp add: flow_same)
next
  case False
  then obtain cp pp where f: "hm_find (threads s) c = Some cp" "hm_find (threads s) p = Some pp" by auto
  obtain del par where d: "hm_find (objs s) cp = Some del"
    and par: "hm_find (objs (s\<lparr>objs := hm_assign cp (inc_vc del) (objs s)\<rparr>)) pp = Some par"
    and s': "s' = cleanup c (erase_thread c (s\<lparr>objs := hm_assign pp
      (par\<lparr>ts_vc := vc_update (ts_vc par) (ts_vc (inc_vc del))\<rparr>) (hm_assign cp (inc_vc del) (objs s))\<rparr>))"
    using step f by (auto simp: ft_join_def Let_def bind_eq_Some_conv)
  let ?V = "ts_vc (inc_vc del)"
  let ?par = "par\<lparr>ts_vc := vc_update (ts_vc par) ?V\<rparr>"
  define s1 where "s1 = s\<lparr>objs := hm_assign cp (inc_vc del) (objs s)\<rparr>"
  define s2 where "s2 = s1\<lparr>objs := hm_assign pp ?par (objs s1)\<rparr>"
  have s1: "threads s1 = threads s" "objs s1 = hm_assign cp (inc_vc del) (objs s)" by (simp_all add: s1_def)
  have s2: "threads s2 = threads s1" "objs s2 = hm_assign pp ?par (objs s1)" by (simp_all add: s2_def)
  have rest: "locks s2 = locks s" "happens_states s2 = happens_states s" by (simp_all add: s1_def s2_def)
  note par = par [folded s1_def]
  have dt: "get_tid del = c" by (rule thread_at_inj [OF ok(1) f(1) d])
  note pub = inc_vc_publish [OF ok(1) d n, unfolded dt]
  have ok1: "objs_ok (Suc n) s1" by (rule objs_ok_inc [OF ok(1) d n s1])
  have pt: "get_tid par = p" by (rule thread_at_inj [OF ok1 _ par]) (simp add: f(2) s1)
  have sane: "vc_sane (vc_at s x)" for x using ok(2) by (simp add: clocks_ok_def)
  have V: "vc_sane ?V" unfolding pub(1) using sane pub(2) by (rule vc_sane_assign)
  have at1: "thread_at s1 u = (if u = c then Some (inc_vc del) else thread_at s u)" for u
    using thread_at_assign [OF ok(1) d s1, of u] dt by simp
  have at2: "thread_at s2 u = (if u = p then Some ?par else thread_at s1 u)" for u
    using thread_at_assign [OF ok1 par s2, of u] pt by simp
  have par_at: "thread_at s1 p = Some par" using thread_at_tid [OF ok1 par] pt by simp
  have vc2: "vc_at s2 x = (if x = OfThread p then vc_update (ts_vc par) ?V
      else if x = OfThread c then ?V else vc_at s x)" for x
    by (cases x) (simp_all add: at2 rest, simp_all add: at1)
  have par_vc: "ts_vc par = (if p = c then ?V else vc_at s (OfThread p))"
    using par_at by (auto simp: at1 split: if_splits)
  have par_ok: "thread_ok par" "vc_sane (ts_vc par)"
    using objs_okD(2) [OF ok1 par] sane V by (simp_all add: par_vc del: vc_at.simps)
  have ok2: "objs_ok (Suc n) s2"
    using objs_okD(3) [OF ok1 par] par_ok(1)
    by (intro objs_ok_assign [OF ok1 par, of ?par]) (simp_all add: s2 thread_ok_def vc_update_wf)
  have sane2: "vc_sane (vc_at s2 x)" for x
    using sane V par_ok(2) by (simp add: vc2 vc_sane_update del: vc_at.simps)
  have V_known: "get_clock_by_tid ?V u = known_at s (OfThread c) u" if "u \<noteq> c" for u
    using that unfolding pub(1) by (simp add: known_simps known_at_def)
  have known2: "known_at s2 x u = (if x = OfThread p then max (known_at s (OfThread p) u) (known_at s (OfThread c) u)
      else known_at s x u)" if "u \<noteq> c" "x \<noteq> OfThread c" for x u
    using that V_known [OF that(1)] V par_ok(2)
    by (auto simp: known_at_def vc2 known_vc_update par_vc simp del: vc_at.simps)
  have clk2: "clk s2 u = clk s u" if "u \<noteq> c" for u
    using that par_at by (simp add: clk_def at2) (auto simp: at1)
  note f = forget_effect [OF ok2 sane2, of s' c]
  have s'2: "s' = cleanup c (erase_thread c s2)" by (simp add: s' s1_def s2_def)
  have known: "known_at s' x u = (if u = c \<or> x = OfThread c then 0
      else if x = OfThread p then max (known_at s (OfThread p) u) (known_at s (OfThread c) u) else known_at s x u)" for x u
    using f(2) [OF s'2] known2 by simp
  have le: "known_at s x u \<le> clk s u" for x u using ok(2) by (simp add: clocks_ok_def)
  show ?thesis
  proof (rule flow_mono)
    show "vc_sane (vc_at s' x)" for x by (rule f(1) [OF s'2])
    show "known_at s' x u \<le> clk s' u" for x u
      using le by (simp add: f(3) [OF s'2] known clk2)
    show "known_at s' x u \<le> known_at s x u \<or> (\<exists>y. known_at s' x u \<le> known_at s y u \<and>
        feeds (EJoin p c) x \<and> (\<forall>k. feeds k y \<longrightarrow> ordered_by k (EJoin p c)))" for x u
    proof (cases "u = c \<or> x = OfThread c \<or> x \<noteq> OfThread p")
      case True
      then show ?thesis by (auto simp: known)
    next
      case False
      then have x: "x = OfThread p" "feeds (EJoin p c) x" by (simp_all add: into_def)
      have y: "feeds k (OfThread c) \<Longrightarrow> ordered_by k (EJoin p c)" for k
        by (simp add: into_ordered)
      show ?thesis
      proof (cases "known_at s (OfThread c) u \<le> known_at s (OfThread p) u")
        case True
        with False x show ?thesis by (simp add: known max_def)
      next
        case less: False
        with False x y show ?thesis
          by (intro disjI2 exI [of _ "OfThread c"]) (simp add: known max_def)
      qed
    qed
  qed
qed

end
