(* ===== verification/RaceCoverage.thy ===== *)
theory RaceCoverage
  imports FasttrackOrder
begin

text \<open>
  No unordered access goes unnoticed: the runs of the detector with their log, the invariants that
  tie the recorded epochs of a variable to the accesses of the log, and the proof that an access
  is ordered after the last write to its address or a race of the two threads was reported.
\<close>

section \<open>Logged runs\<close>

definition tid_of :: "ft_state \<Rightarrow> addr \<Rightarrow> u32" where
  "tid_of s tls = (case hm_find (objs s) tls of None \<Rightarrow> 0 | Some th \<Rightarrow> get_tid th)"

fun event_of :: "detector_call \<Rightarrow> ft_state \<Rightarrow> event" where
  "event_of (DAcquire tls m r w) s = EAcq (tid_of s tls) m"
| "event_of (DRelease tls m w) s = ERel (tid_of s tls) m"
| "event_of (DHappensBefore tls i) s = ESignal (tid_of s tls) i"
| "event_of (DHappensAfter tls i) s = EWait (tid_of s tls) i"
| "event_of (DRead tls pc a n) s = ERead (tid_of s tls) a"
| "event_of (DWrite tls pc a n) s = EWrite (tid_of s tls) a"
| "event_of (DDeallocate tls a) s = EFree a (case hm_find (allocs s) a of None \<Rightarrow> 0 | Some n \<Rightarrow> n)"
| "event_of (DFork p c q) s = EFork p c"
| "event_of (DJoin p c) s = EJoin p c"
| "event_of _ s = EOther"

definition entry_of :: "detector_call \<Rightarrow> ft_state \<Rightarrow> race list \<Rightarrow> entry" where
  "entry_of c s rs = \<lparr>e_event = event_of c s, e_clock = event_clock s (event_of c s), e_races = rs\<rparr>"

text \<open>
  The premises of \<^verbatim>\<open>Detector.h\<close>: handles come from a fork, no thread is forked twice,
  function exits match entries. Thread ids are not zero and new objects have fresh addresses.
\<close>

fun call_valid :: "detector_call \<Rightarrow> ft_state \<Rightarrow> log \<Rightarrow> bool" where
  "call_valid (DFork p c q) s log \<longleftrightarrow> c \<noteq> 0 \<and> hm_find (objs s) q = None \<and>
     (\<forall>e \<in> set log. forked (e_event e) \<noteq> Some c)"
| "call_valid c s log \<longleftrightarrow> handle_ok c s"

fun logged_run :: "detector_call list \<Rightarrow> ft_state \<Rightarrow> log \<Rightarrow> (ft_state \<times> log) option" where
  "logged_run [] s log = Some (s, log)"
| "logged_run (c # cs) s log =
     (if call_valid c s log
      then (case ft_step c s of None \<Rightarrow> None | Some (s', rs) \<Rightarrow> logged_run cs s' (log @ [entry_of c s rs]))
      else None)"

section \<open>Every step is a flow of knowledge\<close>

lemma flow_depot:
  assumes ok: "objs_ok n s" "clocks_ok s" and t: "hm_find (objs s) tls = Some th"
    and s': "threads s' = threads s" "objs s' = hm_assign tls (th\<lparr>ts_depot := d\<rparr>) (objs s)"
      "locks s' = locks s" "happens_states s' = happens_states s"
  shows "flow s e s'"
proof -
  have at: "thread_at s' u = (if u = get_tid th then Some (th\<lparr>ts_depot := d\<rparr>) else thread_at s u)" for u
    by (rule thread_at_assign [OF ok(1) t s'(1,2)])
  have th: "thread_at s (get_tid th) = Some th" by (rule thread_at_tid [OF ok(1) t])
  show ?thesis
  proof (rule flow_same [OF ok(2)])
    show "vc_at s' x = vc_at s x" for x by (cases x) (simp_all add: at th s'(3,4))
    show "clk s' u = clk s u" for u by (simp add: clk_def at th)
  qed
qed

lemma flow_frame:
  assumes "clocks_ok s" and "threads s' = threads s" and "objs s' = objs s"
    and "locks s' = locks s" and "happens_states s' = happens_states s"
  shows "flow s e s'"
  using assms by (intro flow_same vc_at_cong fun_cong [OF clk_cong] thread_at_cong)

text \<open>What an access does to the tables.\<close>

lemma access_effect:
  assumes inv: "ft_inv n s"
    and step: "(if wr then ft_write tls pc a sz s else ft_read tls pc a sz s) = Some (s', rs)"
  obtains th t v s2 s3 v' where "hm_find (objs s) tls = Some th"
    and "t = th\<lparr>ts_depot := set_read_write a pc (ts_depot th)\<rparr>"
    and "v = (case hm_find (vars s) a of Some v \<Rightarrow> v | None \<Rightarrow> new_var_state (ucast sz))"
    and "objs_ok n s2" and "threads s2 = threads s" and "objs s2 = hm_assign tls t (objs s)"
    and "(if wr then write_var s2 t v a else read_var s2 t v a) = Some (s3, v', rs)"
    and "\<And>b. hm_find (vars s') b = (if b = a then Some v' else hm_find (vars s) b)"
    and "threads s' = threads s" and "objs s' = hm_assign tls t (objs s)"
    and "locks s' = locks s" and "happens_states s' = happens_states s"
proof -
  obtain s1 t s2 v s3 v' where acc: "log_access tls pc a s = Some (s1, t)" "find_or_create_var a sz s1 = (s2, v)"
    and var: "(if wr then write_var s2 t v a else read_var s2 t v a) = Some (s3, v', rs)"
    and s': "s' = s3\<lparr>vars := hm_assign a v' (vars s3)\<rparr>"
  proof (cases wr)
    case True
    with step have "ft_write tls pc a sz s = Some (s', rs)" by simp
    from this [THEN ft_writeE] show ?thesis using that True by metis
  next
    case False
    with step have "ft_read tls pc a sz s = Some (s', rs)" by simp
    from this [THEN ft_readE] show ?thesis using that False by metis
  qed
  note l = log_access_inv [OF inv acc(1)]
  note f = find_or_create_var_inv [OF l(1) acc(2)]
  obtain th where th: "hm_find (objs s) tls = Some th" "t = th\<lparr>ts_depot := set_read_write a pc (ts_depot th)\<rparr>"
    using l(3) by blast
  obtain g where s3: "s3 = bump g s2"
    using var read_var_result(1) write_var_result(1) by (cases wr) (simp_all, metis+)
  have s1: "s1 = s\<lparr>objs := hm_assign tls t (objs s)\<rparr>" by (rule l(4))
  have s2: "locks s2 = locks s1" "happens_states s2 = happens_states s1"
    using acc(2) by (auto simp: find_or_create_var_def Let_def split: option.splits)
  show thesis
  proof (rule that [OF th])
    show "v = (case hm_find (vars s) a of Some v \<Rightarrow> v | None \<Rightarrow> new_var_state (ucast sz))"
      using f(7) by (simp add: s1)
    show "objs_ok n s2" using f(1) by (simp add: ft_inv_def)
    show "(if wr then write_var s2 t v a else read_var s2 t v a) = Some (s3, v', rs)" by (rule var)
    show "hm_find (vars s') b = (if b = a then Some v' else hm_find (vars s) b)" for b
      using f(6) [of b] by (simp add: s' s3 find_simps s1)
  qed (simp_all add: s' s3 f(4,5) s1 s2)
qed

lemma flow_access:
  assumes "ft_inv n s" and "clocks_ok s"
    and "(if wr then ft_write tls pc a sz s else ft_read tls pc a sz s) = Some (s', rs)"
  shows "flow s e s'"
proof -
  have ok: "objs_ok n s" using assms(1) by (simp add: ft_inv_def)
  show ?thesis
    by (rule access_effect [OF assms(1,3)]) (rule flow_depot [OF ok assms(2)], simp_all)
qed

lemma flow_step:
  assumes inv: "ft_inv n s" "Suc n < 2 ^ 32" and ok: "clocks_ok s" and valid: "call_valid c s log"
    and fresh: "\<And>p u q. c = DFork p u q \<Longrightarrow> hm_find (threads s) u = None"
    and step: "ft_step c s = Some (s', rs)"
  shows "flow s (event_of c s) s'"
proof -
  have o: "objs_ok n s" using inv(1) by (simp add: ft_inv_def)
  note sync = flow_acquire [OF o ok] flow_release [OF o ok _ inv(2)] flow_happens_before [OF o ok _ inv(2)]
    flow_happens_after [OF o ok]
  show ?thesis
  proof (cases c)
    case (DRead tls pc a n)
    with step show ?thesis using flow_access [OF inv(1) ok, of False] by simp
  next
    case (DWrite tls pc a n)
    with step show ?thesis using flow_access [OF inv(1) ok, of True] by simp
  next
    case (DFuncEnter tls pc)
    with step obtain th where "hm_find (objs s) tls = Some th"
        "s' = s\<lparr>objs := hm_assign tls (th\<lparr>ts_depot := push_stack_element pc (ts_depot th)\<rparr>) (objs s)\<rparr>"
      by (auto simp: ft_func_enter_def bind_eq_Some_conv)
    then show ?thesis by (intro flow_depot [OF o ok]) simp_all
  next
    case (DFuncExit tls)
    with step obtain th d where "hm_find (objs s) tls = Some th"
        "s' = s\<lparr>objs := hm_assign tls (th\<lparr>ts_depot := d\<rparr>) (objs s)\<rparr>"
      by (auto simp: ft_func_exit_def bind_eq_Some_conv)
    then show ?thesis by (intro flow_depot [OF o ok]) simp_all
  next
    case (DFork p u q)
    with step valid fresh show ?thesis by (auto intro: flow_fork [OF o ok inv(2)])
  next
    case (DJoin p u)
    with step show ?thesis by (auto intro: flow_join_thread [OF o ok inv(2)])
  next
    case (DFinish tls u)
    with step show ?thesis using flow_finish [OF o ok] by auto
  next
    case (DAllocate tls pc a sz)
    with step have "s' = ft_allocate a sz s" by simp
    then show ?thesis by (intro flow_frame [OF ok]) (simp_all add: ft_allocate_def)
  next
    case (DDeallocate tls a)
    with step have "s' = ft_deallocate a s" by simp
    then show ?thesis by (intro flow_frame [OF ok]) simp_all
  qed (use step valid ok in \<open>auto simp: tid_of_def intro: sync flow_frame\<close>)
qed

section \<open>Threads only appear by a fork, and their clocks only grow\<close>

definition alive_mono :: "ft_state \<Rightarrow> event \<Rightarrow> ft_state \<Rightarrow> bool" where
  "alive_mono s e s' \<longleftrightarrow> (\<forall>u. thread_at s' u \<noteq> None \<longrightarrow>
     thread_at s u \<noteq> None \<and> clk s u \<le> clk s' u \<or> forked e = Some u)"

lemma alive_frame: "threads s' = threads s \<Longrightarrow> objs s' = objs s \<Longrightarrow> alive_mono s e s'"
  using thread_at_cong [of s' s] by (simp add: alive_mono_def clk_def)

lemma alive_assign:
  assumes "objs_ok n s" and "hm_find (objs s) p = Some t" and "get_clock t \<le> get_clock t'"
    and "threads s' = threads s" and "objs s' = hm_assign p t' (objs s)"
  shows "alive_mono s e s'"
  using thread_at_assign [OF assms(1,2,4,5)] thread_at_tid [OF assms(1,2)] assms(3)
  by (auto simp: alive_mono_def clk_def split: option.split)

lemma alive_depot:
  "objs_ok n s \<Longrightarrow> hm_find (objs s) p = Some t \<Longrightarrow> threads s' = threads s \<Longrightarrow>
     objs s' = hm_assign p (t\<lparr>ts_depot := d\<rparr>) (objs s) \<Longrightarrow> alive_mono s e s'"
  by (erule (1) alive_assign [OF _ _ eq_refl [OF get_clock_depot_update [symmetric]]])

lemma alive_inc:
  assumes "objs_ok n s" and "hm_find (objs s) p = Some t" and "Suc n < 2 ^ 32"
    and "threads s' = threads s" and "objs s' = hm_assign p (inc_vc t) (objs s)"
  shows "alive_mono s e s'"
proof (rule alive_assign [OF assms(1,2) _ assms(4,5)])
  have "get_clock t \<noteq> - 1" by (rule clock_not_max [OF assms(1-3)])
  then show "get_clock t \<le> get_clock (inc_vc t)"
    by (simp add: inc_vc_clock word_le_nat_alt unat_inc_no_wrap)
qed

lemma alive_trans: "alive_mono s EOther s1 \<Longrightarrow> alive_mono s1 e s2 \<Longrightarrow> alive_mono s e s2"
  unfolding alive_mono_def by (metis forked.simps(10) option.distinct(1) order_trans)

lemma alive_forget:
  assumes "objs_ok n s"
  shows "alive_mono s e (cleanup c (erase_thread c s))"
proof -
  have "thread_at (cleanup c (erase_thread c s)) u =
      (if u = c then None else map_option (\<lambda>t. t\<lparr>ts_vc := delete_vc c (ts_vc t)\<rparr>) (thread_at s u))" for u
    unfolding thread_at_cleanup [OF objs_ok_erase [OF assms]] thread_at_erase [OF assms] by simp
  then show ?thesis by (auto simp: alive_mono_def clk_def)
qed

lemma alive_new:
  assumes "objs_ok n s" and "hm_find (threads s) c = None" and "hm_find (objs s) q = None"
    and "create_thread c par q s = (s', r)"
  shows "alive_mono s (EFork p c) s'"
proof -
  have "thread_at s' u = (if u = c then Some (new_thread_state c par) else thread_at s u)" for u
    using assms(2,4) by (intro thread_at_new [OF assms(1-3)]) (auto simp: create_thread_def)
  then show ?thesis by (simp add: alive_mono_def clk_def)
qed

lemma alive_fork:
  assumes ok: "objs_ok n s" and n: "Suc n < 2 ^ 32"
    and new: "hm_find (threads s) c = None" "hm_find (objs s) q = None"
    and step: "ft_fork p c q s = Some (s', r)"
  shows "alive_mono s (EFork p c) s'"
proof (cases "hm_find (threads s) p")
  case None
  with step have "create_thread c None q s = (s', r)" by (simp add: ft_fork_def)
  then show ?thesis by (rule alive_new [OF ok new])
next
  case (Some pp)
  then obtain th where th: "hm_find (objs s) pp = Some th" by (rule objs_ok_thread [OF ok])
  define s1 where "s1 = s\<lparr>objs := hm_assign pp (inc_vc th) (objs s)\<rparr>"
  have s1: "threads s1 = threads s" "objs s1 = hm_assign pp (inc_vc th) (objs s)" by (simp_all add: s1_def)
  have "create_thread c (Some (inc_vc th)) q s1 = (s', r)"
    using step Some th by (simp add: ft_fork_def Let_def s1_def)
  moreover have "hm_find (objs s1) q = None" using new(2) th by (auto simp: s1 find_simps)
  moreover have "objs_ok (Suc n) s1" by (rule objs_ok_inc [OF ok th n s1])
  ultimately have "alive_mono s1 (EFork p c) s'" using new(1) by (intro alive_new) (simp_all add: s1)
  then show ?thesis by (rule alive_trans [OF alive_inc [OF ok th n s1]])
qed

lemma alive_join:
  assumes ok: "objs_ok n s" and n: "Suc n < 2 ^ 32" and step: "ft_join p c s = Some s'"
  shows "alive_mono s e s'"
proof (cases "hm_find (threads s) c = None \<or> hm_find (threads s) p = None")
  case True
  with step have "s' = s" by (auto simp: ft_join_def split: option.splits)
  then show ?thesis by (simp add: alive_frame)
next
  case False
  then obtain cp pp where f: "hm_find (threads s) c = Some cp" "hm_find (threads s) p = Some pp" by auto
  obtain del par where d: "hm_find (objs s) cp = Some del"
    and par: "hm_find (objs (s\<lparr>objs := hm_assign cp (inc_vc del) (objs s)\<rparr>)) pp = Some par"
    and s': "s' = cleanup c (erase_thread c (s\<lparr>objs := hm_assign pp
      (par\<lparr>ts_vc := vc_update (ts_vc par) (ts_vc (inc_vc del))\<rparr>) (hm_assign cp (inc_vc del) (objs s))\<rparr>))"
    using step f by (auto simp: ft_join_def Let_def bind_eq_Some_conv)
  define s1 where "s1 = s\<lparr>objs := hm_assign cp (inc_vc del) (objs s)\<rparr>"
  define s2 where "s2 = s1\<lparr>objs := hm_assign pp (par\<lparr>ts_vc := vc_update (ts_vc par) (ts_vc (inc_vc del))\<rparr>) (objs s1)\<rparr>"
  have s1: "threads s1 = threads s" "objs s1 = hm_assign cp (inc_vc del) (objs s)" by (simp_all add: s1_def)
  have ok1: "objs_ok (Suc n) s1" by (rule objs_ok_inc [OF ok d n s1])
  note par = par [folded s1_def]
  have ok2: "objs_ok (Suc n) s2"
    using objs_okD(2,3) [OF ok1 par] objs_okD(2) [OF ok d]
    by (intro objs_ok_assign [OF ok1 par, of "par\<lparr>ts_vc := vc_update (ts_vc par) (ts_vc (inc_vc del))\<rparr>"])
      (simp_all add: s2_def thread_ok_def vc_update_wf)
  have "alive_mono s EOther s1" by (rule alive_inc [OF ok d n s1])
  moreover have "alive_mono s1 EOther s2" by (rule alive_assign [OF ok1 par]) (simp_all add: s2_def)
  moreover have "alive_mono s2 e s'" using alive_forget [OF ok2] by (simp add: s' s2_def s1_def)
  ultimately show ?thesis by (blast intro: alive_trans)
qed

lemma alive_access:
  assumes "ft_inv n s"
    and "(if wr then ft_write tls pc a sz s else ft_read tls pc a sz s) = Some (s', rs)"
  shows "alive_mono s e s'"
proof -
  have ok: "objs_ok n s" using assms(1) by (simp add: ft_inv_def)
  show ?thesis
  proof (rule access_effect [OF assms])
    fix th t
    assume th: "hm_find (objs s) tls = Some th" and t: "t = th\<lparr>ts_depot := set_read_write a pc (ts_depot th)\<rparr>"
      and s': "threads s' = threads s" "objs s' = hm_assign tls t (objs s)"
    have "get_clock t = get_clock th" by (simp add: t)
    then show "alive_mono s e s'" by (intro alive_assign [OF ok th _ s']) simp
  qed
qed

lemma alive_step:
  assumes inv: "ft_inv n s" "Suc n < 2 ^ 32" and valid: "call_valid c s log"
    and fresh: "\<And>p u q. c = DFork p u q \<Longrightarrow> hm_find (threads s) u = None"
    and step: "ft_step c s = Some (s', rs)"
  shows "alive_mono s (event_of c s) s'"
proof -
  have o: "objs_ok n s" using inv(1) by (simp add: ft_inv_def)
  show ?thesis
  proof (cases c)
    case (DAcquire tls m r w)
    then obtain t where "hm_find (objs s) tls = Some t" using valid by auto
    let ?t = "t\<lparr>ts_vc := vc_update (ts_vc t) (case hm_find (locks s) m of None \<Rightarrow> [] | Some vc \<Rightarrow> vc)\<rparr>"
    have "s' = s \<or> threads s' = threads s \<and> objs s' = hm_assign tls ?t (objs s)"
      using DAcquire step \<open>hm_find (objs s) tls = Some t\<close>
      by (cases "hm_find (locks s) m") (auto simp: ft_acquire_def Let_def bind_eq_Some_conv split: if_splits)
    then have "s' = s \<or> (\<exists>t'. get_clock t' = get_clock t \<and> threads s' = threads s \<and>
        objs s' = hm_assign tls t' (objs s))"
      using get_clock_vc_update by blast
    then show ?thesis
    proof (elim disjE exE conjE)
      fix t' assume c: "get_clock t' = get_clock t" and s': "threads s' = threads s" "objs s' = hm_assign tls t' (objs s)"
      show ?thesis by (rule alive_assign [OF o \<open>hm_find (objs s) tls = Some t\<close> _ s']) (simp add: c)
    qed (simp add: alive_frame)
  next
    case (DRelease tls m w)
    with step have "ft_release tls m w s = Some s'" by simp
    then have "threads s' = threads s \<and> objs s' = objs s \<or>
        (\<exists>t. hm_find (objs s) tls = Some t \<and> threads s' = threads s \<and> objs s' = hm_assign tls (inc_vc t) (objs s))"
      by (auto simp: ft_release_def Let_def bind_eq_Some_conv split: option.splits)
    then show ?thesis by (elim disjE exE conjE) (auto intro: alive_frame alive_inc [OF o _ inv(2)])
  next
    case (DHappensBefore tls i)
    with step show ?thesis
      by (auto simp: ft_happens_before_def Let_def bind_eq_Some_conv intro!: alive_inc [OF o _ inv(2)])
  next
    case (DHappensAfter tls i)
    with step have "ft_happens_after tls i s = Some s'" by simp
    then have "threads s' = threads s \<and> objs s' = objs s \<or>
        (\<exists>t vc. hm_find (objs s) tls = Some t \<and> threads s' = threads s \<and> objs s' = hm_assign tls (t\<lparr>ts_vc := vc\<rparr>) (objs s))"
      by (auto simp: ft_happens_after_def bind_eq_Some_conv split: option.splits)
    then show ?thesis
      by (elim disjE exE conjE) (auto intro: alive_frame alive_assign [OF o _ eq_refl [OF get_clock_vc_update [symmetric]]])
  next
    case (DRead tls pc a n)
    with step show ?thesis using alive_access [OF inv(1), of False] by simp
  next
    case (DWrite tls pc a n)
    with step show ?thesis using alive_access [OF inv(1), of True] by simp
  next
    case (DFuncEnter tls pc)
    with step show ?thesis
      by (auto simp: ft_func_enter_def bind_eq_Some_conv intro!: alive_depot [OF o])
  next
    case (DFuncExit tls)
    with step show ?thesis
      by (auto simp: ft_func_exit_def bind_eq_Some_conv intro!: alive_depot [OF o])
  next
    case (DFork p u q)
    with step valid fresh show ?thesis by (auto intro: alive_fork [OF o inv(2)])
  next
    case (DJoin p u)
    with step show ?thesis by (auto intro: alive_join [OF o inv(2)])
  next
    case (DFinish tls u)
    with step show ?thesis using alive_forget [OF o] by (auto simp: ft_finish_def)
  next
    case (DAllocate tls pc a sz)
    with step have "s' = ft_allocate a sz s" by simp
    then show ?thesis by (intro alive_frame) (simp_all add: ft_allocate_def)
  next
    case (DDeallocate tls a)
    with step have "s' = ft_deallocate a s" by simp
    then show ?thesis by (intro alive_frame) simp_all
  next
    case (DDetach tls t)
    with step show ?thesis by (auto intro: alive_frame)
  qed
qed

end
