(* ===== verification/RaceTheorem.thy ===== *)
theory RaceTheorem
  imports RaceCoverage
begin

text \<open>
  The recorded epochs of a variable stand for accesses of the log, and the resulting theorem: at
  every access, the last write to the address by a thread that is alive is ordered before it by
  happens-before, or a race of the two threads at this address was reported since that write's
  epoch began.
\<close>

section \<open>The last write\<close>

fun clears :: "event \<Rightarrow> u64 \<Rightarrow> bool" where
  "clears (EWrite t b) a \<longleftrightarrow> a = b"
| "clears (EFree b n) a \<longleftrightarrow> b \<le> a \<and> a < b + n"
| "clears _ a \<longleftrightarrow> False"

fun writes :: "event \<Rightarrow> u64 \<Rightarrow> bool" where
  "writes (EWrite t b) a \<longleftrightarrow> a = b"
| "writes _ a \<longleftrightarrow> False"

definition last_write :: "log \<Rightarrow> u64 \<Rightarrow> nat \<Rightarrow> bool" where
  "last_write log a i \<longleftrightarrow> i < length log \<and> writes (ev log i) a \<and>
     (\<forall>k \<in> set [Suc i..<length log]. \<not> clears (ev log k) a)"

lemma writes_iff: "writes e a \<longleftrightarrow> (\<exists>u. e = EWrite u a)"
  by (cases e) auto

lemma last_write_iff:
  "last_write log a i \<longleftrightarrow> i < length log \<and> (\<exists>u. ev log i = EWrite u a) \<and>
     (\<forall>k \<in> {i<..<length log}. \<not> clears (ev log k) a)"
  by (auto simp: last_write_def writes_iff)

lemma last_write_less: "last_write log a i \<Longrightarrow> i < length log"
  by (simp add: last_write_iff)

lemma last_write_snoc:
  "last_write (log @ [e]) a i \<longleftrightarrow>
     (if clears (e_event e) a then i = length log \<and> (\<exists>u. e_event e = EWrite u a) else last_write log a i)"
proof (cases "i < length log")
  case True
  have "{i<..<length (log @ [e])} = insert (length log) {i<..<length log}" using True by auto
  then have "(\<forall>k \<in> {i<..<length (log @ [e])}. \<not> clears (ev (log @ [e]) k) a) \<longleftrightarrow>
      \<not> clears (e_event e) a \<and> (\<forall>k \<in> {i<..<length log}. \<not> clears (ev log k) a)"
    by (simp add: nth_append)
  with True show ?thesis by (auto simp: last_write_iff nth_append)
next
  case False
  then show ?thesis by (cases "e_event e") (auto simp: last_write_iff nth_append)
qed

lemma last_write_unique: "last_write log a i \<Longrightarrow> last_write log a j \<Longrightarrow> i = j"
  unfolding last_write_iff by (cases i j rule: linorder_cases) (auto, force+)

text \<open>The thread and the clock of the last write.\<close>

definition writer :: "log \<Rightarrow> u64 \<Rightarrow> u32 \<Rightarrow> u32 \<Rightarrow> bool" where
  "writer log a u k \<longleftrightarrow> (\<exists>i. last_write log a i \<and> ev log i = EWrite u a \<and> e_clock (log ! i) = k)"

lemma writer_snoc:
  "writer (log @ [e]) a u k \<longleftrightarrow>
     (if clears (e_event e) a then e_event e = EWrite u a \<and> e_clock e = k else writer log a u k)"
proof (cases "clears (e_event e) a")
  case True
  then show ?thesis by (auto simp: writer_def last_write_snoc)
next
  case False
  have "ev (log @ [e]) i = ev log i \<and> (log @ [e]) ! i = log ! i" if "last_write log a i" for i
    using last_write_less [OF that] by (simp add: nth_append)
  with False show ?thesis by (auto simp: writer_def last_write_snoc)
qed

section \<open>Reports and covered accesses\<close>

definition access :: "event \<Rightarrow> u32 \<Rightarrow> u64 \<Rightarrow> bool" where
  "access e t a \<longleftrightarrow> e = ERead t a \<or> e = EWrite t a"

definition pair_reported :: "race list \<Rightarrow> u32 \<Rightarrow> u32 \<Rightarrow> u64 \<Rightarrow> bool" where
  "pair_reported rs u t a \<longleftrightarrow> (\<exists>(e1, e2) \<in> set rs. ae_thread_id e1 = u \<and> ae_write e1 \<and>
     ae_accessed_memory e1 = a \<and> ae_thread_id e2 = t \<and> ae_accessed_memory e2 = a)"

text \<open>
  A race of \<open>u\<close>'s write and \<open>t\<close>'s access was reported at or before \<open>j\<close>, after a write of \<open>u\<close> in the
  same epoch as the write \<open>i\<close>.
\<close>

definition reported :: "log \<Rightarrow> nat \<Rightarrow> nat \<Rightarrow> u32 \<Rightarrow> u32 \<Rightarrow> u64 \<Rightarrow> bool" where
  "reported log i j u t a \<longleftrightarrow> (\<exists>i0 k. i0 \<le> i \<and> ev log i0 = EWrite u a \<and>
     e_clock (log ! i0) = e_clock (log ! i) \<and> i0 < k \<and> k \<le> j \<and>
     access (ev log k) t a \<and> pair_reported (e_races (log ! k)) u t a)"

text \<open>Everything \<open>u\<close> did up to the epoch of write \<open>i\<close> is ordered before \<open>j\<close>.\<close>

definition epoch_before :: "ft_state \<Rightarrow> log \<Rightarrow> nat \<Rightarrow> nat \<Rightarrow> u32 \<Rightarrow> bool" where
  "epoch_before s log i j u \<longleftrightarrow> e_clock (log ! i) < clk s u \<and>
     (\<forall>k < length log. actor (ev log k) = Some u \<and> e_clock (log ! k) \<le> e_clock (log ! i) \<longrightarrow> hb log k j)"

definition covered :: "ft_state \<Rightarrow> log \<Rightarrow> nat \<Rightarrow> nat \<Rightarrow> u32 \<Rightarrow> u32 \<Rightarrow> u64 \<Rightarrow> bool" where
  "covered s log i j u t a \<longleftrightarrow> epoch_before s log i j u \<or> reported log i j u t a"

lemma reported_append:
  assumes "i < length log" and "j < length log" and "reported log i j u t a"
  shows "reported (log @ rest) i j u t a"
proof -
  obtain i0 k where "i0 \<le> i" "ev log i0 = EWrite u a" "e_clock (log ! i0) = e_clock (log ! i)" "i0 < k" "k \<le> j"
    "access (ev log k) t a" "pair_reported (e_races (log ! k)) u t a"
    using assms(3) unfolding reported_def by blast
  with assms(1,2) show ?thesis
    unfolding reported_def by (intro exI [of _ i0] exI [of _ k]) (simp add: nth_append)
qed

lemma covered_append:
  assumes "i < length log" and "j < length log" and "covered s log i j u t a"
    and clk: "clk s u \<le> clk s' u" and e: "actor (e_event e) = Some u \<Longrightarrow> e_clock e = clk s u"
  shows "covered s' (log @ [e]) i j u t a"
proof -
  have "epoch_before s' (log @ [e]) i j u" if "epoch_before s log i j u"
    using that clk e assms(1,2) unfolding epoch_before_def
    by (auto simp: nth_append less_Suc_eq intro: hb_append)
  with assms(1-3) show ?thesis by (auto simp: covered_def intro: reported_append)
qed

section \<open>What the access rules record and report\<close>

definition recorded :: "var_state \<Rightarrow> u64 list" where
  "recorded v = (if r_id v = 0 then [] else [r_id v]) @ (case shared_vc v of None \<Rightarrow> [] | Some vec \<Rightarrow> vec)"

lemma recorded_new: "recorded (new_var_state sz) = []"
  by (simp add: recorded_def new_var_state_def VAR_NOT_INIT_def)

lemma recorded_update: "set (recorded (var_update False vid v)) \<subseteq> insert vid (set (recorded v))"
  by (auto simp: recorded_def var_update_def Let_def split: option.splits if_splits
      dest: in_set_takeD in_set_dropD)

lemma read_var_recorded:
  assumes "read_var s t v a = Some (s', v', rs)"
  shows "set (recorded v') \<subseteq> insert (ts_id t) (set (recorded v))"
proof -
  have "v' = v \<or> v' = var_update False (ts_id t) v \<or> v' = set_read_shared (ts_id t) v \<and> r_id v \<noteq> 0"
    using assms
    by (auto simp: read_var_def Let_def bind_eq_Some_conv return_own_id_def VAR_NOT_INIT_def split: if_splits)
  then show ?thesis
  proof (elim disjE conjE)
    assume "v' = set_read_shared (ts_id t) v" "r_id v \<noteq> 0"
    then show ?thesis by (auto simp: recorded_def set_read_shared_def VAR_NOT_INIT_def)
  qed (use recorded_update in auto)
qed

lemma write_var_recorded:
  assumes "write_var s t v a = Some (s', v', rs)"
  shows "v' = v \<and> w_id v = ts_id t \<or> recorded v' = []"
  using write_var_shape [OF assms] by (auto simp: recorded_def var_update_def VAR_NOT_INIT_def)

lemma pair_reported_race:
  assumes "objs_ok n s" and "live s u p1 t1" and "live s x p2 t2"
    and "report_race s u x True wr v a = Some rs"
  shows "pair_reported rs u x a"
  using report_race_live [OF assms(1-3), of True wr v a] assms(4)
    live_tid [OF assms(1,2)] live_tid [OF assms(1,3)]
  by (simp add: pair_reported_def access_of_def fill_access_def)

lemma pair_reported_append: "pair_reported rs u t a \<Longrightarrow> pair_reported (rs @ rs') u t a"
  by (auto simp: pair_reported_def)

lemma write_var_ww:
  assumes "objs_ok n s" and "live s u p1 t1" and "live s (get_tid t) p2 t2"
    and w: "w_id v \<noteq> 0" "get_w_tid v = u" "u \<noteq> get_tid t"
    and step: "write_var s t v a = Some (s', v', rs)"
  shows "get_w_clock v < ts_known t u \<or> pair_reported rs u (get_tid t) a"
proof (cases "get_w_clock v < ts_known t u")
  case False
  have "return_own_id t \<noteq> w_id v" using w(2,3) by (auto simp: return_own_id_def get_tid_def get_w_tid_def)
  moreover have "is_ww_race v t" using False w by (auto simp: is_ww_race_def VAR_NOT_INIT_def)
  ultimately obtain xs ys where "report_race s u (get_tid t) True True v a = Some xs" "rs = xs @ ys"
    using step w(1,2) by (auto simp: write_var_def Let_def bind_eq_Some_conv VAR_NOT_INIT_def)
  then show ?thesis using pair_reported_race [OF assms(1-3)] pair_reported_append by blast
qed simp

lemma read_var_wr:
  assumes "objs_ok n s" and "live s u p1 t1" and "live s (get_tid t) p2 t2" and "get_tid t \<noteq> 0"
    and w: "w_id v \<noteq> 0" "get_w_tid v = u" "u \<noteq> get_tid t"
    and step: "read_var s t v a = Some (s', v', rs)"
  shows "ts_id t \<in> set (recorded v) \<or> get_w_clock v < ts_known t u \<or> pair_reported rs u (get_tid t) a"
proof (cases "get_w_clock v < ts_known t u \<or> ts_id t \<in> set (recorded v)")
  case False
  have nz: "ts_id t \<noteq> 0" using assms(4) by (auto simp: get_tid_def make_tid_def)
  have race: "is_wr_race v t" using False w by (auto simp: is_wr_race_def VAR_NOT_INIT_def Let_def)
  have "return_own_id t \<noteq> r_id v" using False nz by (auto simp: recorded_def return_own_id_def split: if_splits)
  moreover have "\<not> (is_read_shared v \<and> get_vc_by_thr v (get_tid t) = Some (return_own_id t))"
    using False nz
    by (auto simp: recorded_def get_vc_by_thr_def return_own_id_def Let_def split: option.splits if_splits)
      (metis nth_mem)+
  ultimately have "report_race s u (get_tid t) True False v a = Some rs"
    using step race w(2) unfolding read_var_def
    by (auto simp: Let_def bind_eq_Some_conv split: if_splits)
  then show ?thesis using pair_reported_race [OF assms(1-3)] by blast
qed auto

section \<open>The invariant of a logged run\<close>

definition forks_inv :: "ft_state \<Rightarrow> log \<Rightarrow> bool" where
  "forks_inv s log \<longleftrightarrow>
     (\<forall>u. thread_at s u \<noteq> None \<longrightarrow> u \<noteq> 0 \<and> (\<exists>e \<in> set log. forked (e_event e) = Some u)) \<and>
     (\<forall>e \<in> set log. \<forall>u a. e_event e = EWrite u a \<longrightarrow> (\<exists>e \<in> set log. forked (e_event e) = Some u))"

definition writes_inv :: "ft_state \<Rightarrow> log \<Rightarrow> bool" where
  "writes_inv s log \<longleftrightarrow>
     (\<forall>a u k. writer log a u k \<longrightarrow>
        (\<exists>v. hm_find (vars s) a = Some v \<and> make_tid (w_id v) = u \<and> make_clock (w_id v) = k)) \<and>
     (\<forall>a v. hm_find (vars s) a = Some v \<and> w_id v \<noteq> 0 \<longrightarrow>
        writer log a (make_tid (w_id v)) (make_clock (w_id v)))"

text \<open>A recorded read epoch belongs to a read whose last write was in the current write's epoch.\<close>

definition read_backed :: "log \<Rightarrow> u64 \<Rightarrow> u64 \<Rightarrow> nat \<Rightarrow> u32 \<Rightarrow> bool" where
  "read_backed log a x i u \<longleftrightarrow>
     (\<exists>j i0. j < length log \<and> ev log j = ERead (make_tid x) a \<and> last_write (take j log) a i0 \<and>
        ev log i0 = EWrite u a \<and> e_clock (log ! i0) = e_clock (log ! i) \<and> i0 \<le> i)"

definition reads_inv :: "ft_state \<Rightarrow> log \<Rightarrow> bool" where
  "reads_inv s log \<longleftrightarrow> (\<forall>a v x i u. hm_find (vars s) a = Some v \<and> x \<in> set (recorded v) \<and>
     last_write log a i \<and> ev log i = EWrite u a \<longrightarrow> read_backed log a x i u)"

definition cover_inv :: "ft_state \<Rightarrow> log \<Rightarrow> bool" where
  "cover_inv s log \<longleftrightarrow> (\<forall>i j u t a. j < length log \<and> access (ev log j) t a \<and>
     last_write (take j log) a i \<and> ev log i = EWrite u a \<and> u \<noteq> t \<and> thread_at s u \<noteq> None \<longrightarrow>
     covered s log i j u t a)"

definition trace_inv :: "ft_state \<Rightarrow> log \<Rightarrow> bool" where
  "trace_inv s log \<longleftrightarrow> ft_inv (length log) s \<and> order_inv s log \<and> forks_inv s log \<and>
     writes_inv s log \<and> reads_inv s log \<and> cover_inv s log"

lemma trace_inv_init: "trace_inv ft_init []"
proof -
  have "thread_at ft_init u = None" for u by (simp add: thread_at_def ft_init_def)
  moreover from this have "vc_at ft_init x = []" for x by (cases x) (simp_all add: ft_init_def)
  ultimately show ?thesis
    using ft_init_inv
    by (simp add: trace_inv_def order_inv_def clocks_ok_def known_at_def known_simps forks_inv_def
        writes_inv_def writer_def reads_inv_def cover_inv_def last_write_iff ft_init_def [THEN arg_cong [of _ _ vars], simplified])
qed

text \<open>The variables change only by accesses to them and by being freed.\<close>

lemma vars_frame:
  assumes "ft_step c s = Some (s', rs)" and "\<And>t a. \<not> access (event_of c s) t a"
  shows "hm_find (vars s') a = (if clears (event_of c s) a then None else hm_find (vars s) a)"
proof (cases c)
  case (DRead tls pc b n)
  then show ?thesis using assms(2) [of "tid_of s tls" b] by (simp add: access_def)
next
  case (DWrite tls pc b n)
  then show ?thesis using assms(2) [of "tid_of s tls" b] by (simp add: access_def)
next
  case (DDeallocate tls b)
  let ?sz = "case hm_find (allocs s) b of None \<Rightarrow> 0 | Some n \<Rightarrow> n"
  have s': "vars s' = snd (dealloc_loop b (b + ?sz) (vars s))"
    using assms(1) DDeallocate by (auto simp: ft_deallocate_vars)
  show ?thesis
  proof (cases "b \<le> b + ?sz")
    case True
    from dealloc_loop_spec [OF this, of "vars s" "fst (dealloc_loop b (b + ?sz) (vars s))" "vars s'"]
    show ?thesis using s' DDeallocate by simp
  next
    case False
    then have "\<not> b < b + ?sz" by simp
    then have "vars s' = vars s" using s' by (simp add: dealloc_loop_empty)
    moreover have "\<not> (b \<le> a \<and> a < b + ?sz)" using False by (auto dest: le_less_trans)
    ultimately show ?thesis using DDeallocate by auto
  qed
qed (use assms(1) in \<open>auto simp: ft_acquire_def ft_release_def ft_happens_before_def ft_happens_after_def
      ft_func_enter_def ft_func_exit_def ft_allocate_def ft_fork_def create_thread_def ft_join_def
      ft_finish_def cleanup_def erase_thread_def Let_def bind_eq_Some_conv split: option.splits if_splits\<close>)

text \<open>An access by a live handle, seen from the log.\<close>

lemma access_step:
  assumes inv: "trace_inv s log"
    and call: "c = (if wr then DWrite tls pc a sz else DRead tls pc a sz)"
    and valid: "call_valid c s log" and step: "ft_step c s = Some (s', rs)"
  obtains t tid v v' s2 s3 where "event_of c s = (if wr then EWrite tid a else ERead tid a)"
    and "tid \<noteq> 0" and "get_tid t = tid" and "make_clock (ts_id t) = clk s tid"
    and "\<And>u. ts_known t u = known_at s (OfThread tid) u" and "thread_at s tid \<noteq> None"
    and "v = (case hm_find (vars s) a of Some v \<Rightarrow> v | None \<Rightarrow> new_var_state (ucast sz))"
    and "objs_ok (length log) s2" and "\<And>u. thread_at s u \<noteq> None \<Longrightarrow> \<exists>p w. live s2 u p w"
    and "(if wr then write_var s2 t v a else read_var s2 t v a) = Some (s3, v', rs)"
    and "\<And>b. hm_find (vars s') b = (if b = a then Some v' else hm_find (vars s) b)"
proof -
  have ft: "ft_inv (length log) s" and fk: "forks_inv s log" using inv by (simp_all add: trace_inv_def)
  then have ok: "objs_ok (length log) s" by (simp add: ft_inv_def)
  have acc: "(if wr then ft_write tls pc a sz s else ft_read tls pc a sz s) = Some (s', rs)"
    using step call by (cases wr) simp_all
  obtain th t v s2 s3 v' where th: "hm_find (objs s) tls = Some th"
    and t: "t = th\<lparr>ts_depot := set_read_write a pc (ts_depot th)\<rparr>"
    and v: "v = (case hm_find (vars s) a of Some v \<Rightarrow> v | None \<Rightarrow> new_var_state (ucast sz))"
    and s2: "objs_ok (length log) s2" "threads s2 = threads s" "objs s2 = hm_assign tls t (objs s)"
    and var: "(if wr then write_var s2 t v a else read_var s2 t v a) = Some (s3, v', rs)"
    and vars: "\<And>b. hm_find (vars s') b = (if b = a then Some v' else hm_find (vars s) b)"
    by (rule access_effect [OF ft acc]) blast
  have at: "thread_at s (get_tid th) = Some th" by (rule thread_at_tid [OF ok th])
  show thesis
  proof (rule that [OF _ _ _ _ _ _ v s2(1) _ var vars])
    show "event_of c s = (if wr then EWrite (get_tid th) a else ERead (get_tid th) a)"
      using call th by (simp add: tid_of_def)
    show "get_tid th \<noteq> 0" using fk at by (auto simp: forks_inv_def)
    show "get_tid t = get_tid th" by (simp add: t)
    show "make_clock (ts_id t) = clk s (get_tid th)" by (simp add: t clk_def at get_clock_def)
    show "ts_known t u = known_at s (OfThread (get_tid th)) u" for u
      by (simp add: t ts_known_def known_at_def at)
    show "thread_at s (get_tid th) \<noteq> None" by (simp add: at)
    show "\<exists>p w. live s2 u p w" if alive: "thread_at s u \<noteq> None" for u
    proof -
      obtain w where "thread_at s2 u = Some w"
        using alive thread_at_assign [OF ok th s2(2,3), of u] by (cases "u = get_tid th") auto
      then show ?thesis by (auto simp: thread_at_live)
    qed
  qed
qed

lemma entry_of_simps [simp]:
  "e_event (entry_of c s rs) = event_of c s" "e_races (entry_of c s rs) = rs"
  "e_clock (entry_of c s rs) = event_clock s (event_of c s)"
  by (simp_all add: entry_of_def)

lemma call_cases:
  obtains wr tls pc a sz where "c = (if wr then DWrite tls pc a sz else DRead tls pc a sz)"
  | "\<And>t a. \<not> access (event_of c s) t a"
proof (cases c)
  case (DRead tls pc a sz)
  with that(1) [of False] show ?thesis by simp
next
  case (DWrite tls pc a sz)
  with that(1) [of True] show ?thesis by simp
qed (use that(2) in \<open>simp_all add: access_def\<close>)

lemma writes_step:
  assumes inv: "trace_inv s log" and valid: "call_valid c s log" and step: "ft_step c s = Some (s', rs)"
  shows "writes_inv s' (log @ [entry_of c s rs])"
proof (rule call_cases [where c = c and s = s])
  fix wr tls pc a sz
  assume call: "c = (if wr then DWrite tls pc a sz else DRead tls pc a sz)"
  have W: "writes_inv s log" using inv by (simp add: trace_inv_def)
  obtain t tid v v' s2 s3 where e: "event_of c s = (if wr then EWrite tid a else ERead tid a)"
    and t: "tid \<noteq> 0" "get_tid t = tid" "make_clock (ts_id t) = clk s tid"
    and v: "v = (case hm_find (vars s) a of Some v \<Rightarrow> v | None \<Rightarrow> new_var_state (ucast sz))"
    and var: "(if wr then write_var s2 t v a else read_var s2 t v a) = Some (s3, v', rs)"
    and vars: "\<And>b. hm_find (vars s') b = (if b = a then Some v' else hm_find (vars s) b)"
    by (rule access_step [OF inv call valid step]) blast
  show ?thesis
  proof (cases wr)
    case True
    then have "w_id v' = ts_id t" using var write_var_result(3) by simp
    then have w: "make_tid (w_id v') = tid" "make_clock (w_id v') = clk s tid"
      using t by (simp_all add: get_tid_def)
    have "event_clock s (EWrite tid a) = clk s tid" by (simp add: event_clock_def)
    with True e w W vars show ?thesis
      unfolding writes_inv_def writer_snoc by (auto split: if_splits)
  next
    case False
    then have w: "w_id v' = w_id v" using var read_var_result(3) by simp
    have old: "hm_find (vars s) a = Some v \<or> hm_find (vars s) a = None \<and> w_id v = 0"
      using v by (auto simp: new_var_state_def VAR_NOT_INIT_def split: option.splits)
    have snoc: "writer (log @ [entry_of c s rs]) b u k = writer log b u k" for b u k
      using False e by (simp add: writer_snoc)
    show ?thesis
      unfolding writes_inv_def snoc
    proof (intro conjI allI impI)
      fix b u k assume "writer log b u k"
      with W obtain x where "hm_find (vars s) b = Some x" "make_tid (w_id x) = u" "make_clock (w_id x) = k"
        unfolding writes_inv_def by blast
      with old w show "\<exists>v. hm_find (vars s') b = Some v \<and> make_tid (w_id v) = u \<and> make_clock (w_id v) = k"
        by (cases "b = a") (auto simp: vars)
    next
      fix b x assume "hm_find (vars s') b = Some x \<and> w_id x \<noteq> 0"
      with old w have "\<exists>y. hm_find (vars s) b = Some y \<and> w_id y = w_id x \<and> w_id y \<noteq> 0"
        by (cases "b = a") (auto simp: vars)
      with W show "writer log b (make_tid (w_id x)) (make_clock (w_id x))"
        unfolding writes_inv_def by metis
    qed
  qed
next
  assume no: "\<And>t a. \<not> access (event_of c s) t a"
  have W: "writes_inv s log" using inv by (simp add: trace_inv_def)
  have "event_of c s \<noteq> EWrite u a" for u a using no [of u a] by (auto simp: access_def)
  with W vars_frame [OF step no] show ?thesis
    unfolding writes_inv_def writer_snoc by (auto split: if_splits)
qed

lemma read_backed_append:
  assumes "read_backed log a x i u" and "e_clock ((log @ rest) ! i') = e_clock (log ! i)" and "i \<le> i'"
  shows "read_backed (log @ rest) a x i' u"
proof -
  obtain j i0 where j: "j < length log" "ev log j = ERead (make_tid x) a" "last_write (take j log) a i0"
      "ev log i0 = EWrite u a" "e_clock (log ! i0) = e_clock (log ! i)" "i0 \<le> i"
    using assms(1) unfolding read_backed_def by blast
  have "i0 < length log" using last_write_less [OF j(3)] j(1) by simp
  with j assms(2,3) show ?thesis
    unfolding read_backed_def by (intro exI [of _ j] exI [of _ i0]) (simp add: nth_append)
qed

lemma reads_step:
  assumes inv: "trace_inv s log" and valid: "call_valid c s log" and step: "ft_step c s = Some (s', rs)"
  shows "reads_inv s' (log @ [entry_of c s rs])"
proof -
  let ?e = "entry_of c s rs"
  have R: "reads_inv s log" and W: "writes_inv s log" using inv by (simp_all add: trace_inv_def)
  have old: "read_backed (log @ [?e]) a x i u"
    if "hm_find (vars s) a = Some v" "x \<in> set (recorded v)" "\<not> clears (event_of c s) a"
      "last_write (log @ [?e]) a i" "ev (log @ [?e]) i = EWrite u a" for a v x i u
  proof -
    have i: "last_write log a i" using that(3,4) by (simp add: last_write_snoc)
    with that(5) have "ev log i = EWrite u a" by (simp add: nth_append last_write_less)
    with R that(1,2) i have "read_backed log a x i u" unfolding reads_inv_def by blast
    then show ?thesis by (rule read_backed_append) (simp_all add: nth_append last_write_less [OF i])
  qed
  show ?thesis
    unfolding reads_inv_def
  proof (intro allI impI, elim conjE)
    fix b x y i u
    assume y: "hm_find (vars s') b = Some y" "x \<in> set (recorded y)"
      and i: "last_write (log @ [?e]) b i" "ev (log @ [?e]) i = EWrite u b"
    show "read_backed (log @ [?e]) b x i u"
    proof (rule call_cases [where c = c and s = s])
      assume no: "\<And>t a. \<not> access (event_of c s) t a"
      have "hm_find (vars s) b = Some y" "\<not> clears (event_of c s) b"
        using vars_frame [OF step no, of b] y(1) by (auto split: if_splits)
      then show ?thesis using old y(2) i by blast
    next
      fix wr tls pc a sz
      assume call: "c = (if wr then DWrite tls pc a sz else DRead tls pc a sz)"
      obtain t tid v v' s2 s3 where e: "event_of c s = (if wr then EWrite tid a else ERead tid a)"
        and t: "tid \<noteq> 0" "get_tid t = tid" "make_clock (ts_id t) = clk s tid"
        and v: "v = (case hm_find (vars s) a of Some v \<Rightarrow> v | None \<Rightarrow> new_var_state (ucast sz))"
        and var: "(if wr then write_var s2 t v a else read_var s2 t v a) = Some (s3, v', rs)"
        and vars: "\<And>b. hm_find (vars s') b = (if b = a then Some v' else hm_find (vars s) b)"
        by (rule access_step [OF inv call valid step]) blast
      have found: "hm_find (vars s) a = Some v" if "recorded v \<noteq> [] \<or> w_id v \<noteq> 0"
        using that v by (auto simp: recorded_def new_var_state_def VAR_NOT_INIT_def split: option.splits)
      have ec: "e_clock ?e = clk s tid" using e by (simp add: event_clock_def)
      show ?thesis
      proof (cases "b = a")
        case False
        with y i e vars show ?thesis by (auto intro: old split: if_splits)
      next
        case ba: True
        with y vars have y': "x \<in> set (recorded v')" by simp
        show ?thesis
        proof (cases wr)
          case True
          have w: "w_id v = ts_id t" and x: "x \<in> set (recorded v)"
            using write_var_recorded [of s2 t v a s3 v' rs] var True y' by auto
          then have f: "hm_find (vars s) a = Some v" by (intro found) auto
          have "w_id v \<noteq> 0" using w t(1,2) by (auto simp: get_tid_def make_tid_def)
          with W f have "writer log a (make_tid (w_id v)) (make_clock (w_id v))" unfolding writes_inv_def by blast
          then obtain i' where i': "last_write log a i'" "ev log i' = EWrite tid a" "e_clock (log ! i') = clk s tid"
            using w t(2,3) by (auto simp: writer_def get_tid_def)
          have "i = length log" "u = tid" using i e True ba by (auto simp: last_write_snoc)
          moreover have "read_backed log a x i' tid" using R f x i' unfolding reads_inv_def by blast
          ultimately show ?thesis
            using i' ec last_write_less [OF i'(1)] by (auto simp: ba intro: read_backed_append)
        next
          case False
          then have "x = ts_id t \<or> x \<in> set (recorded v)"
            using read_var_recorded [of s2 t v a s3 v' rs] var y' by auto
          then show ?thesis
          proof
            assume "x \<in> set (recorded v)"
            then have f: "hm_find (vars s) a = Some v" by (intro found) auto
            with \<open>x \<in> set (recorded v)\<close> i e False show ?thesis by (auto simp: ba intro: old)
          next
            assume x: "x = ts_id t"
            have li: "last_write log a i" using i e False by (simp add: last_write_snoc ba)
            with i(2) have "ev log i = EWrite u a" by (simp add: nth_append last_write_less ba)
            with x li e False t(2) show ?thesis
              unfolding read_backed_def ba
              by (intro exI [of _ "length log"] exI [of _ i])
                (simp add: nth_append get_tid_def last_write_less)
          qed
        qed
      qed
    qed
  qed
qed

lemma forks_step:
  assumes inv: "trace_inv s log" and valid: "call_valid c s log"
    and alive: "alive_mono s (event_of c s) s'"
  shows "forks_inv s' (log @ [entry_of c s rs])"
proof -
  have F: "forks_inv s log" and ok: "objs_ok (length log) s" using inv by (simp_all add: trace_inv_def ft_inv_def)
  have "u \<noteq> 0 \<and> (\<exists>e \<in> set (log @ [entry_of c s rs]). forked (e_event e) = Some u)"
    if "thread_at s' u \<noteq> None" for u
  proof -
    have "thread_at s u \<noteq> None \<or> forked (event_of c s) = Some u" using alive that by (auto simp: alive_mono_def)
    then show ?thesis
    proof
      assume "thread_at s u \<noteq> None"
      with F show ?thesis by (auto simp: forks_inv_def)
    next
      assume "forked (event_of c s) = Some u"
      with valid show ?thesis by (cases c) auto
    qed
  qed
  moreover have "\<exists>e \<in> set log. forked (e_event e) = Some u" if w: "event_of c s = EWrite u a" for u a
  proof -
    obtain tls pc n where c: "c = DWrite tls pc a n" "u = tid_of s tls" using w by (cases c) auto
    with valid obtain th where "hm_find (objs s) tls = Some th" by auto
    with thread_at_tid [OF ok] c have "thread_at s u \<noteq> None" by (simp add: tid_of_def)
    with F show ?thesis by (auto simp: forks_inv_def)
  qed
  ultimately show ?thesis using F by (auto simp: forks_inv_def)
qed

lemma epoch_known:
  assumes inv: "order_inv s log" and k: "e_clock (log ! i) < known_at s (OfThread t) u"
    and e: "actor (e_event e) = Some t" and ut: "u \<noteq> t" and clk: "clk s u \<le> clk s' u"
  shows "epoch_before s' (log @ [e]) i (length log) u \<or> i \<ge> length log"
proof (cases "i < length log")
  case True
  have "known_at s (OfThread t) u \<le> clk s u" using inv by (simp add: order_inv_def clocks_ok_def)
  then have "e_clock (log ! i) < clk s' u" using k clk by auto
  moreover have "hb (log @ [e]) j (length log)"
    if "j < length (log @ [e])" "actor (ev (log @ [e]) j) = Some u" "e_clock ((log @ [e]) ! j) \<le> e_clock (log ! i)" for j
  proof -
    have j: "j < length log" using that(1,2) e ut by (cases "j = length log") auto
    then have "arrives log (OfThread t) j"
      using inv that k by (auto simp: order_inv_def nth_append dest: le_less_trans)
    then show ?thesis using e by (rule thread_to_last)
  qed
  ultimately show ?thesis using True by (simp add: epoch_before_def nth_append)
qed simp

lemma reported_now:
  assumes "i < length log" and "ev log i = EWrite u a" and "access (e_event e) t a"
    and "pair_reported (e_races e) u t a"
  shows "reported (log @ [e]) i (length log) u t a"
  unfolding reported_def using assms
  by (intro exI [of _ i] exI [of _ "length log"]) (simp add: nth_append)

text \<open>A read skipped in the same epoch is covered by the recorded read.\<close>

lemma covered_again:
  assumes cov: "covered s log i0 j u t a" and j: "j < length log" "actor (ev log j) = Some t"
    and i0: "i0 < j" "ev log i0 = EWrite u a" "e_clock (log ! i0) = e_clock (log ! i)" "i0 \<le> i" and i: "i < length log"
    and e: "actor (e_event e) = Some t" and ut: "u \<noteq> t" and clk: "clk s u \<le> clk s' u"
  shows "covered s' (log @ [e]) i (length log) u t a"
  using cov unfolding covered_def
proof
  assume "reported log i0 j u t a"
  then obtain k l where k: "k \<le> i0" "ev log k = EWrite u a" "e_clock (log ! k) = e_clock (log ! i0)" "k < l" "l \<le> j"
      "access (ev log l) t a" "pair_reported (e_races (log ! l)) u t a"
    unfolding reported_def by blast
  with j i i0 have "reported (log @ [e]) i (length log) u t a"
    unfolding reported_def by (intro exI [of _ k] exI [of _ l]) (simp add: nth_append)
  then show "epoch_before s' (log @ [e]) i (length log) u \<or> reported (log @ [e]) i (length log) u t a" ..
next
  assume b: "epoch_before s log i0 j u"
  have jl: "hb (log @ [e]) j (length log)"
    by (rule program_order [of _ _ _ t]) (simp_all add: j e nth_append)
  have "hb (log @ [e]) k (length log)"
    if "k < length (log @ [e])" "actor (ev (log @ [e]) k) = Some u" "e_clock ((log @ [e]) ! k) \<le> e_clock (log ! i)" for k
  proof -
    have "k < length log" using that(1,2) e ut by (cases "k = length log") auto
    then have "hb log k j" using b that i0(3) by (simp add: epoch_before_def nth_append)
    then show ?thesis using jl by (blast intro: hb_append hb_trans)
  qed
  moreover have "e_clock (log ! i) < clk s' u" using b i0(3) clk by (auto simp: epoch_before_def)
  ultimately have "epoch_before s' (log @ [e]) i (length log) u" using i by (simp add: epoch_before_def nth_append)
  then show "epoch_before s' (log @ [e]) i (length log) u \<or> reported (log @ [e]) i (length log) u t a" ..
qed

lemma cover_new:
  assumes inv: "trace_inv s log" and valid: "call_valid c s log" and step: "ft_step c s = Some (s', rs)"
    and acc: "access (event_of c s) t a" and w: "last_write log a i" "ev log i = EWrite u a" "u \<noteq> t"
    and u: "thread_at s u \<noteq> None" and clk: "clk s u \<le> clk s' u"
  shows "covered s' (log @ [entry_of c s rs]) i (length log) u t a"
proof -
  let ?e = "entry_of c s rs"
  obtain wr tls pc sz where call: "c = (if wr then DWrite tls pc a sz else DRead tls pc a sz)"
  proof (cases c)
    case (DRead tls pc b n)
    with acc that [of False] show thesis by (simp add: access_def)
  next
    case (DWrite tls pc b n)
    with acc that [of True] show thesis by (simp add: access_def)
  qed (use acc in \<open>simp_all add: access_def\<close>)
  obtain th tid v v' s2 s3 where e: "event_of c s = (if wr then EWrite tid a else ERead tid a)"
    and tid: "tid \<noteq> 0" "get_tid th = tid" "thread_at s tid \<noteq> None"
    and known: "\<And>u. ts_known th u = known_at s (OfThread tid) u"
    and v: "v = (case hm_find (vars s) a of Some v \<Rightarrow> v | None \<Rightarrow> new_var_state (ucast sz))"
    and s2: "objs_ok (length log) s2" "\<And>u. thread_at s u \<noteq> None \<Longrightarrow> \<exists>p w. live s2 u p w"
    and var: "(if wr then write_var s2 th v a else read_var s2 th v a) = Some (s3, v', rs)"
    by (rule access_step [OF inv call valid step]) blast
  have t: "tid = t" using acc e by (auto simp: access_def split: if_splits)
  have ord: "order_inv s log" and R: "reads_inv s log" and W: "writes_inv s log"
    and F: "forks_inv s log" and C: "cover_inv s log" using inv by (simp_all add: trace_inv_def)
  have il: "i < length log" by (rule last_write_less [OF w(1)])
  have wv: "hm_find (vars s) a = Some v" "make_tid (w_id v) = u" "make_clock (w_id v) = e_clock (log ! i)"
    using W w v unfolding writes_inv_def writer_def by fastforce+
  have "u \<noteq> 0" using F u by (auto simp: forks_inv_def)
  then have nz: "w_id v \<noteq> 0" using wv(2) by (auto simp: make_tid_def)
  obtain p1 t1 p2 t2 where l: "live s2 u p1 t1" "live s2 (get_tid th) p2 t2"
    using s2(2) [OF u] s2(2) [OF tid(3)] tid(2) by auto
  have ae: "actor (e_event ?e) = Some t" using e t by simp
  have cases3: "ts_id th \<in> set (recorded v) \<and> \<not> wr \<or> get_w_clock v < ts_known th u \<or> pair_reported rs u t a"
  proof (cases wr)
    case True
    with var have "write_var s2 th v a = Some (s3, v', rs)" by simp
    from write_var_ww [OF s2(1) l nz _ _ this] wv(2) w(3) tid(2) t show ?thesis by (auto simp: get_w_tid_def)
  next
    case False
    with var have "read_var s2 th v a = Some (s3, v', rs)" by simp
    from read_var_wr [OF s2(1) l _ nz _ _ this] wv(2) w(3) tid(1,2) t False show ?thesis by (auto simp: get_w_tid_def)
  qed
  then show ?thesis
  proof (elim disjE conjE)
    assume "pair_reported rs u t a"
    then show ?thesis unfolding covered_def using reported_now [OF il w(2), of ?e t] acc by simp
  next
    assume "get_w_clock v < ts_known th u"
    then have "e_clock (log ! i) < known_at s (OfThread t) u" using wv(3) known t by (simp add: get_w_clock_def)
    from epoch_known [OF ord this ae w(3) clk] il show ?thesis by (simp add: covered_def)
  next
    assume "ts_id th \<in> set (recorded v)"
    with R wv(1) w have "read_backed log a (ts_id th) i u" unfolding reads_inv_def by blast
    then obtain j i0 where j: "j < length log" "ev log j = ERead t a" "last_write (take j log) a i0"
        "ev log i0 = EWrite u a" "e_clock (log ! i0) = e_clock (log ! i)" "i0 \<le> i"
      using tid(2) t unfolding read_backed_def get_tid_def by blast
    then have "covered s log i0 j u t a"
      using C w(3) u unfolding cover_inv_def access_def by blast
    moreover have "i0 < j" using last_write_less [OF j(3)] j(1) by simp
    ultimately show ?thesis
      using j il ae w(3) clk by (intro covered_again [of s log i0 j]) simp_all
  qed
qed

lemma fork_fresh:
  assumes inv: "trace_inv s log" and valid: "call_valid (DFork p u q) s log"
  shows "hm_find (threads s) u = None"
proof (rule ccontr)
  have ok: "objs_ok (length log) s" using inv by (simp add: trace_inv_def ft_inv_def)
  assume "hm_find (threads s) u \<noteq> None"
  then obtain a where a: "hm_find (threads s) u = Some a" by auto
  then obtain t where "hm_find (objs s) a = Some t" by (rule objs_ok_thread [OF ok])
  with a have "thread_at s u \<noteq> None" by (simp add: thread_at_def)
  with inv have "\<exists>e \<in> set log. forked (e_event e) = Some u" by (simp add: trace_inv_def forks_inv_def)
  with valid show False by auto
qed

lemma valid_call_ok: "call_valid c s log \<Longrightarrow> call_ok c s"
  by (cases c) simp_all

lemma cover_step:
  assumes inv: "trace_inv s log" and valid: "call_valid c s log" and step: "ft_step c s = Some (s', rs)"
    and alive: "alive_mono s (event_of c s) s'"
  shows "cover_inv s' (log @ [entry_of c s rs])"
  unfolding cover_inv_def
proof (intro allI impI, elim conjE)
  let ?e = "entry_of c s rs"
  fix i j u t a
  assume j: "j < length (log @ [?e])" "access (ev (log @ [?e]) j) t a"
    and i: "last_write (take j (log @ [?e])) a i" "ev (log @ [?e]) i = EWrite u a"
    and ut: "u \<noteq> t" and u: "thread_at s' u \<noteq> None"
  have F: "forks_inv s log" and C: "cover_inv s log" using inv by (simp_all add: trace_inv_def)
  have ij: "i < j" using last_write_less [OF i(1)] by simp
  then have il: "i < length log" using j(1) by simp
  have w: "ev log i = EWrite u a" using il i(2) by (simp add: nth_append)
  moreover have "log ! i \<in> set log" using il by simp
  ultimately have "\<exists>e \<in> set log. forked (e_event e) = Some u" using F unfolding forks_inv_def by blast
  then have "forked (event_of c s) \<noteq> Some u" using valid by (cases c) auto
  then have live: "thread_at s u \<noteq> None" "clk s u \<le> clk s' u" using alive u by (auto simp: alive_mono_def)
  show "covered s' (log @ [?e]) i j u t a"
  proof (cases "j = length log")
    case True
    with j(2) i(1) show ?thesis by (simp add: cover_new [OF inv valid step _ _ w ut live])
  next
    case False
    then have jl: "j < length log" using j(1) by simp
    have "covered s log i j u t a"
      using C jl j(2) i(1) w ut live(1) unfolding cover_inv_def by (auto simp: nth_append)
    then show ?thesis
      by (rule covered_append [OF il jl _ live(2)]) (simp add: event_clock_def)
  qed
qed

lemma trace_step:
  assumes inv: "trace_inv s log" and n: "Suc (length log) < 2 ^ 32"
    and valid: "call_valid c s log" and step: "ft_step c s = Some (s', rs)"
  shows "trace_inv s' (log @ [entry_of c s rs])"
proof -
  have ft: "ft_inv (length log) s" and ord: "order_inv s log" using inv by (simp_all add: trace_inv_def)
  have fresh: "c = DFork p u q \<Longrightarrow> hm_find (threads s) u = None" for p u q
    using fork_fresh [OF inv] valid by blast
  have ck: "clocks_ok s" using ord by (simp add: order_inv_def)
  have "ft_inv (Suc (length log)) s'" by (rule ft_step_inv [OF ft n valid_call_ok [OF valid] step])
  moreover have "order_inv s' (log @ [entry_of c s rs])"
    unfolding entry_of_def by (rule order_step [OF ord flow_step [OF ft n ck valid fresh step]])
  moreover have alive: "alive_mono s (event_of c s) s'" by (rule alive_step [OF ft n valid fresh step])
  moreover note writes_step [OF inv valid step] reads_step [OF inv valid step]
    forks_step [OF inv valid alive] cover_step [OF inv valid step alive]
  ultimately show ?thesis by (simp add: trace_inv_def)
qed

lemma logged_run_inv:
  "trace_inv s log \<Longrightarrow> length log + length cs < 2 ^ 32 \<Longrightarrow> logged_run cs s log = Some (s', log') \<Longrightarrow>
     trace_inv s' log'"
proof (induction cs arbitrary: s log)
  case (Cons c cs)
  then obtain s1 rs where valid: "call_valid c s log" and step: "ft_step c s = Some (s1, rs)"
    and rest: "logged_run cs s1 (log @ [entry_of c s rs]) = Some (s', log')"
    by (auto split: if_splits option.splits)
  have "trace_inv s1 (log @ [entry_of c s rs])"
    using Cons.prems(1,2) valid step by (intro trace_step) simp_all
  with Cons.IH [OF this _ rest] Cons.prems(2) show ?case by simp
qed simp

section \<open>The theorem\<close>

text \<open>C1: No unordered access goes unnoticed: in every run of the detector under the premises of its
  interface (handles come from forks, no thread is forked twice, fewer than 2^32 calls), for every
  read or write \<open>j\<close> of thread \<open>t\<close> and the last write \<open>i\<close> to the same address before it, by another
  thread \<open>u\<close> that has not ended, either \<open>i\<close> happens before \<open>j\<close> (by program order, fork, join,
  release to acquire and the annotations) or a race of \<open>u\<close>'s write with \<open>t\<close>'s access was reported
  at or before \<open>j\<close>, since a write of \<open>u\<close> in the same epoch as \<open>i\<close>.\<close>

theorem no_missed_write_race:
  assumes "logged_run cs ft_init [] = Some (s, log)" and "length cs < 2 ^ 32"
    and "j < length log" and "access (ev log j) t a" and "last_write (take j log) a i"
    and "ev log i = EWrite u a" and "u \<noteq> t" and "thread_at s u \<noteq> None"
  shows "hb log i j \<or> reported log i j u t a"
proof -
  have "trace_inv s log" using logged_run_inv [OF trace_inv_init _ assms(1)] assms(2) by simp
  then have "covered s log i j u t a" using assms(3-8) unfolding trace_inv_def cover_inv_def by blast
  moreover have "i < length log" using last_write_less [OF assms(5)] assms(3) by simp
  ultimately show ?thesis using assms(6) by (auto simp: covered_def epoch_before_def)
qed

lemma no_missed_write_race_witness:
  "\<exists>s log. logged_run (demo_calls @ [DRead 200 90 4096 4]) ft_init [] = Some (s, log) \<and>
     (hb log 4 5 \<or> reported log 4 5 1 2 4096)"
proof -
  let ?cs = "demo_calls @ [DRead 200 90 4096 4]"
  let ?r = "logged_run ?cs ft_init []"
  have l: "length ?cs < 2 ^ 32" by (simp add: demo_calls_def)
  have "case ?r of None \<Rightarrow> False | Some (s, log) \<Rightarrow> length log = 6 \<and> ev log 5 = ERead 2 4096 \<and>
      last_write (take 5 log) 4096 4 \<and> ev log 4 = EWrite 1 4096 \<and> thread_at s 1 \<noteq> None"
    by code_simp
  then obtain s log where r: "?r = Some (s, log)" and h: "length log = 6" "ev log 5 = ERead 2 4096"
      "last_write (take 5 log) 4096 4" "ev log 4 = EWrite 1 4096" "thread_at s 1 \<noteq> None"
    by (auto split: option.splits)
  have "5 < length log" "access (ev log 5) 2 4096" using h by (simp_all add: access_def)
  from no_missed_write_race [OF r l this h(3,4) _ h(5)] r show ?thesis by auto
qed

end
