(* ===== verification/RingBuffer.thy ===== *)
theory RingBuffer
  imports Prelude
begin

text \<open>
  The single-producer single-consumer ring buffer of the IPC layer
  (\<^verbatim>\<open>common/ipc/ringbuffer.hpp\<close>). The indexes are free-running 64-bit words that
  wrap around; the size is a power of two, so that masking an index gives its slot. The memory
  fences have no counterpart here; the order of the accesses they enforce is the order of the
  steps of the interleaved model at the end.
\<close>

section \<open>The buffer\<close>

record 'a ring =
  rb_head :: u64
  rb_tail :: u64
  data_buff :: "'a list"

definition ring_new :: "'a list \<Rightarrow> 'a ring" where
  "ring_new storage = \<lparr>rb_head = 0, rb_tail = 0, data_buff = storage\<rparr>"

definition buffer_size :: "'a ring \<Rightarrow> u64" where
  "buffer_size r = of_nat (length (data_buff r))"

definition buffer_mask :: "'a ring \<Rightarrow> u64" where
  "buffer_mask r = buffer_size r - 1"

text \<open>The subscript of an index, as in \<^verbatim>\<open>data_buff[i & buffer_mask]\<close>.\<close>

definition rb_slot :: "'a ring \<Rightarrow> u64 \<Rightarrow> nat" where
  "rb_slot r i = unat (and i (buffer_mask r))"

definition producerClear :: "'a ring \<Rightarrow> 'a ring" where
  "producerClear r = r\<lparr>rb_head := rb_tail r\<rparr>"

definition consumerClear :: "'a ring \<Rightarrow> 'a ring" where
  "consumerClear r = r\<lparr>rb_tail := rb_head r\<rparr>"

definition readAvailable :: "'a ring \<Rightarrow> u64" where
  "readAvailable r = rb_head r - rb_tail r"

definition writeAvailable :: "'a ring \<Rightarrow> u64" where
  "writeAvailable r = buffer_size r - (rb_head r - rb_tail r)"

definition isEmpty :: "'a ring \<Rightarrow> bool" where
  "isEmpty r \<longleftrightarrow> readAvailable r = 0"

definition isFull :: "'a ring \<Rightarrow> bool" where
  "isFull r \<longleftrightarrow> writeAvailable r = 0"

definition rb_insert :: "'a \<Rightarrow> 'a ring \<Rightarrow> bool \<times> 'a ring" where
  "rb_insert x r =
     (let tmp_head = rb_head r
      in if tmp_head - rb_tail r = buffer_size r then (False, r)
         else (True, r\<lparr>data_buff := (data_buff r)[rb_slot r tmp_head := x], rb_head := tmp_head + 1\<rparr>))"

text \<open>The callback is only run when there is space; its effects are those on a state of its own.\<close>

definition insertFromCallback :: "('s \<Rightarrow> 'a \<times> 's) \<Rightarrow> 's \<Rightarrow> 'a ring \<Rightarrow> bool \<times> 's \<times> 'a ring" where
  "insertFromCallback acquire w r =
     (let tmp_head = rb_head r
      in if tmp_head - rb_tail r = buffer_size r then (False, w, r)
         else (let (x, w') = acquire w
               in (True, w', r\<lparr>data_buff := (data_buff r)[rb_slot r tmp_head := x], rb_head := tmp_head + 1\<rparr>)))"

definition rb_remove :: "'a ring \<Rightarrow> 'a option \<times> 'a ring" where
  "rb_remove r =
     (let tmp_tail = rb_tail r
      in if tmp_tail = rb_head r then (None, r)
         else (Some (data_buff r ! rb_slot r tmp_tail), r\<lparr>rb_tail := tmp_tail + 1\<rparr>))"

text \<open>The in-place interface: the slot to write to, and the publication of it.\<close>

definition get_next_write_slot :: "'a ring \<Rightarrow> nat option" where
  "get_next_write_slot r =
     (if rb_head r - rb_tail r = buffer_size r then None else Some (rb_slot r (rb_head r + 1)))"

definition commit_write :: "'a ring \<Rightarrow> 'a ring" where
  "commit_write r = r\<lparr>rb_head := rb_head r + 1\<rparr>"

text \<open>\<^verbatim>\<open>emplace\<close> is for a queue of pointers: the new object is built in the memory the slot
  points to, so the slot itself does not change; \<open>w\<close> is that memory.\<close>

definition rb_emplace :: "('a \<Rightarrow> 's \<Rightarrow> 's) \<Rightarrow> 's \<Rightarrow> 'a ring \<Rightarrow> bool \<times> 's \<times> 'a ring" where
  "rb_emplace construct w r =
     (let tmp_head = rb_head r
      in if tmp_head - rb_tail r = buffer_size r then (False, w, r)
         else (True, construct (data_buff r ! rb_slot r tmp_head) w, r\<lparr>rb_head := tmp_head + 1\<rparr>))"

section \<open>Blocks\<close>

text \<open>The copy loops, over the elements still to be transferred; the index runs along.\<close>

fun copy_in :: "'a ring \<Rightarrow> u64 \<Rightarrow> 'a list \<Rightarrow> u64 \<times> 'a ring" where
  "copy_in r h [] = (h, r)"
| "copy_in r h (x # xs) = copy_in (r\<lparr>data_buff := (data_buff r)[rb_slot r h := x]\<rparr>) (h + 1) xs"

fun copy_out :: "'a ring \<Rightarrow> u64 \<Rightarrow> nat \<Rightarrow> u64 \<times> 'a list" where
  "copy_out r t 0 = (t, [])"
| "copy_out r t (Suc n) = (let (t', xs) = copy_out r (t + 1) n in (t', data_buff r ! rb_slot r t # xs))"

text \<open>\<^verbatim>\<open>writeBuff\<close> without a callback: how many elements were written.\<close>

definition writeBuff :: "'a list \<Rightarrow> 'a ring \<Rightarrow> nat \<times> 'a ring" where
  "writeBuff buff r =
     (let available = buffer_size r - (rb_head r - rb_tail r);
          to_write = (if unat available < length buff then unat available else length buff);
          (tmp_head, r') = copy_in r (rb_head r) (take to_write buff)
      in (to_write, r'\<lparr>rb_head := tmp_head\<rparr>))"

text \<open>\<^verbatim>\<open>readBuff\<close> without a callback, which starts from the head index.\<close>

definition readBuff :: "nat \<Rightarrow> 'a ring \<Rightarrow> 'a list \<times> 'a ring" where
  "readBuff count r =
     (let tmp_tail = rb_head r;
          available = rb_head r - tmp_tail;
          to_read = (if unat available < count then unat available else count);
          (tmp_tail', xs) = copy_out r tmp_tail to_read
      in (xs, r\<lparr>rb_tail := tmp_tail'\<rparr>))"

text \<open>
  The versions with a callback after each block. The callback stands for what the other side does
  to the buffer meanwhile; the caller's own index is kept in a local.
\<close>

function write_blocks :: "('a ring \<Rightarrow> 'a ring) \<Rightarrow> 'a list \<Rightarrow> nat \<Rightarrow> nat \<Rightarrow> u64 \<Rightarrow> 'a ring \<Rightarrow> nat \<times> 'a ring" where
  "write_blocks cb buff written to_write tmp_head r =
     (if written < length buff then
        (let available = unat (buffer_size r - (tmp_head - rb_tail r)) in
         if available = 0 then (written, r)
         else (let n = (if to_write > available then available else to_write);
                   (h, r') = copy_in r tmp_head (take n (drop written buff))
               in write_blocks cb buff (written + n) (length buff - (written + n)) h (cb (r'\<lparr>rb_head := h\<rparr>))))
      else (written, r))"
  by pat_completeness auto
termination
  by (relation "measures [\<lambda>(cb, buff, written, _). length buff - written,
      \<lambda>(cb, buff, written, to_write, _). if to_write = 0 then 1 else 0]") (auto split: if_splits)

declare write_blocks.simps [simp del]

definition writeBuff_cb :: "('a ring \<Rightarrow> 'a ring) \<Rightarrow> 'a list \<Rightarrow> nat \<Rightarrow> 'a ring \<Rightarrow> nat \<times> 'a ring" where
  "writeBuff_cb cb buff count_to_callback r =
     write_blocks cb buff 0
       (if count_to_callback \<noteq> 0 \<and> count_to_callback < length buff then count_to_callback else length buff)
       (rb_head r) r"

lemma copy_out_length: "copy_out r t n = (t', xs) \<Longrightarrow> length xs = n"
  by (induction r t n arbitrary: t' xs rule: copy_out.induct) (auto split: prod.splits)

function read_blocks :: "('a ring \<Rightarrow> 'a ring) \<Rightarrow> nat \<Rightarrow> 'a list \<Rightarrow> nat \<Rightarrow> u64 \<Rightarrow> 'a ring \<Rightarrow> 'a list \<times> 'a ring" where
  "read_blocks cb count acc to_read tmp_tail r =
     (if length acc < count then
        (let available = unat (rb_head r - tmp_tail) in
         if available = 0 then (acc, r)
         else (let n = (if to_read > available then available else to_read);
                   (t, xs) = copy_out r tmp_tail n;
                   acc' = acc @ xs
               in read_blocks cb count acc' (count - length acc') t (cb (r\<lparr>rb_tail := t\<rparr>))))
      else (acc, r))"
  by pat_completeness auto

termination
proof (relation "measures [\<lambda>(cb, count, acc, _). count - length acc,
    \<lambda>(cb, count, acc, to_read, _). if to_read = 0 then 1 else 0]", goal_cases)
  case (2 cb count acc to_read tmp_tail r available n p t xs acc')
  then have "copy_out r tmp_tail n = (t, xs)" by simp
  then have "length xs = n" by (rule copy_out_length)
  then show ?case using 2 by (cases "n = 0") (auto split: if_splits)
qed simp

declare read_blocks.simps [simp del]

definition readBuff_cb :: "('a ring \<Rightarrow> 'a ring) \<Rightarrow> nat \<Rightarrow> nat \<Rightarrow> 'a ring \<Rightarrow> 'a list \<times> 'a ring" where
  "readBuff_cb cb count count_to_callback r =
     read_blocks cb count []
       (if count_to_callback \<noteq> 0 \<and> count_to_callback < count then count_to_callback else count)
       (rb_tail r) r"

section \<open>The contents\<close>

text \<open>The static assertions of the class, and the indexes at most one buffer apart.\<close>

definition rb_ok :: "'a ring \<Rightarrow> bool" where
  "rb_ok r \<longleftrightarrow> (\<exists>k \<le> 63. length (data_buff r) = 2 ^ k) \<and>
     unat (rb_head r - rb_tail r) \<le> length (data_buff r)"

definition contents :: "'a ring \<Rightarrow> 'a list" where
  "contents r = map (\<lambda>k. data_buff r ! rb_slot r (rb_tail r + of_nat k)) [0..<unat (rb_head r - rb_tail r)]"

lemma rb_slot_mod:
  assumes "rb_ok r"
  shows "rb_slot r i = unat i mod length (data_buff r)"
proof -
  obtain k where k: "k \<le> 63" "length (data_buff r) = 2 ^ k" using assms by (auto simp: rb_ok_def)
  then have "buffer_mask r = mask k"
    by (simp add: buffer_mask_def buffer_size_def mask_eq_exp_minus_1)
  then have "rb_slot r i = take_bit k (unat i)"
    by (simp add: rb_slot_def take_bit_eq_mask [symmetric] unsigned_take_bit_eq)
  with k show ?thesis by (simp add: take_bit_eq_mod)
qed

lemma rb_size:
  assumes "rb_ok r"
  shows "length (data_buff r) dvd 2 ^ 64" and "length (data_buff r) \<le> 2 ^ 63"
proof -
  obtain k where k: "k \<le> 63" "length (data_buff r) = 2 ^ k" using assms by (auto simp: rb_ok_def)
  have "(2 :: nat) ^ k dvd 2 ^ 64" by (rule le_imp_power_dvd) (use k(1) in simp)
  then show "length (data_buff r) dvd 2 ^ 64" by (simp only: k(2))
  have "(2 :: nat) ^ k \<le> 2 ^ 63" by (rule power_increasing) (use k(1) in simp_all)
  then show "length (data_buff r) \<le> 2 ^ 63" by (simp only: k(2))
qed

lemma rb_slot_add:
  assumes "rb_ok r"
  shows "rb_slot r (i + of_nat k) = (unat i + k) mod length (data_buff r)"
proof -
  have "unat (i + of_nat k) = (unat i + k) mod 2 ^ 64"
    by (simp add: unat_word_ariths unsigned_of_nat take_bit_eq_mod mod_add_right_eq)
  then show ?thesis
    using rb_slot_mod [OF assms] rb_size(1) [OF assms] by (simp add: mod_mod_cancel)
qed

lemma rb_size_pos: "rb_ok r \<Longrightarrow> 0 < length (data_buff r)"
  by (auto simp: rb_ok_def)

lemma rb_slot_less: "rb_ok r \<Longrightarrow> rb_slot r i < length (data_buff r)"
  using rb_size_pos [of r] by (simp add: rb_slot_mod)

lemma rb_slot_inj:
  assumes "rb_ok r" and "j < k" and "k < length (data_buff r)"
  shows "rb_slot r (i + of_nat j) \<noteq> rb_slot r (i + of_nat k)"
proof
  assume "rb_slot r (i + of_nat j) = rb_slot r (i + of_nat k)"
  then have "(unat i + j) mod length (data_buff r) = (unat i + k) mod length (data_buff r)"
    by (simp add: rb_slot_add [OF assms(1)])
  then have "length (data_buff r) dvd k - j"
    using assms(2) mod_eq_dvd_iff_nat [of "unat i + j" "unat i + k" "length (data_buff r)"] by simp
  then show False using assms(2,3) by (simp add: dvd_imp_le nat_dvd_not_less)
qed

lemma rb_size_word: "rb_ok r \<Longrightarrow> unat (buffer_size r) = length (data_buff r)"
  using rb_size(2) [of r] by (simp add: buffer_size_def unsigned_of_nat take_bit_eq_mod)

lemma length_contents: "length (contents r) = unat (rb_head r - rb_tail r)"
  by (simp add: contents_def)

lemma rb_full_iff: "rb_ok r \<Longrightarrow> rb_head r - rb_tail r = buffer_size r \<longleftrightarrow> length (contents r) = length (data_buff r)"
  using rb_size_word by (metis length_contents word_unat_eq_iff)

lemma rb_empty_iff: "rb_tail r = rb_head r \<longleftrightarrow> contents r = []"
  by (auto simp: contents_def unsigned_eq_0_iff)

lemma rb_available: "rb_ok r \<Longrightarrow> unat (writeAvailable r) = length (data_buff r) - length (contents r)"
proof -
  assume ok: "rb_ok r"
  then have "rb_head r - rb_tail r \<le> buffer_size r"
    by (simp add: word_le_nat_alt rb_size_word) (simp add: rb_ok_def)
  then show ?thesis
    by (simp add: writeAvailable_def unat_sub rb_size_word [OF ok] length_contents)
qed

text \<open>Storing at the head and advancing it appends.\<close>

definition rb_put :: "'a \<Rightarrow> 'a ring \<Rightarrow> 'a ring" where
  "rb_put x r = r\<lparr>data_buff := (data_buff r)[rb_slot r (rb_head r) := x], rb_head := rb_head r + 1\<rparr>"

lemma rb_head_split: "rb_head r = rb_tail r + of_nat (length (contents r))"
  by (simp add: length_contents)

lemma rb_put_slot: "rb_slot (rb_put x r) i = rb_slot r i"
  by (simp add: rb_put_def rb_slot_def buffer_mask_def buffer_size_def)

lemma rb_put_distance:
  assumes "rb_ok r" and "length (contents r) < length (data_buff r)"
  shows "unat (rb_head (rb_put x r) - rb_tail (rb_put x r)) = Suc (length (contents r))"
proof -
  have "unat (rb_head r - rb_tail r) < length (data_buff r)" "length (data_buff r) \<le> 2 ^ 63"
    using assms(2) rb_size(2) [OF assms(1)] by (simp_all add: length_contents)
  then have "rb_head r - rb_tail r \<noteq> - 1"
    by (auto simp: word_unat_eq_iff unsigned_minus_1_eq_mask mask_eq_exp_minus_1)
  from unat_inc_no_wrap [OF this] show ?thesis
    by (simp add: rb_put_def length_contents algebra_simps)
qed

lemma rb_put_ok:
  assumes "rb_ok r" and "length (contents r) < length (data_buff r)"
  shows "rb_ok (rb_put x r)" and "contents (rb_put x r) = contents r @ [x]"
proof -
  note d = rb_put_distance [OF assms]
  have "length (data_buff (rb_put x r)) = length (data_buff r)" by (simp add: rb_put_def)
  with assms d show "rb_ok (rb_put x r)" by (auto simp: rb_ok_def)
  have old: "data_buff (rb_put x r) ! rb_slot r (rb_tail r + of_nat k) = data_buff r ! rb_slot r (rb_tail r + of_nat k)"
    if "k < length (contents r)" for k
    using rb_slot_inj [OF assms(1) that assms(2), of "rb_tail r"]
    by (simp add: rb_put_def rb_head_split [of r])
  have new: "data_buff (rb_put x r) ! rb_slot r (rb_head r) = x"
    using rb_slot_less [OF assms(1)] by (simp add: rb_put_def)
  have "rb_tail (rb_put x r) = rb_tail r" by (simp add: rb_put_def)
  then have c: "contents (rb_put x r) =
      map (\<lambda>k. data_buff (rb_put x r) ! rb_slot r (rb_tail r + of_nat k)) [0..<Suc (length (contents r))]"
    unfolding contents_def [of "rb_put x r"] d rb_put_slot by simp
  show "contents (rb_put x r) = contents r @ [x]"
    unfolding c using old new
    by (simp add: rb_head_split [symmetric]) (simp add: contents_def [of r] length_contents)
qed

text \<open>So does advancing it over an element that is already in place.\<close>

lemma publish_contents:
  assumes "rb_ok r" and "length (contents r) < length (data_buff r)"
    and "data_buff r ! rb_slot r (rb_head r) = x"
  shows "contents (r\<lparr>rb_head := rb_head r + 1\<rparr>) = contents r @ [x]" and "rb_ok (r\<lparr>rb_head := rb_head r + 1\<rparr>)"
proof -
  have "rb_put x r = r\<lparr>rb_head := rb_head r + 1\<rparr>"
    using assms(3) by (auto simp: rb_put_def list_update_same_conv rb_slot_less [OF assms(1)])
  with rb_put_ok [OF assms(1,2), of x]
  show "contents (r\<lparr>rb_head := rb_head r + 1\<rparr>) = contents r @ [x]" "rb_ok (r\<lparr>rb_head := rb_head r + 1\<rparr>)"
    by simp_all
qed

text \<open>Advancing the tail drops the oldest element.\<close>

lemma rb_advance:
  assumes ok: "rb_ok r" and n: "n \<le> length (contents r)"
  shows "rb_ok (r\<lparr>rb_tail := rb_tail r + of_nat n\<rparr>)"
    and "contents (r\<lparr>rb_tail := rb_tail r + of_nat n\<rparr>) = drop n (contents r)"
proof -
  have "of_nat n \<le> rb_head r - rb_tail r"
    using n by (simp add: length_contents word_le_nat_alt unsigned_of_nat)
      (metis le_trans nat_less_le take_bit_nat_less_eq_self)
  moreover have "unat (of_nat n :: u64) = n"
    using n unat_bound [of "rb_head r - rb_tail r"] by (simp add: length_contents unsigned_of_nat take_bit_eq_mod)
  ultimately have d: "unat (rb_head r - (rb_tail r + of_nat n)) = length (contents r) - n"
    using unat_sub [of "of_nat n" "rb_head r - rb_tail r"] by (simp add: length_contents diff_diff_add)
  then show "rb_ok (r\<lparr>rb_tail := rb_tail r + of_nat n\<rparr>)"
    using ok by (auto simp: rb_ok_def length_contents)
  have slot: "rb_slot (r\<lparr>rb_tail := t\<rparr>) i = rb_slot r i" for t i
    by (simp add: rb_slot_def buffer_mask_def buffer_size_def)
  show "contents (r\<lparr>rb_tail := rb_tail r + of_nat n\<rparr>) = drop n (contents r)"
  proof (rule nth_equalityI)
    show "length (contents (r\<lparr>rb_tail := rb_tail r + of_nat n\<rparr>)) = length (drop n (contents r))"
      by (simp add: length_contents d)
  next
    fix k assume "k < length (contents (r\<lparr>rb_tail := rb_tail r + of_nat n\<rparr>))"
    then have "k < length (contents r) - n" by (simp add: length_contents d)
    then show "contents (r\<lparr>rb_tail := rb_tail r + of_nat n\<rparr>) ! k = drop n (contents r) ! k"
      by (simp add: contents_def slot d length_contents add.assoc) (simp add: contents_def slot d length_contents add.commute)
  qed
qed

section \<open>The contract: a bounded FIFO\<close>

datatype 'a fifo_op = Put 'a | Get

text \<open>Runs of operations: what was accepted, what came out, and the final state.\<close>

fun fifo_run :: "('a \<Rightarrow> 'q \<Rightarrow> bool \<times> 'q) \<Rightarrow> ('q \<Rightarrow> 'a option \<times> 'q) \<Rightarrow> 'a fifo_op list \<Rightarrow> 'q \<Rightarrow>
    'a list \<times> 'a list \<times> 'q" where
  "fifo_run put get [] q = ([], [], q)"
| "fifo_run put get (Put x # ops) q =
     (let (ok, q1) = put x q; (acc, out, q2) = fifo_run put get ops q1
      in (if ok then x # acc else acc, out, q2))"
| "fifo_run put get (Get # ops) q =
     (let (y, q1) = get q; (acc, out, q2) = fifo_run put get ops q1
      in (acc, (case y of None \<Rightarrow> out | Some x \<Rightarrow> x # out), q2))"

locale bounded_fifo =
  fixes put :: "'a \<Rightarrow> 'q \<Rightarrow> bool \<times> 'q"
    and get :: "'q \<Rightarrow> 'a option \<times> 'q"
    and items :: "'q \<Rightarrow> 'a list"
    and cap :: "'q \<Rightarrow> nat"
    and inv :: "'q \<Rightarrow> bool"
  assumes bounded: "inv q \<Longrightarrow> length (items q) \<le> cap q"
    and put_inv: "inv q \<Longrightarrow> put x q = (ok, q') \<Longrightarrow> inv q' \<and> cap q' = cap q"
    and put_ok: "inv q \<Longrightarrow> put x q = (ok, q') \<Longrightarrow> ok \<longleftrightarrow> length (items q) < cap q"
    and put_items: "inv q \<Longrightarrow> put x q = (ok, q') \<Longrightarrow> items q' = (if ok then items q @ [x] else items q)"
    and get_inv: "inv q \<Longrightarrow> get q = (y, q') \<Longrightarrow> inv q' \<and> cap q' = cap q"
    and get_items: "inv q \<Longrightarrow> get q = (y, q') \<Longrightarrow>
      (case items q of [] \<Rightarrow> y = None \<and> items q' = [] | x # xs \<Rightarrow> y = Some x \<and> items q' = xs)"
begin

lemma get_put_empty: "inv q \<Longrightarrow> items q = [] \<Longrightarrow> put x q = (True, q1) \<Longrightarrow> get q1 = (y, q2) \<Longrightarrow> y = Some x \<and> items q2 = []"
  using put_items [of q x True q1] get_items [of q1 y q2] put_inv [of q x True q1] by simp

lemma get_fails: "inv q \<Longrightarrow> get q = (None, q') \<Longrightarrow> items q = []"
  using get_items [of q None q'] by (auto split: list.splits)

lemma run_fifo:
  "inv q \<Longrightarrow> fifo_run put get ops q = (acc, out, q') \<Longrightarrow>
     items q @ acc = out @ items q' \<and> inv q' \<and> cap q' = cap q \<and> length (items q') \<le> cap q"
proof (induction ops arbitrary: q acc out)
  case Nil
  then show ?case using bounded by simp
next
  case (Cons oper ops)
  show ?case
  proof (cases oper)
    case (Put x)
    obtain ok q1 where p: "put x q = (ok, q1)" by (cases "put x q")
    obtain acc1 where r: "fifo_run put get ops q1 = (acc1, out, q')" and a: "acc = (if ok then x # acc1 else acc1)"
      using Cons.prems(2) p Put by (auto simp: Let_def split: prod.splits)
    have i: "inv q1" "cap q1 = cap q" using put_inv [OF Cons.prems(1) p] by simp_all
    from Cons.IH [OF i(1) r] put_items [OF Cons.prems(1) p] i(2) a show ?thesis by (auto split: if_splits)
  next
    case Get
    obtain y q1 where p: "get q = (y, q1)" by (cases "get q")
    obtain out1 where r: "fifo_run put get ops q1 = (acc, out1, q')"
      and o: "out = (case y of None \<Rightarrow> out1 | Some x \<Rightarrow> x # out1)"
      using Cons.prems(2) p Get by (auto simp: Let_def split: prod.splits)
    have i: "inv q1" "cap q1 = cap q" using get_inv [OF Cons.prems(1) p] by simp_all
    from Cons.IH [OF i(1) r] get_items [OF Cons.prems(1) p] i(2) o show ?thesis
      by (auto split: list.splits)
  qed
qed

end

lemma rb_insert_put:
  "rb_insert x r = (if rb_head r - rb_tail r = buffer_size r then (False, r) else (True, rb_put x r))"
  by (simp add: rb_insert_def rb_put_def Let_def)

lemma rb_space: "rb_ok r \<Longrightarrow> rb_head r - rb_tail r \<noteq> buffer_size r \<longleftrightarrow> length (contents r) < length (data_buff r)"
  using rb_full_iff [of r] by (auto simp: rb_ok_def length_contents)

lemma rb_put_length [simp]: "length (data_buff (rb_put x r)) = length (data_buff r)"
  by (simp add: rb_put_def)

lemma rb_remove_first:
  "rb_ok r \<Longrightarrow> contents r \<noteq> [] \<Longrightarrow> data_buff r ! rb_slot r (rb_tail r) = hd (contents r)"
  by (auto simp: contents_def hd_map hd_upt)

lemma rb_advance_one:
  assumes "rb_ok r" and "contents r \<noteq> []"
  shows "rb_ok (r\<lparr>rb_tail := rb_tail r + 1\<rparr>)" and "contents (r\<lparr>rb_tail := rb_tail r + 1\<rparr>) = tl (contents r)"
  using rb_advance [OF assms(1), of 1] assms(2) by (simp_all add: drop_Suc Suc_leI)

interpretation rbq: bounded_fifo rb_insert rb_remove contents "\<lambda>r. length (data_buff r)" rb_ok
proof unfold_locales
  fix r r' :: "'a ring" and x ok y
  assume ok: "rb_ok r"
  show "length (contents r) \<le> length (data_buff r)" using ok by (simp add: length_contents rb_ok_def)
  assume "rb_insert x r = (ok, r')"
  then show "rb_ok r' \<and> length (data_buff r') = length (data_buff r)" "ok \<longleftrightarrow> length (contents r) < length (data_buff r)"
    "contents r' = (if ok then contents r @ [x] else contents r)"
    using rb_put_ok [OF ok] rb_space [OF ok] ok by (auto simp: rb_insert_put split: if_splits)
next
  fix r r' :: "'a ring" and y
  assume ok: "rb_ok r" and r: "rb_remove r = (y, r')"
  show "rb_ok r' \<and> length (data_buff r') = length (data_buff r)"
    "case contents r of [] \<Rightarrow> y = None \<and> contents r' = [] | x # xs \<Rightarrow> y = Some x \<and> contents r' = xs"
    using r ok rb_advance_one [OF ok] rb_remove_first [OF ok] rb_empty_iff [of r]
    by (cases "contents r"; auto simp: rb_remove_def Let_def split: if_splits)+
qed

section \<open>Block transfers\<close>

lemma copy_in_fold:
  "copy_in r h xs = (h', r') \<Longrightarrow> r'\<lparr>rb_head := h'\<rparr> = fold rb_put xs (r\<lparr>rb_head := h\<rparr>)"
proof (induction r h xs rule: copy_in.induct)
  case (2 r h x xs)
  then show ?case by (simp add: rb_put_def rb_slot_def buffer_mask_def buffer_size_def)
qed simp

lemma fold_put:
  "rb_ok r \<Longrightarrow> length (contents r) + length xs \<le> length (data_buff r) \<Longrightarrow>
     rb_ok (fold rb_put xs r) \<and> contents (fold rb_put xs r) = contents r @ xs \<and>
     length (data_buff (fold rb_put xs r)) = length (data_buff r)"
proof (induction xs arbitrary: r)
  case (Cons x xs)
  then have "length (contents r) < length (data_buff r)" by simp
  from rb_put_ok [OF Cons.prems(1) this, of x] Cons.IH [of "rb_put x r"] Cons.prems show ?case by simp
qed simp

lemma fold_put_tail: "rb_tail (fold rb_put xs r) = rb_tail r"
  by (induction xs arbitrary: r) (simp_all add: rb_put_def)

lemma copy_in_append:
  assumes "rb_ok r" and "length (contents r) + length xs \<le> length (data_buff r)"
    and "copy_in r (rb_head r) xs = (h', r')"
  shows "rb_ok (r'\<lparr>rb_head := h'\<rparr>)" and "contents (r'\<lparr>rb_head := h'\<rparr>) = contents r @ xs"
    and "length (data_buff (r'\<lparr>rb_head := h'\<rparr>)) = length (data_buff r)"
    and "rb_tail (r'\<lparr>rb_head := h'\<rparr>) = rb_tail r"
  using copy_in_fold [OF assms(3)] fold_put [OF assms(1,2)] fold_put_tail [of xs r] by simp_all

lemma copy_out_spec:
  "copy_out r t n = (t + of_nat n, map (\<lambda>k. data_buff r ! rb_slot r (t + of_nat k)) [0..<n])"
proof (induction r t n rule: copy_out.induct)
  case (2 r t n)
  have u: "[0..<Suc n] = 0 # map Suc [0..<n]" by (simp add: upt_conv_Cons map_Suc_upt del: upt_Suc)
  show ?case unfolding u using 2 by (simp add: add.assoc)
qed simp

lemma copy_out_contents:
  assumes "rb_ok r" and "n \<le> length (contents r)" and "copy_out r (rb_tail r) n = (t', xs)"
  shows "t' = rb_tail r + of_nat n" and "xs = take n (contents r)"
  using assms by (simp_all add: copy_out_spec contents_def length_contents take_map)

text \<open>What a consumer may do to the buffer between two blocks of a writer, and vice versa.\<close>

definition consumes :: "('a ring \<Rightarrow> 'a ring) \<Rightarrow> bool" where
  "consumes cb \<longleftrightarrow> (\<forall>r. rb_ok r \<longrightarrow> rb_ok (cb r) \<and> rb_head (cb r) = rb_head r \<and>
     length (data_buff (cb r)) = length (data_buff r) \<and> (\<exists>k. contents (cb r) = drop k (contents r)))"

definition produces :: "('a ring \<Rightarrow> 'a ring) \<Rightarrow> bool" where
  "produces cb \<longleftrightarrow> (\<forall>r. rb_ok r \<longrightarrow> rb_ok (cb r) \<and> rb_tail (cb r) = rb_tail r \<and>
     length (data_buff (cb r)) = length (data_buff r) \<and> (\<exists>ys. contents (cb r) = contents r @ ys))"

lemma write_blocks_spec:
  "consumes cb \<Longrightarrow> rb_ok r \<Longrightarrow> h = rb_head r \<Longrightarrow> written + to_write \<le> length buff \<Longrightarrow>
     write_blocks cb buff written to_write h r = (n, r') \<Longrightarrow>
     written \<le> n \<and> n \<le> length buff \<and> rb_ok r' \<and> length (data_buff r') = length (data_buff r) \<and>
     (\<exists>gone. contents r @ drop written (take n buff) = gone @ contents r') \<and>
     (n < length buff \<longrightarrow> isFull r')"
proof (induction cb buff written to_write h r arbitrary: n r' rule: write_blocks.induct)
  case (1 cb buff written to_write h r)
  let ?avail = "unat (buffer_size r - (h - rb_tail r))"
  have avail: "?avail = length (data_buff r) - length (contents r)"
    using rb_available [OF "1.prems"(2)] "1.prems"(3) by (simp add: writeAvailable_def)
  show ?case
  proof (cases "written < length buff \<and> ?avail \<noteq> 0")
    case False
    then have "n = written" "r' = r"
      using "1.prems"(5) by (auto simp: write_blocks.simps [of cb buff written to_write h r] Let_def split: if_splits)
    moreover have "isFull r" if "written < length buff"
      using that False "1.prems"(3) by (auto simp: isFull_def writeAvailable_def unsigned_eq_0_iff)
    ultimately show ?thesis using "1.prems" by auto
  next
    case True
    define m where "m = (if to_write > ?avail then ?avail else to_write)"
    obtain h2 r2 where c: "copy_in r h (take m (drop written buff)) = (h2, r2)"
      by (cases "copy_in r h (take m (drop written buff))")
    let ?r = "r2\<lparr>rb_head := h2\<rparr>"
    have step: "write_blocks cb buff (written + m) (length buff - (written + m)) h2 (cb ?r) = (n, r')"
      using "1.prems"(5) True c
      by (simp add: write_blocks.simps [of cb buff written to_write h r] Let_def m_def split: prod.splits if_splits)
    have m: "written + m \<le> length buff" "length (take m (drop written buff)) = m" "m \<le> ?avail"
      using "1.prems"(4) by (auto simp: m_def)
    have bound: "length (contents r) \<le> length (data_buff r)" using rbq.bounded [OF "1.prems"(2)] .
    have fits: "length (contents r) + length (take m (drop written buff)) \<le> length (data_buff r)"
      using m(2,3) avail bound by simp
    note app = copy_in_append [OF "1.prems"(2) fits c [unfolded "1.prems"(3)]]
    obtain k where cb: "rb_ok (cb ?r)" "rb_head (cb ?r) = h2" "length (data_buff (cb ?r)) = length (data_buff r)"
        "contents (cb ?r) = drop k (contents r @ take m (drop written buff))"
      using "1.prems"(1) app unfolding consumes_def by fastforce
    have IH: "written + m \<le> n \<and> n \<le> length buff \<and> rb_ok r' \<and> length (data_buff r') = length (data_buff (cb ?r)) \<and>
       (\<exists>gone. contents (cb ?r) @ drop (written + m) (take n buff) = gone @ contents r') \<and>
       (n < length buff \<longrightarrow> isFull r')"
      using True m(1)
      by (intro "1.IH" [OF _ refl _ m_def c [symmetric] refl "1.prems"(1) cb(1) cb(2) [symmetric] _ step]) simp_all
    then obtain gone where g: "contents (cb ?r) @ drop (written + m) (take n buff) = gone @ contents r'" by blast
    have "drop written (take n buff) = take m (drop written buff) @ drop (written + m) (take n buff)"
    proof -
      have "take m (drop written (take n buff)) = take m (drop written buff)"
        using IH by (auto simp: drop_take min_def)
      then show ?thesis by (metis append_take_drop_id drop_drop add.commute)
    qed
    then have "contents r @ drop written (take n buff) =
        take k (contents r @ take m (drop written buff)) @ gone @ contents r'"
      using g cb(4) by (metis append.assoc append_take_drop_id)
    then show ?thesis using IH cb(3) by (metis append.assoc add_leD1)
  qed
qed

lemma read_blocks_spec:
  "produces cb \<Longrightarrow> rb_ok r \<Longrightarrow> t = rb_tail r \<Longrightarrow> length acc + to_read \<le> count \<Longrightarrow>
     read_blocks cb count acc to_read t r = (out, r') \<Longrightarrow>
     length out \<le> count \<and> rb_ok r' \<and>
     (\<exists>zs new. out = acc @ zs \<and> contents r @ new = zs @ contents r') \<and>
     (length out < count \<longrightarrow> isEmpty r')"
proof (induction cb count acc to_read t r arbitrary: out r' rule: read_blocks.induct)
  case (1 cb count acc to_read t r)
  let ?avail = "unat (rb_head r - t)"
  have avail: "?avail = length (contents r)" using "1.prems"(3) by (simp add: length_contents)
  show ?case
  proof (cases "length acc < count \<and> ?avail \<noteq> 0")
    case False
    then have "out = acc" "r' = r"
      using "1.prems"(5) by (auto simp: read_blocks.simps [of cb count acc to_read t r] Let_def split: if_splits)
    moreover have "isEmpty r" if "length acc < count"
      using that False "1.prems"(3) by (auto simp: isEmpty_def readAvailable_def unsigned_eq_0_iff)
    ultimately show ?thesis using "1.prems"(2,4) by auto
  next
    case True
    define m where "m = (if to_read > ?avail then ?avail else to_read)"
    obtain t2 xs where c: "copy_out r t m = (t2, xs)" by (cases "copy_out r t m")
    let ?r = "r\<lparr>rb_tail := t2\<rparr>"
    have step: "read_blocks cb count (acc @ xs) (count - length (acc @ xs)) t2 (cb ?r) = (out, r')"
      using "1.prems"(5) True c
      by (simp add: read_blocks.simps [of cb count acc to_read t r] Let_def m_def split: prod.splits if_splits)
    have m: "m \<le> length (contents r)" using avail by (simp add: m_def)
    have xs: "t2 = rb_tail r + of_nat m" "xs = take m (contents r)"
      using copy_out_contents [OF "1.prems"(2) m] c "1.prems"(3) by simp_all
    have len: "length xs = m" "length acc + m \<le> count"
      using m xs(2) "1.prems"(4) by (auto simp: m_def)
    have adv: "rb_ok ?r" "contents ?r = drop m (contents r)"
      using rb_advance [OF "1.prems"(2) m] xs(1) by simp_all
    obtain new where cb: "rb_ok (cb ?r)" "rb_tail (cb ?r) = t2" "contents (cb ?r) = drop m (contents r) @ new"
      using "1.prems"(1) adv unfolding produces_def by fastforce
    have IH: "length out \<le> count \<and> rb_ok r' \<and>
       (\<exists>zs new. out = (acc @ xs) @ zs \<and> contents (cb ?r) @ new = zs @ contents r') \<and>
       (length out < count \<longrightarrow> isEmpty r')"
      using True len
      by (intro "1.IH" [OF _ refl _ m_def c [symmetric] refl refl "1.prems"(1) cb(1) cb(2) [symmetric] _ step]) simp_all
    then obtain zs new' where z: "out = acc @ xs @ zs" "contents (cb ?r) @ new' = zs @ contents r'" by auto
    have "contents r @ new @ new' = (xs @ zs) @ contents r'"
      using z(2) cb(3) xs(2) by (metis append.assoc append_take_drop_id)
    with z(1) IH show ?thesis by auto
  qed
qed

section \<open>Properties\<close>

text \<open>C26: For every sequence of inserts and removes the ring buffer is a bounded first-in first-out
  queue, also when the 64-bit indexes wrap around: what was in it and what was accepted since
  is, in order, what came out followed by what is left; it never holds more than its size.\<close>

theorem ring_buffer_fifo:
  assumes "rb_ok r" and "fifo_run rb_insert rb_remove ops r = (accepted, out, r')"
  shows "contents r @ accepted = out @ contents r' \<and> rb_ok r' \<and> length (contents r') \<le> length (data_buff r)"
  using rbq.run_fifo [OF assms] by simp

lemma ring_buffer_fifo_witness:
  "\<exists>r'. fifo_run rb_insert rb_remove [Put 7, Put 8, Put 9, Get, Put 10, Get]
       \<lparr>rb_head = - 1, rb_tail = - 1, data_buff = [0, 0 :: nat]\<rparr> = ([7, 8, 10], [7, 8], r') \<and> contents r' = [10]"
proof -
  let ?r = "\<lparr>rb_head = - 1, rb_tail = - 1, data_buff = [0, 0 :: nat]\<rparr>"
  have ok: "rb_ok ?r" by (auto simp: rb_ok_def intro: exI [of _ 1])
  let ?run = "fifo_run rb_insert rb_remove [Put 7, Put 8, Put 9, Get, Put 10, Get] ?r"
  have "fst ?run = [7, 8, 10]" "fst (snd ?run) = [7, 8]" by code_simp+
  then obtain r' where run: "?run = ([7, 8, 10], [7, 8], r')" by (metis prod.collapse)
  have "contents ?r = []" by (simp add: contents_def)
  with ring_buffer_fifo [OF ok run] have "contents r' = [10]" by simp
  with run show ?thesis by blast
qed

text \<open>A block write with a consumer running in its callback and a block read with a producer
  running in its callback lose, duplicate and reorder nothing: the elements transferred are a
  prefix of the given block in queue order, and fewer than asked for are transferred only when
  the buffer ends up full, respectively empty.\<close>

theorem block_transfer:
  assumes "rb_ok r"
  shows "(consumes cb \<and> writeBuff_cb cb buff block r = (n, r') \<longrightarrow>
      rb_ok r' \<and> n \<le> length buff \<and> (\<exists>gone. contents r @ take n buff = gone @ contents r') \<and>
      (n < length buff \<longrightarrow> isFull r')) \<and>
    (produces cb' \<and> readBuff_cb cb' count block' r = (out, r'') \<longrightarrow>
      rb_ok r'' \<and> length out \<le> count \<and> (\<exists>new. contents r @ new = out @ contents r'') \<and>
      (length out < count \<longrightarrow> isEmpty r''))"
proof (intro conjI impI)
  let ?m = "if block \<noteq> 0 \<and> block < length buff then block else length buff"
  assume w: "consumes cb \<and> writeBuff_cb cb buff block r = (n, r')"
  have "0 + ?m \<le> length buff" by simp
  with w write_blocks_spec [OF _ assms refl this, of cb n r']
  show "rb_ok r'" "n \<le> length buff" "\<exists>gone. contents r @ take n buff = gone @ contents r'"
    "n < length buff \<Longrightarrow> isFull r'" unfolding writeBuff_cb_def by simp_all
next
  let ?m = "if block' \<noteq> 0 \<and> block' < count then block' else count"
  assume w: "produces cb' \<and> readBuff_cb cb' count block' r = (out, r'')"
  have "length ([] :: 'a list) + ?m \<le> count" by simp
  with w read_blocks_spec [OF _ assms refl this, of cb' out r'']
  show "rb_ok r''" "length out \<le> count" "\<exists>new. contents r @ new = out @ contents r''"
    "length out < count \<Longrightarrow> isEmpty r''" unfolding readBuff_cb_def by auto
qed

lemma consumes_id: "consumes (\<lambda>r. r)" and produces_id: "produces (\<lambda>r. r)"
  unfolding consumes_def produces_def by (auto intro: exI [of _ 0])

lemma block_transfer_witness:
  "\<exists>n r' gone. writeBuff_cb (\<lambda>r. r) [1, 2, 3] 1 (ring_new [0, 0 :: nat]) = (n, r') \<and>
     take n [1, 2, 3] = gone @ contents r' \<and> n = 2"
proof -
  let ?w = "writeBuff_cb (\<lambda>r. r) [1, 2, 3] 1 (ring_new [0, 0 :: nat])"
  have ok: "rb_ok (ring_new [0, 0 :: nat])" by (auto simp: rb_ok_def ring_new_def intro: exI [of _ 1])
  have n: "fst ?w = 2" by (simp add: ring_new_def) code_simp
  obtain r' where w: "?w = (2, r')" using n by (metis prod.collapse)
  from block_transfer [OF ok, of "\<lambda>r. r" "[1, 2, 3]" 1 2 r'] consumes_id w
  obtain gone where "contents (ring_new [0, 0 :: nat]) @ take 2 [1, 2, 3] = gone @ contents r'" by blast
  then have "take 2 [1, 2, 3] = gone @ contents r'" by (simp add: contents_def ring_new_def)
  with w show ?thesis by blast
qed

text \<open>The block read without a callback never returns anything and empties the buffer: it starts
  from the head index, so nothing is available, and then stores that index as the tail.\<close>

theorem readBuff_drops_everything:
  "readBuff count r = ([], consumerClear r) \<and> contents (consumerClear r) = []"
  by (simp add: readBuff_def Let_def consumerClear_def contents_def)

text \<open>The in-place interface publishes the wrong slot: whatever the caller stores through the
  pointer it was given, the element that becomes visible by the commit is the stale one in the
  slot of the head index (for a buffer of more than one slot that is not full).\<close>

theorem write_slot_mismatch:
  assumes "rb_ok r" and "1 < length (data_buff r)" and "get_next_write_slot r = Some i"
  shows "last (contents (commit_write (r\<lparr>data_buff := (data_buff r)[i := x]\<rparr>))) =
      data_buff r ! rb_slot r (rb_head r) \<and>
    length (contents (commit_write (r\<lparr>data_buff := (data_buff r)[i := x]\<rparr>))) = Suc (length (contents r))"
proof -
  let ?r = "commit_write (r\<lparr>data_buff := (data_buff r)[i := x]\<rparr>)"
  have space: "length (contents r) < length (data_buff r)" and i: "i = rb_slot r (rb_head r + 1)"
    using assms(3) rb_space [OF assms(1)] by (auto simp: get_next_write_slot_def split: if_splits)
  have d: "unat (rb_head ?r - rb_tail ?r) = Suc (length (contents r))"
    using rb_put_distance [OF assms(1) space] by (simp add: rb_put_def commit_write_def)
  then have len: "length (contents ?r) = Suc (length (contents r))" by (simp add: length_contents)
  have slot: "rb_slot ?r j = rb_slot r j" for j
    by (simp add: commit_write_def rb_slot_def buffer_mask_def buffer_size_def)
  have ne: "rb_slot r (rb_head r) \<noteq> i"
    using rb_slot_inj [OF assms(1), of 0 1 "rb_head r"] assms(2) i by simp
  have "last (contents ?r) = contents ?r ! length (contents r)"
    using len by (metis diff_Suc_1 last_conv_nth length_0_conv nat.distinct(1))
  also have "\<dots> = data_buff ?r ! rb_slot r (rb_tail ?r + of_nat (length (contents r)))"
    using d by (simp add: contents_def [of ?r] slot del: upt_Suc)
  also have "\<dots> = data_buff r ! rb_slot r (rb_head r)"
    using ne by (simp add: commit_write_def rb_head_split [of r, symmetric])
  finally show ?thesis using len by simp
qed

lemma write_slot_mismatch_witness:
  "last (contents (commit_write ((ring_new [5, 6 :: nat])\<lparr>data_buff := [5, 6][1 := 42]\<rparr>))) = 5"
proof -
  let ?r = "ring_new [5, 6 :: nat]"
  have "rb_ok ?r" by (auto simp: rb_ok_def ring_new_def intro: exI [of _ 1])
  moreover have "get_next_write_slot ?r = Some 1" by (simp add: ring_new_def) code_simp
  moreover have "data_buff ?r ! rb_slot ?r (rb_head ?r) = 5" by (simp add: ring_new_def) code_simp
  ultimately show ?thesis using write_slot_mismatch [of ?r 1 42] by (simp add: ring_new_def)
qed

text \<open>\<^verbatim>\<open>emplace\<close> appends the pointer of the next slot, with the object built behind it. When the slots point
  to different objects, that object is none of those in the queue.\<close>

theorem emplace_appends:
  assumes "rb_ok r" and "rb_emplace construct w r = (ok, w', r')"
  shows "(ok \<longleftrightarrow> length (contents r) < length (data_buff r)) \<and>
    (if ok then \<exists>p. p \<in> set (data_buff r) \<and> w' = construct p w \<and> contents r' = contents r @ [p] \<and> rb_ok r' \<and>
       (distinct (data_buff r) \<longrightarrow> p \<notin> set (contents r))
     else w' = w \<and> r' = r)"
proof (cases "length (contents r) < length (data_buff r)")
  case True
  let ?p = "data_buff r ! rb_slot r (rb_head r)"
  have e: "ok" "w' = construct ?p w" "r' = r\<lparr>rb_head := rb_head r + 1\<rparr>"
    using assms(2) True rb_space [OF assms(1)] by (auto simp: rb_emplace_def Let_def)
  have "?p \<notin> set (contents r)" if d: "distinct (data_buff r)"
  proof
    assume "?p \<in> set (contents r)"
    then obtain k where k: "k < length (contents r)" "?p = data_buff r ! rb_slot r (rb_tail r + of_nat k)"
      by (auto simp: contents_def)
    then have "rb_slot r (rb_head r) = rb_slot r (rb_tail r + of_nat k)"
      using d nth_eq_iff_index_eq rb_slot_less [OF assms(1)] by blast
    then show False
      using rb_slot_inj [OF assms(1) k(1) True, of "rb_tail r"] by (simp add: rb_head_split [of r])
  qed
  moreover have "?p \<in> set (data_buff r)" using rb_slot_less [OF assms(1)] by simp
  ultimately show ?thesis using True e publish_contents [OF assms(1) True refl] by auto
next
  case False
  then show ?thesis using assms(2) rb_space [OF assms(1)] by (auto simp: rb_emplace_def Let_def)
qed

end
