(* ===== verification/RingSpsc.thy ===== *)
theory RingSpsc
  imports RingBuffer
begin

text \<open>
  One producer and one consumer on the ring buffer, without a lock: the steps of
  \<^verbatim>\<open>insert\<close> (check for space, store the element, publish the head) and of
  \<^verbatim>\<open>remove\<close> (check for an element, load it, publish the tail) interleave freely.
  The ghost lists hold what the producer published and what the consumer took.
\<close>

datatype 'a producer = PIdle | PSpace 'a u64 | PStored 'a u64

datatype 'a consumer = CIdle | CAvail u64 | CLoaded 'a u64

record 'a spsc =
  sp_ring :: "'a ring"
  sp_prod :: "'a producer"
  sp_cons :: "'a consumer"
  sp_sent :: "'a list"
  sp_got :: "'a list"

inductive spsc_step :: "'a spsc \<Rightarrow> 'a spsc \<Rightarrow> bool" where
  p_check: "sp_prod s = PIdle \<Longrightarrow> h = rb_head (sp_ring s) \<Longrightarrow> h - rb_tail (sp_ring s) \<noteq> buffer_size (sp_ring s) \<Longrightarrow>
    spsc_step s (s\<lparr>sp_prod := PSpace x h\<rparr>)"
| p_store: "sp_prod s = PSpace x h \<Longrightarrow>
    spsc_step s (s\<lparr>sp_ring := (sp_ring s)\<lparr>data_buff := (data_buff (sp_ring s))[rb_slot (sp_ring s) h := x]\<rparr>,
      sp_prod := PStored x h\<rparr>)"
| p_publish: "sp_prod s = PStored x h \<Longrightarrow>
    spsc_step s (s\<lparr>sp_ring := (sp_ring s)\<lparr>rb_head := h + 1\<rparr>, sp_prod := PIdle, sp_sent := sp_sent s @ [x]\<rparr>)"
| c_check: "sp_cons s = CIdle \<Longrightarrow> t = rb_tail (sp_ring s) \<Longrightarrow> t \<noteq> rb_head (sp_ring s) \<Longrightarrow>
    spsc_step s (s\<lparr>sp_cons := CAvail t\<rparr>)"
| c_load: "sp_cons s = CAvail t \<Longrightarrow>
    spsc_step s (s\<lparr>sp_cons := CLoaded (data_buff (sp_ring s) ! rb_slot (sp_ring s) t) t\<rparr>)"
| c_publish: "sp_cons s = CLoaded x t \<Longrightarrow>
    spsc_step s (s\<lparr>sp_ring := (sp_ring s)\<lparr>rb_tail := t + 1\<rparr>, sp_cons := CIdle, sp_got := sp_got s @ [x]\<rparr>)"

definition spsc_init :: "'a ring \<Rightarrow> 'a spsc" where
  "spsc_init r = \<lparr>sp_ring = r, sp_prod = PIdle, sp_cons = CIdle, sp_sent = [], sp_got = []\<rparr>"

section \<open>The invariant\<close>

fun prod_ok :: "'a ring \<Rightarrow> 'a producer \<Rightarrow> bool" where
  "prod_ok r PIdle \<longleftrightarrow> True"
| "prod_ok r (PSpace x h) \<longleftrightarrow> h = rb_head r \<and> length (contents r) < length (data_buff r)"
| "prod_ok r (PStored x h) \<longleftrightarrow> h = rb_head r \<and> length (contents r) < length (data_buff r) \<and>
     data_buff r ! rb_slot r h = x"

fun cons_ok :: "'a ring \<Rightarrow> 'a consumer \<Rightarrow> bool" where
  "cons_ok r CIdle \<longleftrightarrow> True"
| "cons_ok r (CAvail t) \<longleftrightarrow> t = rb_tail r \<and> contents r \<noteq> []"
| "cons_ok r (CLoaded x t) \<longleftrightarrow> t = rb_tail r \<and> contents r \<noteq> [] \<and> hd (contents r) = x"

definition spsc_inv :: "'a list \<Rightarrow> nat \<Rightarrow> 'a spsc \<Rightarrow> bool" where
  "spsc_inv old n s \<longleftrightarrow> rb_ok (sp_ring s) \<and> length (data_buff (sp_ring s)) = n \<and>
     prod_ok (sp_ring s) (sp_prod s) \<and> cons_ok (sp_ring s) (sp_cons s) \<and>
     old @ sp_sent s = sp_got s @ contents (sp_ring s)"

text \<open>Storing to the free slot of the head is invisible.\<close>

lemma store_contents:
  assumes "rb_ok r" and "length (contents r) < length (data_buff r)"
  shows "contents (r\<lparr>data_buff := (data_buff r)[rb_slot r (rb_head r) := x]\<rparr>) = contents r"
    and "rb_ok (r\<lparr>data_buff := (data_buff r)[rb_slot r (rb_head r) := x]\<rparr>)"
proof -
  have "rb_slot r (rb_head r) \<noteq> rb_slot r (rb_tail r + of_nat k)" if "k < length (contents r)" for k
    using rb_slot_inj [OF assms(1) that assms(2), of "rb_tail r"] by (simp add: rb_head_split [of r])
  moreover have "rb_slot (r\<lparr>data_buff := (data_buff r)[rb_slot r (rb_head r) := x]\<rparr>) i = rb_slot r i" for i
    by (simp add: rb_slot_def buffer_mask_def buffer_size_def)
  ultimately show "contents (r\<lparr>data_buff := (data_buff r)[rb_slot r (rb_head r) := x]\<rparr>) = contents r"
    by (auto simp: contents_def [of r] contents_def [of "r\<lparr>data_buff := xs\<rparr>" for xs] length_contents)
  show "rb_ok (r\<lparr>data_buff := (data_buff r)[rb_slot r (rb_head r) := x]\<rparr>)"
    using assms(1) by (simp add: rb_ok_def)
qed

lemma rb_slot_frame [simp]:
  "rb_slot (r\<lparr>rb_head := h\<rparr>) i = rb_slot r i" "rb_slot (r\<lparr>rb_tail := t\<rparr>) i = rb_slot r i"
  "rb_slot (r\<lparr>data_buff := (data_buff r)[j := x]\<rparr>) i = rb_slot r i"
  by (simp_all add: rb_slot_def buffer_mask_def buffer_size_def)

lemma spsc_step_inv:
  assumes "spsc_step s s'" and "spsc_inv old n s"
  shows "spsc_inv old n s'"
  using assms
proof (induction rule: spsc_step.induct)
  case (p_check s h x)
  then show ?case using rb_space [of "sp_ring s"] by (simp add: spsc_inv_def)
next
  case (p_store s x h)
  let ?r = "sp_ring s"
  have r: "rb_ok ?r" "length (contents ?r) < length (data_buff ?r)" "h = rb_head ?r"
    using p_store by (simp_all add: spsc_inv_def)
  note st = store_contents [OF r(1,2), of x]
  have "cons_ok (?r\<lparr>data_buff := (data_buff ?r)[rb_slot ?r h := x]\<rparr>) (sp_cons s)"
    using p_store(2) st(1) r(3) by (cases "sp_cons s") (simp_all add: spsc_inv_def)
  then show ?case
    using p_store(2) st r rb_slot_less [OF r(1)] by (simp add: spsc_inv_def)
next
  case (p_publish s x h)
  let ?r = "sp_ring s"
  have r: "rb_ok ?r" "length (contents ?r) < length (data_buff ?r)" "data_buff ?r ! rb_slot ?r (rb_head ?r) = x"
      "h = rb_head ?r"
    using p_publish by (auto simp: spsc_inv_def)
  note pb = publish_contents [OF r(1-3)]
  have "cons_ok (?r\<lparr>rb_head := h + 1\<rparr>) (sp_cons s)"
    using p_publish(2) pb(1) r(4) by (cases "sp_cons s") (simp_all add: spsc_inv_def)
  then show ?case using p_publish(2) pb r(4) by (simp add: spsc_inv_def)
next
  case (c_check s t)
  then show ?case using rb_empty_iff [of "sp_ring s"] by (simp add: spsc_inv_def)
next
  case (c_load s t)
  then show ?case using rb_remove_first [of "sp_ring s"] by (simp add: spsc_inv_def)
next
  case (c_publish s x t)
  let ?r = "sp_ring s"
  have r: "rb_ok ?r" "contents ?r \<noteq> []" "hd (contents ?r) = x" "t = rb_tail ?r"
    using c_publish by (simp_all add: spsc_inv_def)
  note ad = rb_advance_one [OF r(1,2)]
  have "prod_ok (?r\<lparr>rb_tail := t + 1\<rparr>) (sp_prod s)"
    using c_publish(2) ad(2) r(4) by (cases "sp_prod s") (auto simp: spsc_inv_def)
  moreover have "old @ sp_sent s = (sp_got s @ [x]) @ tl (contents ?r)"
    using c_publish(2) r(2) by (simp add: spsc_inv_def r(3) [symmetric])
  ultimately show ?case using c_publish(2) ad r(4) by (simp add: spsc_inv_def)
qed

section \<open>Property\<close>

text \<open>C27: Under every interleaving of the producer's and the consumer's steps the buffer is a bounded
  FIFO channel: the elements taken are, in order and without loss or duplication, the oldest of
  those that were in the buffer or published since, and the buffer never holds more than its
  size.\<close>

theorem spsc_fifo:
  assumes "rb_ok r" and "spsc_step\<^sup>*\<^sup>* (spsc_init r) s"
  shows "contents r @ sp_sent s = sp_got s @ contents (sp_ring s) \<and>
    length (contents (sp_ring s)) \<le> length (data_buff r)"
proof -
  have "spsc_inv (contents r) (length (data_buff r)) (spsc_init r)"
    using assms(1) by (simp add: spsc_inv_def spsc_init_def)
  with assms(2) have "spsc_inv (contents r) (length (data_buff r)) s"
    by (induction rule: rtranclp_induct) (auto intro: spsc_step_inv)
  then show ?thesis using rbq.bounded [of "sp_ring s"] by (simp add: spsc_inv_def)
qed

lemma spsc_fifo_witness:
  "\<exists>s. spsc_step\<^sup>*\<^sup>* (spsc_init (ring_new [0, 0 :: nat])) s \<and> sp_sent s = [7] \<and>
     [7] = sp_got s @ contents (sp_ring s)"
proof -
  let ?r = "ring_new [0, 0 :: nat]"
  have ok: "rb_ok ?r" by (auto simp: rb_ok_def ring_new_def intro: exI [of _ 1])
  have c: "contents ?r = []" by (simp add: contents_def ring_new_def)
  let ?s0 = "spsc_init ?r"
  let ?s1 = "?s0\<lparr>sp_prod := PSpace 7 0\<rparr>"
  let ?s2 = "?s1\<lparr>sp_ring := ?r\<lparr>data_buff := (data_buff ?r)[rb_slot ?r 0 := 7]\<rparr>, sp_prod := PStored 7 0\<rparr>"
  let ?s3 = "?s2\<lparr>sp_ring := (sp_ring ?s2)\<lparr>rb_head := 0 + 1\<rparr>, sp_prod := PIdle, sp_sent := sp_sent ?s2 @ [7]\<rparr>"
  have "spsc_step ?s0 ?s1"
    by (rule p_check) (simp_all add: spsc_init_def ring_new_def buffer_size_def)
  moreover have "spsc_step ?s1 ?s2" using p_store [of ?s1 7 0] by (simp add: spsc_init_def)
  moreover have "spsc_step ?s2 ?s3" using p_publish [of ?s2 7 0] by simp
  ultimately have path: "spsc_step\<^sup>*\<^sup>* ?s0 ?s3" by (meson rtranclp.rtrancl_refl rtranclp.rtrancl_into_rtrancl)
  have sent: "sp_sent ?s3 = [7]" by (simp add: spsc_init_def)
  from spsc_fifo [OF ok path] have "[7] = sp_got ?s3 @ contents (sp_ring ?s3)" unfolding c sent by simp
  with path sent show ?thesis by blast
qed

end
