(* ===== verification/SpinLock.thy ===== *)
theory SpinLock
  imports Prelude
begin

text \<open>
  The test-and-test-and-set spinlock that guards the detector's tables
  (\<^verbatim>\<open>common/ipc/spinlock.h\<close>): each thread's position inside
  \<^verbatim>\<open>lock\<close>, and one step per atomic access.
\<close>

section \<open>Steps of the lock\<close>

text \<open>
  \<open>Spinning n\<close> is before the load of \<^verbatim>\<open>try_lock\<close> in iteration \<open>n\<close>,
  \<open>SawFree n\<close> between the load that returned false and the exchange.
\<close>

datatype lock_pc = Outside | Spinning nat | SawFree nat | Inside

datatype wait_kind = CpuPause | YieldThread

definition spin_wait :: "nat \<Rightarrow> wait_kind" where
  "spin_wait spin_count = (if spin_count < 16 then CpuPause else YieldThread)"

record 't spin_state =
  sl_locked :: bool
  sl_pc :: "'t \<Rightarrow> lock_pc"
  sl_waits :: "wait_kind list"

definition spin_init :: "'t spin_state" where
  "spin_init = \<lparr>sl_locked = False, sl_pc = (\<lambda>_. Outside), sl_waits = []\<rparr>"

text \<open>A failed attempt waits and starts the next iteration.\<close>

definition spin_again :: "'t \<Rightarrow> nat \<Rightarrow> 't spin_state \<Rightarrow> 't spin_state" where
  "spin_again t n s = s\<lparr>sl_pc := (sl_pc s)(t := Spinning (Suc n)), sl_waits := sl_waits s @ [spin_wait n]\<rparr>"

definition try_load :: "'t \<Rightarrow> nat \<Rightarrow> 't spin_state \<Rightarrow> 't spin_state" where
  "try_load t n s = (if sl_locked s then spin_again t n s else s\<lparr>sl_pc := (sl_pc s)(t := SawFree n)\<rparr>)"

definition try_exchange :: "'t \<Rightarrow> nat \<Rightarrow> 't spin_state \<Rightarrow> 't spin_state" where
  "try_exchange t n s =
     (let old = sl_locked s; s' = s\<lparr>sl_locked := True\<rparr>
      in if old then spin_again t n s' else s'\<lparr>sl_pc := (sl_pc s')(t := Inside)\<rparr>)"

definition spin_unlock :: "'t \<Rightarrow> 't spin_state \<Rightarrow> 't spin_state" where
  "spin_unlock t s = s\<lparr>sl_locked := False, sl_pc := (sl_pc s)(t := Outside)\<rparr>"

inductive spin_step :: "'t spin_state \<Rightarrow> 't spin_state \<Rightarrow> bool" where
  enter: "sl_pc s t = Outside \<Longrightarrow> spin_step s (s\<lparr>sl_pc := (sl_pc s)(t := Spinning 0)\<rparr>)"
| load: "sl_pc s t = Spinning n \<Longrightarrow> spin_step s (try_load t n s)"
| exchange: "sl_pc s t = SawFree n \<Longrightarrow> spin_step s (try_exchange t n s)"
| unlock: "sl_pc s t = Inside \<Longrightarrow> spin_step s (spin_unlock t s)"

section \<open>Refinement of an abstract mutex\<close>

text \<open>The contract of a lock: it is free or has one owner.\<close>

inductive mutex_step :: "'t option \<Rightarrow> 't option \<Rightarrow> bool" where
  acquire: "mutex_step None (Some t)"
| release: "mutex_step (Some t) None"

definition owned_by :: "'t spin_state \<Rightarrow> 't option \<Rightarrow> bool" where
  "owned_by s o1 \<longleftrightarrow> (\<forall>t. sl_pc s t = Inside \<longleftrightarrow> o1 = Some t) \<and> (sl_locked s \<longleftrightarrow> o1 \<noteq> None)"

inductive_cases spin_stepE [consumes 1, case_names enter load exchange unlock]: "spin_step s s'"

lemma owned_by_move:
  assumes "owned_by s o1" and "sl_pc s t \<noteq> Inside" and "pc \<noteq> Inside"
    and "sl_pc s' = (sl_pc s)(t := pc)" and "sl_locked s' = sl_locked s"
  shows "owned_by s' o1"
  using assms unfolding owned_by_def by (metis fun_upd_apply)

text \<open>Every step is one of the mutex or changes nothing of it.\<close>

lemma spin_step_simulates:
  assumes "spin_step s s'" and "owned_by s o1"
  shows "\<exists>o2. owned_by s' o2 \<and> (o2 = o1 \<or> mutex_step o1 o2)"
  using assms(1)
proof (cases rule: spin_stepE)
  case (enter t)
  then have "owned_by s' o1" by (intro owned_by_move [OF assms(2), of t "Spinning 0"]) simp_all
  then show ?thesis by blast
next
  case (load t n)
  then have "owned_by s' o1"
    by (intro owned_by_move [OF assms(2), of t "if sl_locked s then Spinning (Suc n) else SawFree n"])
      (simp_all add: try_load_def spin_again_def)
  then show ?thesis by blast
next
  case (exchange t n)
  show ?thesis
  proof (cases "sl_locked s")
    case True
    with exchange have "owned_by s' o1"
      by (intro owned_by_move [OF assms(2), of t "Spinning (Suc n)"])
        (simp_all add: try_exchange_def Let_def spin_again_def)
    then show ?thesis by blast
  next
    case False
    then have "o1 = None" "\<And>u. sl_pc s u \<noteq> Inside" using assms(2) by (auto simp: owned_by_def)
    then show ?thesis using False exchange(1)
      by (intro exI [of _ "Some t"]) (auto simp: owned_by_def try_exchange_def Let_def intro: acquire)
  qed
next
  case (unlock t)
  then have "o1 = Some t" using assms(2) by (auto simp: owned_by_def)
  then show ?thesis using assms(2) unlock(1)
    by (intro exI [of _ None]) (auto simp: owned_by_def spin_unlock_def intro: release)
qed

theorem spinlock_refines_mutex:
  assumes "spin_step\<^sup>*\<^sup>* spin_init s"
  shows "\<exists>o1. owned_by s o1 \<and> mutex_step\<^sup>*\<^sup>* None o1"
  using assms
proof (induction rule: rtranclp_induct)
  case base
  have "owned_by spin_init None" by (simp add: owned_by_def spin_init_def)
  then show ?case by blast
next
  case (step s s')
  then obtain o1 where o1: "owned_by s o1" "mutex_step\<^sup>*\<^sup>* None o1" by blast
  from spin_step_simulates [OF step(2) o1(1)] o1(2) show ?case by (blast intro: rtranclp.rtrancl_into_rtrancl)
qed

text \<open>A thread that runs alone gets a free lock in two steps, and only the owner's own step gives it up.\<close>

theorem free_lock_taken:
  assumes "\<not> sl_locked s" and "sl_pc s t = Spinning n"
  shows "\<exists>s1 s2. spin_step s s1 \<and> spin_step s1 s2 \<and> sl_pc s2 t = Inside \<and> sl_waits s2 = sl_waits s"
proof -
  let ?s1 = "try_load t n s" and ?s2 = "try_exchange t n (try_load t n s)"
  have "spin_step s ?s1" by (rule load) (rule assms(2))
  moreover have "spin_step ?s1 ?s2" by (rule exchange) (simp add: try_load_def assms(1))
  moreover have "sl_pc ?s2 t = Inside \<and> sl_waits ?s2 = sl_waits s"
    by (simp add: try_load_def try_exchange_def Let_def assms(1))
  ultimately show ?thesis by blast
qed

lemma owner_keeps_lock:
  assumes "spin_step s s'" and "owned_by s (Some t)" and "sl_pc s' t \<noteq> Outside"
  shows "owned_by s' (Some t)"
proof -
  from spin_step_simulates [OF assms(1,2)] obtain o2 where o2: "owned_by s' o2" "o2 = Some t \<or> mutex_step (Some t) o2"
    by blast
  show ?thesis
  proof (cases "o2 = Some t")
    case False
    with o2(2) have "o2 = None" by (auto elim: mutex_step.cases)
    with o2(1) have "sl_pc s' t \<noteq> Inside" "\<not> sl_locked s'" by (auto simp: owned_by_def)
    with assms show ?thesis
      by (cases rule: spin_stepE [OF assms(1)])
        (auto simp: owned_by_def spin_unlock_def try_load_def try_exchange_def spin_again_def Let_def split: if_splits)
  qed (use o2 in simp)
qed

section \<open>Properties\<close>

text \<open>C30: Under every interleaving at most one thread is between \<^verbatim>\<open>lock\<close> and
  \<^verbatim>\<open>unlock\<close>, and the flag is set exactly while one is.\<close>

theorem spinlock_mutual_exclusion:
  assumes "spin_step\<^sup>*\<^sup>* spin_init s"
  shows "(\<forall>t u. sl_pc s t = Inside \<and> sl_pc s u = Inside \<longrightarrow> t = u) \<and>
    (sl_locked s \<longleftrightarrow> (\<exists>t. sl_pc s t = Inside))"
  using spinlock_refines_mutex [OF assms] by (auto simp: owned_by_def)

lemma spinlock_mutual_exclusion_witness:
  "\<exists>s. spin_step\<^sup>*\<^sup>* spin_init s \<and> sl_pc s (1 :: nat) = Inside \<and> sl_pc s (2 :: nat) = SawFree 0 \<and> sl_locked s"
proof -
  let ?s1 = "(spin_init :: nat spin_state)\<lparr>sl_pc := (sl_pc spin_init)(1 := Spinning 0)\<rparr>"
  let ?s2 = "?s1\<lparr>sl_pc := (sl_pc ?s1)(2 := Spinning 0)\<rparr>"
  let ?s3 = "try_load 2 0 ?s2" let ?s4 = "try_load (1 :: nat) 0 ?s3" let ?s5 = "try_exchange 1 0 ?s4"
  have pc: "sl_pc ?s2 2 = Spinning 0" "sl_pc ?s3 1 = Spinning 0" "sl_pc ?s4 1 = SawFree 0"
    "sl_pc ?s5 1 = Inside" "sl_pc ?s5 2 = SawFree 0"
    by (simp_all add: try_load_def try_exchange_def spin_init_def Let_def)
  have "spin_step spin_init ?s1" by (rule enter) (simp add: spin_init_def)
  moreover have "spin_step ?s1 ?s2" by (rule enter) (simp add: spin_init_def)
  moreover have "spin_step ?s2 ?s3" by (rule load) (rule pc)
  moreover have "spin_step ?s3 ?s4" by (rule load) (rule pc)
  moreover have "spin_step ?s4 ?s5" by (rule exchange) (rule pc)
  ultimately have path: "spin_step\<^sup>*\<^sup>* spin_init ?s5"
    by (meson rtranclp.rtrancl_refl rtranclp.rtrancl_into_rtrancl)
  have "sl_locked ?s5" using spinlock_mutual_exclusion [OF path] pc(4) by blast
  with path pc(4,5) show ?thesis by blast
qed

end
