(* ===== verification/TraceEvents.thy ===== *)
theory TraceEvents
  imports DetectorApi "HOL-Library.Monad_Syntax"
begin

text \<open>
  The binary event trace: the serialised events (\<^verbatim>\<open>common/ipc/ExtsanData.h\<close>), the
  recording detector (\<^verbatim>\<open>drace-client/detectors/traceBinary/TraceBinary.cpp\<close>) and the
  off-line replay (\<^verbatim>\<open>standalone/binarydecoder\<close>). Entries are modelled as the bytes
  of \<^verbatim>\<open>struct BufferEntry\<close> in the layout of the x86-64 ABI: one type byte, seven
  bytes of padding and the 32-byte payload union, so that reading another member of the union
  than was written has its real effect.
\<close>

section \<open>Little-endian fields\<close>

fun le_bytes :: "nat \<Rightarrow> nat \<Rightarrow> u8 list" where
  "le_bytes 0 v = []"
| "le_bytes (Suc n) v = of_nat (v mod 256) # le_bytes n (v div 256)"

fun le_value :: "u8 list \<Rightarrow> nat" where
  "le_value [] = 0"
| "le_value (b # bs) = unat b + 256 * le_value bs"

definition get_field :: "nat \<Rightarrow> nat \<Rightarrow> u8 list \<Rightarrow> nat" where
  "get_field off n p = le_value (take n (drop off p))"

definition put_field :: "nat \<Rightarrow> nat \<Rightarrow> nat \<Rightarrow> u8 list \<Rightarrow> u8 list" where
  "put_field off n v p = take off p @ le_bytes n v @ drop (off + n) p"

lemma length_le_bytes [simp]: "length (le_bytes n v) = n"
  by (induction n arbitrary: v) simp_all

lemma le_value_bytes: "v < 256 ^ n \<Longrightarrow> le_value (le_bytes n v) = v"
proof (induction n arbitrary: v)
  case (Suc n)
  have "v div 256 < 256 ^ n" using Suc.prems by (simp add: less_mult_imp_div_less mult.commute)
  then show ?case using Suc.IH by (simp add: unsigned_of_nat take_bit_eq_mod)
qed simp

lemma length_put_field [simp]: "off + n \<le> length p \<Longrightarrow> length (put_field off n v p) = length p"
  by (simp add: put_field_def)

lemma get_put_field:
  "off + n \<le> length p \<Longrightarrow> v < 256 ^ n \<Longrightarrow> get_field off n (put_field off n v p) = v"
  by (simp add: get_field_def put_field_def le_value_bytes)

lemma get_put_other:
  assumes "off + n \<le> length p" and "off' + n' \<le> off \<or> off + n \<le> off'"
  shows "get_field off' n' (put_field off n v p) = get_field off' n' p"
proof -
  have "take n' (drop off' (put_field off n v p)) = take n' (drop off' p)"
    using assms(2)
  proof
    assume "off' + n' \<le> off"
    then show ?thesis using assms(1) by (simp add: put_field_def drop_take)
  next
    assume "off + n \<le> off'"
    then show ?thesis using assms(1) by (simp add: put_field_def)
  qed
  then show ?thesis by (simp add: get_field_def)
qed

section \<open>Entries\<close>

datatype event_type = T_NONE | T_MEMREAD | T_MEMWRITE | T_ACQUIRE | T_RELEASE | T_HAPPENSBEFORE
  | T_HAPPENSAFTER | T_ALLOCATION | T_FREE | T_FORK | T_JOIN | T_DETACH | T_FINISH | T_FUNCENTER | T_FUNCEXIT

definition event_types :: "event_type list" where
  "event_types = [T_NONE, T_MEMREAD, T_MEMWRITE, T_ACQUIRE, T_RELEASE, T_HAPPENSBEFORE,
     T_HAPPENSAFTER, T_ALLOCATION, T_FREE, T_FORK, T_JOIN, T_DETACH, T_FINISH, T_FUNCENTER, T_FUNCEXIT]"

fun type_code :: "event_type \<Rightarrow> nat" where
  "type_code T_NONE = 0" | "type_code T_MEMREAD = 1" | "type_code T_MEMWRITE = 2" | "type_code T_ACQUIRE = 3"
| "type_code T_RELEASE = 4" | "type_code T_HAPPENSBEFORE = 5" | "type_code T_HAPPENSAFTER = 6"
| "type_code T_ALLOCATION = 7" | "type_code T_FREE = 8" | "type_code T_FORK = 9" | "type_code T_JOIN = 10"
| "type_code T_DETACH = 11" | "type_code T_FINISH = 12" | "type_code T_FUNCENTER = 13" | "type_code T_FUNCEXIT = 14"

record buffer_entry =
  be_type :: nat
  be_payload :: "u8 list"

definition payload_size :: nat where
  "payload_size = 32"

text \<open>\<^verbatim>\<open>BufferEntry buf{Type::X}\<close> zero-initialises the union.\<close>

definition new_entry :: "event_type \<Rightarrow> buffer_entry" where
  "new_entry t = \<lparr>be_type = type_code t, be_payload = replicate payload_size 0\<rparr>"

text \<open>The members of the union: a thread id at offset 0, then fields at their ABI offsets.\<close>

definition put_memaccess :: "u32 \<Rightarrow> u64 \<Rightarrow> u64 \<Rightarrow> u64 \<Rightarrow> u8 list \<Rightarrow> u8 list" where
  "put_memaccess tid pc a sz p =
     put_field 24 8 (unat sz) (put_field 16 8 (unat a) (put_field 8 8 (unat pc) (put_field 0 4 (unat tid) p)))"

definition put_mutex :: "u32 \<Rightarrow> u64 \<Rightarrow> int \<Rightarrow> bool \<Rightarrow> bool \<Rightarrow> u8 list \<Rightarrow> u8 list" where
  "put_mutex tid a rec wr acq p =
     put_field 21 1 (of_bool acq) (put_field 20 1 (of_bool wr) (put_field 16 4 (unat (word_of_int rec :: u32))
       (put_field 8 8 (unat a) (put_field 0 4 (unat tid) p))))"

definition put_id_addr :: "u32 \<Rightarrow> u64 \<Rightarrow> u8 list \<Rightarrow> u8 list" where
  "put_id_addr tid a p = put_field 8 8 (unat a) (put_field 0 4 (unat tid) p)"

definition put_forkjoin :: "u32 \<Rightarrow> u32 \<Rightarrow> u8 list \<Rightarrow> u8 list" where
  "put_forkjoin par child p = put_field 4 4 (unat child) (put_field 0 4 (unat par) p)"

definition put_tid :: "u32 \<Rightarrow> u8 list \<Rightarrow> u8 list" where
  "put_tid tid p = put_field 0 4 (unat tid) p"

definition entry_tid :: "buffer_entry \<Rightarrow> u32" where
  "entry_tid e = of_nat (get_field 0 4 (be_payload e))"

definition entry_child :: "buffer_entry \<Rightarrow> u32" where
  "entry_child e = of_nat (get_field 4 4 (be_payload e))"

definition entry_u64 :: "nat \<Rightarrow> buffer_entry \<Rightarrow> u64" where
  "entry_u64 off e = of_nat (get_field off 8 (be_payload e))"

definition entry_int :: "nat \<Rightarrow> buffer_entry \<Rightarrow> int" where
  "entry_int off e = sint (of_nat (get_field off 4 (be_payload e)) :: u32)"

definition entry_bool :: "nat \<Rightarrow> buffer_entry \<Rightarrow> bool" where
  "entry_bool off e = (get_field off 1 (be_payload e) \<noteq> 0)"

section \<open>Recording\<close>

text \<open>
  One entry per call; the handle of a thread is its id (\<^verbatim>\<open>fork\<close> stores the child's id
  through the out parameter).
\<close>

fun trace_entry :: "detector_call \<Rightarrow> buffer_entry" where
  "trace_entry (DFuncEnter tls pc) = (let e = new_entry T_FUNCENTER in e\<lparr>be_payload := put_id_addr (ucast tls) pc (be_payload e)\<rparr>)"
| "trace_entry (DFuncExit tls) = (let e = new_entry T_FUNCEXIT in e\<lparr>be_payload := put_tid (ucast tls) (be_payload e)\<rparr>)"
| "trace_entry (DAcquire tls m r w) = (let e = new_entry T_ACQUIRE in e\<lparr>be_payload := put_mutex (ucast tls) m r w True (be_payload e)\<rparr>)"
| "trace_entry (DRelease tls m w) = (let e = new_entry T_RELEASE in e\<lparr>be_payload := put_mutex (ucast tls) m 0 w False (be_payload e)\<rparr>)"
| "trace_entry (DHappensBefore tls i) = (let e = new_entry T_HAPPENSBEFORE in e\<lparr>be_payload := put_id_addr (ucast tls) i (be_payload e)\<rparr>)"
| "trace_entry (DHappensAfter tls i) = (let e = new_entry T_HAPPENSAFTER in e\<lparr>be_payload := put_id_addr (ucast tls) i (be_payload e)\<rparr>)"
| "trace_entry (DRead tls pc a sz) = (let e = new_entry T_MEMREAD in e\<lparr>be_payload := put_memaccess (ucast tls) pc a sz (be_payload e)\<rparr>)"
| "trace_entry (DWrite tls pc a sz) = (let e = new_entry T_MEMWRITE in e\<lparr>be_payload := put_memaccess (ucast tls) pc a sz (be_payload e)\<rparr>)"
| "trace_entry (DAllocate tls pc a sz) = (let e = new_entry T_ALLOCATION in e\<lparr>be_payload := put_memaccess (ucast tls) pc a sz (be_payload e)\<rparr>)"
| "trace_entry (DDeallocate tls a) = (let e = new_entry T_FREE in e\<lparr>be_payload := put_memaccess (ucast tls) 0 a 0 (be_payload e)\<rparr>)"
| "trace_entry (DFork p c q) = (let e = new_entry T_FORK in e\<lparr>be_payload := put_forkjoin p c (be_payload e)\<rparr>)"
| "trace_entry (DJoin p c) = (let e = new_entry T_JOIN in e\<lparr>be_payload := put_forkjoin p c (be_payload e)\<rparr>)"
| "trace_entry (DDetach tls t) = (let e = new_entry T_DETACH in e\<lparr>be_payload := put_tid (ucast tls) (be_payload e)\<rparr>)"
| "trace_entry (DFinish tls t) = (let e = new_entry T_FINISH in e\<lparr>be_payload := put_tid (ucast tls) (be_payload e)\<rparr>)"

definition entry_size :: nat where
  "entry_size = 40"

text \<open>The bytes that \<^verbatim>\<open>write_log_sync\<close> appends to the file.\<close>

definition entry_bytes :: "buffer_entry \<Rightarrow> u8 list" where
  "entry_bytes e = of_nat (be_type e) # replicate 7 0 @ be_payload e"

definition record_trace :: "detector_call list \<Rightarrow> u8 list" where
  "record_trace cs = concat (map (entry_bytes \<circ> trace_entry) cs)"

section \<open>Replay\<close>

text \<open>
  The handles by thread id. \<open>new_tls\<close> is the handle the replayed detector stores for a forked
  child. \<open>None\<close> is undefined behaviour: \<^verbatim>\<open>operator[]\<close> on an unknown id yields a null
  pointer that is then dereferenced. An unknown type only prints a message.
\<close>

type_synonym tls_map = "(u32, addr) hmap"

definition replay_fork :: "(u32 \<Rightarrow> addr) \<Rightarrow> u32 \<Rightarrow> u32 \<Rightarrow> tls_map \<Rightarrow> detector_call list \<times> tls_map" where
  "replay_fork new_tls tid par m = ([DFork par tid (new_tls tid)], hm_emplace tid (new_tls tid) m)"

definition make_output :: "(u32 \<Rightarrow> addr) \<Rightarrow> buffer_entry \<Rightarrow> tls_map \<Rightarrow> (detector_call list \<times> tls_map) option" where
  "make_output new_tls e m =
     (let tls = hm_find m (entry_tid e); ty = be_type e in
      if ty = type_code T_FUNCENTER then do { h \<leftarrow> tls; Some ([DFuncEnter h (entry_u64 8 e)], m) }
      else if ty = type_code T_FUNCEXIT then do { h \<leftarrow> tls; Some ([DFuncExit h], m) }
      else if ty = type_code T_MEMREAD then do { h \<leftarrow> tls; Some ([DRead h (entry_u64 8 e) (entry_u64 16 e) (entry_u64 24 e)], m) }
      else if ty = type_code T_MEMWRITE then do { h \<leftarrow> tls; Some ([DWrite h (entry_u64 8 e) (entry_u64 16 e) (entry_u64 24 e)], m) }
      else if ty = type_code T_ACQUIRE then do { h \<leftarrow> tls; Some ([DAcquire h (entry_u64 8 e) (entry_int 16 e) (entry_bool 20 e)], m) }
      else if ty = type_code T_RELEASE then do { h \<leftarrow> tls; Some ([DRelease h (entry_u64 8 e) (entry_bool 20 e)], m) }
      else if ty = type_code T_HAPPENSBEFORE then do { h \<leftarrow> tls; Some ([DHappensBefore h (entry_u64 8 e)], m) }
      else if ty = type_code T_HAPPENSAFTER then do { h \<leftarrow> tls; Some ([DHappensAfter h (entry_u64 8 e)], m) }
      else if ty = type_code T_ALLOCATION then do { h \<leftarrow> tls; Some ([DAllocate h (entry_u64 8 e) (entry_u64 16 e) (entry_u64 24 e)], m) }
      else if ty = type_code T_FREE then do { h \<leftarrow> tls; Some ([DDeallocate h (entry_u64 16 e)], m) }
      else if ty = type_code T_FORK then Some (replay_fork new_tls (entry_child e) (entry_tid e) m)
      else if ty = type_code T_JOIN then Some ([DJoin (entry_tid e) (entry_child e)], hm_erase (entry_child e) m)
      else if ty = type_code T_DETACH then do { h \<leftarrow> tls; Some ([DDetach h (entry_tid e)], m) }
      else if ty = type_code T_FINISH then do { h \<leftarrow> tls; Some ([DFinish h (entry_tid e)], hm_erase (entry_child e) m) }
      else Some ([], m))"

definition read_entry :: "u8 list \<Rightarrow> buffer_entry" where
  "read_entry bs = \<lparr>be_type = get_field 0 1 bs, be_payload = take payload_size (drop 8 bs)\<rparr>"

text \<open>
  \<^verbatim>\<open>main\<close> of the decoder: the file size divided by the entry size gives the number of
  entries, but the whole file is read into them; a trailing fragment overruns the vector.
\<close>

fun read_entries :: "nat \<Rightarrow> u8 list \<Rightarrow> buffer_entry list" where
  "read_entries 0 bs = []"
| "read_entries (Suc n) bs = read_entry (take entry_size bs) # read_entries n (drop entry_size bs)"

fun replay :: "(u32 \<Rightarrow> addr) \<Rightarrow> buffer_entry list \<Rightarrow> tls_map \<Rightarrow> (detector_call list \<times> tls_map) option" where
  "replay new_tls [] m = Some ([], m)"
| "replay new_tls (e # es) m = do {
     (cs, m1) \<leftarrow> make_output new_tls e m;
     (ds, m2) \<leftarrow> replay new_tls es m1;
     Some (cs @ ds, m2)
   }"

definition decoder_main :: "(u32 \<Rightarrow> addr) \<Rightarrow> u8 list \<Rightarrow> (detector_call list \<times> tls_map) option" where
  "decoder_main new_tls bs =
     (let n = length bs div entry_size
      in if n * entry_size < length bs then None
         else replay new_tls (read_entries n bs) [])"

section \<open>Reading back what was written\<close>

lemma le_value_zero: "le_value (replicate n 0) = 0"
  by (induction n) simp_all

lemma field_bounds:
  "unat (w :: u8) < 256" "unat (x :: u32) < 4294967296" "unat (y :: u64) < 18446744073709551616"
  "of_bool b < (256 :: nat)" "get_field off n (replicate k 0) = 0"
  using le_value_zero unat_bound [of w] unat_bound [of x] unat_bound [of y] by (simp_all add: get_field_def)

lemmas field_simps =
  get_put_field get_put_other field_bounds entry_tid_def entry_child_def entry_u64_def entry_int_def entry_bool_def
  put_memaccess_def put_mutex_def put_id_addr_def put_forkjoin_def put_tid_def new_entry_def Let_def payload_size_def

lemma int_field: "- (2 ^ 31) \<le> r \<Longrightarrow> r < 2 ^ 31 \<Longrightarrow> sint (word_of_int r :: u32) = r"
  by (simp add: signed_of_int signed_take_bit_int_eq_self)

text \<open>The calls of a recorded program: handles are the ids of threads that were forked.\<close>

definition tls_of :: "u32 set \<Rightarrow> addr \<Rightarrow> bool" where
  "tls_of live tls \<longleftrightarrow> ucast (ucast tls :: u32) = tls \<and> (ucast tls :: u32) \<in> live"

fun recordable :: "u32 set \<Rightarrow> detector_call \<Rightarrow> bool" where
  "recordable live (DAcquire tls m r w) \<longleftrightarrow> tls_of live tls \<and> - (2 ^ 31) \<le> r \<and> r < 2 ^ 31"
| "recordable live (DRelease tls m w) \<longleftrightarrow> tls_of live tls"
| "recordable live (DFuncEnter tls pc) \<longleftrightarrow> tls_of live tls"
| "recordable live (DFuncExit tls) \<longleftrightarrow> tls_of live tls"
| "recordable live (DHappensBefore tls i) \<longleftrightarrow> tls_of live tls"
| "recordable live (DHappensAfter tls i) \<longleftrightarrow> tls_of live tls"
| "recordable live (DRead tls pc a sz) \<longleftrightarrow> tls_of live tls"
| "recordable live (DWrite tls pc a sz) \<longleftrightarrow> tls_of live tls"
| "recordable live (DAllocate tls pc a sz) \<longleftrightarrow> tls_of live tls"
| "recordable live (DDeallocate tls a) \<longleftrightarrow> tls_of live tls"
| "recordable live (DFork p c q) \<longleftrightarrow> q = ucast c \<and> c \<noteq> 0 \<and> c \<notin> live"
| "recordable live (DJoin p c) \<longleftrightarrow> True"
| "recordable live (DDetach tls t) \<longleftrightarrow> tls_of live tls \<and> t = ucast tls"
| "recordable live (DFinish tls t) \<longleftrightarrow> tls_of live tls \<and> t = ucast tls"

fun live_after :: "u32 set \<Rightarrow> detector_call \<Rightarrow> u32 set" where
  "live_after live (DFork p c q) = insert c live"
| "live_after live (DJoin p c) = live - {c}"
| "live_after live _ = live"

fun recordable_run :: "u32 set \<Rightarrow> detector_call list \<Rightarrow> bool" where
  "recordable_run live [] \<longleftrightarrow> True"
| "recordable_run live (c # cs) \<longleftrightarrow> recordable live c \<and> recordable_run (live_after live c) cs"

text \<open>The same call with the handles of the replayed detector.\<close>

fun retarget :: "(u32 \<Rightarrow> addr) \<Rightarrow> detector_call \<Rightarrow> detector_call" where
  "retarget f (DAcquire tls m r w) = DAcquire (f (ucast tls)) m r w"
| "retarget f (DRelease tls m w) = DRelease (f (ucast tls)) m w"
| "retarget f (DFuncEnter tls pc) = DFuncEnter (f (ucast tls)) pc"
| "retarget f (DFuncExit tls) = DFuncExit (f (ucast tls))"
| "retarget f (DHappensBefore tls i) = DHappensBefore (f (ucast tls)) i"
| "retarget f (DHappensAfter tls i) = DHappensAfter (f (ucast tls)) i"
| "retarget f (DRead tls pc a sz) = DRead (f (ucast tls)) pc a sz"
| "retarget f (DWrite tls pc a sz) = DWrite (f (ucast tls)) pc a sz"
| "retarget f (DAllocate tls pc a sz) = DAllocate (f (ucast tls)) pc a sz"
| "retarget f (DDeallocate tls a) = DDeallocate (f (ucast tls)) a"
| "retarget f (DFork p c q) = DFork p c (f c)"
| "retarget f (DJoin p c) = DJoin p c"
| "retarget f (DDetach tls t) = DDetach (f (ucast tls)) t"
| "retarget f (DFinish tls t) = DFinish (f (ucast tls)) t"

definition handles_ok :: "(u32 \<Rightarrow> addr) \<Rightarrow> u32 set \<Rightarrow> tls_map \<Rightarrow> bool" where
  "handles_ok f live m \<longleftrightarrow> 0 \<notin> live \<and> (\<forall>t \<in> live. hm_find m t = Some (f t)) \<and>
    (\<forall>t. hm_find m t = None \<or> hm_find m t = Some (f t))"

lemma handles_live: "handles_ok f live m \<Longrightarrow> tls_of live tls \<Longrightarrow> hm_find m (ucast tls) = Some (f (ucast tls))"
  by (simp add: handles_ok_def tls_of_def)

lemma handles_value: "handles_ok f live m \<Longrightarrow> hm_find m t = Some h \<Longrightarrow> h = f t"
  unfolding handles_ok_def by (metis option.distinct(1) option.inject)

lemma handles_emplace:
  assumes "handles_ok f live m" and "c \<noteq> 0"
  shows "handles_ok f (insert c live) (hm_emplace c (f c) m)"
proof -
  have look: "hm_find (hm_emplace c (f c) m) t = (if t = c then Some (f c) else hm_find m t)" for t
    using handles_value [OF assms(1), of c] by (cases "hm_find m c") (auto simp: hm_emplace_find split: option.split)
  from assms show ?thesis unfolding handles_ok_def look by simp
qed

lemma handles_erase: "handles_ok f live m \<Longrightarrow> handles_ok f (live - {c}) (hm_erase c m)"
  unfolding handles_ok_def hm_erase_find by auto

lemma handles_erase_zero:
  assumes "handles_ok f live m"
  shows "handles_ok f live (hm_erase 0 m)"
proof -
  have "live - {0} = live" using assms by (simp add: handles_ok_def)
  with handles_erase [OF assms, of 0] show ?thesis by simp
qed

lemma make_output_trace:
  assumes "recordable live c" and "handles_ok f live m"
  shows "\<exists>m'. make_output f (trace_entry c) m = Some ([retarget f c], m') \<and> handles_ok f (live_after live c) m'"
proof (cases c)
  case (DFork p u q)
  with assms handles_emplace [OF assms(2), of u] show ?thesis
    by (simp add: make_output_def field_simps replay_fork_def)
next
  case (DJoin p u)
  with handles_erase [OF assms(2), of u] show ?thesis by (simp add: make_output_def field_simps)
next
  case (DFinish tls t)
  with assms handles_live [OF assms(2), of tls] handles_erase_zero [OF assms(2)] show ?thesis
    by (simp add: make_output_def field_simps)
qed (use assms handles_live [OF assms(2)] in \<open>simp_all add: make_output_def field_simps int_field\<close>)

lemma length_trace_entry: "length (be_payload (trace_entry c)) = payload_size"
  by (cases c) (simp_all add: new_entry_def put_memaccess_def put_mutex_def put_id_addr_def put_forkjoin_def
      put_tid_def payload_size_def Let_def)

lemma type_trace_entry: "be_type (trace_entry c) < 256"
  by (cases c) (simp_all add: new_entry_def Let_def)

lemma length_entry_bytes: "length (entry_bytes (trace_entry c)) = entry_size"
  by (simp add: entry_bytes_def entry_size_def length_trace_entry payload_size_def)

lemma read_entry_bytes:
  "length (be_payload e) = payload_size \<Longrightarrow> be_type e < 256 \<Longrightarrow> read_entry (entry_bytes e) = e"
  by (simp add: read_entry_def entry_bytes_def get_field_def payload_size_def unsigned_of_nat take_bit_eq_mod)

lemma length_record: "length (record_trace cs) = length cs * entry_size"
  by (induction cs) (simp_all add: record_trace_def length_entry_bytes)

lemma read_record: "read_entries (length cs) (record_trace cs) = map trace_entry cs"
proof (induction cs)
  case (Cons c cs)
  have "record_trace (c # cs) = entry_bytes (trace_entry c) @ record_trace cs" by (simp add: record_trace_def)
  with Cons show ?case
    by (simp add: length_entry_bytes read_entry_bytes length_trace_entry type_trace_entry)
qed (simp add: record_trace_def)

lemma replay_record:
  "recordable_run live cs \<Longrightarrow> handles_ok f live m \<Longrightarrow>
     \<exists>m'. replay f (map trace_entry cs) m = Some (map (retarget f) cs, m')"
proof (induction cs arbitrary: live m)
  case (Cons c cs)
  then obtain m1 where "make_output f (trace_entry c) m = Some ([retarget f c], m1)"
      "handles_ok f (live_after live c) m1"
    using make_output_trace [of live c f m] by auto
  with Cons show ?case by fastforce
qed simp

section \<open>Properties\<close>

text \<open>C28: Replaying a recorded trace file makes the replayed detector receive exactly the recorded
  calls, in order and with all arguments, the handles replaced by those it gave out itself; this
  holds for programs whose handles come from forks of ids that are not zero and not in use.\<close>

theorem trace_roundtrip:
  assumes "recordable_run {} cs"
  shows "\<exists>m. decoder_main new_tls (record_trace cs) = Some (map (retarget new_tls) cs, m)"
proof -
  have "length (record_trace cs) div entry_size = length cs"
    by (simp add: length_record entry_size_def)
  moreover have "\<exists>m. replay new_tls (map trace_entry cs) [] = Some (map (retarget new_tls) cs, m)"
    using assms by (rule replay_record) (simp add: handles_ok_def)
  ultimately show ?thesis
    by (simp add: decoder_main_def Let_def length_record read_record)
qed

lemma trace_roundtrip_witness:
  "\<exists>m. decoder_main (\<lambda>t. 1000 + ucast t)
     (record_trace [DFork 1 2 2, DAcquire 2 77 (- 3) True, DWrite 2 9 4096 3, DFinish 2 2]) =
   Some ([DFork 1 2 1002, DAcquire 1002 77 (- 3) True, DWrite 1002 9 4096 3, DFinish 1002 2], m)"
proof -
  let ?cs = "[DFork 1 2 2, DAcquire 2 77 (- 3) True, DWrite 2 9 4096 3, DFinish 2 2]"
  have "recordable_run {} ?cs" by (simp add: tls_of_def)
  from trace_roundtrip [OF this, of "\<lambda>t. 1000 + ucast t"] show ?thesis by simp
qed

text \<open>A finish event removes the handle of thread 0, not of the thread that ended: the replay
  reads the child field of a union in which only the thread id was stored, and finds the zero it
  was initialised with.\<close>

theorem finish_erases_thread_zero:
  assumes "hm_find m (ucast tls) = Some h"
  shows "make_output new_tls (trace_entry (DFinish tls t)) m =
    Some ([DFinish h (ucast tls)], hm_erase 0 m)"
  using assms by (simp add: make_output_def field_simps)

lemma finish_erases_thread_zero_witness:
  "\<exists>cs m. make_output (\<lambda>t. 0) (trace_entry (DFinish 5 5)) [(0, 100), (5, 500)] = Some (cs, m) \<and>
     hm_find m 0 = None \<and> hm_find m 5 = Some 500"
proof -
  have "hm_find [(0, 100), (5, 500)] (ucast (5 :: addr) :: u32) = Some (500 :: addr)"
    by (simp add: hm_find_def)
  from finish_erases_thread_zero [OF this, of "\<lambda>t. 0" 5]
  have "make_output (\<lambda>t. 0) (trace_entry (DFinish 5 5)) [(0, 100), (5, 500)] =
    Some ([DFinish 500 (ucast (5 :: addr))], hm_erase 0 [(0, 100), (5, 500)])" .
  moreover have "hm_find (hm_erase 0 [(0, 100), (5 :: u32, 500 :: addr)]) 0 = None"
    "hm_find (hm_erase 0 [(0, 100), (5 :: u32, 500 :: addr)]) 5 = Some 500"
    by (simp_all add: hm_erase_find) (simp add: hm_find_def)
  ultimately show ?thesis by blast
qed

end
