(* ===== verification/OrderedMap.thy ===== *)
theory OrderedMap
  imports HashMap
begin

text \<open>
  \<^verbatim>\<open>std::map<K, V, std::greater<K>>\<close> as the code uses it: an index of intervals by their
  begin, in which \<^verbatim>\<open>lower_bound(a)\<close> gives the entry with the largest key not above
  \<open>a\<close>. The race filter (suppressed blocks) and the module tracker (loaded modules) look
  intervals up this way; what they share is the locale \<open>interval_index\<close>.
\<close>

fun lower_bound :: "u64 \<Rightarrow> (u64, 'v) hmap \<Rightarrow> (u64 \<times> 'v) option" where
  "lower_bound a [] = None"
| "lower_bound a ((k, v) # m) =
     (case lower_bound a m of
        None \<Rightarrow> if k \<le> a then Some (k, v) else None
      | Some (k', v') \<Rightarrow> if k \<le> a \<and> k' < k then Some (k, v) else Some (k', v'))"

lemma lower_bound_None: "lower_bound a m = None \<Longrightarrow> (k, v) \<in> set m \<Longrightarrow> a < k"
  by (induction a m rule: lower_bound.induct) (auto split: option.splits if_splits)

lemma lower_bound_Some:
  "lower_bound a m = Some (k, v) \<Longrightarrow>
     (k, v) \<in> set m \<and> k \<le> a \<and> (\<forall>(k', v') \<in> set m. k' \<le> a \<longrightarrow> k' \<le> k)"
proof (induction a m arbitrary: k v rule: lower_bound.induct)
  case (2 a k0 v0 m)
  show ?case
  proof (cases "lower_bound a m")
    case None
    then have "\<forall>(k', v') \<in> set m. a < k'" using lower_bound_None [OF None] by auto
    with 2(2) None show ?thesis by (auto split: if_splits)
  next
    case (Some kv)
    obtain k1 v1 where kv: "kv = (k1, v1)" by (cases kv)
    show ?thesis
    proof (cases "k0 \<le> a \<and> k1 < k0")
      case True
      with 2(2) Some kv have "k = k0" "v = v0" by auto
      with True 2(1) [of k1 v1] Some kv show ?thesis by fastforce
    next
      case False
      with 2(2) Some kv have "k = k1" "v = v1" by (auto split: if_splits)
      with False 2(1) [of k1 v1] Some kv show ?thesis by fastforce
    qed
  qed
qed simp

section \<open>Interval indices\<close>

locale interval_index =
  fixes find :: "'m \<Rightarrow> u64 \<Rightarrow> 'v option"
    and floor_entry :: "u64 \<Rightarrow> 'm \<Rightarrow> (u64 \<times> 'v) option"
    and invar :: "'m \<Rightarrow> bool"
    and upper :: "u64 \<Rightarrow> 'v \<Rightarrow> u64"
  assumes floor_None: "invar m \<Longrightarrow> floor_entry a m = None \<Longrightarrow> find m k = Some v \<Longrightarrow> a < k"
    and floor_Some: "invar m \<Longrightarrow> floor_entry a m = Some (k, v) \<Longrightarrow> find m k = Some v \<and> k \<le> a"
    and floor_greatest: "invar m \<Longrightarrow> floor_entry a m = Some (k, v) \<Longrightarrow> find m k' = Some v' \<Longrightarrow> k' \<le> a \<Longrightarrow> k' \<le> k"
begin

definition separated :: "'m \<Rightarrow> bool" where
  "separated m \<longleftrightarrow> (\<forall>k v k' v'. find m k = Some v \<longrightarrow> find m k' = Some v' \<longrightarrow> k < k' \<longrightarrow> upper k v \<le> k')"

definition hit :: "u64 \<Rightarrow> 'm \<Rightarrow> (u64 \<times> 'v) option" where
  "hit a m = (case floor_entry a m of None \<Rightarrow> None
     | Some (k, v) \<Rightarrow> if a < upper k v then Some (k, v) else None)"

lemma hit_sound:
  assumes "invar m" and "hit a m = Some (k, v)"
  shows "find m k = Some v \<and> k \<le> a \<and> a < upper k v"
proof -
  from assms(2) have "floor_entry a m = Some (k, v)" "a < upper k v"
    by (auto simp: hit_def split: option.splits if_splits)
  with floor_Some [OF assms(1)] show ?thesis by blast
qed

lemma hit_complete:
  assumes "invar m" and "separated m" and "find m k = Some v" and "k \<le> a" and "a < upper k v"
  shows "hit a m = Some (k, v)"
proof (cases "floor_entry a m")
  case None
  with floor_None [OF assms(1) None assms(3)] assms(4) show ?thesis by simp
next
  case (Some kv)
  obtain k1 v1 where kv: "kv = (k1, v1)" by (cases kv)
  note fl = Some [unfolded kv]
  have found: "find m k1 = Some v1" and "k1 \<le> a" using floor_Some [OF assms(1) fl] by auto
  have "k \<le> k1" by (rule floor_greatest [OF assms(1) fl assms(3,4)])
  moreover have "\<not> k < k1"
  proof
    assume "k < k1"
    with assms(2,3) found have "upper k v \<le> k1" by (auto simp: separated_def)
    with \<open>k1 \<le> a\<close> assms(5) show False by simp
  qed
  ultimately have "k1 = k" by simp
  with found assms(3) have "v1 = v" by simp
  with \<open>k1 = k\<close> fl assms(5) show ?thesis by (simp add: hit_def)
qed

lemma hit_iff:
  assumes "invar m" and "separated m"
  shows "hit a m = Some (k, v) \<longleftrightarrow> find m k = Some v \<and> k \<le> a \<and> a < upper k v"
  using hit_sound [OF assms(1)] hit_complete [OF assms] by blast

lemma separatedI:
  assumes "\<And>k v k' v'. find m k = Some v \<Longrightarrow> find m k' = Some v' \<Longrightarrow> k < k' \<Longrightarrow> upper k v \<le> k'"
  shows "separated m"
  using assms unfolding separated_def by blast

end

lemma interval_index_hm: "interval_index hm_find lower_bound hm_wf"
proof
  show "hm_wf m \<Longrightarrow> lower_bound a m = None \<Longrightarrow> hm_find m k = Some v \<Longrightarrow> a < k"
    for m :: "(u64, 'a) hmap" and a k v by (rule lower_bound_None [of a m k v]) (simp_all add: hm_find_in)
  show "hm_wf m \<Longrightarrow> lower_bound a m = Some (k, v) \<Longrightarrow> hm_find m k = Some v \<and> k \<le> a"
    for m :: "(u64, 'a) hmap" and a k v by (drule lower_bound_Some) (simp add: hm_find_in)
  show "k' \<le> k" if "hm_wf m" "lower_bound a m = Some (k, v)" "hm_find m k' = Some v'" "k' \<le> a"
    for m :: "(u64, 'a) hmap" and a k v k' v'
    using lower_bound_Some [OF that(2)] that by (auto simp: hm_find_in [OF that(1), symmetric])
qed

end
