(* ===== verification/RaceFilters.thy ===== *)
theory RaceFilters
  imports DetectorApi OrderedMap "HOL-Library.Monad_Syntax" "HOL-Library.Sublist"
begin

text \<open>
  The race filter (\<^verbatim>\<open>drace-client/src/race-filter.cpp\<close>,
  \<^verbatim>\<open>include/race-filter.h\<close>) with the decorated races it inspects
  (\<^verbatim>\<open>include/race\<close>, \<^verbatim>\<open>include/symbol/SymbolLocation.h\<close>).
  \<^verbatim>\<open>std::regex_match\<close> is the argument \<open>rm\<close> (pattern, text); for patterns without other
  metacharacters than \<^verbatim>\<open>.\<close> and \<^verbatim>\<open>*\<close> its behaviour is spelled out as
  \<open>rx_match\<close>. \<open>None\<close> is undefined behaviour (an index past the terminating null).
\<close>

section \<open>Decorated races\<close>

record symbol_location =
  sl_pc :: addr
  sl_mod_base :: addr
  sl_mod_end :: addr
  sl_mod_name :: string
  sl_sym_name :: string
  sl_file :: string
  sl_line :: u64
  sl_line_offs :: u64

definition symbol_location_init :: symbol_location where
  "symbol_location_init = \<lparr>sl_pc = 0, sl_mod_base = 0, sl_mod_end = 0, sl_mod_name = [], sl_sym_name = [],
     sl_file = [], sl_line = 0, sl_line_offs = 0\<rparr>"

record resolved_access =
  ra_entry :: access_entry
  ra_resolved :: "symbol_location list"

definition resolved_access_of :: "access_entry \<Rightarrow> resolved_access" where
  "resolved_access_of e = \<lparr>ra_entry = e, ra_resolved = []\<rparr>"

record decorated_race =
  dr_first :: resolved_access
  dr_second :: resolved_access
  dr_resolved_addr :: symbol_location
  dr_elapsed :: int
  dr_is_resolved :: bool

definition decorated_race_of :: "race \<Rightarrow> int \<Rightarrow> decorated_race" where
  "decorated_race_of r ttr = \<lparr>dr_first = resolved_access_of (fst r), dr_second = resolved_access_of (snd r),
     dr_resolved_addr = symbol_location_init, dr_elapsed = ttr, dr_is_resolved = False\<rparr>"

section \<open>The filter\<close>

record race_filter =
  rf_rtos :: "string list"
  rf_race :: "string list"
  rf_addr :: "(u64, u32) hmap"

definition race_filter_empty :: race_filter where
  "race_filter_empty = \<lparr>rf_rtos = [], rf_race = [], rf_addr = []\<rparr>"

subsection \<open>Reading the suppression file\<close>

text \<open>\<^verbatim>\<open>operator[]\<close> and \<^verbatim>\<open>back\<close> of \<^verbatim>\<open>std::string\<close>.\<close>

definition str_at :: "string \<Rightarrow> nat \<Rightarrow> char option" where
  "str_at s i = (if i < length s then Some (s ! i) else if i = length s then Some (CHR 0x00) else None)"

definition str_back :: "string \<Rightarrow> char option" where
  "str_back s = (if s = [] then None else Some (last s))"

text \<open>\<^verbatim>\<open>find(c, pos)\<close>; \<open>None\<close> is \<^verbatim>\<open>npos\<close>.\<close>

fun index_of :: "char \<Rightarrow> string \<Rightarrow> nat option" where
  "index_of c [] = None"
| "index_of c (x # xs) = (if x = c then Some 0 else map_option Suc (index_of c xs))"

definition str_find :: "char \<Rightarrow> nat \<Rightarrow> string \<Rightarrow> nat option" where
  "str_find c pos s = map_option ((+) pos) (index_of c (drop pos s))"

lemma index_of_Some: "index_of c xs = Some i \<Longrightarrow> i < length xs \<and> xs ! i = c \<and> c \<notin> set (take i xs)"
  by (induction xs arbitrary: i) (auto split: if_splits)

lemma index_of_None: "index_of c xs = None \<longleftrightarrow> c \<notin> set xs"
  by (induction xs) auto

lemma str_find_Some: "str_find c pos s = Some p \<Longrightarrow> pos \<le> p \<and> p < length s"
  using index_of_Some [of c "drop pos s"] by (auto simp: str_find_def)

function star_loop :: "nat \<Rightarrow> string \<Rightarrow> string" where
  "star_loop pos s = (case str_find CHR ''*'' pos s of None \<Rightarrow> s
     | Some p \<Rightarrow> star_loop (p + 2) (take p s @ ''.'' @ drop p s))"
  by auto
termination
  by (relation "measure (\<lambda>(pos, s). length s - pos)") (auto dest!: str_find_Some)

declare star_loop.simps [simp del]

definition normalize_string :: "string \<Rightarrow> string option" where
  "normalize_string expr0 = do {
     let expr = star_loop 0 expr0;
     c0 \<leftarrow> str_at expr 0;
     expr \<leftarrow> (if c0 \<noteq> CHR ''^'' then
                if c0 \<noteq> CHR ''.'' then do {
                  c1 \<leftarrow> str_at expr 1;
                  Some (if c1 \<noteq> CHR ''*'' then ''.*'' @ expr else expr)
                } else Some expr
              else Some (drop 1 expr));
     b \<leftarrow> str_back expr;
     Some (if b \<noteq> CHR ''$'' then if b \<noteq> CHR ''*'' then expr @ ''.*'' else expr else butlast expr)
   }"

text \<open>One line of the file, and all lines in order.\<close>

definition add_entry :: "string \<Rightarrow> race_filter \<Rightarrow> race_filter option" where
  "add_entry entry f = do {
     c0 \<leftarrow> str_at entry 0;
     if c0 \<noteq> CHR ''#'' then
       case str_find CHR '':'' 0 entry of
         None \<Rightarrow> Some f
       | Some pos \<Rightarrow> do {
           f \<leftarrow> (if take pos entry = ''race_tos'' then do {
                    tmp \<leftarrow> normalize_string (drop (pos + 1) entry);
                    Some (f\<lparr>rf_rtos := rf_rtos f @ [tmp]\<rparr>)
                  } else Some f);
           if take pos entry = ''race'' then do {
             tmp \<leftarrow> normalize_string (drop (pos + 1) entry);
             Some (f\<lparr>rf_race := rf_race f @ [tmp]\<rparr>)
           } else Some f
         }
     else Some f
   }"

fun filter_init :: "string list \<Rightarrow> race_filter \<Rightarrow> race_filter option" where
  "filter_init [] f = Some f"
| "filter_init (l # ls) f = do { f \<leftarrow> add_entry l f; filter_init ls f }"

text \<open>\<^verbatim>\<open>std::getline\<close>: a last line without newline counts, an empty rest does not.\<close>

fun getlines :: "string \<Rightarrow> string \<Rightarrow> string list" where
  "getlines acc [] = (if acc = [] then [] else [acc])"
| "getlines acc (c # cs) = (if c = CHR 0x0A then acc # getlines [] cs else getlines (acc @ [c]) cs)"

definition race_filter_of :: "string \<Rightarrow> race_filter option" where
  "race_filter_of content = filter_init (getlines [] content) race_filter_empty"

subsection \<open>Suppressed addresses\<close>

definition addr_is_suppressed :: "race_filter \<Rightarrow> u64 \<Rightarrow> bool" where
  "addr_is_suppressed f a =
     (case lower_bound a (rf_addr f) of None \<Rightarrow> False | Some (k, sz) \<Rightarrow> a < k + ucast sz)"

definition suppress_addr :: "u64 \<Rightarrow> u32 \<Rightarrow> race_filter \<Rightarrow> race_filter" where
  "suppress_addr a sz f = f\<lparr>rf_addr := hm_emplace a sz (rf_addr f)\<rparr>"

subsection \<open>The checks\<close>

definition stack_syms :: "resolved_access \<Rightarrow> string list" where
  "stack_syms ra = map sl_sym_name (ra_resolved ra)"

definition check_race :: "(string \<Rightarrow> string \<Rightarrow> bool) \<Rightarrow> race_filter \<Rightarrow> decorated_race \<Rightarrow> bool" where
  "check_race rm f r =
     (if addr_is_suppressed f (ae_accessed_memory (ra_entry (dr_first r))) \<or>
         addr_is_suppressed f (ae_accessed_memory (ra_entry (dr_second r)))
      then True
      else list_ex (\<lambda>p. list_ex (rm p) (stack_syms (dr_first r)) \<or> list_ex (rm p) (stack_syms (dr_second r)))
             (rf_race f))"

text \<open>\<^verbatim>\<open>back()\<close> of a resolved stack; it must not be empty when the access has a stack.\<close>

definition check_rtos :: "(string \<Rightarrow> string \<Rightarrow> bool) \<Rightarrow> race_filter \<Rightarrow> decorated_race \<Rightarrow> bool option" where
  "check_rtos rm f r =
     (if ae_stack_size (ra_entry (dr_first r)) = 0 \<or> ae_stack_size (ra_entry (dr_second r)) = 0 then Some False
      else if stack_syms (dr_first r) = [] \<or> stack_syms (dr_second r) = [] then None
      else Some (list_ex (\<lambda>p. rm p (last (stack_syms (dr_first r))) \<or> rm p (last (stack_syms (dr_second r))))
             (rf_rtos f)))"

definition check_suppress :: "(string \<Rightarrow> string \<Rightarrow> bool) \<Rightarrow> race_filter \<Rightarrow> decorated_race \<Rightarrow> bool option" where
  "check_suppress rm f r = (if check_race rm f r then Some True else check_rtos rm f r)"

definition stack_implausible :: "race \<Rightarrow> bool" where
  "stack_implausible r =
     (if ae_stack_size (fst r) = 0 \<or> ae_stack_size (snd r) = 0 then False
      else if ae_stack_trace (fst r) ! (ae_stack_size (fst r) - 1) = 0 then True
      else ae_stack_trace (snd r) ! (ae_stack_size (snd r) - 1) = 0)"

text \<open>\<open>instrument\<close>: the instrumentation flags of the module that contains an address, if any.\<close>

definition instr_memory :: nat where
  "instr_memory = 2"

definition in_silent_module :: "(addr \<Rightarrow> u8 option) \<Rightarrow> race \<Rightarrow> bool" where
  "in_silent_module instrument r =
     (case instrument (ae_accessed_memory (fst r)) of None \<Rightarrow> False | Some fl \<Rightarrow> \<not> bit fl 1)"

definition check_implausible :: "(addr \<Rightarrow> u8 option) \<Rightarrow> race \<Rightarrow> bool" where
  "check_implausible instrument r \<longleftrightarrow> stack_implausible r \<or> in_silent_module instrument r"

definition block_end :: "u64 \<Rightarrow> u32 \<Rightarrow> u64" where
  "block_end k sz = k + ucast sz"

interpretation blocks: interval_index hm_find lower_bound hm_wf block_end
  by (rule interval_index_hm)

section \<open>Wildcard patterns\<close>

text \<open>
  The matcher of \<^verbatim>\<open>std::regex_match\<close> (ECMAScript grammar) on patterns that use
  only \<^verbatim>\<open>.\<close> and \<^verbatim>\<open>*\<close>; the dot matches all but line terminators.
\<close>

definition line_terminator :: "char \<Rightarrow> bool" where
  "line_terminator c \<longleftrightarrow> c = CHR 0x0A \<or> c = CHR 0x0D"

definition rx_char :: "char \<Rightarrow> char \<Rightarrow> bool" where
  "rx_char p c \<longleftrightarrow> (if p = CHR ''.'' then \<not> line_terminator c else p = c)"

function rx_match :: "string \<Rightarrow> string \<Rightarrow> bool" where
  "rx_match [] s \<longleftrightarrow> s = []"
| "rx_match (p # ps) s \<longleftrightarrow>
     (if ps \<noteq> [] \<and> hd ps = CHR ''*''
      then rx_match (tl ps) s \<or> (case s of [] \<Rightarrow> False | c # s' \<Rightarrow> rx_char p c \<and> rx_match (p # ps) s')
      else (case s of [] \<Rightarrow> False | c # s' \<Rightarrow> rx_char p c \<and> rx_match ps s'))"
  by pat_completeness auto
termination
  by (relation "measure (\<lambda>(p, s). length p + length s)") (auto simp: length_tl)

declare rx_match.simps(2) [simp del]

text \<open>The texts in which every character stands for itself, \<^verbatim>\<open>*\<close> apart.\<close>

definition plain :: "char \<Rightarrow> bool" where
  "plain c \<longleftrightarrow> c \<notin> set (CHR 0x5C # ''^$.+?()[]{}|'')"

text \<open>What a suppression line means: \<^verbatim>\<open>*\<close> stands for any text, every other character for itself.\<close>

fun glob :: "string \<Rightarrow> string \<Rightarrow> bool" where
  "glob [] s \<longleftrightarrow> s = []"
| "glob (p # ps) s \<longleftrightarrow>
     (if p = CHR ''*'' then (\<exists>u v. s = u @ v \<and> glob ps v)
      else (case s of [] \<Rightarrow> False | c # s' \<Rightarrow> p = c \<and> glob ps s'))"

fun dots :: "string \<Rightarrow> string" where
  "dots [] = []"
| "dots (c # s) = (if c = CHR ''*'' then ''.*'' @ dots s else c # dots s)"

lemma dots_append: "dots (s @ t) = dots s @ dots t"
  by (induction s) auto

lemma dots_no_star: "CHR ''*'' \<notin> set s \<Longrightarrow> dots s = s"
  by (induction s) auto

lemma star_loop_dots: "pos \<le> length s \<Longrightarrow> star_loop pos s = take pos s @ dots (drop pos s)"
proof (induction pos s rule: star_loop.induct)
  case (1 pos s)
  show ?case
  proof (cases "str_find CHR ''*'' pos s")
    case None
    then have "dots (drop pos s) = drop pos s" by (simp add: str_find_def index_of_None dots_no_star)
    with None show ?thesis by (subst star_loop.simps) (metis append_take_drop_id option.case(1))
  next
    case (Some p)
    then obtain i where i: "index_of CHR ''*'' (drop pos s) = Some i" and p: "p = pos + i"
      by (auto simp: str_find_def)
    have bound: "p < length s" using str_find_Some [OF Some] by simp
    from index_of_Some [OF i] have star: "s ! p = CHR ''*''" "CHR ''*'' \<notin> set (take i (drop pos s))"
      using bound by (simp_all add: p)
    have "drop pos s = take i (drop pos s) @ CHR ''*'' # drop (Suc p) s"
      using star(1) bound by (metis Cons_nth_drop_Suc append_take_drop_id drop_drop add.commute p)
    then have "dots (drop pos s) = take i (drop pos s) @ ''.*'' @ dots (drop (Suc p) s)"
      using dots_append [of "take i (drop pos s)" "CHR ''*'' # drop (Suc p) s"] dots_no_star [OF star(2)]
      by simp
    moreover define x where "x = take p s @ ''.'' @ drop p s"
    ultimately have rest: "drop pos s = take i (drop pos s) @ drop p s \<and>
        dots (drop pos s) = take i (drop pos s) @ ''.*'' @ dots (drop (Suc p) s)"
      using p by (metis append_take_drop_id drop_drop add.commute)
    have "star_loop pos s = star_loop (p + 2) x"
      using Some by (subst star_loop.simps) (simp add: x_def)
    also have "\<dots> = take (p + 2) x @ dots (drop (p + 2) x)"
      using 1(1) [OF Some] bound by (simp add: x_def)
    also have "take (p + 2) x = take p s @ ''.*''"
      using bound star(1) by (simp add: x_def take_Cons' Cons_nth_drop_Suc [symmetric])
    also have "drop (p + 2) x = drop (Suc p) s" using bound by (simp add: x_def)
    also have "take p s = take pos s @ take i (drop pos s)" by (simp add: p take_add)
    finally show ?thesis using rest by simp
  qed
qed

lemma split_Cons: "(\<exists>u v. c # s = u @ v \<and> P v) \<longleftrightarrow> P (c # s) \<or> (\<exists>u v. s = u @ v \<and> P v)"
  by (auto simp: Cons_eq_append_conv)

lemma rx_dot_star:
  "\<forall>c \<in> set s. \<not> line_terminator c \<Longrightarrow>
     rx_match (CHR ''.'' # CHR ''*'' # ps) s \<longleftrightarrow> (\<exists>u v. s = u @ v \<and> rx_match ps v)"
proof (induction s)
  case (Cons c s)
  then show ?case by (simp add: rx_char_def rx_match.simps(2) [of _ _ "c # s"] split_Cons)
qed (simp add: rx_match.simps(2))

lemma rx_literal:
  "p \<noteq> CHR ''.'' \<Longrightarrow> ps = [] \<or> hd ps \<noteq> CHR ''*'' \<Longrightarrow>
     rx_match (p # ps) s \<longleftrightarrow> (case s of [] \<Rightarrow> False | c # s' \<Rightarrow> p = c \<and> rx_match ps s')"
  by (subst rx_match.simps(2)) (auto simp: rx_char_def split: list.split)

lemma dots_head: "dots s = [] \<or> hd (dots s) \<noteq> CHR ''*''"
  by (cases s) auto

lemma rx_dots_glob:
  "\<forall>c \<in> set t. plain c \<Longrightarrow> \<forall>c \<in> set s. \<not> line_terminator c \<Longrightarrow> rx_match (dots t) s = glob t s"
proof (induction t arbitrary: s)
  case (Cons p t)
  show ?case
  proof (cases "p = CHR ''*''")
    case True
    have "rx_match (dots t) v = glob t v" if "s = u @ v" for u v using Cons that by simp
    then have "(\<exists>u v. s = u @ v \<and> rx_match (dots t) v) \<longleftrightarrow> (\<exists>u v. s = u @ v \<and> glob t v)" by blast
    with True Cons.prems(2) show ?thesis by (simp add: rx_dot_star)
  next
    case False
    with Cons dots_head [of t] show ?thesis
      by (auto simp: rx_literal plain_def split: list.split)
  qed
qed simp

text \<open>What the filter needs of \<^verbatim>\<open>std::regex_match\<close>: patterns made of plain characters and
  \<^verbatim>\<open>.*\<close> match as \<open>rx_match\<close> says.\<close>

definition std_regex :: "(string \<Rightarrow> string \<Rightarrow> bool) \<Rightarrow> bool" where
  "std_regex rm \<longleftrightarrow> (\<forall>t s. (\<forall>c \<in> set t. plain c) \<longrightarrow> rm (dots t) s = rx_match (dots t) s)"

subsection \<open>Normalisation keeps the meaning\<close>

lemma glob_append: "glob (p @ q) s \<longleftrightarrow> (\<exists>u v. s = u @ v \<and> glob p u \<and> glob q v)"
proof (induction p arbitrary: s)
  case (Cons c p)
  show ?case
  proof (cases "c = CHR ''*''")
    case True
    have "(\<exists>x y. s = x @ y \<and> (\<exists>u v. y = u @ v \<and> glob p u \<and> glob q v)) \<longleftrightarrow>
      (\<exists>u v. s = u @ v \<and> (\<exists>x y. u = x @ y \<and> glob p y) \<and> glob q v)"
      by (metis append.assoc)
    with True Cons show ?thesis by simp
  next
    case False
    have head: "glob (c # x) u \<longleftrightarrow> (\<exists>r. u = c # r \<and> glob x r)" for x u
      using False by (auto split: list.split)
    have "(\<exists>u v. s = u @ v \<and> glob (c # p) u \<and> glob q v) \<longleftrightarrow>
        (\<exists>u v. s = c # u @ v \<and> glob p u \<and> glob q v)"
      unfolding head by (metis append_Cons)
    moreover have "glob (c # p @ q) s \<longleftrightarrow> (\<exists>u v. s = c # u @ v \<and> glob p u \<and> glob q v)"
      unfolding head Cons.IH by blast
    ultimately show ?thesis by (simp only: append_Cons)
  qed
qed simp

lemma glob_star_star: "glob (CHR ''*'' # CHR ''*'' # p) s \<longleftrightarrow> glob (CHR ''*'' # p) s"
proof -
  have "(\<exists>u v. s = u @ v \<and> (\<exists>x y. v = x @ y \<and> glob p y)) \<longleftrightarrow> (\<exists>u v. s = u @ v \<and> glob p v)"
    by (metis append.assoc append_Nil)
  then show ?thesis by simp
qed

lemma glob_cong_suffix: "(\<And>s. glob q s = glob q' s) \<Longrightarrow> glob (p @ q) s = glob (p @ q') s"
  by (simp add: glob_append)

lemma last_dots: "t \<noteq> [] \<Longrightarrow> dots t \<noteq> [] \<and> last (dots t) = last t"
  by (induction t) auto

definition entry_body :: "string \<Rightarrow> string" where
  "entry_body t = (let u = if t \<noteq> [] \<and> hd t = CHR ''^'' then tl t else t
     in if u \<noteq> [] \<and> last u = CHR ''$'' then butlast u else u)"

definition entry_glob :: "string \<Rightarrow> string" where
  "entry_glob t = (if hd t = CHR ''^'' then [] else ''*'') @ entry_body t @ (if last t = CHR ''$'' then [] else ''*'')"

definition valid_entry :: "string \<Rightarrow> bool" where
  "valid_entry t \<longleftrightarrow> entry_body t \<noteq> [] \<and> list_all plain (entry_body t)"

definition carets :: "bool \<Rightarrow> string" where
  "carets x = (if x then ''^'' else [])"

definition dollars :: "bool \<Rightarrow> string" where
  "dollars y = (if y then ''$'' else [])"

definition stars :: "bool \<Rightarrow> string" where
  "stars y = (if y then [] else ''*'')"

lemma plain_not: "plain c \<Longrightarrow> c \<noteq> CHR ''^'' \<and> c \<noteq> CHR ''$'' \<and> c \<noteq> CHR ''.''"
  by (auto simp: plain_def)

lemma front_step:
  assumes "b \<noteq> []" and "\<forall>c \<in> set b. plain c"
  shows "(do {
     c0 \<leftarrow> str_at (carets x @ dots b @ dollars y) 0;
     if c0 \<noteq> CHR ''^'' then
       if c0 \<noteq> CHR ''.'' then do {
         c1 \<leftarrow> str_at (carets x @ dots b @ dollars y) 1;
         Some (if c1 \<noteq> CHR ''*'' then ''.*'' @ carets x @ dots b @ dollars y else carets x @ dots b @ dollars y)
       } else Some (carets x @ dots b @ dollars y)
     else Some (drop 1 (carets x @ dots b @ dollars y))
   }) = Some (dots (stars (x \<or> hd b = CHR ''*'') @ b) @ dollars y)"
proof (cases x)
  case True
  then show ?thesis by (simp add: carets_def stars_def str_at_def)
next
  case False
  obtain c b' where b: "b = c # b'" using assms(1) by (cases b) auto
  show ?thesis
  proof (cases "c = CHR ''*''")
    case True
    with False b show ?thesis by (simp add: carets_def stars_def str_at_def)
  next
    case ns: False
    have "str_at (c # dots b' @ dollars y) 1 = Some c1 \<Longrightarrow> c1 \<noteq> CHR ''*''" for c1
      using dots_head [of b'] by (cases "dots b'") (auto simp: str_at_def dollars_def split: if_splits)
    moreover have "\<exists>c1. str_at (c # dots b' @ dollars y) 1 = Some c1"
      by (cases "dots b' @ dollars y") (auto simp: str_at_def)
    ultimately obtain c1 where "str_at (c # dots b' @ dollars y) 1 = Some c1" "c1 \<noteq> CHR ''*''" by blast
    with False b ns plain_not [of c] assms(2) show ?thesis
      by (simp add: carets_def stars_def str_at_def [of _ 0])
  qed
qed

lemma back_step:
  assumes "u \<noteq> []" and "last u \<noteq> CHR ''$''"
  shows "(do {
     b \<leftarrow> str_back (dots u @ dollars y);
     Some (if b \<noteq> CHR ''$'' then if b \<noteq> CHR ''*'' then (dots u @ dollars y) @ ''.*'' else dots u @ dollars y
           else butlast (dots u @ dollars y))
   }) = Some (dots (u @ stars (y \<or> last u = CHR ''*'')))"
  using assms last_dots [of u] by (cases y) (auto simp: str_back_def dollars_def stars_def dots_append)

lemma normalize_parts:
  assumes "b \<noteq> []" and "\<forall>c \<in> set b. plain c"
  shows "normalize_string (carets x @ b @ dollars y) =
    Some (dots (stars (x \<or> hd b = CHR ''*'') @ b @ stars (y \<or> last b = CHR ''*'')))"
proof -
  have "dots (carets x @ b @ dollars y) = carets x @ dots b @ dollars y"
    by (simp add: dots_append carets_def dollars_def)
  then have e: "star_loop 0 (carets x @ b @ dollars y) = carets x @ dots b @ dollars y"
    by (simp add: star_loop_dots)
  have l: "last b \<noteq> CHR ''$''" using assms plain_not [of "last b"] by simp
  show ?thesis
    unfolding normalize_string_def e Let_def
    using front_step [OF assms, of x y] back_step [of "stars (x \<or> hd b = CHR ''*'') @ b" y] assms(1) l
    by (simp add: bind_assoc [symmetric] del: bind_assoc)
qed

lemma entry_parts:
  assumes "valid_entry t"
  defines "b \<equiv> entry_body t"
  shows "t = carets (hd t = CHR ''^'') @ b @ dollars (last t = CHR ''$'')"
proof -
  let ?u = "if t \<noteq> [] \<and> hd t = CHR ''^'' then tl t else t"
  have ne: "b \<noteq> []" and pl: "\<forall>c \<in> set b. plain c"
    using assms by (auto simp: valid_entry_def list_all_iff)
  have b: "b = (if ?u \<noteq> [] \<and> last ?u = CHR ''$'' then butlast ?u else ?u)"
    by (simp add: b_def entry_body_def Let_def)
  then have "?u \<noteq> []" using ne by auto
  then have t: "t = carets (hd t = CHR ''^'') @ ?u" and l: "last t = last ?u" and "t \<noteq> []"
    by (cases t; auto simp: carets_def split: if_splits)+
  have "?u = b @ dollars (last ?u = CHR ''$'')"
  proof (cases "last ?u = CHR ''$''")
    case True
    with b \<open>?u \<noteq> []\<close> have "b = butlast ?u" by simp
    moreover have "butlast ?u @ [last ?u] = ?u" by (rule append_butlast_last_id [OF \<open>?u \<noteq> []\<close>])
    ultimately show ?thesis unfolding True dollars_def by simp
  next
    case False
    with b show ?thesis by (simp add: dollars_def)
  qed
  with t l show ?thesis by simp
qed

lemma glob_stars_front: "b \<noteq> [] \<Longrightarrow> glob (stars (x \<or> hd b = CHR ''*'') @ b @ r) s = glob (stars x @ b @ r) s"
  using glob_star_star [of "tl b @ r" s] by (cases b) (auto simp: stars_def simp del: glob.simps)

lemma glob_stars_back:
  assumes "b \<noteq> []"
  shows "glob (p @ b @ stars (y \<or> last b = CHR ''*'')) s = glob (p @ b @ stars y) s"
proof (cases "\<not> y \<and> last b = CHR ''*''")
  case True
  then have "b = butlast b @ ''*''" using assms by (metis append_butlast_last_id)
  then have "glob (p @ b) s = glob ((p @ butlast b) @ ''*'') s"
    "glob (p @ b @ ''*'') s = glob ((p @ butlast b) @ ''**'') s" by (metis append.assoc, metis append.assoc append_Cons append_Nil)
  moreover have "glob ((p @ butlast b) @ ''**'') s = glob ((p @ butlast b) @ ''*'') s"
    by (rule glob_cong_suffix) (rule glob_star_star)
  ultimately show ?thesis using True by (simp add: stars_def)
qed (auto simp: stars_def)

lemma normalize_entry:
  assumes "valid_entry t"
  obtains u where "normalize_string t = Some (dots u)" and "\<forall>c \<in> set u. plain c"
    and "\<And>s. glob u s = glob (entry_glob t) s"
proof
  let ?b = "entry_body t" and ?x = "hd t = CHR ''^''" and ?y = "last t = CHR ''$''"
  let ?u = "stars (?x \<or> hd ?b = CHR ''*'') @ ?b @ stars (?y \<or> last ?b = CHR ''*'')"
  have ne: "?b \<noteq> []" and pl: "\<forall>c \<in> set ?b. plain c"
    using assms by (auto simp: valid_entry_def list_all_iff)
  show "normalize_string t = Some (dots ?u)"
    using normalize_parts [OF ne pl, of ?x ?y] entry_parts [OF assms] by simp
  show "\<forall>c \<in> set ?u. plain c" using pl by (auto simp: stars_def plain_def)
  show "glob ?u s = glob (entry_glob t) s" for s
    using glob_stars_front [OF ne, of ?x] glob_stars_back [OF ne, of "stars ?x" ?y s]
    by (simp add: entry_glob_def stars_def)
qed

lemma valid_entry_ne: "valid_entry t \<Longrightarrow> t \<noteq> []"
  by (auto simp: valid_entry_def entry_body_def)

definition race_line :: "string \<Rightarrow> string" where
  "race_line t = ''race:'' @ t"

lemma add_race_entry: "add_entry (race_line t) f = do {
     tmp \<leftarrow> normalize_string t;
     Some (f\<lparr>rf_race := rf_race f @ [tmp]\<rparr>)
   }"
  by (simp add: race_line_def add_entry_def str_at_def str_find_def)

lemma filter_init_race:
  assumes "\<forall>t \<in> set ts. valid_entry t"
  shows "\<exists>us. filter_init (map race_line ts) f = Some (f\<lparr>rf_race := rf_race f @ map dots us\<rparr>) \<and>
    (\<forall>u \<in> set us. \<forall>c \<in> set u. plain c) \<and> list_all2 (\<lambda>u t. \<forall>s. glob u s = glob (entry_glob t) s) us ts"
  using assms
proof (induction ts arbitrary: f)
  case (Cons t ts)
  obtain u where u: "normalize_string t = Some (dots u)" "\<forall>c \<in> set u. plain c" "\<And>s. glob u s = glob (entry_glob t) s"
    using normalize_entry [of t] Cons.prems by auto
  let ?f = "f\<lparr>rf_race := rf_race f @ [dots u]\<rparr>"
  obtain us where "filter_init (map race_line ts) ?f = Some (?f\<lparr>rf_race := rf_race ?f @ map dots us\<rparr>)"
    "\<forall>u \<in> set us. \<forall>c \<in> set u. plain c" "list_all2 (\<lambda>u t. \<forall>s. glob u s = glob (entry_glob t) s) us ts"
  proof -
    have "\<forall>t \<in> set ts. valid_entry t" using Cons.prems by simp
    from Cons.IH [OF this, of ?f] that show thesis by blast
  qed
  with u show ?case
    by (intro exI [of _ "u # us"]) (simp add: add_race_entry)
qed (auto intro: exI [of _ "[]"])

section \<open>Properties\<close>

text \<open>C29: A suppression file of \<^verbatim>\<open>race:\<close> lines suppresses exactly the races with a
  symbol in one of the two stacks that matches a line, the star standing for any text, the other
  characters for themselves, and a line being anchored at its begin or end only by a caret or a
  dollar sign.\<close>

theorem suppression_file_semantics:
  assumes rm: "std_regex rm" and ts: "\<forall>t \<in> set ts. valid_entry t"
    and syms: "\<forall>sym \<in> set (stack_syms (dr_first r) @ stack_syms (dr_second r)). \<forall>c \<in> set sym. \<not> line_terminator c"
  shows "\<exists>f. filter_init (map race_line ts) race_filter_empty = Some f \<and>
    (check_race rm f r \<longleftrightarrow> (\<exists>t \<in> set ts. \<exists>sym \<in> set (stack_syms (dr_first r) @ stack_syms (dr_second r)). glob (entry_glob t) sym))"
proof -
  obtain us where f: "filter_init (map race_line ts) race_filter_empty =
      Some (race_filter_empty\<lparr>rf_race := map dots us\<rparr>)"
    and us: "\<forall>u \<in> set us. \<forall>c \<in> set u. plain c"
    and gl: "list_all2 (\<lambda>u t. \<forall>s. glob u s = glob (entry_glob t) s) us ts"
    using filter_init_race [OF ts, of race_filter_empty] by (auto simp: race_filter_empty_def)
  let ?syms = "set (stack_syms (dr_first r) @ stack_syms (dr_second r))"
  have m: "rm (dots u) sym \<longleftrightarrow> glob u sym" if "u \<in> set us" "sym \<in> ?syms" for u sym
    using that us syms rm rx_dots_glob [of u sym] unfolding std_regex_def by blast
  have "check_race rm (race_filter_empty\<lparr>rf_race := map dots us\<rparr>) r \<longleftrightarrow>
      (\<exists>u \<in> set us. \<exists>sym \<in> ?syms. rm (dots u) sym)"
    by (auto simp: check_race_def race_filter_empty_def addr_is_suppressed_def list_ex_iff)
  also have "\<dots> \<longleftrightarrow> (\<exists>u \<in> set us. \<exists>sym \<in> ?syms. glob u sym)" using m by blast
  also have "\<dots> \<longleftrightarrow> (\<exists>t \<in> set ts. \<exists>sym \<in> ?syms. glob (entry_glob t) sym)"
    using gl by (induction us ts rule: list_all2_induct) auto
  finally show ?thesis using f by blast
qed

definition sample_race :: decorated_race where
  "sample_race = (decorated_race_of (access_entry_init, access_entry_init) 0)
     \<lparr>dr_first := \<lparr>ra_entry = access_entry_init, ra_resolved = [symbol_location_init\<lparr>sl_sym_name := ''main''\<rparr>]\<rparr>\<rparr>"

lemma suppression_file_semantics_witness:
  "\<exists>f. filter_init (map race_line [''std::*::function'', ''^main$'']) race_filter_empty = Some f \<and>
     check_race rx_match f sample_race"
proof -
  let ?ts = "[''std::*::function'', ''^main$'']"
  have syms: "stack_syms (dr_first sample_race) @ stack_syms (dr_second sample_race) = [''main'']"
    by (simp add: sample_race_def stack_syms_def decorated_race_of_def resolved_access_of_def symbol_location_init_def)
  have "std_regex rx_match" by (simp add: std_regex_def)
  moreover have "\<forall>t \<in> set ?ts. valid_entry t" by (simp add: valid_entry_def entry_body_def plain_def)
  moreover have "\<forall>sym \<in> set (stack_syms (dr_first sample_race) @ stack_syms (dr_second sample_race)).
      \<forall>c \<in> set sym. \<not> line_terminator c"
    unfolding syms by (simp add: line_terminator_def)
  ultimately have "\<exists>f. filter_init (map race_line ?ts) race_filter_empty = Some f \<and>
    (check_race rx_match f sample_race \<longleftrightarrow> (\<exists>t \<in> set ?ts.
       \<exists>sym \<in> set (stack_syms (dr_first sample_race) @ stack_syms (dr_second sample_race)). glob (entry_glob t) sym))"
    by (rule suppression_file_semantics)
  then show ?thesis unfolding syms by (simp add: entry_glob_def entry_body_def)
qed

text \<open>A line without a text after the colon makes the parser look past the end of an empty string.\<close>

lemma empty_entry_undefined: "filter_init (race_line [] # ls) f = None"
  by (simp add: add_race_entry normalize_string_def star_loop_dots str_at_def)

lemma fold_suppress_find:
  "hm_find (rf_addr (fold (\<lambda>(k, sz). suppress_addr k sz) bs f)) k =
     (case hm_find (rf_addr f) k of None \<Rightarrow> map_of bs k | Some w \<Rightarrow> Some w)"
  by (induction bs arbitrary: f) (auto simp: suppress_addr_def hm_emplace_find split: option.splits)

lemma fold_suppress_wf:
  "hm_wf (rf_addr f) \<Longrightarrow> hm_wf (rf_addr (fold (\<lambda>(k, sz). suppress_addr k sz) bs f))"
  by (induction bs arbitrary: f) (auto simp: suppress_addr_def hm.invar_emplace)

lemma addr_is_suppressed_hit: "addr_is_suppressed f a \<longleftrightarrow> blocks.hit a (rf_addr f) \<noteq> None"
  by (auto simp: addr_is_suppressed_def blocks.hit_def block_end_def split: option.split)

lemma nested_block_hides:
  "addr_is_suppressed (fold (\<lambda>(k, sz). suppress_addr k sz) [(100, 50), (120, 5)] race_filter_empty) 110 \<and>
   \<not> addr_is_suppressed (fold (\<lambda>(k, sz). suppress_addr k sz) [(100, 50), (120, 5)] race_filter_empty) 130"
  by code_simp

text \<open>After blocks that do not overlap have been suppressed, an address counts as suppressed
  exactly if it lies in one of them.\<close>

theorem suppressed_blocks:
  assumes "distinct (map fst bs)"
    and "\<And>k sz k' sz'. (k, sz) \<in> set bs \<Longrightarrow> (k', sz') \<in> set bs \<Longrightarrow> k < k' \<Longrightarrow> k + ucast sz \<le> k'"
  shows "addr_is_suppressed (fold (\<lambda>(k, sz). suppress_addr k sz) bs race_filter_empty) a \<longleftrightarrow>
    (\<exists>(k, sz) \<in> set bs. k \<le> a \<and> a < k + ucast sz)"
proof -
  let ?f = "fold (\<lambda>(k, sz). suppress_addr k sz) bs race_filter_empty"
  have wf: "hm_wf (rf_addr ?f)" by (rule fold_suppress_wf) (simp add: race_filter_empty_def)
  have find: "hm_find (rf_addr ?f) k = map_of bs k" for k
    by (simp add: fold_suppress_find race_filter_empty_def)
  have sep: "blocks.separated (rf_addr ?f)"
    by (rule blocks.separatedI) (auto simp: find block_end_def dest!: map_of_SomeD intro: assms(2))
  have "addr_is_suppressed ?f a \<longleftrightarrow> (\<exists>k sz. blocks.hit a (rf_addr ?f) = Some (k, sz))"
    by (auto simp: addr_is_suppressed_hit)
  also have "\<dots> \<longleftrightarrow> (\<exists>k sz. map_of bs k = Some sz \<and> k \<le> a \<and> a < k + ucast sz)"
    unfolding blocks.hit_iff [OF wf sep] find block_end_def ..
  also have "\<dots> \<longleftrightarrow> (\<exists>(k, sz) \<in> set bs. k \<le> a \<and> a < k + ucast sz)"
    using map_of_eq_Some_iff [OF assms(1)] by fastforce
  finally show ?thesis .
qed

lemma suppressed_blocks_witness:
  "addr_is_suppressed (fold (\<lambda>(k, sz). suppress_addr k sz) [(100, 8), (200, 16)] race_filter_empty) 210"
proof -
  have "addr_is_suppressed (fold (\<lambda>(k, sz). suppress_addr k sz) [(100, 8), (200, 16)] race_filter_empty) 210 \<longleftrightarrow>
    (\<exists>(k, sz) \<in> set [(100, 8), (200, 16)]. k \<le> (210 :: u64) \<and> 210 < k + ucast (sz :: u32))"
    by (rule suppressed_blocks) auto
  then show ?thesis by simp
qed

end
