(* ===== verification/TsanAdapter.thy ===== *)
theory TsanAdapter
  imports RaceFilters
begin

text \<open>
  The detector that drives ThreadSanitizer
  (\<^verbatim>\<open>drace-client/detectors/tsan/tsan.cpp\<close>). The library itself is not part of the
  program: its calls are recorded, and the handle that creating a thread returns comes with the fork. The
  table of threads is an association list in the order of its iteration. \<open>None\<close>: an assertion fails.
\<close>

unbundle bit_operations_syntax

section \<open>Calls of the library\<close>

datatype tsan_call =
    TInit
  | TFini
  | TMapShadow u64 u64
  | TFuncEnter addr addr
  | TFuncExit addr
  | TAfterLock addr u64 bool
  | TBeforeUnlock addr u64 bool
  | THappensBefore addr u64
  | THappensAfter addr u64
  | TRead addr u64 addr
  | TWrite addr u64 addr
  | TCreateThread u32 addr
  | TThreadFinish addr
  | TGoEnd addr

record tsan_state =
  tn_heap_only :: bool
  tn_threads :: "(u32, addr \<times> bool) hmap"
  tn_calls :: "tsan_call list"

definition tsan_new :: tsan_state where
  "tsan_new = \<lparr>tn_heap_only = False, tn_threads = [], tn_calls = []\<rparr>"

definition tcall :: "tsan_call list \<Rightarrow> tsan_state \<Rightarrow> tsan_state" where
  "tcall cs s = s\<lparr>tn_calls := tn_calls s @ cs\<rparr>"

section \<open>Addresses\<close>

definition MEMSTART :: u64 where
  "MEMSTART = 0xC000000000"

definition translate :: "u64 \<Rightarrow> u64" where
  "translate a = (a AND 0x00000000FFFFFFFF) + MEMSTART"

definition get_event_id :: "u32 \<Rightarrow> u32 \<Rightarrow> u64" where
  "get_event_id parent child = translate (ucast (parent * 65521 + child))"

definition mutex_addr :: "u64 \<Rightarrow> u64" where
  "mutex_addr mutex = (let a = translate mutex in if a < MEMSTART then a + MEMSTART else a)"

section \<open>Options\<close>

text \<open>\<^verbatim>\<open>strncmp(arg, "--heap-only", 16) == 0\<close>: the argument equals the option, which has fewer than 16 characters.\<close>

definition heap_only_arg :: "string \<Rightarrow> bool" where
  "heap_only_arg a \<longleftrightarrow> a = ''--heap-only''"

fun tsan_parse_args :: "string list \<Rightarrow> tsan_state \<Rightarrow> tsan_state" where
  "tsan_parse_args [] s = s"
| "tsan_parse_args (a # as) s = tsan_parse_args as (if heap_only_arg a then s\<lparr>tn_heap_only := True\<rparr> else s)"

definition tsan_init :: "string list \<Rightarrow> tsan_state \<Rightarrow> tsan_state" where
  "tsan_init argv s = tcall [TInit, TMapShadow MEMSTART 0xFFFFFFFF] (tsan_parse_args (tl argv) s)"

section \<open>Race reports\<close>

record tsan_access =
  ta_accessed_memory :: u64
  ta_user_id :: u64
  ta_size :: int
  ta_write :: bool
  ta_stack_trace :: "u64 list"
  ta_type :: int

definition report_entry :: "tsan_access \<Rightarrow> access_entry" where
  "report_entry x =
     (let ssize = min (length (ta_stack_trace x)) max_stack_size
      in access_entry_init\<lparr>ae_thread_id := ucast (ta_user_id x), ae_write := ta_write x,
           ae_accessed_memory := ta_accessed_memory x AND 0xFFFFFFFF, ae_access_size := word_of_int (ta_size x),
           ae_access_type := ta_type x,
           ae_stack_trace := copy_to_array (take ssize (ta_stack_trace x)) (ae_stack_trace access_entry_init),
           ae_stack_size := ssize\<rparr>)"

text \<open>\<open>None\<close>: nothing is reported.\<close>

definition reportRaceCallBack :: "tsan_access \<times> tsan_access \<Rightarrow> race option" where
  "reportRaceCallBack ri =
     (let (a1, a2) = ri in
      if ta_user_id a1 = 0 \<or> ta_user_id a2 = 0 then None
      else if ta_stack_trace a1 = [] \<or> ta_stack_trace a2 = [] then None
      else Some (report_entry a1, report_entry a2))"

section \<open>Threads\<close>

definition active_handles :: "(u32, addr \<times> bool) hmap \<Rightarrow> addr list" where
  "active_handles m = map (\<lambda>(_, h, _). h) (filter (\<lambda>(_, _, act). act) m)"

definition tsan_fork :: "u32 \<Rightarrow> u32 \<Rightarrow> addr \<Rightarrow> tsan_state \<Rightarrow> tsan_state option" where
  "tsan_fork parent child tls s =
     (let event_id = get_event_id parent child;
          s = tcall [TCreateThread child tls] s
      in if 0 \<in> set (active_handles (tn_threads s)) then None
         else (let s = tcall (map (\<lambda>h. THappensBefore h event_id) (active_handles (tn_threads s))) s;
                   s = tcall [THappensAfter tls event_id] s
               in Some (s\<lparr>tn_threads := hm_assign child (tls, True) (tn_threads s)\<rparr>)))"

text \<open>\<^verbatim>\<open>operator[]\<close> inserts a null handle for an unknown thread.\<close>

definition thread_entry :: "u32 \<Rightarrow> tsan_state \<Rightarrow> addr" where
  "thread_entry tid s = (case hm_find (tn_threads s) tid of None \<Rightarrow> 0 | Some (h, _) \<Rightarrow> h)"

definition set_inactive :: "u32 \<Rightarrow> tsan_state \<Rightarrow> tsan_state" where
  "set_inactive tid s = s\<lparr>tn_threads := hm_assign tid (thread_entry tid s, False) (tn_threads s)\<rparr>"

definition tsan_join :: "u32 \<Rightarrow> u32 \<Rightarrow> tsan_state \<Rightarrow> tsan_state option" where
  "tsan_join parent child s =
     (let event_id = get_event_id parent child;
          s = set_inactive child s;
          thr = thread_entry child s
      in if thr = 0 \<or> 0 \<in> set (active_handles (tn_threads s)) then None
         else (let s = tcall [THappensBefore thr event_id] s;
                   s = tcall (map (\<lambda>h. THappensAfter h event_id) (active_handles (tn_threads s))) s
               in Some (tcall [TThreadFinish (thread_entry child s)] s)))"

definition tsan_finish :: "addr \<Rightarrow> u32 \<Rightarrow> tsan_state \<Rightarrow> tsan_state" where
  "tsan_finish tls tid s = (let s = (if tls \<noteq> 0 then tcall [TGoEnd tls] s else s) in set_inactive tid s)"

definition tsan_finalize :: "tsan_state \<Rightarrow> tsan_state" where
  "tsan_finalize s =
     tcall [TFini] (fold (\<lambda>(tid, h, act) s. if act then tsan_finish h tid s else s) (tn_threads s) s)"

section \<open>The detector\<close>

fun tsan_step :: "detector_call \<Rightarrow> tsan_state \<Rightarrow> tsan_state option" where
  "tsan_step (DFuncEnter tls pc) s = Some (tcall [TFuncEnter tls pc] s)"
| "tsan_step (DFuncExit tls) s = Some (tcall [TFuncExit tls] s)"
| "tsan_step (DAcquire tls mutex rec w) s = (if tls = 0 then None else Some (tcall [TAfterLock tls (mutex_addr mutex) w] s))"
| "tsan_step (DRelease tls mutex w) s = (if tls = 0 then None else Some (tcall [TBeforeUnlock tls (mutex_addr mutex) w] s))"
| "tsan_step (DHappensBefore tls i) s = Some (tcall [THappensBefore tls (translate i)] s)"
| "tsan_step (DHappensAfter tls i) s = Some (tcall [THappensAfter tls (translate i)] s)"
| "tsan_step (DRead tls pc a n) s = Some (tcall [TRead tls (translate a) pc] s)"
| "tsan_step (DWrite tls pc a n) s = Some (tcall [TWrite tls (translate a) pc] s)"
| "tsan_step (DAllocate tls pc a n) s = Some s"
| "tsan_step (DDeallocate tls a) s = Some s"
| "tsan_step (DFork parent child tls) s = tsan_fork parent child tls s"
| "tsan_step (DJoin parent child) s = tsan_join parent child s"
| "tsan_step (DDetach tls tid) s = Some s"
| "tsan_step (DFinish tls tid) s = Some (tsan_finish tls tid s)"

fun tsan_run :: "detector_call list \<Rightarrow> tsan_state \<Rightarrow> tsan_state option" where
  "tsan_run [] s = Some s"
| "tsan_run (c # cs) s = Option.bind (tsan_step c s) (tsan_run cs)"

section \<open>Addresses in the shadow block\<close>

lemma low_half: "a AND 0xFFFFFFFF = a mod 2 ^ 32" for a :: u64
  using take_bit_eq_mask [of 32 a] by (simp add: take_bit_eq_mod mask_eq_exp_minus_1)

lemma unat_low_half: "unat (a AND 0xFFFFFFFF :: u64) = unat a mod 2 ^ 32"
  unfolding low_half by (simp add: unat_mod)

lemma translate_unat: "unat (translate a) = 0xC000000000 + unat a mod 2 ^ 32"
proof -
  have "unat (a AND 0xFFFFFFFF) < 2 ^ 32" unfolding unat_low_half by simp
  then have "unat ((a AND 0xFFFFFFFF) + MEMSTART) = unat (a AND 0xFFFFFFFF) + unat MEMSTART"
    by (intro unat_add_no_wrap) (simp add: MEMSTART_def)
  then show ?thesis by (simp add: translate_def unat_low_half MEMSTART_def)
qed

lemma mutex_addr_translate: "mutex_addr m = translate m"
proof -
  have "MEMSTART \<le> translate m" by (simp add: word_le_nat_alt translate_unat MEMSTART_def)
  then show ?thesis by (simp add: mutex_addr_def Let_def leD)
qed

section \<open>Live handles\<close>

text \<open>What the library demands of the handles: a thread is created with a new handle, a handle is used
  only while it is live, and finished at most once. The result is the set of handles left.\<close>

fun handle_of :: "tsan_call \<Rightarrow> addr option" where
  "handle_of (TFuncEnter h _) = Some h"
| "handle_of (TFuncExit h) = Some h"
| "handle_of (TAfterLock h _ _) = Some h"
| "handle_of (TBeforeUnlock h _ _) = Some h"
| "handle_of (THappensBefore h _) = Some h"
| "handle_of (THappensAfter h _) = Some h"
| "handle_of (TRead h _ _) = Some h"
| "handle_of (TWrite h _ _) = Some h"
| "handle_of _ = None"

fun scan_call :: "tsan_call \<Rightarrow> addr set \<Rightarrow> addr set option" where
  "scan_call (TCreateThread _ h) live = (if h \<in> live then None else Some (insert h live))"
| "scan_call (TThreadFinish h) live = (if h \<in> live then Some (live - {h}) else None)"
| "scan_call (TGoEnd h) live = (if h \<in> live then Some (live - {h}) else None)"
| "scan_call c live = (case handle_of c of None \<Rightarrow> Some live | Some h \<Rightarrow> if h \<in> live then Some live else None)"

fun scan :: "tsan_call list \<Rightarrow> addr set \<Rightarrow> addr set option" where
  "scan [] live = Some live"
| "scan (c # cs) live = Option.bind (scan_call c live) (scan cs)"

text \<open>What the runtime promises: handles it passes belong to active threads, a forked thread is not
  active and gets a new handle, and only active threads are joined.\<close>

definition is_active :: "tsan_state \<Rightarrow> addr \<Rightarrow> bool" where
  "is_active s h \<longleftrightarrow> h \<in> set (active_handles (tn_threads s))"

definition active_tid :: "tsan_state \<Rightarrow> u32 \<Rightarrow> bool" where
  "active_tid s tid \<longleftrightarrow> (case hm_find (tn_threads s) tid of Some (_, act) \<Rightarrow> act | None \<Rightarrow> False)"

fun call_ok :: "detector_call \<Rightarrow> tsan_state \<Rightarrow> bool" where
  "call_ok (DFuncEnter t _) s = is_active s t"
| "call_ok (DFuncExit t) s = is_active s t"
| "call_ok (DAcquire t _ _ _) s = is_active s t"
| "call_ok (DRelease t _ _) s = is_active s t"
| "call_ok (DHappensBefore t _) s = is_active s t"
| "call_ok (DHappensAfter t _) s = is_active s t"
| "call_ok (DRead t _ _ _) s = is_active s t"
| "call_ok (DWrite t _ _ _) s = is_active s t"
| "call_ok (DFork _ child h) s = (\<not> active_tid s child \<and> h \<noteq> 0 \<and> \<not> is_active s h)"
| "call_ok (DJoin _ child) s = active_tid s child"
| "call_ok (DFinish t tid) s = (active_tid s tid \<and> t = thread_entry tid s)"
| "call_ok _ s = True"

fun calls_ok :: "detector_call list \<Rightarrow> tsan_state \<Rightarrow> bool" where
  "calls_ok [] s = True"
| "calls_ok (c # cs) s = (call_ok c s \<and> (case tsan_step c s of None \<Rightarrow> True | Some s' \<Rightarrow> calls_ok cs s'))"

lemma scan_append: "scan (cs @ ds) live = Option.bind (scan cs live) (scan ds)"
  by (induction cs arbitrary: live) (auto split: bind_splits)

lemma scan_uses: "set hs \<subseteq> live \<Longrightarrow> scan (map (\<lambda>h. THappensBefore h e) hs) live = Some live"
  "set hs \<subseteq> live \<Longrightarrow> scan (map (\<lambda>h. THappensAfter h e) hs) live = Some live"
  by (induction hs) auto

lemma scan_ends: "distinct hs \<Longrightarrow> set hs = live \<Longrightarrow> scan (map TGoEnd hs) live = Some {}"
  by (induction hs arbitrary: live) auto

lemma active_handles_find: "hm_wf m \<Longrightarrow> h \<in> set (active_handles m) \<longleftrightarrow> (\<exists>tid. hm_find m tid = Some (h, True))"
proof -
  assume "hm_wf m"
  moreover have "h \<in> set (active_handles m) \<longleftrightarrow> (\<exists>tid. (tid, h, True) \<in> set m)"
    by (auto simp: active_handles_def image_iff)
  ultimately show ?thesis by (simp add: hm_find_def hm_wf_def)
qed

lemma ex_if: "(\<exists>t. (if t = k then a else f t) = w) \<longleftrightarrow> a = w \<or> (\<exists>t. t \<noteq> k \<and> f t = w)"
  by auto

lemma inj_update:
  assumes "\<And>x. \<not> A k x" and "\<And>x. A' k x \<longleftrightarrow> b \<and> x = h" and "\<And>t x. t \<noteq> k \<Longrightarrow> A' t x \<longleftrightarrow> A t x"
  shows "(\<forall>t t' x. A' t x \<longrightarrow> A' t' x \<longrightarrow> t = t') \<longleftrightarrow> (\<forall>t t' x. A t x \<longrightarrow> A t' x \<longrightarrow> t = t') \<and> (b \<longrightarrow> (\<forall>t. \<not> A t h))"
    (is "?l \<longleftrightarrow> ?r")
proof
  assume l: ?l
  have "t = t'" if "A t x" "A t' x" for t t' x using that l assms by metis
  moreover have "\<not> A t h" if b for t using that l assms by metis
  ultimately show ?r by blast
next
  assume r: ?r
  have "t = t'" if "A' t x" "A' t' x" for t t' x
    using that r assms by (cases "t = k"; cases "t' = k") auto
  then show ?l by blast
qed

lemma active_handles_distinct:
  "hm_wf m \<Longrightarrow> distinct (active_handles m) \<longleftrightarrow>
    (\<forall>t t' h. hm_find m t = Some (h, True) \<longrightarrow> hm_find m t' = Some (h, True) \<longrightarrow> t = t')"
proof (induction m)
  case Nil
  then show ?case by (simp add: active_handles_def hm_find_def)
next
  case (Cons e m)
  obtain k h act where e: "e = (k, h, act)" by (cases e)
  have wf: "hm_wf m" and fresh: "hm_find m k = None"
    using Cons.prems by (auto simp: e hm_wf_def hm_find_def map_of_eq_None_iff)
  have find: "hm_find (e # m) t = (if t = k then Some (h, act) else hm_find m t)" for t by (simp add: e hm_find_def)
  have "distinct (active_handles (e # m)) \<longleftrightarrow> distinct (active_handles m) \<and> (act \<longrightarrow> h \<notin> set (active_handles m))"
    by (auto simp: active_handles_def e)
  also have "h \<notin> set (active_handles m) \<longleftrightarrow> (\<forall>t. hm_find m t \<noteq> Some (h, True))"
    unfolding active_handles_find [OF wf] by blast
  also have "distinct (active_handles m) \<and> (act \<longrightarrow> (\<forall>t. hm_find m t \<noteq> Some (h, True))) \<longleftrightarrow>
      (\<forall>t t' h. hm_find (e # m) t = Some (h, True) \<longrightarrow> hm_find (e # m) t' = Some (h, True) \<longrightarrow> t = t')"
    unfolding Cons.IH [OF wf]
    by (rule inj_update [where A = "\<lambda>t x. hm_find m t = Some (x, True)" and k = k and b = act and h = h
          and A' = "\<lambda>t x. hm_find (e # m) t = Some (x, True)", symmetric])
      (simp_all add: find fresh, blast)
  finally show ?case .
qed

text \<open>The invariant: the live handles are those of the active threads, not null and distinct.\<close>

definition tsan_inv :: "tsan_state \<Rightarrow> addr set \<Rightarrow> bool" where
  "tsan_inv s live \<longleftrightarrow> hm_wf (tn_threads s) \<and> live = set (active_handles (tn_threads s)) \<and>
     distinct (active_handles (tn_threads s)) \<and> 0 \<notin> live"

lemma tsan_inv_assign:
  assumes inv: "tsan_inv s live"
  shows "\<not> active_tid s tid \<Longrightarrow> h \<notin> live \<Longrightarrow> h \<noteq> 0 \<Longrightarrow>
      tsan_inv (s\<lparr>tn_threads := hm_assign tid (h, True) (tn_threads s)\<rparr>) (insert h live)"
    and "active_tid s tid \<Longrightarrow> tsan_inv (set_inactive tid s) (live - {thread_entry tid s})"
proof -
  let ?m = "tn_threads s"
  have wf: "hm_wf ?m" and live: "\<And>h. h \<in> live \<longleftrightarrow> (\<exists>t. hm_find ?m t = Some (h, True))"
    and inj: "\<And>t t' h. hm_find ?m t = Some (h, True) \<Longrightarrow> hm_find ?m t' = Some (h, True) \<Longrightarrow> t = t'" and nz: "0 \<notin> live"
    using inv active_handles_distinct [of ?m] active_handles_find [of ?m] by (auto simp: tsan_inv_def)
  have wf': "hm_wf (hm_assign tid v ?m)" for v using wf by (rule hm_assign_wf)
  {
    assume a: "\<not> active_tid s tid" "h \<notin> live" "h \<noteq> 0"
    then have na: "hm_find ?m tid \<noteq> Some (x, True)" for x by (auto simp: active_tid_def)
    have "(\<exists>t. hm_find (hm_assign tid (h, True) ?m) t = Some (x, True)) \<longleftrightarrow> x = h \<or> (\<exists>t. hm_find ?m t = Some (x, True))" for x
    proof -
      have "(\<exists>t. hm_find (hm_assign tid (h, True) ?m) t = Some (x, True)) \<longleftrightarrow>
          Some (h, True) = Some (x, True) \<or> (\<exists>t. t \<noteq> tid \<and> hm_find ?m t = Some (x, True))"
        unfolding hm_assign_find by (rule ex_if)
      moreover have "(\<exists>t. t \<noteq> tid \<and> hm_find ?m t = Some (x, True)) \<longleftrightarrow> (\<exists>t. hm_find ?m t = Some (x, True))"
      proof
        assume "\<exists>t. hm_find ?m t = Some (x, True)"
        then obtain t where t: "hm_find ?m t = Some (x, True)" ..
        then have "t \<noteq> tid" using na [of x] by (intro notI) simp
        with t show "\<exists>t. t \<noteq> tid \<and> hm_find ?m t = Some (x, True)" by (intro exI conjI)
      qed blast
      ultimately show ?thesis by auto
    qed
    then have "set (active_handles (hm_assign tid (h, True) ?m)) = insert h live"
      unfolding set_eq_iff active_handles_find [OF wf'] insert_iff live by blast
    moreover have "distinct (active_handles (hm_assign tid (h, True) ?m))"
      unfolding active_handles_distinct [OF wf']
    proof -
      have "(\<forall>t t' x. hm_find (hm_assign tid (h, True) ?m) t = Some (x, True) \<longrightarrow>
          hm_find (hm_assign tid (h, True) ?m) t' = Some (x, True) \<longrightarrow> t = t') \<longleftrightarrow>
        (\<forall>t t' x. hm_find ?m t = Some (x, True) \<longrightarrow> hm_find ?m t' = Some (x, True) \<longrightarrow> t = t') \<and>
        (True \<longrightarrow> (\<forall>t. hm_find ?m t \<noteq> Some (h, True)))"
      proof (rule inj_update [where A = "\<lambda>t x. hm_find ?m t = Some (x, True)" and k = tid and b = True and h = h
            and A' = "\<lambda>t x. hm_find (hm_assign tid (h, True) ?m) t = Some (x, True)"])
        show "hm_find ?m tid \<noteq> Some (x, True)" for x by (rule na)
        show "hm_find (hm_assign tid (h, True) ?m) tid = Some (x, True) \<longleftrightarrow> True \<and> x = h" for x
          unfolding hm_assign_find by auto
        show "hm_find (hm_assign tid (h, True) ?m) t = Some (x, True) \<longleftrightarrow> hm_find ?m t = Some (x, True)" if "t \<noteq> tid" for t x
          unfolding hm_assign_find using that by simp
      qed
      moreover have "\<forall>t. hm_find ?m t \<noteq> Some (h, True)" using a(2) live by blast
      ultimately show "\<forall>t t' x. hm_find (hm_assign tid (h, True) ?m) t = Some (x, True) \<longrightarrow>
          hm_find (hm_assign tid (h, True) ?m) t' = Some (x, True) \<longrightarrow> t = t'" using inj by blast
    qed
    ultimately show "tsan_inv (s\<lparr>tn_threads := hm_assign tid (h, True) ?m\<rparr>) (insert h live)"
      using wf' a(3) nz by (simp add: tsan_inv_def)
  }
  {
    assume a: "active_tid s tid"
    then obtain h where h: "hm_find ?m tid = Some (h, True)" by (auto simp: active_tid_def split: option.splits)
    then have e: "thread_entry tid s = h" by (simp add: thread_entry_def)
    have "set (active_handles (hm_assign tid (h, False) ?m)) = live - {h}"
    proof -
      have "(\<exists>t. hm_find (hm_assign tid (h, False) ?m) t = Some (x, True)) \<longleftrightarrow> (\<exists>t. hm_find ?m t = Some (x, True)) \<and> x \<noteq> h" for x
        unfolding hm_assign_find using h inj by (metis option.inject prod.inject)
      then show ?thesis unfolding set_eq_iff active_handles_find [OF wf'] Diff_iff live by blast
    qed
    moreover have "distinct (active_handles (hm_assign tid (h, False) ?m))"
    proof -
      have "hm_find ?m t = Some (x, True)" if "hm_find (hm_assign tid (h, False) ?m) t = Some (x, True)" for t x
        using that by (simp add: hm_assign_find split: if_splits)
      then show ?thesis unfolding active_handles_distinct [OF wf'] using inj by blast
    qed
    ultimately show "tsan_inv (set_inactive tid s) (live - {thread_entry tid s})"
      using wf' nz by (simp add: tsan_inv_def set_inactive_def e)
  }
qed

lemma tsan_inv_tcall [simp]: "tsan_inv (tcall cs s) live = tsan_inv s live"
  by (simp add: tsan_inv_def tcall_def)

lemma tcall_threads [simp]: "tn_threads (tcall cs s) = tn_threads s" "tn_calls (tcall cs s) = tn_calls s @ cs"
  by (simp_all add: tcall_def)

lemma active_entry: "active_tid s tid \<Longrightarrow> tsan_inv s live \<Longrightarrow> thread_entry tid s \<in> live"
  using active_handles_find [of "tn_threads s"]
  by (auto simp: active_tid_def thread_entry_def tsan_inv_def split: option.splits)

lemma fork_spec:
  assumes "tsan_inv s live" and "scan (tn_calls s) {} = Some live" and "call_ok (DFork p c h) s"
  shows "\<exists>s' live'. tsan_fork p c h s = Some s' \<and> tsan_inv s' live' \<and> scan (tn_calls s') {} = Some live'"
proof -
  have live: "live = set (active_handles (tn_threads s))" and nz: "0 \<notin> live"
    using assms(1) unfolding tsan_inv_def by blast+
  have h: "h \<notin> live" "h \<noteq> 0" "\<not> active_tid s c" using assms(3) live by (simp_all add: is_active_def)
  let ?e = "get_event_id p c" and ?hs = "active_handles (tn_threads s)"
  define s1 where "s1 = tcall ([TCreateThread c h] @ map (\<lambda>h. THappensBefore h ?e) ?hs @ [THappensAfter h ?e]) s"
  have "tsan_fork p c h s = Some (s1\<lparr>tn_threads := hm_assign c (h, True) (tn_threads s1)\<rparr>)"
    using nz live by (simp add: tsan_fork_def s1_def tcall_def Let_def)
  moreover have "tsan_inv (s1\<lparr>tn_threads := hm_assign c (h, True) (tn_threads s1)\<rparr>) (insert h live)"
    using assms(1) h by (intro tsan_inv_assign(1)) (simp_all add: s1_def active_tid_def)
  moreover have "scan (tn_calls s1) {} = Some (insert h live)"
    using assms(2) h(1) scan_uses(1) [of ?hs "insert h live" ?e] live by (simp add: s1_def scan_append subset_insertI)
  ultimately show ?thesis by auto
qed

lemma join_spec:
  assumes "tsan_inv s live" and "scan (tn_calls s) {} = Some live" and "active_tid s c"
  shows "\<exists>s' live'. tsan_join p c s = Some s' \<and> tsan_inv s' live' \<and> scan (tn_calls s') {} = Some live'"
proof -
  let ?h = "thread_entry c s" and ?e = "get_event_id p c"
  define s1 where "s1 = set_inactive c s"
  have inv1: "tsan_inv s1 (live - {?h})" unfolding s1_def by (rule tsan_inv_assign(2) [OF assms(1,3)])
  have h: "?h \<in> live" using active_entry [OF assms(3,1)] .
  have hs: "set (active_handles (tn_threads s1)) = live - {?h}" using inv1 by (simp add: tsan_inv_def)
  have nz: "0 \<notin> live" using assms(1) unfolding tsan_inv_def by blast
  have e: "thread_entry c s1 = ?h" "tn_calls s1 = tn_calls s" by (simp_all add: s1_def set_inactive_def thread_entry_def hm_assign_find)
  define s2 where "s2 = tcall ([THappensBefore ?h ?e] @ map (\<lambda>h. THappensAfter h ?e) (active_handles (tn_threads s1)) @ [TThreadFinish ?h]) s1"
  have "thread_entry c (tcall cs s1) = ?h" for cs using e(1) by (simp add: thread_entry_def)
  then have "tsan_join p c s = Some s2"
    using h nz hs e by (simp add: tsan_join_def s2_def tcall_def Let_def flip: s1_def) auto
  moreover have "tsan_inv s2 (live - {?h})" using inv1 by (simp add: s2_def)
  moreover have "scan (tn_calls s2) {} = Some (live - {?h})"
    using assms(2) h scan_uses(2) [of "active_handles (tn_threads s1)" live ?e] hs by (simp add: s2_def e scan_append)
  ultimately show ?thesis by blast
qed

lemma finish_spec:
  assumes "tsan_inv s live" and "scan (tn_calls s) {} = Some live" and "active_tid s c"
  shows "tsan_inv (tsan_finish (thread_entry c s) c s) (live - {thread_entry c s}) \<and>
    scan (tn_calls (tsan_finish (thread_entry c s) c s)) {} = Some (live - {thread_entry c s})"
proof -
  have h: "thread_entry c s \<in> live" using active_entry [OF assms(3,1)] .
  then have nz: "thread_entry c s \<noteq> 0" using assms(1) by (auto simp: tsan_inv_def)
  let ?s = "tcall [TGoEnd (thread_entry c s)] s"
  have "tsan_inv (set_inactive c ?s) (live - {thread_entry c ?s})"
    using assms(1,3) by (intro tsan_inv_assign(2)) (simp_all add: active_tid_def)
  moreover have "thread_entry c ?s = thread_entry c s" by (simp add: thread_entry_def)
  moreover have "tn_calls (set_inactive c ?s) = tn_calls s @ [TGoEnd (thread_entry c s)]" by (simp add: set_inactive_def)
  ultimately show ?thesis using nz h assms(2) by (simp add: tsan_finish_def scan_append)
qed

lemma tsan_step_spec:
  assumes inv: "tsan_inv s live" and sc: "scan (tn_calls s) {} = Some live" and ok: "call_ok c s"
  shows "\<exists>s' live'. tsan_step c s = Some s' \<and> tsan_inv s' live' \<and> scan (tn_calls s') {} = Some live'"
proof -
  have use: "is_active s t \<Longrightarrow> t \<in> live \<and> t \<noteq> 0" for t using inv by (auto simp: tsan_inv_def is_active_def)
  show ?thesis
  proof (cases c)
    case (DFork p c' h)
    with ok fork_spec [OF inv sc, of p c' h] show ?thesis by simp
  next
    case (DJoin p c')
    with ok join_spec [OF inv sc, of c' p] show ?thesis by simp
  next
    case (DFinish t c')
    with ok finish_spec [OF inv sc, of c'] show ?thesis by auto
  qed (use inv sc ok use in \<open>auto simp: scan_append\<close>)
qed

lemma tsan_run_spec:
  "tsan_inv s live \<Longrightarrow> scan (tn_calls s) {} = Some live \<Longrightarrow> calls_ok cs s \<Longrightarrow>
     \<exists>s' live'. tsan_run cs s = Some s' \<and> tsan_inv s' live' \<and> scan (tn_calls s') {} = Some live'"
proof (induction cs arbitrary: s live)
  case (Cons c cs)
  then have "call_ok c s" by simp
  from tsan_step_spec [OF Cons.prems(1,2) this] obtain s1 live1 where
    1: "tsan_step c s = Some s1" "tsan_inv s1 live1" "scan (tn_calls s1) {} = Some live1" by blast
  with Cons.prems(3) have "calls_ok cs s1" by simp
  from Cons.IH [OF 1(2,3) this] 1(1) show ?case by simp
qed auto

lemma finalize_calls:
  "0 \<notin> set (active_handles m) \<Longrightarrow>
     tn_calls (fold (\<lambda>(tid, h, act) s. if act then tsan_finish h tid s else s) m s) = tn_calls s @ map TGoEnd (active_handles m)"
proof (induction m arbitrary: s)
  case (Cons e m)
  obtain tid h act where e: "e = (tid, h, act)" by (cases e)
  show ?case
  proof (cases act)
    case True
    then have "active_handles (e # m) = h # active_handles m" by (simp add: active_handles_def e)
    moreover from this Cons.prems have "tn_calls (tsan_finish h tid s) = tn_calls s @ [TGoEnd h]"
      by (auto simp: tsan_finish_def set_inactive_def Let_def)
    ultimately show ?thesis using Cons True by (simp add: e)
  next
    case False
    then have "active_handles (e # m) = active_handles m" by (simp add: active_handles_def e)
    with Cons False show ?thesis by (simp add: e)
  qed
qed (simp add: active_handles_def)

section \<open>Properties\<close>

text \<open>C20: For any calls of a runtime that joins and finishes only active threads, forks only inactive ones with a
  new handle, and passes handles of active threads, no assertion of the adapter fails, the library never
  receives a handle of a thread that was not created or is already finished, and after finalisation every
  thread that was created has been finished exactly once.\<close>

theorem tsan_handles_live:
  assumes "calls_ok cs tsan_new"
  shows "\<exists>s. tsan_run cs tsan_new = Some s \<and> scan (tn_calls (tsan_finalize s)) {} = Some {}"
proof -
  have "tsan_inv tsan_new {}" by (simp add: tsan_inv_def tsan_new_def active_handles_def hm_wf_def)
  moreover have "scan (tn_calls tsan_new) {} = Some {}" by (simp add: tsan_new_def)
  ultimately obtain s live where s: "tsan_run cs tsan_new = Some s" "tsan_inv s live" "scan (tn_calls s) {} = Some live"
    using tsan_run_spec [OF _ _ assms] by blast
  then have live: "live = set (active_handles (tn_threads s))" "distinct (active_handles (tn_threads s))"
    "0 \<notin> set (active_handles (tn_threads s))" by (auto simp: tsan_inv_def)
  have "tn_calls (tsan_finalize s) = tn_calls s @ map TGoEnd (active_handles (tn_threads s)) @ [TFini]"
    using finalize_calls [OF live(3), of s] by (simp add: tsan_finalize_def)
  then have "scan (tn_calls (tsan_finalize s)) {} = Some {}"
    using s(3) scan_ends [OF live(2), of live] live(1) by (simp add: scan_append)
  with s(1) show ?thesis by blast
qed

lemma tsan_handles_live_witness:
  "\<exists>s. tsan_run [DFork 1 1 100, DFork 1 2 200, DRead 200 7 8 4, DJoin 1 2, DFork 1 2 200] tsan_new = Some s \<and>
    scan (tn_calls (tsan_finalize s)) {} = Some {}"
proof -
  have "calls_ok [DFork 1 1 100, DFork 1 2 200, DRead 200 7 8 4, DJoin 1 2, DFork 1 2 200] tsan_new" by code_simp
  then show ?thesis by (rule tsan_handles_live)
qed

text \<open>An address that the program suppressed with an annotation is not recognised in races found by
  ThreadSanitizer, if it lies above 4 GB: the adapter reports only the lower half of the address, and
  the filter compares it with the full one.\<close>

theorem tsan_suppression_ineffective:
  assumes "0xFFFFFFFF < a" and "reportRaceCallBack (x, y) = Some r"
    and "ta_accessed_memory x = translate a" "ta_accessed_memory y = translate a"
  shows "\<not> check_race rm (suppress_addr a sz race_filter_empty) (decorated_race_of r t)"
proof -
  have low: "unat (translate a AND 0xFFFFFFFF) = unat a mod 2 ^ 32"
    unfolding unat_low_half translate_unat using mod_mult_self3 [of 192 "2 ^ 32" "unat a mod 2 ^ 32"] by simp
  have big: "2 ^ 32 \<le> unat a" using assms(1) by (simp add: word_less_nat_alt)
  have "unat (translate a AND 0xFFFFFFFF) < 2 ^ 32" unfolding low by simp
  also note big
  finally have lt: "translate a AND 0xFFFFFFFF < a" by (simp add: word_less_nat_alt)
  have r: "ae_accessed_memory (fst r) = translate a AND 0xFFFFFFFF" "ae_accessed_memory (snd r) = translate a AND 0xFFFFFFFF"
    using assms(2-4) by (auto simp: reportRaceCallBack_def report_entry_def Let_def split: if_splits)
  have "\<not> addr_is_suppressed (suppress_addr a sz race_filter_empty) b" if "b < a" for b
    using that by (simp add: addr_is_suppressed_def suppress_addr_def race_filter_empty_def hm_emplace_def hm_find_def leD)
  then show ?thesis using lt r
    by (simp add: check_race_def decorated_race_of_def resolved_access_of_def)
      (simp add: suppress_addr_def race_filter_empty_def)
qed

lemma tsan_suppression_ineffective_witness:
  "\<not> check_race (\<lambda>p s. p = s) (suppress_addr 0x100000040 8 race_filter_empty) (decorated_race_of
     (report_entry \<lparr>ta_accessed_memory = 0xC000000040, ta_user_id = 1, ta_size = 4, ta_write = True, ta_stack_trace = [16], ta_type = 0\<rparr>,
      report_entry \<lparr>ta_accessed_memory = 0xC000000040, ta_user_id = 2, ta_size = 4, ta_write = True, ta_stack_trace = [32], ta_type = 0\<rparr>) 0)"
proof (rule tsan_suppression_ineffective)
  show "reportRaceCallBack
      (\<lparr>ta_accessed_memory = 0xC000000040, ta_user_id = 1, ta_size = 4, ta_write = True, ta_stack_trace = [16], ta_type = 0\<rparr>,
       \<lparr>ta_accessed_memory = 0xC000000040, ta_user_id = 2, ta_size = 4, ta_write = True, ta_stack_trace = [32], ta_type = 0\<rparr>) =
    Some (report_entry \<lparr>ta_accessed_memory = 0xC000000040, ta_user_id = 1, ta_size = 4, ta_write = True, ta_stack_trace = [16], ta_type = 0\<rparr>,
      report_entry \<lparr>ta_accessed_memory = 0xC000000040, ta_user_id = 2, ta_size = 4, ta_write = True, ta_stack_trace = [32], ta_type = 0\<rparr>)"
    by (simp add: reportRaceCallBack_def)
  have "(0xC000000040 :: u64) = translate 0x100000040" by code_simp
  then show "ta_accessed_memory \<lparr>ta_accessed_memory = 0xC000000040, ta_user_id = 1, ta_size = 4, ta_write = True, ta_stack_trace = [16], ta_type = 0\<rparr>
      = translate 0x100000040"
    "ta_accessed_memory \<lparr>ta_accessed_memory = 0xC000000040, ta_user_id = 2, ta_size = 4, ta_write = True, ta_stack_trace = [32], ta_type = 0\<rparr>
      = translate 0x100000040" by simp_all
qed simp

text \<open>Every memory address the library is given lies in the 4 GB block that is its shadow range, and two
  addresses of the program are given the same address exactly if they agree in their lower halves. The
  block that is mapped is one byte shorter: only addresses ending in \<open>0xFFFFFFFF\<close> lie behind it.\<close>

theorem shadow_addresses:
  "MEMSTART \<le> translate a \<and> unat (translate a) < unat MEMSTART + 2 ^ 32 \<and>
   (translate a = translate b \<longleftrightarrow> unat a mod 2 ^ 32 = unat b mod 2 ^ 32) \<and>
   (unat (translate a) < unat MEMSTART + unat (0xFFFFFFFF :: u64) \<longleftrightarrow> unat a mod 2 ^ 32 \<noteq> 0xFFFFFFFF)"
proof -
  have u: "unat (translate a) = 0xC000000000 + unat a mod 2 ^ 32" "unat (translate b) = 0xC000000000 + unat b mod 2 ^ 32"
    by (rule translate_unat)+
  have lt: "unat a mod 2 ^ 32 < 2 ^ 32" by simp
  have "translate a = translate b \<longleftrightarrow> unat (translate a) = unat (translate b)" by (rule word_unat_eq_iff)
  also have "\<dots> \<longleftrightarrow> unat a mod 2 ^ 32 = unat b mod 2 ^ 32" unfolding u by simp
  finally have eq: "translate a = translate b \<longleftrightarrow> unat a mod 2 ^ 32 = unat b mod 2 ^ 32" .
  show ?thesis unfolding eq word_le_nat_alt u(1) using lt by (simp add: MEMSTART_def) linarith
qed

end
