(* ===== verification/Utils.thy ===== *)
theory Utils
  imports HashMap "HOL-Library.Sublist"
begin

text \<open>
  String utilities (\<^verbatim>\<open>drace-client/src/util.cpp\<close>) and the configuration store on top
  of them (\<^verbatim>\<open>drace-client/src/InstrumentationConfig.cpp\<close>). The ini parser is not part of
  the repository: it is an argument, a function from a file name to an error code and the values
  it found.
\<close>

section \<open>Strings\<close>

definition common_prefix :: "string \<Rightarrow> string \<Rightarrow> bool" where
  "common_prefix a b =
     (if length a = 0 \<or> length b = 0 then False
      else if length a > length b then take (length b) a = b
      else take (length a) b = a)"

text \<open>\<^verbatim>\<open>find_last_of\<close>: the last position of a character of the set; \<open>None\<close> is \<^verbatim>\<open>npos\<close>.\<close>

fun find_last_of :: "string \<Rightarrow> string \<Rightarrow> nat option" where
  "find_last_of cs [] = None"
| "find_last_of cs (x # xs) =
     (case find_last_of cs xs of Some p \<Rightarrow> Some (Suc p) | None \<Rightarrow> if x \<in> set cs then Some 0 else None)"

definition path_seps :: string where
  "path_seps = [CHR ''/'', CHR 0x5C]"

text \<open>\<^verbatim>\<open>npos\<close> as a length takes the whole string, and \<^verbatim>\<open>npos + 1\<close> is 0.\<close>

definition dir_from_path :: "string \<Rightarrow> string" where
  "dir_from_path fullpath = (case find_last_of path_seps fullpath of Some p \<Rightarrow> take p fullpath | None \<Rightarrow> fullpath)"

definition basename :: "string \<Rightarrow> string" where
  "basename fullpath = (case find_last_of path_seps fullpath of Some p \<Rightarrow> drop (p + 1) fullpath | None \<Rightarrow> fullpath)"

definition without_extension :: "string \<Rightarrow> string" where
  "without_extension path = (case find_last_of ''.'' path of Some p \<Rightarrow> take p path | None \<Rightarrow> path)"

text \<open>
  \<^verbatim>\<open>split\<close>: the pieces between the matches of \<^verbatim>\<open>[delimiter]+\<close>; an empty rest after
  the last match is no piece, an empty one before the first match is.
\<close>

function split_rest :: "string \<Rightarrow> string \<Rightarrow> string list" where
  "split_rest delims s =
     (case dropWhile (\<lambda>c. c \<in> set delims) s of
        [] \<Rightarrow> []
      | c # r \<Rightarrow> takeWhile (\<lambda>c. c \<notin> set delims) (c # r) # split_rest delims (dropWhile (\<lambda>c. c \<notin> set delims) (c # r)))"
  by auto
termination
proof (relation "measure (\<lambda>(d, s). length s)")
  fix delims s c and r :: string
  assume a: "dropWhile (\<lambda>c. c \<in> set delims) s = c # r"
  then have "c \<notin> set delims" using hd_dropWhile [of "\<lambda>c. c \<in> set delims" s] by auto
  then have "length (dropWhile (\<lambda>c. c \<notin> set delims) (c # r)) < length (c # r)"
    by (simp add: le_imp_less_Suc length_dropWhile_le)
  also have "\<dots> \<le> length s" using length_dropWhile_le [of "\<lambda>c. c \<in> set delims" s] by (simp add: a)
  finally show "((delims, dropWhile (\<lambda>c. c \<notin> set delims) (c # r)), delims, s) \<in> measure (\<lambda>(d, s). length s)"
    by simp
qed simp

declare split_rest.simps [simp del]

definition split :: "string \<Rightarrow> string \<Rightarrow> string list" where
  "split str delims = takeWhile (\<lambda>c. c \<notin> set delims) str # split_rest delims (dropWhile (\<lambda>c. c \<notin> set delims) str)"

definition instr_flags_to_str :: "u8 \<Rightarrow> string" where
  "instr_flags_to_str flags =
     (if bit flags 1 then ''MEMORY '' else []) @ (if bit flags 2 then ''STACK '' else []) @
     (if bit flags 0 then ''SYMBOLS '' else []) @ (if flags = 0 then ''NONE '' else [])"

section \<open>Configuration\<close>

text \<open>A parsed file: the error code (negative: not found, positive: the offending line) and the values.\<close>

type_synonym ini = "int \<times> (string \<times> string \<Rightarrow> string option)"

record instr_config =
  ic_reader :: ini
  ic_kvstore :: "(string, string) hmap"

fun load_attempts :: "(string \<Rightarrow> ini) \<Rightarrow> string \<Rightarrow> string \<Rightarrow> nat \<Rightarrow> string \<Rightarrow> instr_config \<Rightarrow> bool \<times> instr_config" where
  "load_attempts parse filename hint n filepath c =
     (let c = c\<lparr>ic_reader := parse filepath\<rparr>; err = fst (parse filepath)
      in if err < 0 then
           if n = Suc (Suc 0) \<and> basename filename = filename
           then load_attempts parse filename hint (n - 1) (dir_from_path hint @ [CHR 0x5C] @ filename) c
           else (False, c)
         else if err \<noteq> 0 then (False, c)
         else (True, c))"

declare load_attempts.simps [simp del]

definition loadfile :: "(string \<Rightarrow> ini) \<Rightarrow> string \<Rightarrow> string \<Rightarrow> instr_config \<Rightarrow> bool \<times> instr_config" where
  "loadfile parse filename hint c = load_attempts parse filename hint 2 filename c"

definition config_set :: "string \<Rightarrow> string \<Rightarrow> instr_config \<Rightarrow> instr_config" where
  "config_set key val c = c\<lparr>ic_kvstore := hm_assign key val (ic_kvstore c)\<rparr>"

definition config_get :: "instr_config \<Rightarrow> string \<Rightarrow> string \<Rightarrow> string \<Rightarrow> string" where
  "config_get c sect key def_val =
     (case hm_find (ic_kvstore c) key of Some v \<Rightarrow> v
      | None \<Rightarrow> (case snd (ic_reader c) (sect, key) of Some v \<Rightarrow> v | None \<Rightarrow> def_val))"

definition config_get_multi :: "instr_config \<Rightarrow> string \<Rightarrow> string \<Rightarrow> string list" where
  "config_get_multi c sect key =
     (let val = (case snd (ic_reader c) (sect, key) of Some v \<Rightarrow> v | None \<Rightarrow> [])
      in if val = [] then [] else split val [CHR 0x0A])"

section \<open>Facts\<close>

lemma common_prefix_iff:
  "common_prefix a b \<longleftrightarrow> a \<noteq> [] \<and> b \<noteq> [] \<and> (prefix b a \<or> prefix a b)"
proof -
  have "take (length x) y = x \<longleftrightarrow> prefix x y" if "length x \<le> length y" for x y :: string
    using that by (metis append_eq_conv_conj prefix_def take_is_prefix)
  moreover have "length a \<le> length b \<or> length b < length a" by linarith
  moreover have "prefix b a \<Longrightarrow> length a \<le> length b \<Longrightarrow> prefix a b"
    by (auto simp: prefix_def)
  ultimately show ?thesis using prefix_length_le [of a b]
    unfolding common_prefix_def by (metis less_imp_le length_0_conv not_less)
qed

lemma find_last_of_None: "find_last_of cs s = None \<longleftrightarrow> (\<forall>c \<in> set s. c \<notin> set cs)"
  by (induction s) (auto split: option.splits)

lemma find_last_of_Some:
  "find_last_of cs s = Some p \<Longrightarrow> p < length s \<and> s ! p \<in> set cs \<and> (\<forall>c \<in> set (drop (Suc p) s). c \<notin> set cs)"
proof (induction s arbitrary: p)
  case (Cons x s)
  then show ?case
    by (cases "find_last_of cs s") (auto simp: find_last_of_None split: if_splits)
qed simp

lemma all_Cons: "P w \<Longrightarrow> \<forall>v \<in> set ws. P v \<Longrightarrow> \<forall>v \<in> set (w # ws). P v"
  by simp

lemma set_split_rest: "\<forall>w \<in> set (split_rest delims s). w \<noteq> [] \<and> (\<forall>c \<in> set w. c \<notin> set delims)"
proof (induction delims s rule: split_rest.induct)
  case (1 delims s)
  show ?case
  proof (cases "dropWhile (\<lambda>c. c \<in> set delims) s")
    case Nil
    then have "split_rest delims s = []" 
      unfolding split_rest.simps [of delims s] Nil list.case by simp
    then show ?thesis by simp
  next
    case (Cons c r)
    then have "c \<notin> set delims" using hd_dropWhile [of "\<lambda>c. c \<in> set delims" s] by auto
    then have "takeWhile (\<lambda>c. c \<notin> set delims) (c # r) \<noteq> []" by simp
    moreover have "\<forall>x \<in> set (takeWhile (\<lambda>c. c \<notin> set delims) (c # r)). x \<notin> set delims"
      by (blast dest: set_takeWhileD)
    ultimately have "takeWhile (\<lambda>c. c \<notin> set delims) (c # r) \<noteq> [] \<and>
        (\<forall>x \<in> set (takeWhile (\<lambda>c. c \<notin> set delims) (c # r)). x \<notin> set delims)" by (rule conjI)
    from all_Cons [OF this 1 [OF Cons]] show ?thesis
      unfolding split_rest.simps [of delims s] Cons list.case .
  qed
qed

lemma concat_split_rest: "concat (split_rest delims s) = filter (\<lambda>c. c \<notin> set delims) s"
proof (induction delims s rule: split_rest.induct)
  case (1 delims s)
  have s: "filter (\<lambda>c. c \<notin> set delims) s = filter (\<lambda>c. c \<notin> set delims) (dropWhile (\<lambda>c. c \<in> set delims) s)"
    by (induction s) auto
  show ?case
  proof (cases "dropWhile (\<lambda>c. c \<in> set delims) s")
    case Nil
    then have "split_rest delims s = []" 
      unfolding split_rest.simps [of delims s] Nil list.case by simp
    with s Nil show ?thesis by (simp del: dropWhile_eq_Nil_conv)
  next
    case (Cons c r)
    have "filter (\<lambda>c. c \<notin> set delims) x =
        takeWhile (\<lambda>c. c \<notin> set delims) x @ filter (\<lambda>c. c \<notin> set delims) (dropWhile (\<lambda>c. c \<notin> set delims) x)" for x
      by (induction x) auto
    from this [of "c # r"] 1 [OF Cons] s Cons show ?thesis
      by (subst split_rest.simps) (simp del: takeWhile.simps dropWhile.simps)
  qed
qed

section \<open>Properties\<close>

text \<open>A path splits into directory, separator and base name, and the base name holds no
  separator; a path without separator is returned unchanged by both.\<close>

theorem path_roundtrip:
  "(if \<exists>c \<in> set p. c \<in> set path_seps
    then \<exists>c \<in> set path_seps. p = dir_from_path p @ c # basename p
    else dir_from_path p = p \<and> basename p = p) \<and> list_all (\<lambda>c. c \<notin> set path_seps) (basename p)"
proof (cases "find_last_of path_seps p")
  case None
  then show ?thesis using find_last_of_None [of path_seps p] by (simp add: dir_from_path_def basename_def list_all_iff)
next
  case (Some i)
  from find_last_of_Some [OF Some] have i: "i < length p" "p ! i \<in> set path_seps"
    "\<forall>c \<in> set (drop (Suc i) p). c \<notin> set path_seps" by auto
  have "p = take i p @ p ! i # drop (Suc i) p" by (rule id_take_nth_drop [OF i(1)])
  with i Some show ?thesis
    using nth_mem [OF i(1)] by (auto simp: dir_from_path_def basename_def list_all_iff)
qed

text \<open>A multi-line value is split into its non-empty lines, in order and with nothing lost
  but the line breaks; only the first piece can be empty.\<close>

theorem get_multi_lines:
  "concat (config_get_multi c sect key) =
     filter (\<lambda>x. x \<noteq> CHR 0x0A) (case snd (ic_reader c) (sect, key) of Some v \<Rightarrow> v | None \<Rightarrow> []) \<and>
   list_all (\<lambda>w. CHR 0x0A \<notin> set w) (config_get_multi c sect key) \<and>
   list_all (\<lambda>w. w \<noteq> []) (tl (config_get_multi c sect key))"
proof -
  define val where "val = (case snd (ic_reader c) (sect, key) of Some v \<Rightarrow> v | None \<Rightarrow> [])"
  have cc: "concat (split s [d]) = filter (\<lambda>x. x \<noteq> d) s" for s and d :: char
  proof -
    have "filter (\<lambda>x. x \<noteq> d) s = takeWhile (\<lambda>x. x \<noteq> d) s @ filter (\<lambda>x. x \<noteq> d) (dropWhile (\<lambda>x. x \<noteq> d) s)"
      by (induction s) auto
    then show ?thesis using concat_split_rest [of "[d]" "dropWhile (\<lambda>x. x \<noteq> d) s"] by (simp add: split_def)
  qed
  have ne: "(\<forall>w \<in> set (split s [d]). d \<notin> set w) \<and> (\<forall>w \<in> set (tl (split s [d])). w \<noteq> [])" for s and d :: char
  proof -
    have "d \<notin> set (takeWhile (\<lambda>x. x \<noteq> d) s)" using set_takeWhileD by fastforce
    moreover have "\<forall>w \<in> set (split_rest [d] x). w \<noteq> [] \<and> d \<notin> set w" for x
      using set_split_rest [of "[d]" x] by (metis list.set_intros(1))
    ultimately show ?thesis unfolding split_def by simp
  qed
  have "config_get_multi c sect key = (if val = [] then [] else split val [CHR 0x0A])"
    by (simp only: config_get_multi_def Let_def val_def)
  then have "config_get_multi c sect key = (if val = [] then [] else split val [CHR 0x0A])" .
  then have "concat (config_get_multi c sect key) = filter (\<lambda>x. x \<noteq> CHR 0x0A) val \<and>
    ((\<forall>w \<in> set (config_get_multi c sect key). CHR 0x0A \<notin> set w) \<and> (\<forall>w \<in> set (tl (config_get_multi c sect key)). w \<noteq> []))"
  proof (cases "val = []")
    case False
    then have e: "config_get_multi c sect key = split val [CHR 0x0A]"
      using \<open>config_get_multi c sect key = _\<close> by (simp only: if_False)
    show ?thesis unfolding e by (intro conjI [OF cc ne])
  qed simp
  then show ?thesis unfolding val_def list_all_iff .
qed

end
