(* ===== verification/LossyCounting.thy ===== *)
theory LossyCounting
  imports HashMap Complex_Main
begin

text \<open>
  The lossy counting model (\<^verbatim>\<open>drace-client/include/lcm/lossyCountingModel.hpp\<close>) with
  which the client finds frequently executed code. Counters are unbounded; the threshold of the
  output, which the code computes with doubles, is computed with rationals.
\<close>

section \<open>The model\<close>

record 'a lcm =
  lc_frequency :: rat
  lc_error :: rat
  lc_window :: nat
  lc_total :: nat
  lc_hist :: "('a, nat) hmap"

definition lcm_new :: "rat \<Rightarrow> rat \<Rightarrow> 'a lcm" where
  "lcm_new f e = \<lparr>lc_frequency = f, lc_error = e, lc_window = nat (round (1 / e)), lc_total = 0, lc_hist = []\<rparr>"

text \<open>\<^verbatim>\<open>++(_histogram[e])\<close>: a missing entry starts at zero.\<close>

definition hist_count :: "('a, nat) hmap \<Rightarrow> 'a \<Rightarrow> nat" where
  "hist_count h x = (case hm_find h x of None \<Rightarrow> 0 | Some c \<Rightarrow> c)"

definition bump_entry :: "'a \<Rightarrow> ('a, nat) hmap \<Rightarrow> ('a, nat) hmap" where
  "bump_entry x h = hm_assign x (Suc (hist_count h x)) h"

fun decrease_loop :: "('a, nat) hmap \<Rightarrow> ('a, nat) hmap" where
  "decrease_loop [] = []"
| "decrease_loop ((k, c) # h) = (if c = 1 then decrease_loop h else (k, c - 1) # decrease_loop h)"

definition decreaseAllFrequencies :: "'a lcm \<Rightarrow> 'a lcm" where
  "decreaseAllFrequencies m = m\<lparr>lc_hist := decrease_loop (lc_hist m)\<rparr>"

definition processItem :: "'a \<Rightarrow> 'a lcm \<Rightarrow> bool \<times> 'a lcm" where
  "processItem e m =
     (let m = m\<lparr>lc_hist := bump_entry e (lc_hist m), lc_total := Suc (lc_total m)\<rparr>
      in if lc_total m mod lc_window m = 0 then (True, decreaseAllFrequencies m) else (False, m))"

text \<open>\<open>None\<close>: the caller provides fewer elements than the window is long.\<close>

definition processWindow :: "'a list \<Rightarrow> 'a lcm \<Rightarrow> 'a lcm option" where
  "processWindow it m =
     (if length it < lc_window m then None
      else let m = m\<lparr>lc_hist := fold bump_entry (take (lc_window m) it) (lc_hist m)\<rparr>;
               m = m\<lparr>lc_total := lc_total m + lc_window m\<rparr>
           in Some (decreaseAllFrequencies m))"

text \<open>The threshold is truncated to an \<^verbatim>\<open>int\<close> and compared as an unsigned value.\<close>

definition output_threshold :: "'a lcm \<Rightarrow> u64" where
  "output_threshold m =
     (let t = lc_frequency m * of_nat (lc_total m) - lc_error m * of_nat (lc_total m)
      in word_of_int (if 0 \<le> t then \<lfloor>t\<rfloor> else \<lceil>t\<rceil>))"

definition computeOutput :: "'a lcm \<Rightarrow> ('a \<times> nat) list" where
  "computeOutput m = filter (\<lambda>(k, c). unat (output_threshold m) \<le> c) (lc_hist m)"

definition computeOutputKeys :: "'a lcm \<Rightarrow> 'a list" where
  "computeOutputKeys m = map fst (filter (\<lambda>(k, c). unat (output_threshold m) \<le> c) (lc_hist m))"

definition lcm_reset :: "'a lcm \<Rightarrow> 'a lcm" where
  "lcm_reset m = m\<lparr>lc_hist := [], lc_total := 0\<rparr>"

fun process_stream :: "'a list \<Rightarrow> 'a lcm \<Rightarrow> 'a lcm" where
  "process_stream [] m = m"
| "process_stream (x # xs) m = process_stream xs (snd (processItem x m))"

section \<open>Counters\<close>

definition hist_ok :: "('a, nat) hmap \<Rightarrow> bool" where
  "hist_ok h \<longleftrightarrow> hm_wf h \<and> (\<forall>k. hm_find h k \<noteq> Some 0)"

lemma hist_count_bump: "hist_count (bump_entry x h) y = hist_count h y + (if y = x then 1 else 0)"
  by (simp add: hist_count_def bump_entry_def hm_assign_find)

lemma hist_ok_Nil: "hist_ok []"
  by (simp add: hist_ok_def)

lemma hist_ok_bump: "hist_ok h \<Longrightarrow> hist_ok (bump_entry x h)"
  by (simp add: hist_ok_def bump_entry_def hm.invar_assign hm_assign_find)

lemma hist_ok_ConsD:
  assumes "hist_ok ((k, c) # h)"
  shows "hist_ok h" "hm_find h k = None" "0 < c"
proof -
  have w: "hm_wf h \<and> hm_find h k = None" using assms hm_wf_ConsD [of k c h] by (simp add: hist_ok_def)
  have "hm_find ((k, c) # h) k \<noteq> Some 0" using assms by (simp add: hist_ok_def)
  then show "0 < c" by (simp add: hm_find_Cons)
  have "hm_find h x \<noteq> Some 0" for x
  proof -
    have "hm_find ((k, c) # h) x \<noteq> Some 0" using assms by (simp add: hist_ok_def)
    then show ?thesis using w by (cases "x = k") (simp_all add: hm_find_Cons)
  qed
  with w show "hist_ok h" "hm_find h k = None" by (simp_all add: hist_ok_def)
qed

lemma decrease_find:
  "hist_ok h \<Longrightarrow> hm_find (decrease_loop h) x =
     (case hm_find h x of None \<Rightarrow> None | Some c \<Rightarrow> if c = 1 then None else Some (c - 1))"
proof (induction h rule: decrease_loop.induct)
  case (2 k c h)
  note d = hist_ok_ConsD [OF 2(3)]
  show ?case using 2(1,2) d by (cases "c = 1") (auto simp: hm_find_Cons)
qed simp

lemma decrease_keys: "set (map fst (decrease_loop h)) \<subseteq> set (map fst h)"
  by (induction h rule: decrease_loop.induct) auto

lemma decrease_wf: "hm_wf h \<Longrightarrow> hm_wf (decrease_loop h)"
proof (induction h rule: decrease_loop.induct)
  case (2 k c h)
  then show ?case using decrease_keys [of h] by (auto simp: hm_wf_def)
qed simp

lemma hist_ok_decrease:
  assumes "hist_ok h"
  shows "hist_ok (decrease_loop h)"
proof -
  have "hm_find (decrease_loop h) x \<noteq> Some 0" for x
  proof (cases "hm_find h x")
    case (Some c)
    then have "c \<noteq> 0" using assms unfolding hist_ok_def by metis
    with Some show ?thesis by (simp add: decrease_find assms)
  qed (simp add: decrease_find assms)
  with assms show ?thesis by (simp add: hist_ok_def decrease_wf)
qed

lemma hist_count_decrease: "hist_ok h \<Longrightarrow> hist_count (decrease_loop h) x = hist_count h x - 1"
  by (simp add: hist_count_def decrease_find split: option.split)

lemma hist_count_fold_bump: "hist_count (fold bump_entry xs h) y = hist_count h y + count_list xs y"
  by (induction xs arbitrary: h) (simp_all add: hist_count_bump)

section \<open>The counting bounds\<close>

text \<open>
  After a stream \<open>xs\<close> the counter of an element is its number of occurrences minus at most one
  per completed window.
\<close>

definition lcm_inv :: "'a list \<Rightarrow> 'a lcm \<Rightarrow> bool" where
  "lcm_inv xs m \<longleftrightarrow> hist_ok (lc_hist m) \<and> lc_total m = length xs \<and>
     (\<forall>x. hist_count (lc_hist m) x \<le> count_list xs x \<and>
          count_list xs x \<le> hist_count (lc_hist m) x + length xs div lc_window m)"

lemma lcm_inv_new: "lcm_inv [] (lcm_new f e)"
  by (simp add: lcm_inv_def lcm_new_def hist_ok_Nil hist_count_def)

lemma processItem_window: "lc_window (snd (processItem x m)) = lc_window m"
  by (simp add: processItem_def decreaseAllFrequencies_def Let_def)

lemma div_window:
  assumes "0 < (w :: nat)"
  shows "Suc n mod w = 0 \<Longrightarrow> Suc n div w = Suc (n div w)" and "Suc n mod w \<noteq> 0 \<Longrightarrow> Suc n div w = n div w"
  using assms by (simp_all add: div_Suc)

lemma processItem_inv:
  assumes "lcm_inv xs m" and "0 < lc_window m"
  shows "lcm_inv (xs @ [x]) (snd (processItem x m))"
proof -
  let ?h = "bump_entry x (lc_hist m)"
  have ok: "hist_ok ?h" using assms(1) by (simp add: lcm_inv_def hist_ok_bump)
  have up: "hist_count ?h y \<le> count_list (xs @ [x]) y \<and>
      count_list (xs @ [x]) y \<le> hist_count ?h y + length xs div lc_window m" for y
    using assms(1) by (simp add: lcm_inv_def hist_count_bump)
  show ?thesis
  proof (cases "Suc (length xs) mod lc_window m = 0")
    case True
    with assms(1) have "snd (processItem x m) =
        m\<lparr>lc_hist := decrease_loop ?h, lc_total := Suc (length xs)\<rparr>"
      by (simp add: lcm_inv_def processItem_def decreaseAllFrequencies_def Let_def)
    moreover have "hist_count (decrease_loop ?h) y \<le> count_list (xs @ [x]) y \<and>
        count_list (xs @ [x]) y \<le> hist_count (decrease_loop ?h) y + Suc (length xs div lc_window m)" for y
      using up [of y] by (simp only: hist_count_decrease [OF ok]) linarith
    ultimately show ?thesis
      using hist_ok_decrease [OF ok] div_window(1) [OF assms(2) True] by (simp add: lcm_inv_def)
  next
    case False
    with assms(1) have "snd (processItem x m) = m\<lparr>lc_hist := ?h, lc_total := Suc (length xs)\<rparr>"
      by (simp add: lcm_inv_def processItem_def Let_def)
    with ok up div_window(2) [OF assms(2) False] show ?thesis by (simp add: lcm_inv_def)
  qed
qed

lemma process_stream_inv:
  "lcm_inv xs m \<Longrightarrow> 0 < lc_window m \<Longrightarrow>
     lcm_inv (xs @ ys) (process_stream ys m) \<and> lc_window (process_stream ys m) = lc_window m"
proof (induction ys arbitrary: xs m)
  case (Cons y ys)
  from Cons.IH [OF processItem_inv [OF Cons.prems, of y]] Cons.prems(2)
  show ?case by (simp add: processItem_window)
qed simp

lemma process_stream_params:
  "lc_frequency (process_stream xs m) = lc_frequency m \<and> lc_error (process_stream xs m) = lc_error m"
  by (induction xs arbitrary: m) (simp_all add: processItem_def decreaseAllFrequencies_def Let_def)

section \<open>Properties\<close>

text \<open>After any stream of \<open>N\<close> elements a counter never exceeds the number of occurrences of its
  element and falls short of it by at most one per completed window.\<close>

theorem lossy_count_bounds:
  assumes "m = lcm_new f e" and "0 < lc_window m"
  shows "hist_count (lc_hist (process_stream xs m)) x \<le> count_list xs x \<and>
    count_list xs x \<le> hist_count (lc_hist (process_stream xs m)) x + length xs div lc_window m"
proof -
  have "lcm_inv xs (process_stream xs m)" "lc_window (process_stream xs m) = lc_window m"
    using process_stream_inv [OF lcm_inv_new, of f e xs] assms(2) unfolding assms(1) by simp_all
  then show ?thesis unfolding lcm_inv_def by metis
qed

lemma lossy_count_bounds_witness:
  "hist_count (lc_hist (process_stream [7, 7, 8, 7, 9 :: nat] (lcm_new (1 / 2) (1 / 4)))) 7 \<le> 3 \<and>
   3 \<le> hist_count (lc_hist (process_stream [7, 7, 8, 7, 9 :: nat] (lcm_new (1 / 2) (1 / 4)))) 7 + 1"
proof -
  have "0 < lc_window (lcm_new (1 / 2) (1 / 4) :: nat lcm)" "lc_window (lcm_new (1 / 2) (1 / 4) :: nat lcm) = 4"
    by (simp_all add: lcm_new_def)
  with lossy_count_bounds [OF refl, of "1 / 2" "1 / 4" "[7, 7, 8, 7, 9 :: nat]" 7] show ?thesis by simp
qed

lemma rat_div_le: "0 < w \<Longrightarrow> of_nat (n div w) \<le> (of_nat n / of_nat w :: rat)"
  by (simp add: pos_le_divide_eq del: of_nat_mult flip: of_nat_mult)

lemma output_threshold_le:
  fixes m :: "'a lcm"
  defines "t \<equiv> lc_frequency m * of_nat (lc_total m) - lc_error m * of_nat (lc_total m)"
  assumes "0 \<le> t" and "t \<le> of_nat c"
  shows "unat (output_threshold m) \<le> c"
proof -
  have "\<lfloor>t\<rfloor> \<le> int c" using assms(3) by linarith
  moreover have "0 \<le> \<lfloor>t\<rfloor>" using assms(2) by simp
  moreover have "output_threshold m = word_of_int \<lfloor>t\<rfloor>"
    using assms(2) by (simp add: output_threshold_def Let_def t_def)
  moreover have "unat (word_of_int k :: u64) \<le> c" if "0 \<le> k" "k \<le> int c" for k
  proof -
    have "unat (word_of_int k :: u64) = nat (k mod 2 ^ 64)"
      by (simp add: unsigned_of_int take_bit_eq_mod)
    also have "k mod 2 ^ 64 \<le> k" using that(1) by (simp add: zmod_le_nonneg_dividend)
    finally show ?thesis using that(2) by linarith
  qed
  ultimately show ?thesis by simp
qed

text \<open>C36: No frequent element is lost: with an error below the frequency, whose reciprocal is the
  window length, every element that makes up at least the given fraction of a stream (of fewer
  than 2^31 elements) is in the output with its counter.\<close>

theorem frequent_items_reported:
  assumes "m = lcm_new f e" and "1 / e = of_nat w" and "0 < w" and "e < f" and "f \<le> 1"
    and "xs \<noteq> []" and "length xs < 2 ^ 31" and "f * of_nat (length xs) \<le> of_nat (count_list xs x)"
  shows "(x, hist_count (lc_hist (process_stream xs m)) x) \<in> set (computeOutput (process_stream xs m))"
proof -
  let ?m = "process_stream xs m"
  let ?c = "hist_count (lc_hist ?m) x" and ?N = "of_nat (length xs) :: rat"
  have w: "lc_window m = w" using assms(2) by (simp add: assms(1) lcm_new_def)
  have inv: "lcm_inv xs ?m" "lc_window ?m = w"
    using process_stream_inv [OF lcm_inv_new, of f e xs] w assms(3) by (simp_all add: assms(1))
  have e: "e = 1 / of_nat w" using assms(2,3) by (metis div_by_1 divide_divide_eq_right mult.commute mult_1)
  have "count_list xs x \<le> ?c + length xs div w" using inv by (simp add: lcm_inv_def)
  then have "of_nat (count_list xs x) \<le> (of_nat ?c + of_nat (length xs div w) :: rat)"
    by (metis of_nat_add of_nat_mono)
  with assms(8) rat_div_le [OF assms(3), of "length xs"] have c: "f * ?N - e * ?N \<le> of_nat ?c"
    by (simp add: e)
  have "0 < (f - e) * ?N" using assms(4,6) by simp
  then have pos: "0 < f * ?N - e * ?N" by (simp add: algebra_simps)
  have "?c \<noteq> 0"
  proof
    assume "?c = 0"
    with c have "f * ?N - e * ?N \<le> 0" by (simp only: of_nat_0)
    with pos show False by simp
  qed
  then have "hm_find (lc_hist ?m) x = Some ?c" by (auto simp: hist_count_def split: option.splits)
  then have "(x, ?c) \<in> set (lc_hist ?m)"
    using inv(1) by (simp add: hm_find_in lcm_inv_def hist_ok_def)
  moreover have "lc_frequency ?m = f" "lc_error ?m = e" "lc_total ?m = length xs"
    using process_stream_params [of xs m] inv(1) by (simp_all add: assms(1) lcm_new_def lcm_inv_def)
  then have "unat (output_threshold ?m) \<le> ?c" using output_threshold_le [of ?m ?c] pos c by simp
  ultimately show ?thesis by (simp add: computeOutput_def)
qed

lemma frequent_items_reported_witness:
  "(7, 2) \<in> set (computeOutput (process_stream [7, 7, 8, 7, 9 :: nat] (lcm_new (1 / 2) (1 / 4))))"
proof -
  let ?m = "lcm_new (1 / 2) (1 / 4) :: nat lcm" and ?xs = "[7, 7, 8, 7, 9 :: nat]"
  have "(7, hist_count (lc_hist (process_stream ?xs ?m)) 7) \<in> set (computeOutput (process_stream ?xs ?m))"
    by (rule frequent_items_reported [where f = "1 / 2" and e = "1 / 4" and w = 4]) simp_all
  moreover have "hist_count (lc_hist (process_stream ?xs ?m)) 7 = 2"
    by (simp add: lcm_new_def processItem_def decreaseAllFrequencies_def bump_entry_def hist_count_def
        hm_assign_def hm_find_def)
  ultimately show ?thesis by simp
qed

end
