(* ===== verification/ModTracker.thy ===== *)
theory ModTracker
  imports OrderedMap Utils
begin

text \<open>
  Loaded modules: the metadata of a module (\<^verbatim>\<open>drace-client/include/module/Metadata.h\<close>,
  \<^verbatim>\<open>src/module/Metadata.cpp\<close>), the tracker (\<^verbatim>\<open>src/module/Tracker.cpp\<close>) and the
  one-entry cache (\<^verbatim>\<open>include/module/Cache.h\<close>). Metadata objects are shared pointers:
  the tracker holds a list of objects and an index from begin addresses to positions in it.
  The loader's \<^verbatim>\<open>module_data_t\<close> is a record; its address matters where the code
  compares pointers.
\<close>

unbundle bit_operations_syntax

section \<open>Metadata\<close>

text \<open>\<open>mo_clr\<close>: the COM descriptor entry that \<^verbatim>\<open>tag_module\<close> reads from the PE header of the image.\<close>

record module_data =
  mo_start :: addr
  mo_end :: addr
  mo_full_path :: string
  mo_name :: string
  mo_internal_size :: u64
  mo_clr :: u32

definition INSTR_NONE :: u8 where "INSTR_NONE = 0"
definition INSTR_SYMBOLS :: u8 where "INSTR_SYMBOLS = 1"
definition INSTR_MEMORY :: u8 where "INSTR_MEMORY = 2"
definition INSTR_STACK :: u8 where "INSTR_STACK = 4"

definition MOD_UNKNOWN :: u8 where "MOD_UNKNOWN = 0"
definition MOD_NATIVE :: u8 where "MOD_NATIVE = 1"
definition MOD_MANAGED :: u8 where "MOD_MANAGED = 2"
definition MOD_SYNC :: u8 where "MOD_SYNC = 6"

record metadata =
  md_base :: addr
  md_end :: addr
  md_loaded :: bool
  md_instrument :: u8
  md_modtype :: u8
  md_info :: "(addr \<times> module_data) option"
  md_debug_info :: bool

definition new_metadata :: "addr \<Rightarrow> addr \<Rightarrow> metadata" where
  "new_metadata mbase mend = \<lparr>md_base = mbase, md_end = mend, md_loaded = True, md_instrument = INSTR_NONE,
     md_modtype = MOD_UNKNOWN, md_info = None, md_debug_info = False\<rparr>"

definition tag_module :: "module_data \<Rightarrow> u8" where
  "tag_module info = (if mo_clr info = 0 then MOD_NATIVE else MOD_MANAGED)"

text \<open>\<open>copy\<close> is the address of the fresh copy made by \<^verbatim>\<open>dr_copy_module_data\<close>.\<close>

definition set_info :: "addr \<Rightarrow> module_data \<Rightarrow> metadata \<Rightarrow> metadata" where
  "set_info copy m md = md\<lparr>md_info := Some (copy, m), md_modtype := tag_module m\<rparr>"

text \<open>Logical equality of module data (\<^verbatim>\<open>operator==\<close>), by address or contents.\<close>

definition module_data_eq :: "addr \<times> module_data \<Rightarrow> addr \<times> module_data \<Rightarrow> (module_data \<Rightarrow> addr \<times> u32 \<times> u32) \<Rightarrow> bool" where
  "module_data_eq d1 d2 stamps =
     (if fst d1 = fst d2 then True
      else mo_start (snd d1) = mo_start (snd d2) \<and> mo_end (snd d1) = mo_end (snd d2) \<and>
        stamps (snd d1) = stamps (snd d2) \<and> mo_name (snd d1) \<noteq> [] \<and> mo_name (snd d2) \<noteq> [] \<and>
        mo_name (snd d1) = mo_name (snd d2))"

section \<open>Cache\<close>

record mod_cache =
  ca_mod :: "nat option"
  ca_start :: addr
  ca_end :: addr

definition cache_init :: mod_cache where
  "cache_init = \<lparr>ca_mod = None, ca_start = 0, ca_end = 0\<rparr>"

definition cache_lookup :: "mod_cache \<Rightarrow> addr \<Rightarrow> nat option" where
  "cache_lookup c pc =
     (case ca_mod c of None \<Rightarrow> None
      | Some r \<Rightarrow> if ca_start c \<le> pc \<and> pc < ca_end c then Some r else None)"

text \<open>\<open>None\<close>: the metadata has no module data (a null dereference).\<close>

definition cache_update :: "nat \<Rightarrow> metadata \<Rightarrow> mod_cache \<Rightarrow> mod_cache option" where
  "cache_update r md c =
     (case md_info md of None \<Rightarrow> None
      | Some (_, info) \<Rightarrow> Some (c\<lparr>ca_mod := Some r, ca_start := mo_start info, ca_end := mo_end info\<rparr>))"

section \<open>Tracker\<close>

record tracker =
  tr_idx :: "(addr, nat) hmap"
  tr_objs :: "metadata list"
  tr_excluded_mods :: "string list"
  tr_excluded_paths :: "string list"

definition char_tolower :: "char \<Rightarrow> char" where
  "char_tolower c = (let n = of_char c :: nat in if 65 \<le> n \<and> n \<le> 90 then char_of (n + 32) else c)"

definition str_tolower :: "string \<Rightarrow> string" where
  "str_tolower s = map char_tolower s"

definition tracker_new :: "instr_config \<Rightarrow> tracker" where
  "tracker_new cfg = \<lparr>tr_idx = [], tr_objs = [],
     tr_excluded_mods = config_get_multi cfg ''modules'' ''exclude_mods'',
     tr_excluded_paths = map str_tolower (config_get_multi cfg ''modules'' ''exclude_path'')\<rparr>"

definition get_module_containing :: "tracker \<Rightarrow> addr \<Rightarrow> nat option" where
  "get_module_containing t pc =
     (case lower_bound pc (tr_idx t) of
        None \<Rightarrow> None
      | Some (b, r) \<Rightarrow> if pc < md_end (tr_objs t ! r) then Some r else None)"

definition add_emplace :: "addr \<Rightarrow> addr \<Rightarrow> tracker \<Rightarrow> nat \<times> tracker" where
  "add_emplace mbase mend t =
     (let r = length (tr_objs t)
      in (r, t\<lparr>tr_objs := tr_objs t @ [new_metadata mbase mend], tr_idx := hm_emplace mbase r (tr_idx t)\<rparr>))"

definition upd_obj :: "nat \<Rightarrow> (metadata \<Rightarrow> metadata) \<Rightarrow> tracker \<Rightarrow> tracker" where
  "upd_obj r f t = t\<lparr>tr_objs := (tr_objs t)[r := f (tr_objs t ! r)]\<rparr>"

text \<open>The flags of a new module: excluded paths first, then excluded names (\<open>rm\<close> is \<^verbatim>\<open>regex_match\<close>).\<close>

definition instr_flags_for :: "(string \<Rightarrow> string \<Rightarrow> bool) \<Rightarrow> tracker \<Rightarrow> module_data \<Rightarrow> u8" where
  "instr_flags_for rm t m =
     (let mod_path = str_tolower (mo_full_path m);
          fl = INSTR_MEMORY OR INSTR_STACK OR INSTR_SYMBOLS;
          fl = (if list_ex (\<lambda>p. common_prefix p mod_path) (tr_excluded_paths t) then INSTR_STACK else fl)
      in if fl \<noteq> INSTR_STACK \<and> list_ex (\<lambda>p. rm p (mo_name m)) (tr_excluded_mods t)
         then INSTR_SYMBOLS OR INSTR_STACK else fl)"

definition register_module ::
    "(string \<Rightarrow> string \<Rightarrow> bool) \<Rightarrow> (module_data \<Rightarrow> bool) \<Rightarrow> addr \<Rightarrow> addr \<times> module_data \<Rightarrow> tracker \<Rightarrow> nat \<times> tracker" where
  "register_module rm debug_available copy pm t =
     (let (p, m) = pm;
          known = (case get_module_containing t (mo_start m) of
            None \<Rightarrow> None
          | Some r \<Rightarrow> if \<not> md_loaded (tr_objs t ! r) \<and> map_option fst (md_info (tr_objs t ! r)) = Some p
                     then Some r else None)
      in case known of
           Some r \<Rightarrow> (r, upd_obj r (md_loaded_update (\<lambda>_. True)) t)
         | None \<Rightarrow>
             (let (r, t) = add_emplace (mo_start m) (mo_end m) t;
                  fl = instr_flags_for rm t m;
                  t = upd_obj r (\<lambda>md. (set_info copy m md)\<lparr>md_instrument := fl\<rparr>) t;
                  t = (if fl AND INSTR_SYMBOLS \<noteq> 0
                       then upd_obj r (md_debug_info_update (\<lambda>_. debug_available m)) t else t)
              in (r, t)))"

definition event_module_unload :: "module_data \<Rightarrow> tracker \<Rightarrow> tracker" where
  "event_module_unload m t =
     (case get_module_containing t (mo_start m) of None \<Rightarrow> t
      | Some r \<Rightarrow> upd_obj r (md_loaded_update (\<lambda>_. False)) t)"

section \<open>The index\<close>

text \<open>The end address comes from the object, so the tracker is an interval index of pairs.\<close>

definition tracker_ok :: "tracker \<Rightarrow> bool" where
  "tracker_ok t \<longleftrightarrow> hm_wf (tr_idx t) \<and>
     (\<forall>b r. hm_find (tr_idx t) b = Some r \<longrightarrow> r < length (tr_objs t) \<and> md_base (tr_objs t ! r) = b)"

definition known_module :: "tracker \<Rightarrow> nat \<Rightarrow> bool" where
  "known_module t r \<longleftrightarrow> r < length (tr_objs t) \<and> hm_find (tr_idx t) (md_base (tr_objs t ! r)) = Some r"

definition contains_pc :: "metadata \<Rightarrow> addr \<Rightarrow> bool" where
  "contains_pc md pc \<longleftrightarrow> md_base md \<le> pc \<and> pc < md_end md"

interpretation mods: interval_index hm_find lower_bound hm_wf "\<lambda>b (r, md). md_end md"
  by (rule interval_index_hm)

definition tracker_view :: "tracker \<Rightarrow> (addr, nat \<times> metadata) hmap" where
  "tracker_view t = hm_map (\<lambda>b r. (r, tr_objs t ! r)) (tr_idx t)"

lemma lower_bound_map: "lower_bound a (hm_map f m) = map_option (\<lambda>(k, v). (k, f k v)) (lower_bound a m)"
  unfolding hm_map_def by (induction m) (auto split: option.splits)

lemma get_module_hit:
  "get_module_containing t pc = map_option (\<lambda>(b, r, md). r) (mods.hit pc (tracker_view t))"
  by (auto simp: get_module_containing_def mods.hit_def tracker_view_def lower_bound_map split: option.splits)

lemma tracker_view_find: "hm_find (tracker_view t) b = Some (r, md) \<longleftrightarrow>
    hm_find (tr_idx t) b = Some r \<and> md = tr_objs t ! r"
  by (auto simp: tracker_view_def hm_map_find)

lemma known_module_idx: "tracker_ok t \<Longrightarrow> hm_find (tr_idx t) b = Some r \<Longrightarrow> known_module t r \<and> md_base (tr_objs t ! r) = b"
  by (simp add: tracker_ok_def known_module_def)

text \<open>Distinct indexed modules occupy disjoint ranges.\<close>

definition modules_disjoint :: "tracker \<Rightarrow> bool" where
  "modules_disjoint t \<longleftrightarrow> mods.separated (tracker_view t)"

lemma modules_disjointI:
  assumes "tracker_ok t"
    and "\<And>r r'. known_module t r \<Longrightarrow> known_module t r' \<Longrightarrow> md_base (tr_objs t ! r) < md_base (tr_objs t ! r') \<Longrightarrow>
      md_end (tr_objs t ! r) \<le> md_base (tr_objs t ! r')"
  shows "modules_disjoint t"
  unfolding modules_disjoint_def
proof (rule mods.separatedI, goal_cases)
  case (1 b v b' v')
  obtain r md r' md' where v: "v = (r, md)" "v' = (r', md')" by (cases v; cases v')
  with 1 have "hm_find (tr_idx t) b = Some r" "hm_find (tr_idx t) b' = Some r'"
    and md: "md = tr_objs t ! r" "md' = tr_objs t ! r'"
    by (simp_all add: tracker_view_find)
  then have "known_module t r" "known_module t r'" "md_base (tr_objs t ! r) = b" "md_base (tr_objs t ! r') = b'"
    using known_module_idx [OF assms(1)] by auto
  with assms(2) [of r r'] 1(3) show ?case by (simp add: v md)
qed

lemma get_module_iff:
  assumes "tracker_ok t" and "modules_disjoint t"
  shows "get_module_containing t pc = Some r \<longleftrightarrow> known_module t r \<and> contains_pc (tr_objs t ! r) pc"
proof -
  have wf: "hm_wf (tracker_view t)" using assms(1) by (simp add: tracker_view_def tracker_ok_def hm_map_wf)
  have "get_module_containing t pc = Some r \<longleftrightarrow> (\<exists>b md. mods.hit pc (tracker_view t) = Some (b, r, md))"
    by (auto simp: get_module_hit)
  also have "\<dots> \<longleftrightarrow> (\<exists>b. hm_find (tr_idx t) b = Some r \<and> b \<le> pc \<and> pc < md_end (tr_objs t ! r))"
    using mods.hit_iff [OF wf assms(2) [unfolded modules_disjoint_def]] by (auto simp: tracker_view_find)
  also have "\<dots> \<longleftrightarrow> known_module t r \<and> contains_pc (tr_objs t ! r) pc"
    using known_module_idx [OF assms(1)] by (auto simp: contains_pc_def known_module_def)
  finally show ?thesis .
qed

lemma get_module_sound:
  assumes "tracker_ok t" and "get_module_containing t pc = Some r"
  shows "known_module t r \<and> contains_pc (tr_objs t ! r) pc"
proof -
  have wf: "hm_wf (tracker_view t)" using assms(1) by (simp add: tracker_view_def tracker_ok_def hm_map_wf)
  obtain b md where "mods.hit pc (tracker_view t) = Some (b, r, md)"
    using assms(2) by (auto simp: get_module_hit)
  from mods.hit_sound [OF wf this] show ?thesis
    using known_module_idx [OF assms(1), of b r] by (auto simp: tracker_view_find contains_pc_def)
qed

section \<open>Registering modules\<close>

definition apart :: "module_data \<Rightarrow> module_data \<Rightarrow> bool" where
  "apart m m' \<longleftrightarrow> mo_end m \<le> mo_start m' \<or> mo_end m' \<le> mo_start m"

definition module_range_ok :: "module_data list \<Rightarrow> bool" where
  "module_range_ok ms \<longleftrightarrow> (\<forall>m \<in> set ms. mo_start m < mo_end m) \<and> sorted_wrt apart ms"

lemma range_ok_append:
  "module_range_ok (xs @ ys) \<longleftrightarrow> module_range_ok xs \<and> module_range_ok ys \<and> (\<forall>x \<in> set xs. \<forall>y \<in> set ys. apart x y)"
  by (auto simp: module_range_ok_def sorted_wrt_append)

lemma range_ok_apart:
  assumes "module_range_ok ms" and "i < length ms" and "j < length ms" and "i \<noteq> j"
  shows "apart (ms ! i) (ms ! j)"
proof (cases "i < j")
  case True
  with assms show ?thesis by (simp add: module_range_ok_def sorted_wrt_nth_less)
next
  case False
  with assms have "apart (ms ! j) (ms ! i)" by (simp add: module_range_ok_def sorted_wrt_nth_less)
  then show ?thesis by (auto simp: apart_def)
qed

lemma range_ok_start: "module_range_ok ms \<Longrightarrow> i < length ms \<Longrightarrow> mo_start (ms ! i) < mo_end (ms ! i)"
  by (simp add: module_range_ok_def)

definition flags_of :: "(string \<Rightarrow> string \<Rightarrow> bool) \<Rightarrow> string list \<Rightarrow> string list \<Rightarrow> module_data \<Rightarrow> u8" where
  "flags_of rm excl_mods excl_paths m = instr_flags_for rm
     \<lparr>tr_idx = [], tr_objs = [], tr_excluded_mods = excl_mods, tr_excluded_paths = excl_paths\<rparr> m"

fun register_all :: "(string \<Rightarrow> string \<Rightarrow> bool) \<Rightarrow> (module_data \<Rightarrow> bool) \<Rightarrow> (addr \<times> addr \<times> module_data) list \<Rightarrow> tracker \<Rightarrow> tracker" where
  "register_all rm dbg [] t = t"
| "register_all rm dbg ((c, pm) # ms) t = register_all rm dbg ms (snd (register_module rm dbg c pm t))"

definition describes :: "(string \<Rightarrow> string \<Rightarrow> bool) \<Rightarrow> string list \<Rightarrow> string list \<Rightarrow> module_data \<Rightarrow> metadata \<Rightarrow> bool" where
  "describes rm em ep m md \<longleftrightarrow> md_base md = mo_start m \<and> md_end md = mo_end m \<and> md_loaded md \<and>
     md_instrument md = flags_of rm em ep m \<and> md_modtype md = tag_module m \<and> (\<exists>c. md_info md = Some (c, m))"

definition registered :: "(string \<Rightarrow> string \<Rightarrow> bool) \<Rightarrow> module_data list \<Rightarrow> tracker \<Rightarrow> bool" where
  "registered rm ms t \<longleftrightarrow> hm_wf (tr_idx t) \<and> length (tr_objs t) = length ms \<and>
     (\<forall>i < length ms. describes rm (tr_excluded_mods t) (tr_excluded_paths t) (ms ! i) (tr_objs t ! i)) \<and>
     (\<forall>b r. hm_find (tr_idx t) b = Some r \<longleftrightarrow> r < length ms \<and> b = mo_start (ms ! r))"

lemma registered_ok: "registered rm ms t \<Longrightarrow> tracker_ok t"
  by (auto simp: registered_def tracker_ok_def describes_def)

lemma registered_known: "registered rm ms t \<Longrightarrow> known_module t r \<longleftrightarrow> r < length ms"
  by (auto simp: registered_def known_module_def describes_def)

lemma registered_disjoint:
  assumes "registered rm ms t" and "module_range_ok ms"
  shows "modules_disjoint t"
proof (rule modules_disjointI [OF registered_ok [OF assms(1)]], goal_cases)
  case (1 r r')
  then have r: "r < length ms" "r' < length ms" using registered_known [OF assms(1)] by auto
  with assms(1) have "describes rm (tr_excluded_mods t) (tr_excluded_paths t) (ms ! r) (tr_objs t ! r)"
    "describes rm (tr_excluded_mods t) (tr_excluded_paths t) (ms ! r') (tr_objs t ! r')"
    by (auto simp: registered_def)
  then have b: "mo_start (ms ! r) < mo_start (ms ! r')" "md_end (tr_objs t ! r) = mo_end (ms ! r)"
    "md_base (tr_objs t ! r') = mo_start (ms ! r')" using 1(3) by (simp_all add: describes_def)
  then have "r \<noteq> r'" by auto
  from range_ok_apart [OF assms(2) r this] range_ok_start [OF assms(2) r(2)] b show ?case
    by (auto simp: apart_def)
qed

lemma instr_flags_for_flags: "instr_flags_for rm t m = flags_of rm (tr_excluded_mods t) (tr_excluded_paths t) m"
  by (simp add: flags_of_def instr_flags_for_def)

lemma range_ok_last:
  assumes "module_range_ok (ms @ [m])"
  shows "mo_start m < mo_end m" and "\<And>i. i < length ms \<Longrightarrow> apart (ms ! i) m" and "module_range_ok ms"
  using assms by (simp_all add: range_ok_append) (simp add: module_range_ok_def)

lemma new_start_unknown:
  assumes "registered rm ms t" and "module_range_ok (ms @ [m])"
  shows "get_module_containing t (mo_start m) = None"
proof (rule ccontr)
  assume "get_module_containing t (mo_start m) \<noteq> None"
  then obtain r where "get_module_containing t (mo_start m) = Some r" by auto
  from get_module_sound [OF registered_ok [OF assms(1)] this] registered_known [OF assms(1)]
  have r: "r < length ms" "contains_pc (tr_objs t ! r) (mo_start m)" by auto
  with assms(1) have "mo_start (ms ! r) \<le> mo_start m" "mo_start m < mo_end (ms ! r)"
    by (auto simp: registered_def describes_def contains_pc_def)
  with range_ok_last(1) [OF assms(2)] range_ok_last(2) [OF assms(2) r(1)] show False by (auto simp: apart_def)
qed

lemma hm_emplace_fresh: "hm_find m k = None \<Longrightarrow> hm_find (hm_emplace k v m) x = (if x = k then Some v else hm_find m x)"
  by (simp add: hm_emplace_find split: option.split)

lemma register_new:
  assumes "get_module_containing t (mo_start m) = None"
  shows "\<exists>md. register_module rm dbg c (p, m) t =
      (length (tr_objs t), t\<lparr>tr_objs := tr_objs t @ [md], tr_idx := hm_emplace (mo_start m) (length (tr_objs t)) (tr_idx t)\<rparr>) \<and>
    describes rm (tr_excluded_mods t) (tr_excluded_paths t) m md \<and> md_info md = Some (c, m)"
proof -
  let ?fl = "flags_of rm (tr_excluded_mods t) (tr_excluded_paths t) m"
  let ?md = "\<lparr>md_base = mo_start m, md_end = mo_end m, md_loaded = True, md_instrument = ?fl,
    md_modtype = tag_module m, md_info = Some (c, m), md_debug_info = ?fl AND INSTR_SYMBOLS \<noteq> 0 \<and> dbg m\<rparr>"
  have "register_module rm dbg c (p, m) t =
      (length (tr_objs t), t\<lparr>tr_objs := tr_objs t @ [?md], tr_idx := hm_emplace (mo_start m) (length (tr_objs t)) (tr_idx t)\<rparr>)"
    using assms by (simp add: register_module_def add_emplace_def upd_obj_def Let_def new_metadata_def set_info_def
        instr_flags_for_flags list_update_append)
  then show ?thesis by (intro exI [of _ ?md]) (simp add: describes_def)
qed

lemma register_step:
  assumes "registered rm ms t" and "module_range_ok (ms @ [m])"
  shows "registered rm (ms @ [m]) (snd (register_module rm dbg c (p, m) t))"
proof -
  obtain md where reg: "snd (register_module rm dbg c (p, m) t) =
      t\<lparr>tr_objs := tr_objs t @ [md], tr_idx := hm_emplace (mo_start m) (length (tr_objs t)) (tr_idx t)\<rparr>"
    and md: "describes rm (tr_excluded_mods t) (tr_excluded_paths t) m md"
    using register_new [OF new_start_unknown [OF assms], of rm dbg c p] by auto
  have len: "length (tr_objs t) = length ms" using assms(1) by (simp add: registered_def)
  have start: "mo_start (ms ! i) \<noteq> mo_start m" if "i < length ms" for i
  proof
    assume e: "mo_start (ms ! i) = mo_start m"
    note range_ok_start [OF range_ok_last(3) [OF assms(2)] that]
    with e range_ok_last(1) [OF assms(2)] range_ok_last(2) [OF assms(2) that] show False by (auto simp: apart_def)
  qed
  have fresh: "hm_find (tr_idx t) (mo_start m) = None"
  proof (rule ccontr)
    assume "hm_find (tr_idx t) (mo_start m) \<noteq> None"
    then obtain r where "hm_find (tr_idx t) (mo_start m) = Some r" by auto
    with assms(1) have "r < length ms \<and> mo_start m = mo_start (ms ! r)" unfolding registered_def by blast
    with start [of r] show False by simp
  qed
  have idx: "hm_find (hm_emplace (mo_start m) (length ms) (tr_idx t)) b = Some r \<longleftrightarrow>
      r < length (ms @ [m]) \<and> b = mo_start ((ms @ [m]) ! r)" for b r
  proof -
    have old: "hm_find (tr_idx t) b = Some r \<longleftrightarrow> r < length ms \<and> b = mo_start (ms ! r)"
      using assms(1) by (simp add: registered_def)
    show ?thesis unfolding hm_emplace_fresh [OF fresh]
      using old start by (auto simp: nth_append less_Suc_eq)
  qed
  show ?thesis unfolding reg registered_def using assms(1) md len idx
    by (auto simp: registered_def nth_append less_Suc_eq hm.invar_emplace)
qed

lemma register_all_registered:
  "registered rm ms t \<Longrightarrow> module_range_ok (ms @ map (\<lambda>(c, p, m). m) ns) \<Longrightarrow>
     registered rm (ms @ map (\<lambda>(c, p, m). m) ns) (register_all rm dbg ns t) \<and>
     tr_excluded_mods (register_all rm dbg ns t) = tr_excluded_mods t \<and>
     tr_excluded_paths (register_all rm dbg ns t) = tr_excluded_paths t"
proof (induction ns arbitrary: ms t)
  case (Cons n ns)
  obtain c p m where n: "n = (c, p, m)" by (cases n)
  have ok: "module_range_ok (ms @ [m])"
    using Cons.prems(2) range_ok_append [of "ms @ [m]" "map (\<lambda>(c, p, m). m) ns"] by (simp add: n)
  let ?t = "snd (register_module rm dbg c (p, m) t)"
  have "tr_excluded_mods ?t = tr_excluded_mods t \<and> tr_excluded_paths ?t = tr_excluded_paths t"
    using register_new [OF new_start_unknown [OF Cons.prems(1) ok], of rm dbg c p] by auto
  with Cons.IH [OF register_step [OF Cons.prems(1) ok, of dbg c p]] Cons.prems(2) show ?case by (simp add: n)
qed simp

section \<open>Properties\<close>



text \<open>A module that is loaded again after it was unloaded gets a new metadata object that the
  index does not know: the index keeps the old object, which stays marked as unloaded, because
  the check for a known module compares the loader's pointer with that of the private copy.\<close>

theorem reload_keeps_stale_module:
  assumes "tracker_ok t" and "get_module_containing t (mo_start m) = Some r"
    and "md_base (tr_objs t ! r) = mo_start m" and "map_option fst (md_info (tr_objs t ! r)) \<noteq> Some p"
    and "register_module rm dbg c (p, m) (event_module_unload m t) = (r', t')"
  shows "r' \<noteq> r \<and> get_module_containing t' (mo_start m) = Some r \<and> \<not> md_loaded (tr_objs t' ! r)"
proof -
  let ?t = "event_module_unload m t"
  have u: "?t = upd_obj r (md_loaded_update (\<lambda>_. False)) t" using assms(2) by (simp add: event_module_unload_def)
  have r: "r < length (tr_objs t)" "hm_find (tr_idx t) (mo_start m) = Some r" "mo_start m < md_end (tr_objs t ! r)"
    using get_module_sound [OF assms(1,2)] assms(3) by (auto simp: known_module_def contains_pc_def)
  have idx: "tr_idx ?t = tr_idx t" "length (tr_objs ?t) = length (tr_objs t)" by (simp_all add: u upd_obj_def)
  have obj: "\<not> md_loaded (tr_objs ?t ! r)" "md_info (tr_objs ?t ! r) = md_info (tr_objs t ! r)"
    "md_end (tr_objs ?t ! r) = md_end (tr_objs t ! r)"
    using r(1) by (simp_all add: u upd_obj_def)
  have "hm_emplace (mo_start m) n (tr_idx ?t) = tr_idx ?t" for n
    using r(2) by (simp add: hm_emplace_def idx)
  moreover have "get_module_containing ?t (mo_start m) = Some r"
    using assms(2) idx r(1) obj(3) by (auto simp: get_module_containing_def split: option.splits if_splits)
  ultimately have reg: "r' = length (tr_objs t)" "tr_idx t' = tr_idx t"
    "\<And>i. i < length (tr_objs t) \<Longrightarrow> tr_objs t' ! i = tr_objs ?t ! i"
    using assms(4,5) obj(2) idx
    by (auto simp: register_module_def add_emplace_def upd_obj_def Let_def nth_append split: option.splits if_splits)
  have "get_module_containing t' (mo_start m) = Some r"
    using assms(2) reg r(1) obj(3) by (auto simp: get_module_containing_def split: option.splits if_splits)
  with reg r(1) obj(1) show ?thesis by simp
qed

lemma reload_keeps_stale_module_witness:
  "\<exists>r' t'. register_module (\<lambda>p s. False) (\<lambda>m. True) 500 (300, \<lparr>mo_start = 16, mo_end = 32, mo_full_path = ''a'', mo_name = ''a'', mo_internal_size = 16, mo_clr = 0\<rparr>)
     (event_module_unload \<lparr>mo_start = 16, mo_end = 32, mo_full_path = ''a'', mo_name = ''a'', mo_internal_size = 16, mo_clr = 0\<rparr>
       (snd (register_module (\<lambda>p s. False) (\<lambda>m. True) 400 (200, \<lparr>mo_start = 16, mo_end = 32, mo_full_path = ''a'', mo_name = ''a'', mo_internal_size = 16, mo_clr = 0\<rparr>)
         \<lparr>tr_idx = [], tr_objs = [], tr_excluded_mods = [], tr_excluded_paths = []\<rparr>))) = (r', t') \<and>
     r' \<noteq> 0 \<and> get_module_containing t' 16 = Some 0 \<and> \<not> md_loaded (tr_objs t' ! 0)"
proof -
  let ?m = "\<lparr>mo_start = 16, mo_end = 32, mo_full_path = ''a'', mo_name = ''a'', mo_internal_size = 16, mo_clr = 0\<rparr>"
  let ?none = "\<lparr>tr_idx = [], tr_objs = [], tr_excluded_mods = [], tr_excluded_paths = []\<rparr>"
  let ?t = "snd (register_module (\<lambda>p s. False) (\<lambda>m. True) 400 (200, ?m) ?none)"
  have "registered (\<lambda>p s. False) [] ?none" "module_range_ok ([] @ [?m])"
    by (simp_all add: registered_def module_range_ok_def)
  then have reg: "registered (\<lambda>p s. False) ([] @ [?m]) ?t" by (rule register_step)
  have g: "get_module_containing ?t 16 = Some 0" "md_base (tr_objs ?t ! 0) = 16"
    "map_option fst (md_info (tr_objs ?t ! 0)) = Some 400" by code_simp+
  obtain r' t' where "register_module (\<lambda>p s. False) (\<lambda>m. True) 500 (300, ?m) (event_module_unload ?m ?t) = (r', t')"
    by (cases "register_module (\<lambda>p s. False) (\<lambda>m. True) 500 (300, ?m) (event_module_unload ?m ?t)")
  with reload_keeps_stale_module [OF registered_ok [OF reg], of ?m 0 300] g show ?thesis by auto
qed

end
