(* ===== verification/FunWrap.thy ===== *)
theory FunWrap
  imports ModTracker
begin

text \<open>
  Function wrapping (\<^verbatim>\<open>drace-client/src/function-wrapper.cpp\<close>,
  \<^verbatim>\<open>src/function-wrapper/internal.cpp\<close>): which functions of a module get which
  callbacks. DynamoRIO and the resolver are the argument \<open>we\<close>: the export table, the debug
  symbols (the offsets handed to the callback, and whether the search succeeded), the remote symbol
  search, and whether a function could be wrapped. The result of wrapping is the list of wrapped
  addresses with their callbacks.
\<close>

datatype wrap_method = EXPORTS | DBGSYMS | EXTERNAL_MPCR

text \<open>The callbacks of \<^verbatim>\<open>funwrap::event\<close> by name.\<close>

datatype pre_cb = Pre_get_arg | Pre_alloc | Pre_realloc | Pre_free | Pre_mutex_unlock | Pre_recmutex_unlock
  | Pre_mutex_read_unlock | Pre_wait_for_mo_getargs | Pre_begin_excl | Pre_barrier_enter | Pre_suppr_addr

datatype post_cb = Post_alloc | Post_mutex_lock | Post_mutex_trylock | Post_recmutex_lock | Post_recmutex_trylock
  | Post_mutex_read_lock | Post_mutex_read_trylock | Post_wait_for_single_obj | Post_wait_for_mult_obj
  | Post_end_excl | Post_thread_start | Post_barrier_leave | Post_barrier_leave_or_cancel
  | Post_happens_before | Post_happens_after

record wrap_env =
  we_proc_address :: "module_data \<Rightarrow> string \<Rightarrow> addr"
  we_drsym_search :: "module_data \<Rightarrow> string \<Rightarrow> bool \<times> addr list"
  we_search_symbol :: "module_data \<Rightarrow> string \<Rightarrow> bool \<Rightarrow> addr list"
  we_wrap_ok :: "addr \<Rightarrow> bool"

type_synonym wraps = "(addr \<times> pre_cb option \<times> post_cb option) list"

definition drwrap_wrap :: "wrap_env \<Rightarrow> addr \<Rightarrow> pre_cb option \<Rightarrow> post_cb option \<Rightarrow> wraps \<Rightarrow> bool \<times> wraps" where
  "drwrap_wrap we a pre post ws = (if we_wrap_ok we a then (True, ws @ [(a, pre, post)]) else (False, ws))"

text \<open>The callback of a symbol search returns false: the search ends after the first match.\<close>

definition wrap_function_clbck :: "wrap_env \<Rightarrow> module_data \<Rightarrow> pre_cb option \<Rightarrow> post_cb option \<Rightarrow> addr \<Rightarrow> wraps \<Rightarrow> bool \<times> wraps" where
  "wrap_function_clbck we m pre post modoffs ws = (False, snd (drwrap_wrap we (mo_start m + modoffs) pre post ws))"

definition wrap_name :: "wrap_env \<Rightarrow> module_data \<Rightarrow> bool \<Rightarrow> wrap_method \<Rightarrow> pre_cb option \<Rightarrow> post_cb option \<Rightarrow>
    string \<Rightarrow> bool \<times> wraps \<Rightarrow> bool \<times> wraps" where
  "wrap_name we m full meth pre post name st =
     (let (wrapped_some, ws) = st in
      case meth of
        EXTERNAL_MPCR \<Rightarrow>
          (let symname = without_extension (mo_name m) @ ''!'' @ name;
               sr = we_search_symbol we m symname full
           in (wrapped_some \<or> 0 < length sr,
               fold (\<lambda>a ws. snd (wrap_function_clbck we m pre post (a - mo_start m) ws)) sr ws))
      | DBGSYMS \<Rightarrow>
          (let (ok, offs) = we_drsym_search we m name
           in (wrapped_some \<or> ok,
               (case offs of [] \<Rightarrow> ws | a # _ \<Rightarrow> snd (wrap_function_clbck we m pre post a ws))))
      | EXPORTS \<Rightarrow>
          (let (ok, ws) = drwrap_wrap we (we_proc_address we m name) pre post ws
           in (wrapped_some \<or> ok, ws)))"

definition wrap_functions :: "wrap_env \<Rightarrow> module_data \<Rightarrow> string list \<Rightarrow> bool \<Rightarrow> wrap_method \<Rightarrow>
    pre_cb option \<Rightarrow> post_cb option \<Rightarrow> wraps \<Rightarrow> bool \<times> wraps" where
  "wrap_functions we m syms full meth pre post ws = fold (wrap_name we m full meth pre post) syms (False, ws)"

text \<open>A call of \<^verbatim>\<open>wrap_functions\<close> with names from the configuration.\<close>

type_synonym wrap_request = "(string \<times> string) \<times> bool \<times> wrap_method \<times> pre_cb option \<times> post_cb option"

definition run_request :: "wrap_env \<Rightarrow> instr_config \<Rightarrow> module_data \<Rightarrow> wrap_request \<Rightarrow> bool \<times> wraps \<Rightarrow> bool \<times> wraps" where
  "run_request we cfg m rq st =
     (case rq of ((sect, key), full, meth, pre, post) \<Rightarrow>
        (let (ok, ws) = wrap_functions we m (config_get_multi cfg sect key) full meth pre post (snd st)
         in (fst st \<and> ok, ws)))"

definition run_requests :: "wrap_env \<Rightarrow> instr_config \<Rightarrow> module_data \<Rightarrow> wrap_request list \<Rightarrow> wraps \<Rightarrow> bool \<times> wraps" where
  "run_requests we cfg m rqs ws = fold (run_request we cfg m) rqs (True, ws)"

definition allocation_requests :: "wrap_request list" where
  "allocation_requests =
     [((''functions'', ''allocators''), False, EXPORTS, Some Pre_alloc, Some Post_alloc),
      ((''functions'', ''reallocators''), False, EXPORTS, Some Pre_realloc, Some Post_alloc),
      ((''functions'', ''deallocators''), False, EXPORTS, Some Pre_free, None)]"

definition exclude_requests :: "string \<Rightarrow> wrap_request list" where
  "exclude_requests sect = [((sect, ''exclude''), False, DBGSYMS, Some Pre_begin_excl, Some Post_end_excl)]"

definition mutex_requests :: "bool \<Rightarrow> wrap_request list" where
  "mutex_requests sys =
     (if sys then
       [((''sync'', ''acquire_excl''), False, EXPORTS, Some Pre_get_arg, Some Post_mutex_lock),
        ((''sync'', ''acquire_excl_try''), False, EXPORTS, Some Pre_get_arg, Some Post_mutex_trylock),
        ((''sync'', ''release_excl''), False, EXPORTS, Some Pre_mutex_unlock, None),
        ((''sync'', ''acquire_rec''), False, EXPORTS, Some Pre_get_arg, Some Post_recmutex_lock),
        ((''sync'', ''acquire_rec_try''), False, EXPORTS, Some Pre_get_arg, Some Post_recmutex_trylock),
        ((''sync'', ''release_rec''), False, EXPORTS, Some Pre_recmutex_unlock, None),
        ((''sync'', ''acquire_shared''), False, EXPORTS, Some Pre_get_arg, Some Post_mutex_read_lock),
        ((''sync'', ''acquire_shared_try''), False, EXPORTS, Some Pre_get_arg, Some Post_mutex_read_trylock),
        ((''sync'', ''release_shared''), False, EXPORTS, Some Pre_mutex_read_unlock, None),
        ((''sync'', ''wait_for_single_object''), False, EXPORTS, Some Pre_get_arg, Some Post_wait_for_single_obj),
        ((''sync'', ''wait_for_multiple_objects''), False, EXPORTS, Some Pre_wait_for_mo_getargs, Some Post_wait_for_mult_obj)]
      else
       [((''stdsync'', ''acquire_excl''), False, DBGSYMS, Some Pre_get_arg, Some Post_mutex_lock),
        ((''stdsync'', ''acquire_excl_try''), False, DBGSYMS, Some Pre_get_arg, Some Post_mutex_trylock),
        ((''stdsync'', ''release_excl''), False, DBGSYMS, Some Pre_mutex_unlock, None),
        ((''qtsync'', ''acquire_excl''), False, DBGSYMS, Some Pre_get_arg, Some Post_recmutex_lock),
        ((''qtsync'', ''acquire_excl_try''), False, DBGSYMS, Some Pre_get_arg, Some Post_recmutex_trylock),
        ((''qtsync'', ''release_excl''), False, DBGSYMS, Some Pre_recmutex_unlock, None),
        ((''qtsync'', ''acquire_shared''), False, DBGSYMS, Some Pre_get_arg, Some Post_mutex_read_lock),
        ((''qtsync'', ''acquire_shared_try''), False, DBGSYMS, Some Pre_get_arg, Some Post_mutex_read_trylock)])"

definition thread_start_requests :: "wrap_request list" where
  "thread_start_requests = [((''functions'', ''threadstart''), False, EXPORTS, None, Some Post_thread_start)]"

definition sync_dotnet_requests :: "bool \<Rightarrow> wrap_request list" where
  "sync_dotnet_requests native =
     (if \<not> native then
       [((''dotnetsync_rwlock'', ''acquire_excl''), True, EXTERNAL_MPCR, Some Pre_get_arg, Some Post_mutex_lock),
        ((''dotnetsync_rwlock'', ''acquire_excl_try''), True, EXTERNAL_MPCR, Some Pre_get_arg, Some Post_mutex_trylock),
        ((''dotnetsync_rwlock'', ''acquire_shared''), True, EXTERNAL_MPCR, Some Pre_get_arg, Some Post_mutex_read_lock),
        ((''dotnetsync_rwlock'', ''acquire_shared_try''), True, EXTERNAL_MPCR, Some Pre_get_arg, Some Post_mutex_read_trylock),
        ((''dotnetsync_rwlock'', ''acquire_upgrade''), True, EXTERNAL_MPCR, Some Pre_get_arg, Some Post_mutex_read_lock),
        ((''dotnetsync_rwlock'', ''acquire_upgrade_try''), True, EXTERNAL_MPCR, Some Pre_get_arg, Some Post_mutex_read_trylock),
        ((''dotnetsync_rwlock'', ''release_excl''), True, EXTERNAL_MPCR, Some Pre_mutex_unlock, None),
        ((''dotnetsync_rwlock'', ''release_shared''), True, EXTERNAL_MPCR, Some Pre_mutex_read_unlock, None),
        ((''dotnetexclude'', ''exclude''), True, EXTERNAL_MPCR, Some Pre_begin_excl, Some Post_end_excl),
        ((''dotnetsync_barrier'', ''wait_blocking''), True, EXTERNAL_MPCR, Some Pre_barrier_enter, Some Post_barrier_leave),
        ((''dotnetsync_barrier'', ''wait_nonblocking''), True, EXTERNAL_MPCR, Some Pre_barrier_enter, Some Post_barrier_leave_or_cancel)]
      else
       [((''dotnetsync_monitor'', ''monitor_enter''), False, EXTERNAL_MPCR, Some Pre_get_arg, Some Post_mutex_lock),
        ((''dotnetsync_monitor'', ''monitor_exit''), False, EXTERNAL_MPCR, Some Pre_mutex_unlock, None)])"

definition annotation_requests :: "wrap_request list" where
  "annotation_requests =
     [((''sync'', ''happens_before''), False, EXPORTS, Some Pre_get_arg, Some Post_happens_before),
      ((''sync'', ''happens_after''), False, EXPORTS, Some Pre_get_arg, Some Post_happens_after),
      ((''functions'', ''exclude_enter''), False, EXPORTS, Some Pre_begin_excl, None),
      ((''functions'', ''exclude_leave''), False, EXPORTS, None, Some Post_end_excl),
      ((''functions'', ''exclude_argaddr''), False, EXPORTS, Some Pre_suppr_addr, None)]"

definition wrap_allocations :: "wrap_env \<Rightarrow> instr_config \<Rightarrow> module_data \<Rightarrow> wraps \<Rightarrow> wraps" where
  "wrap_allocations we cfg m ws = snd (run_requests we cfg m allocation_requests ws)"

definition wrap_excludes :: "wrap_env \<Rightarrow> instr_config \<Rightarrow> module_data \<Rightarrow> wraps \<Rightarrow> wraps" where
  "wrap_excludes we cfg m ws = snd (run_requests we cfg m (exclude_requests ''functions'') ws)"

definition wrap_mutexes :: "wrap_env \<Rightarrow> instr_config \<Rightarrow> module_data \<Rightarrow> bool \<Rightarrow> wraps \<Rightarrow> wraps" where
  "wrap_mutexes we cfg m sys ws = snd (run_requests we cfg m (mutex_requests sys) ws)"

definition wrap_thread_start_sys :: "wrap_env \<Rightarrow> instr_config \<Rightarrow> module_data \<Rightarrow> wraps \<Rightarrow> wraps" where
  "wrap_thread_start_sys we cfg m ws = snd (run_requests we cfg m thread_start_requests ws)"

text \<open>With \<open>native\<close>, the first component tells whether both monitor functions were found.\<close>

definition wrap_sync_dotnet :: "wrap_env \<Rightarrow> instr_config \<Rightarrow> module_data \<Rightarrow> bool \<Rightarrow> wraps \<Rightarrow> bool \<times> wraps" where
  "wrap_sync_dotnet we cfg m native ws = run_requests we cfg m (sync_dotnet_requests native) ws"

definition wrap_annotations :: "wrap_env \<Rightarrow> instr_config \<Rightarrow> module_data \<Rightarrow> wraps \<Rightarrow> wraps" where
  "wrap_annotations we cfg m ws = snd (run_requests we cfg m annotation_requests ws)"

text \<open>What \<^verbatim>\<open>wrap_generic_call\<close> inserts after the last instruction of a block.\<close>

datatype branch_kind = CallDirect | CallIndirect | Return | OtherInstr

datatype call_instr = OnFuncCall | OnFuncRet

definition wrap_generic_call :: "bool \<Rightarrow> branch_kind \<Rightarrow> call_instr option" where
  "wrap_generic_call is_last k =
     (if is_last then (case k of CallDirect \<Rightarrow> Some OnFuncCall | CallIndirect \<Rightarrow> Some OnFuncCall
        | Return \<Rightarrow> Some OnFuncRet | OtherInstr \<Rightarrow> None)
      else None)"

section \<open>Callback discipline\<close>

text \<open>
  A post callback that reads \<^verbatim>\<open>user_data\<close> needs a pre callback that sets it. The pre
  callbacks that set it: the argument (\<^verbatim>\<open>get_arg\<close>, \<^verbatim>\<open>barrier_enter\<close>), a size
  (\<^verbatim>\<open>alloc_pre\<close>, \<^verbatim>\<open>realloc_pre\<close>), or the argument block of a multiple wait.
\<close>

datatype user_data_kind = UD_arg | UD_size | UD_wait

fun pre_sets :: "pre_cb \<Rightarrow> user_data_kind option" where
  "pre_sets Pre_get_arg = Some UD_arg"
| "pre_sets Pre_barrier_enter = Some UD_arg"
| "pre_sets Pre_alloc = Some UD_size"
| "pre_sets Pre_realloc = Some UD_size"
| "pre_sets Pre_wait_for_mo_getargs = Some UD_wait"
| "pre_sets _ = None"

fun post_needs :: "post_cb \<Rightarrow> user_data_kind option" where
  "post_needs Post_alloc = Some UD_size"
| "post_needs Post_wait_for_mult_obj = Some UD_wait"
| "post_needs Post_end_excl = None"
| "post_needs Post_thread_start = None"
| "post_needs _ = Some UD_arg"

definition callbacks_fit :: "pre_cb option \<Rightarrow> post_cb option \<Rightarrow> bool" where
  "callbacks_fit pre post \<longleftrightarrow>
     (case post of None \<Rightarrow> True | Some q \<Rightarrow>
       (case post_needs q of None \<Rightarrow> True | Some k \<Rightarrow> (case pre of None \<Rightarrow> False | Some p \<Rightarrow> pre_sets p = Some k)))"

definition request_fits :: "wrap_request \<Rightarrow> bool" where
  "request_fits rq = (case rq of (_, _, _, pre, post) \<Rightarrow> callbacks_fit pre post)"

definition wraps_fit :: "wraps \<Rightarrow> bool" where
  "wraps_fit ws \<longleftrightarrow> list_all (\<lambda>(a, pre, post). callbacks_fit pre post) ws"

lemma drwrap_fit: "wraps_fit ws \<Longrightarrow> callbacks_fit pre post \<Longrightarrow> wraps_fit (snd (drwrap_wrap we a pre post ws))"
  by (simp add: drwrap_wrap_def wraps_fit_def)

lemma clbck_fit: "wraps_fit ws \<Longrightarrow> callbacks_fit pre post \<Longrightarrow> wraps_fit (snd (wrap_function_clbck we m pre post a ws))"
  by (simp add: wrap_function_clbck_def drwrap_fit)

lemma wrap_name_fit:
  assumes "wraps_fit (snd st)" and "callbacks_fit pre post"
  shows "wraps_fit (snd (wrap_name we m full meth pre post name st))"
proof (cases meth)
  case EXPORTS
  obtain b ws ok ws' where st: "st = (b, ws)" "drwrap_wrap we (we_proc_address we m name) pre post ws = (ok, ws')"
    by (metis surj_pair)
  with drwrap_fit [OF assms, of we "we_proc_address we m name"] EXPORTS show ?thesis
    by (simp add: wrap_name_def)
next
  case DBGSYMS
  with assms show ?thesis by (auto simp: wrap_name_def Let_def clbck_fit split: prod.split list.split)
next
  case EXTERNAL_MPCR
  have "wraps_fit ws \<Longrightarrow> wraps_fit (fold (\<lambda>a ws. snd (wrap_function_clbck we m pre post (a - mo_start m) ws)) sr ws)" for sr ws
    by (rule fold_invariant_prefix) (simp_all add: clbck_fit assms(2))
  with EXTERNAL_MPCR assms show ?thesis by (cases st) (simp add: wrap_name_def Let_def)
qed

lemma wrap_functions_fit:
  "wraps_fit ws \<Longrightarrow> callbacks_fit pre post \<Longrightarrow> wraps_fit (snd (wrap_functions we m syms full meth pre post ws))"
  unfolding wrap_functions_def
  by (rule fold_invariant_prefix [of "\<lambda>st. wraps_fit (snd st)"]) (simp_all add: wrap_name_fit)

lemma run_request_fit: "wraps_fit (snd st) \<Longrightarrow> request_fits rq \<Longrightarrow> wraps_fit (snd (run_request we cfg m rq st))"
  by (cases rq) (simp add: run_request_def request_fits_def Let_def case_prod_beta wrap_functions_fit)

lemma run_requests_fit: "wraps_fit ws \<Longrightarrow> list_all request_fits rqs \<Longrightarrow> wraps_fit (snd (run_requests we cfg m rqs ws))"
  unfolding run_requests_def
  by (rule fold_invariant_prefix [of "\<lambda>st. wraps_fit (snd st)"]) (simp_all add: run_request_fit list_all_iff)

lemma requests_fit:
  "list_all request_fits allocation_requests" "list_all request_fits (exclude_requests sect)"
  "list_all request_fits (mutex_requests sys)" "list_all request_fits thread_start_requests"
  "list_all request_fits (sync_dotnet_requests native)" "list_all request_fits annotation_requests"
  by (simp_all add: allocation_requests_def exclude_requests_def mutex_requests_def thread_start_requests_def
      sync_dotnet_requests_def annotation_requests_def request_fits_def callbacks_fit_def)

lemmas wrap_fit_simps =
  run_requests_fit [OF _ requests_fit(1)] run_requests_fit [OF _ requests_fit(2)] run_requests_fit [OF _ requests_fit(3)]
  run_requests_fit [OF _ requests_fit(4)] run_requests_fit [OF _ requests_fit(5)] run_requests_fit [OF _ requests_fit(6)]

end
