(* ===== verification/ModuleLoad.thy ===== *)
theory ModuleLoad
  imports FunWrap
begin

text \<open>
  The module load event (\<^verbatim>\<open>event_module_load\<close> in
  \<^verbatim>\<open>drace-client/src/module/Tracker.cpp\<close>, Windows build): registration, wrapping and the
  requests to the external symbol resolver (MSR). The resolver is present or not
  (\<^verbatim>\<open>shmdriver\<close>); whether attaching succeeds is an argument, and the calls are recorded.
\<close>

datatype msr_call = MsrAttach module_data | MsrRequestSymbols module_data | MsrUnloadSymbols addr

record load_env =
  le_wrap :: wrap_env
  le_cfg :: instr_config
  le_regex :: "string \<Rightarrow> string \<Rightarrow> bool"
  le_debug_available :: "module_data \<Rightarrow> bool"
  le_annotations :: bool
  le_attach_ok :: "module_data \<Rightarrow> bool"

record load_state =
  ld_tracker :: tracker
  ld_wraps :: wraps
  ld_shmdriver :: bool
  ld_msr :: "msr_call list"
  ld_module_loads :: nat

definition do_wrap :: "(wraps \<Rightarrow> wraps) \<Rightarrow> load_state \<Rightarrow> load_state" where
  "do_wrap f s = s\<lparr>ld_wraps := f (ld_wraps s)\<rparr>"

definition msr_call :: "msr_call \<Rightarrow> load_state \<Rightarrow> load_state" where
  "msr_call c s = s\<lparr>ld_msr := ld_msr s @ [c]\<rparr>"

text \<open>A failed attach resets the driver.\<close>

definition msr_attach :: "load_env \<Rightarrow> module_data \<Rightarrow> load_state \<Rightarrow> bool \<times> load_state" where
  "msr_attach le m s = (le_attach_ok le m, (msr_call (MsrAttach m) s)\<lparr>ld_shmdriver := le_attach_ok le m\<rparr>)"

definition upd_module :: "nat \<Rightarrow> (metadata \<Rightarrow> metadata) \<Rightarrow> load_state \<Rightarrow> load_state" where
  "upd_module r f s = s\<lparr>ld_tracker := upd_obj r f (ld_tracker s)\<rparr>"

text \<open>Managed modules other than the runtime itself.\<close>

definition load_managed :: "load_env \<Rightarrow> nat \<Rightarrow> module_data \<Rightarrow> load_state \<Rightarrow> load_state" where
  "load_managed le r m s =
     (let shm = ld_shmdriver s;
          s = (if shm then msr_call (MsrRequestSymbols m) s else s);
          bn = basename (mo_name m);
          dotnet = do_wrap (\<lambda>ws. snd (wrap_sync_dotnet (le_wrap le) (le_cfg le) m False ws));
          s = (if common_prefix bn ''System.Private.CoreLib.dll'' then (if shm then dotnet s else s)
               else if common_prefix bn ''System.Threading.dll'' then (if shm then dotnet s else s)
               else if common_prefix bn ''System.Console.dll'' then
                 (if shm then do_wrap (\<lambda>ws. snd (run_requests (le_wrap le) (le_cfg le) m
                    [((''dotnetexclude'', ''exclude''), True, EXTERNAL_MPCR, Some Pre_begin_excl, Some Post_end_excl)] ws)) s
                  else s)
               else s);
          sync = md_modtype_update (\<lambda>ty. ty OR MOD_SYNC);
          s = upd_module r (md_instrument_update (\<lambda>_. INSTR_STACK)) s
      in if common_prefix bn ''System.''
         then (if \<not> common_prefix bn ''System.Private'' then upd_module r sync s else s)
         else upd_module r sync s)"

definition event_module_load :: "load_env \<Rightarrow> addr \<Rightarrow> addr \<times> module_data \<Rightarrow> load_state \<Rightarrow> load_state" where
  "event_module_load le copy pm s =
     (let m = snd pm;
          (r, t) = register_module (le_regex le) (le_debug_available le) copy pm (ld_tracker s);
          s = s\<lparr>ld_tracker := t\<rparr>;
          mod_name = mo_name m;
          md = tr_objs t ! r;
          s = (if common_prefix mod_name ''MSVCP'' \<or> common_prefix mod_name ''KERNELBASE'' \<or> common_prefix mod_name ''libc''
               then do_wrap (wrap_mutexes (le_wrap le) (le_cfg le) m True) s
               else if common_prefix mod_name ''KERNEL''
               then do_wrap (wrap_thread_start_sys (le_wrap le) (le_cfg le) m)
                      (do_wrap (wrap_allocations (le_wrap le) (le_cfg le) m) s)
               else if common_prefix mod_name ''clr.dll'' \<or> common_prefix mod_name ''coreclr.dll''
               then (if ld_shmdriver s then
                       (let (m_ok, s) = msr_attach le m s
                        in if m_ok then do_wrap (\<lambda>ws. snd (wrap_sync_dotnet (le_wrap le) (le_cfg le) m True ws))
                                          (msr_call (MsrRequestSymbols m) s)
                           else s)
                     else s)
               else if md_modtype md = MOD_MANAGED then load_managed le r m s
               else if md_instrument md \<noteq> INSTR_NONE \<and> le_annotations le
               then (let s = do_wrap (wrap_annotations (le_wrap le) (le_cfg le) m)
                               (do_wrap (wrap_excludes (le_wrap le) (le_cfg le) m) s)
                     in if md_debug_info md then do_wrap (wrap_mutexes (le_wrap le) (le_cfg le) m False) s else s)
               else s);
          s = (if md_modtype (tr_objs (ld_tracker s) ! r) = MOD_MANAGED \<and> ld_shmdriver s
               then msr_call (MsrUnloadSymbols (mo_start m)) s else s)
      in s\<lparr>ld_module_loads := Suc (ld_module_loads s)\<rparr>)"

fun load_modules :: "load_env \<Rightarrow> (addr \<times> addr \<times> module_data) list \<Rightarrow> load_state \<Rightarrow> load_state" where
  "load_modules le [] s = s"
| "load_modules le ((c, pm) # ms) s = load_modules le ms (event_module_load le c pm s)"

section \<open>Callback discipline of all wrapped functions\<close>

lemma do_wrap_fit: "wraps_fit (f (ld_wraps s)) \<Longrightarrow> wraps_fit (ld_wraps (do_wrap f s))"
  by (simp add: do_wrap_def)

lemma frame_wraps [simp]:
  "ld_wraps (msr_call c s) = ld_wraps s" "ld_wraps (upd_module r f s) = ld_wraps s"
  "ld_wraps (snd (msr_attach le m s)) = ld_wraps s"
  by (simp_all add: msr_call_def upd_module_def msr_attach_def)

lemma wrap_group_fit:
  assumes "wraps_fit ws"
  shows "wraps_fit (wrap_mutexes we cfg m sys ws)" "wraps_fit (wrap_allocations we cfg m ws)"
    "wraps_fit (wrap_thread_start_sys we cfg m ws)" "wraps_fit (wrap_excludes we cfg m ws)"
    "wraps_fit (wrap_annotations we cfg m ws)" "wraps_fit (snd (wrap_sync_dotnet we cfg m native ws))"
    "wraps_fit (snd (run_requests we cfg m
       [((sect, key), full, meth, Some Pre_begin_excl, Some Post_end_excl)] ws))"
  using assms by (simp_all add: wrap_mutexes_def wrap_allocations_def wrap_thread_start_sys_def wrap_excludes_def
      wrap_annotations_def wrap_sync_dotnet_def wrap_fit_simps)
    (rule run_requests_fit [OF assms], simp add: request_fits_def callbacks_fit_def)

lemma load_managed_fit: "wraps_fit (ld_wraps s) \<Longrightarrow> wraps_fit (ld_wraps (load_managed le r m s))"
  by (simp add: load_managed_def Let_def do_wrap_def wrap_group_fit)

lemma event_module_load_fit: "wraps_fit (ld_wraps s) \<Longrightarrow> wraps_fit (ld_wraps (event_module_load le c pm s))"
  by (simp add: event_module_load_def Let_def do_wrap_def wrap_group_fit load_managed_fit case_prod_beta)

lemma load_modules_fit: "wraps_fit (ld_wraps s) \<Longrightarrow> wraps_fit (ld_wraps (load_modules le ms s))"
  by (induction le ms s rule: load_modules.induct) (simp_all add: event_module_load_fit)

section \<open>Properties\<close>

text \<open>C35: Whatever modules are loaded and whatever the configuration, the symbol tables and the resolver
  say, a function is only ever wrapped with a post callback that reads the user data if its pre
  callback stores user data of the kind expected.\<close>

theorem wrapped_callbacks_fit:
  assumes "ld_wraps s = []" and "(a, pre, post) \<in> set (ld_wraps (load_modules le ms s))"
  shows "callbacks_fit pre post"
proof -
  have "wraps_fit (ld_wraps (load_modules le ms s))"
    by (rule load_modules_fit) (simp add: assms(1) wraps_fit_def)
  with assms(2) show ?thesis by (auto simp: wraps_fit_def list_all_iff)
qed

definition sample_module :: "string \<Rightarrow> u32 \<Rightarrow> module_data" where
  "sample_module n clr = \<lparr>mo_start = 4096, mo_end = 8192, mo_full_path = n, mo_name = n, mo_internal_size = 4096, mo_clr = clr\<rparr>"

definition sample_env :: load_env where
  "sample_env = \<lparr>le_wrap = \<lparr>we_proc_address = (\<lambda>m n. if n = ''malloc'' then 5000 else 0), we_drsym_search = (\<lambda>m n. (False, [])),
       we_search_symbol = (\<lambda>m n f. []), we_wrap_ok = (\<lambda>a. a \<noteq> 0)\<rparr>,
     le_cfg = \<lparr>ic_reader = (0, \<lambda>k. if k = (''functions'', ''allocators'') then Some ''malloc'' else None), ic_kvstore = []\<rparr>,
     le_regex = (\<lambda>p s. p = s), le_debug_available = (\<lambda>m. False), le_annotations = True, le_attach_ok = (\<lambda>m. True)\<rparr>"

definition sample_state :: "bool \<Rightarrow> load_state" where
  "sample_state shm = \<lparr>ld_tracker = \<lparr>tr_idx = [], tr_objs = [], tr_excluded_mods = [], tr_excluded_paths = []\<rparr>,
     ld_wraps = [], ld_shmdriver = shm, ld_msr = [], ld_module_loads = 0\<rparr>"

lemma wrapped_callbacks_fit_witness:
  "(5000, Some Pre_alloc, Some Post_alloc) \<in> set (ld_wraps (load_modules sample_env [(1, 2, sample_module ''KERNEL32.dll'' 0)] (sample_state False))) \<and>
   callbacks_fit (Some Pre_alloc) (Some Post_alloc)"
proof -
  have "ld_wraps (load_modules sample_env [(1, 2, sample_module ''KERNEL32.dll'' 0)] (sample_state False)) =
      [(5000, Some Pre_alloc, Some Post_alloc)]" by code_simp
  moreover have "ld_wraps (sample_state False) = []" by (simp add: sample_state_def)
  ultimately show ?thesis using wrapped_callbacks_fit [of "sample_state False" 5000 "Some Pre_alloc" "Some Post_alloc"
        sample_env "[(1, 2, sample_module ''KERNEL32.dll'' 0)]"] by simp
qed

text \<open>The symbols of a managed application module are requested from the resolver when it is loaded
  but never released: the module is marked as containing synchronisation first, and only
  modules without that mark are released.\<close>

theorem managed_symbols_kept:
  assumes "ld_shmdriver s" and "mo_clr m \<noteq> 0" and "get_module_containing (ld_tracker s) (mo_start m) = None"
    and "\<not> common_prefix (basename (mo_name m)) ''System.''"
    and "list_all (\<lambda>p. \<not> common_prefix (mo_name m) p) [''MSVCP'', ''KERNELBASE'', ''libc'', ''KERNEL'', ''clr.dll'', ''coreclr.dll'']"
  shows "ld_msr (event_module_load le c (p, m) s) = ld_msr s @ [MsrRequestSymbols m]"
proof -
  obtain md where reg: "register_module (le_regex le) (le_debug_available le) c (p, m) (ld_tracker s) =
      (length (tr_objs (ld_tracker s)), (ld_tracker s)\<lparr>tr_objs := tr_objs (ld_tracker s) @ [md],
        tr_idx := hm_emplace (mo_start m) (length (tr_objs (ld_tracker s))) (tr_idx (ld_tracker s))\<rparr>)"
    and md: "md_modtype md = MOD_MANAGED"
    using register_new [OF assms(3), of "le_regex le" "le_debug_available le" c p] assms(2)
    by (auto simp: describes_def tag_module_def)
  have sync: "MOD_MANAGED OR MOD_SYNC \<noteq> MOD_MANAGED" by (simp add: MOD_MANAGED_def MOD_SYNC_def)
  show ?thesis
    using assms(1,4,5) md sync
    by (simp add: event_module_load_def reg Let_def load_managed_def upd_module_def upd_obj_def msr_call_def do_wrap_def
        list_update_append)
qed

lemma managed_symbols_kept_witness:
  "ld_msr (event_module_load sample_env 1 (2, sample_module ''App.dll'' 1) (sample_state True)) =
     [MsrRequestSymbols (sample_module ''App.dll'' 1)]"
proof -
  have "ld_msr (event_module_load sample_env 1 (2, sample_module ''App.dll'' 1) (sample_state True)) =
      ld_msr (sample_state True) @ [MsrRequestSymbols (sample_module ''App.dll'' 1)]"
    by (rule managed_symbols_kept)
      (simp_all add: sample_state_def sample_module_def get_module_containing_def common_prefix_def basename_def path_seps_def)
  then show ?thesis by (simp add: sample_state_def)
qed

end
