(* ===== verification/ShadowStacks.thy ===== *)
theory ShadowStacks
  imports DetectorApi
begin

text \<open>
  The shadow stack of a thread (\<^verbatim>\<open>drace-client/include/shadow-stack.h\<close>): an array
  of fifteen return addresses, kept in step with the call stack of the detector. An operation gives the
  detector calls it makes; the element order is that of the array, the newest entry last.
\<close>

definition max_size :: nat where
  "max_size = max_stack_size - 1"

record shadow_stack =
  ss_data :: "addr list"
  ss_entries :: u8

definition stack_init :: shadow_stack where
  "stack_init = \<lparr>ss_data = replicate max_size 0, ss_entries = 0\<rparr>"

definition stack_isEmpty :: "shadow_stack \<Rightarrow> bool" where
  "stack_isEmpty s \<longleftrightarrow> ss_entries s = 0"

definition stack_push :: "addr \<Rightarrow> addr \<Rightarrow> shadow_stack \<Rightarrow> detector_call list \<times> shadow_stack" where
  "stack_push a det s =
     (if max_size \<le> unat (ss_entries s) then ([], s)
      else ([DFuncEnter det a], s\<lparr>ss_data := (ss_data s)[unat (ss_entries s) := a], ss_entries := ss_entries s + 1\<rparr>))"

text \<open>\<open>None\<close>: the assertion that the stack is not empty fails.\<close>

definition stack_pop :: "addr \<Rightarrow> shadow_stack \<Rightarrow> (addr \<times> detector_call list \<times> shadow_stack) option" where
  "stack_pop det s =
     (if 0 < ss_entries s
      then Some (ss_data s ! unat (ss_entries s - 1), [DFuncExit det], s\<lparr>ss_entries := ss_entries s - 1\<rparr>)
      else None)"

definition stack_size :: "shadow_stack \<Rightarrow> nat" where
  "stack_size s = unat (ss_entries s)"

text \<open>
  Leaving a call (\<^verbatim>\<open>event::on_func_ret\<close>): frames are popped until one was called
  from at most \<^verbatim>\<open>sizeof(void*)\<close> bytes before the return target. The comparison is
  \<^verbatim>\<open>0 <= diff\<close> on signed and \<^verbatim>\<open>diff <= 8\<close> on unsigned values.
\<close>

definition frame_matches :: "addr \<Rightarrow> addr \<Rightarrow> bool" where
  "frame_matches target a \<longleftrightarrow> 0 \<le> sint (target - a) \<and> target - a \<le> 8"

function unwind :: "addr \<Rightarrow> addr \<Rightarrow> shadow_stack \<Rightarrow> (detector_call list \<times> shadow_stack) option" where
  "unwind det target s =
     (case stack_pop det s of
        None \<Rightarrow> None
      | Some (a, cs, s') \<Rightarrow>
          if frame_matches target a then Some (cs, s')
          else if stack_isEmpty s' then Some (cs, s')
          else map_option (\<lambda>(ds, s''). (cs @ ds, s'')) (unwind det target s'))"
  by auto
termination
  by (relation "measure (\<lambda>(det, target, s). unat (ss_entries s))")
    (auto simp: stack_pop_def word_gt_0 intro!: measure_unat split: if_splits)

declare unwind.simps [simp del]

definition leave_call :: "addr \<Rightarrow> addr \<Rightarrow> shadow_stack \<Rightarrow> (detector_call list \<times> shadow_stack) option" where
  "leave_call det target s = (if stack_isEmpty s then Some ([], s) else unwind det target s)"

section \<open>The stack as a list of frames\<close>

definition stack_ok :: "shadow_stack \<Rightarrow> bool" where
  "stack_ok s \<longleftrightarrow> length (ss_data s) = max_size \<and> unat (ss_entries s) \<le> max_size"

definition frames :: "shadow_stack \<Rightarrow> addr list" where
  "frames s = take (unat (ss_entries s)) (ss_data s)"

lemma max_size_eq: "max_size = 15"
  by (simp add: max_size_def max_stack_size_def)

lemma stack_ok_init: "stack_ok stack_init" "frames stack_init = []"
  by (simp_all add: stack_ok_def stack_init_def frames_def)

lemma length_frames: "stack_ok s \<Longrightarrow> length (frames s) = unat (ss_entries s)"
  by (simp add: stack_ok_def frames_def)

lemma isEmpty_frames: "stack_ok s \<Longrightarrow> stack_isEmpty s \<longleftrightarrow> frames s = []"
  using length_frames [of s] by (auto simp: stack_isEmpty_def unsigned_eq_0_iff)

lemma stack_push_spec:
  assumes "stack_ok s" and "stack_push a det s = (cs, s')"
  shows "stack_ok s' \<and> (if length (frames s) < max_size then frames s' = frames s @ [a] \<and> cs = [DFuncEnter det a]
    else s' = s \<and> cs = [])"
proof (cases "max_size \<le> unat (ss_entries s)")
  case True
  with assms show ?thesis by (auto simp: stack_push_def length_frames)
next
  case False
  let ?n = "unat (ss_entries s)"
  have n: "?n < 15" using False by (simp add: max_size_eq)
  have inc: "unat (ss_entries s + 1) = Suc ?n"
    using n by (subst unat_add_no_wrap) simp_all
  have s': "s' = s\<lparr>ss_data := (ss_data s)[?n := a], ss_entries := ss_entries s + 1\<rparr>" "cs = [DFuncEnter det a]"
    using assms(2) False by (auto simp: stack_push_def)
  have len: "length (ss_data s) = 15" using assms(1) by (simp add: stack_ok_def max_size_eq)
  have "frames s' = frames s @ [a]"
    using n len by (simp add: frames_def s' inc take_Suc_conv_app_nth)
  moreover have "stack_ok s'" using n len by (simp add: stack_ok_def s' inc max_size_eq)
  ultimately show ?thesis using n length_frames [OF assms(1)] s' by (simp add: max_size_eq)
qed

lemma stack_pop_spec:
  assumes "stack_ok s" and "frames s \<noteq> []"
  shows "\<exists>s'. stack_pop det s = Some (last (frames s), [DFuncExit det], s') \<and> stack_ok s' \<and> frames s' = butlast (frames s)"
proof -
  let ?n = "unat (ss_entries s)"
  have n: "0 < ?n" using assms length_frames [OF assms(1)] by (metis length_greater_0_conv)
  then have pos: "0 < ss_entries s" by (simp add: word_less_nat_alt)
  have "1 \<le> ss_entries s" using n by (simp add: word_le_nat_alt)
  then have dec: "unat (ss_entries s - 1) = ?n - 1" using unat_sub [of 1 "ss_entries s"] by simp
  have len: "?n \<le> length (ss_data s)" using assms(1) by (simp add: stack_ok_def)
  have "last (frames s) = ss_data s ! (?n - 1)"
    using n len length_frames [OF assms(1)] by (simp add: last_conv_nth assms(2)) (simp add: frames_def)
  moreover have "butlast (frames s) = take (?n - 1) (ss_data s)" using len by (simp add: frames_def butlast_take)
  ultimately show ?thesis using pos assms(1) dec
    by (auto simp: stack_pop_def stack_ok_def frames_def)
qed

text \<open>Unwinding keeps the frames below the newest one that matches, or none.\<close>

fun after_return :: "addr \<Rightarrow> addr list \<Rightarrow> addr list" where
  "after_return target [] = []"
| "after_return target (a # as) = (if frame_matches target a then as else after_return target as)"

lemma after_return_length: "length (after_return target as) \<le> length as"
  by (induction as) auto

lemma unwind_spec:
  "stack_ok s \<Longrightarrow> frames s \<noteq> [] \<Longrightarrow>
     \<exists>cs s'. unwind det target s = Some (cs, s') \<and> stack_ok s' \<and>
       rev (frames s') = after_return target (rev (frames s)) \<and>
       cs = replicate (length (frames s) - length (frames s')) (DFuncExit det)"
proof (induction det target s rule: unwind.induct)
  case (1 det target s)
  obtain s1 where pop: "stack_pop det s = Some (last (frames s), [DFuncExit det], s1)" and s1: "stack_ok s1"
    "frames s1 = butlast (frames s)" using stack_pop_spec [OF 1(2,3)] by blast
  have rev: "rev (frames s) = last (frames s) # rev (frames s1)"
    using 1(3) s1(2) by (metis append_butlast_last_id rev.simps(2) rev_rev_ident rev_swap rev_eq_Cons_iff)
  have len: "length (frames s) = Suc (length (frames s1))" using 1(3) s1(2) by simp
  show ?case
  proof (cases "frame_matches target (last (frames s))")
    case True
    then have "unwind det target s = Some ([DFuncExit det], s1)" using pop by (subst unwind.simps) simp
    with True len s1(1) show ?thesis unfolding rev by simp
  next
    case False
    show ?thesis
    proof (cases "stack_isEmpty s1")
      case True
      then have "unwind det target s = Some ([DFuncExit det], s1)" using pop by (subst unwind.simps) simp
      moreover have "frames s1 = []" using True s1(1) by (simp add: isEmpty_frames)
      ultimately show ?thesis using False len s1(1) unfolding rev by simp
    next
      case ne: False
      then have "frames s1 \<noteq> []" using s1(1) by (simp add: isEmpty_frames)
      from 1(1) [OF pop refl refl False ne s1(1) this] obtain cs s' where
        u: "unwind det target s1 = Some (cs, s')" "stack_ok s'" "rev (frames s') = after_return target (rev (frames s1))"
        "cs = replicate (length (frames s1) - length (frames s')) (DFuncExit det)" by blast
      have "length (frames s') \<le> length (frames s1)"
        using arg_cong [OF u(3), of length] after_return_length [of target "rev (frames s1)"] by simp
      then have "DFuncExit det # cs = replicate (length (frames s) - length (frames s')) (DFuncExit det)"
        using u(4) len by (simp add: Suc_diff_le)
      moreover have "unwind det target s = Some (DFuncExit det # cs, s')" using pop False ne u(1) by (subst unwind.simps) simp
      ultimately show ?thesis using u(2,3) False unfolding rev by simp
    qed
  qed
qed

lemma leave_call_spec:
  assumes "stack_ok s"
  shows "\<exists>cs s'. leave_call det target s = Some (cs, s') \<and> stack_ok s' \<and>
    rev (frames s') = after_return target (rev (frames s)) \<and>
    cs = replicate (length (frames s) - length (frames s')) (DFuncExit det)"
  using assms unwind_spec [OF assms] isEmpty_frames [OF assms]
  by (cases "frames s = []") (auto simp: leave_call_def)

section \<open>In step with the detector\<close>

datatype stack_op = Call addr | Ret addr

fun do_stack_op :: "addr \<Rightarrow> stack_op \<Rightarrow> shadow_stack \<Rightarrow> (detector_call list \<times> shadow_stack) option" where
  "do_stack_op det (Call a) s = Some (stack_push a det s)"
| "do_stack_op det (Ret target) s = leave_call det target s"

fun stack_run :: "addr \<Rightarrow> stack_op list \<Rightarrow> shadow_stack \<Rightarrow> (detector_call list \<times> shadow_stack) option" where
  "stack_run det [] s = Some ([], s)"
| "stack_run det (op # ops) s =
     Option.bind (do_stack_op det op s) (\<lambda>(cs, s1). map_option (\<lambda>(ds, s2). (cs @ ds, s2)) (stack_run det ops s1))"

text \<open>What the detector's own call stack does with the calls; \<open>None\<close> is an exit from an empty stack.\<close>

fun follow :: "detector_call list \<Rightarrow> addr list \<Rightarrow> addr list option" where
  "follow [] st = Some st"
| "follow (DFuncEnter det a # cs) st = follow cs (st @ [a])"
| "follow (DFuncExit det # cs) st = (if st = [] then None else follow cs (butlast st))"
| "follow (_ # cs) st = follow cs st"

lemma follow_append: "follow (cs @ ds) st = Option.bind (follow cs st) (follow ds)"
  by (induction cs st rule: follow.induct) auto

lemma follow_exits: "n \<le> length st \<Longrightarrow> follow (replicate n (DFuncExit det)) st = Some (take (length st - n) st)"
proof (induction n arbitrary: st)
  case (Suc n)
  then have "st \<noteq> []" by auto
  moreover have "min (length st - Suc 0) (length st - Suc n) = length st - Suc n" by simp
  ultimately show ?case using Suc by (simp add: butlast_conv_take)
qed simp

lemma after_return_suffix: "\<exists>us. as = us @ after_return target as"
proof (induction as)
  case (Cons a as)
  then obtain us where us: "as = us @ after_return target as" by blast
  show ?case
  proof (cases "frame_matches target a")
    case True
    then have "a # as = [a] @ after_return target (a # as)" by simp
    then show ?thesis by blast
  next
    case False
    then have "a # as = (a # us) @ after_return target (a # as)" using us by simp
    then show ?thesis by blast
  qed
qed simp

lemma stack_op_step:
  assumes "stack_ok s"
  shows "\<exists>cs s'. do_stack_op det op s = Some (cs, s') \<and> stack_ok s' \<and> follow cs (frames s) = Some (frames s')"
proof (cases op)
  case (Call a)
  obtain cs s' where p: "stack_push a det s = (cs, s')" by (cases "stack_push a det s")
  with stack_push_spec [OF assms p] Call show ?thesis by (auto split: if_splits)
next
  case (Ret target)
  obtain cs s' where l: "leave_call det target s = Some (cs, s')" "stack_ok s'"
    "rev (frames s') = after_return target (rev (frames s))"
    "cs = replicate (length (frames s) - length (frames s')) (DFuncExit det)"
    using leave_call_spec [OF assms] by blast
  obtain us where "rev (frames s) = us @ rev (frames s')"
    using after_return_suffix [of "rev (frames s)" target] l(3) by metis
  then have "frames s = frames s' @ rev us" by (metis rev_append rev_rev_ident)
  then have "follow cs (frames s) = Some (frames s')" using l(4) follow_exits [of "length us" "frames s" det] by simp
  with l(1,2) Ret show ?thesis by simp
qed

lemma stack_run_step:
  "stack_ok s \<Longrightarrow> \<exists>cs s'. stack_run det ops s = Some (cs, s') \<and> stack_ok s' \<and> follow cs (frames s) = Some (frames s')"
proof (induction ops arbitrary: s)
  case (Cons op ops)
  obtain cs s1 where 1: "do_stack_op det op s = Some (cs, s1)" "stack_ok s1" "follow cs (frames s) = Some (frames s1)"
    using stack_op_step [OF Cons.prems] by blast
  from Cons.IH [OF 1(2)] obtain ds s2 where "stack_run det ops s1 = Some (ds, s2)" "stack_ok s2" "follow ds (frames s1) = Some (frames s2)"
    by blast
  with 1 show ?case by (simp add: follow_append)
qed simp

section \<open>Properties\<close>

text \<open>C33: Whatever calls and returns a thread makes, the assertion of the shadow stack never fails, the
  detector is never told to leave a function it has not been told to enter, and its call stack is
  always the shadow stack, which never holds more than 15 frames.\<close>

theorem shadow_stack_in_step:
  "\<exists>cs s. stack_run det ops stack_init = Some (cs, s) \<and> follow cs [] = Some (frames s) \<and> length (frames s) \<le> 15"
proof -
  obtain cs s where "stack_run det ops stack_init = Some (cs, s)" "stack_ok s" "follow cs [] = Some (frames s)"
    using stack_run_step [OF stack_ok_init(1), of det ops] stack_ok_init(2) by auto
  then show ?thesis using length_frames [of s] by (auto simp: stack_ok_def max_size_eq)
qed

text \<open>Calls beyond the fifteenth are not recorded, but their returns are acted upon: the return from
  such a call throws away every recorded frame, although all of them are still active, unless
  one of their call sites happens to lie next to the return target.\<close>

theorem overflow_return_clears_stack:
  assumes "stack_ok s" and "length (frames s) = 15" and "list_all (\<lambda>a. \<not> frame_matches target a) (frames s)"
  shows "\<exists>cs s'. stack_run det [Call c, Ret target] s = Some (cs, s') \<and> frames s' = []"
proof -
  have "stack_push c det s = ([], s)" using assms(1,2) by (simp add: stack_push_def length_frames max_size_eq)
  moreover obtain cs s' where l: "leave_call det target s = Some (cs, s')"
    "rev (frames s') = after_return target (rev (frames s))" using leave_call_spec [OF assms(1)] by blast
  moreover have "after_return target as = []" if "list_all (\<lambda>a. \<not> frame_matches target a) as" for as
    using that by (induction as) auto
  then have "frames s' = []" using l(2) assms(3) by (metis list_all_rev rev_is_Nil_conv)
  ultimately show ?thesis by simp
qed

lemma overflow_return_clears_stack_witness:
  "\<exists>cs s'. stack_run 1 [Call 4096, Ret 4101] \<lparr>ss_data = replicate 15 65536, ss_entries = 15\<rparr> = Some (cs, s') \<and> frames s' = []"
proof -
  let ?s = "\<lparr>ss_data = replicate 15 65536, ss_entries = 15\<rparr>"
  have f: "frames ?s = replicate 15 65536" by (simp add: frames_def)
  have "\<not> frame_matches 4101 65536" by code_simp
  then show ?thesis
    by (intro overflow_return_clears_stack) (simp_all add: f stack_ok_def max_size_eq list_all_iff)
qed

end
