(* ===== verification/MemTracker.thy ===== *)
theory MemTracker
  imports ShadowStacks LossyCounting FunWrap
begin

text \<open>
  The memory tracker (\<^verbatim>\<open>drace-client/include/memory-tracker.h\<close>,
  \<^verbatim>\<open>src/memory-tracker.cpp\<close>, 64-bit Windows build) and the thread-private state it works on
  (\<^verbatim>\<open>ShadowThreadState.h\<close>, \<^verbatim>\<open>statistics.h\<close>). The buffer pointers are
  addresses, the buffer is the list of its 64 references; the calls of the detector are recorded.
  What the operating system, DynamoRIO, the random generator and the detector answer is in the
  environment \<open>me\<close>; the table of held mutexes is of the abstract type \<open>'b\<close>.
\<close>

unbundle bit_operations_syntax

section \<open>Configuration, statistics and thread state\<close>

record params =
  pa_sampling_rate :: u32
  pa_instr_rate :: u32
  pa_lossy :: bool
  pa_lossy_flush :: bool
  pa_excl_traces :: bool
  pa_excl_stack :: bool
  pa_exclude_master :: bool
  pa_extctrl :: bool

definition params_init :: params where
  "params_init = \<lparr>pa_sampling_rate = 1, pa_instr_rate = 1, pa_lossy = False, pa_lossy_flush = False,
     pa_excl_traces = False, pa_excl_stack = False, pa_exclude_master = False, pa_extctrl = False\<rparr>"

record statistics =
  sc_mutex_ops :: u32
  sc_flushes :: u32
  sc_flush_events :: u32
  sc_external_flushes :: u32
  sc_module_loads :: u32
  sc_module_load_duration :: u64
  sc_proc_refs :: u64
  sc_total_refs :: u64
  sc_page_hits :: "u64 lcm"
  sc_pc_hits :: "u64 lcm"
  sc_freq_hits :: "(u64 \<times> nat) list"
  sc_freq_pc_hist :: "(u64 \<times> nat) list"
  sc_freq_pcs :: "u64 list"

definition statistics_new :: statistics where
  "statistics_new = \<lparr>sc_mutex_ops = 0, sc_flushes = 0, sc_flush_events = 0, sc_external_flushes = 0,
     sc_module_loads = 0, sc_module_load_duration = 0, sc_proc_refs = 0, sc_total_refs = 0,
     sc_page_hits = lcm_new (1 / 100) (1 / 1000), sc_pc_hits = lcm_new (1 / 100) (1 / 1000), sc_freq_hits = [],
     sc_freq_pc_hist = [], sc_freq_pcs = []\<rparr>"

definition statistics_merge :: "statistics \<Rightarrow> statistics \<Rightarrow> statistics" where
  "statistics_merge s other = s\<lparr>sc_mutex_ops := sc_mutex_ops s + sc_mutex_ops other,
     sc_flushes := sc_flushes s + sc_flushes other,
     sc_flush_events := sc_flush_events s + sc_flush_events other,
     sc_external_flushes := sc_external_flushes s + sc_external_flushes other,
     sc_module_loads := sc_module_loads s + sc_module_loads other,
     sc_module_load_duration := sc_module_load_duration s + sc_module_load_duration other,
     sc_proc_refs := sc_proc_refs s + sc_proc_refs other,
     sc_total_refs := sc_total_refs s + sc_total_refs other\<rparr>"

record mem_ref =
  mr_addr :: addr
  mr_pc :: addr
  mr_size :: u32

definition MAX_NUM_MEM_REFS :: nat where "MAX_NUM_MEM_REFS = 64"
definition sizeof_mem_ref :: u64 where "sizeof_mem_ref = 24"
definition MEM_BUF_SIZE :: u64 where "MEM_BUF_SIZE = sizeof_mem_ref * of_nat MAX_NUM_MEM_REFS"
definition HIST_PC_RES :: nat where "HIST_PC_RES = 10"
definition CC_UPDATE_PERIOD :: u32 where "CC_UPDATE_PERIOD = 1024 * 64"
definition MEM_REF_WRITE_TAG :: u32 where "MEM_REF_WRITE_TAG = push_bit 30 1"
definition PROC_ADDR_LIMIT :: addr where "PROC_ADDR_LIMIT = 0x7FFFFFFFFFFF"

record 'b shadow_thread =
  th_buf_ptr :: addr
  th_buf_end :: u64
  th_buf_ptr_stored :: addr
  th_sampling_pos :: u32
  th_tid :: u32
  th_event_cnt :: u64
  th_appstack_beg :: addr
  th_appstack_end :: addr
  th_detector_data :: addr
  th_mem_base :: addr
  th_mem_buf :: "mem_ref list"
  th_mutex_book :: 'b
  th_stack :: shadow_stack
  th_stats :: statistics

text \<open>The process-wide state: parameters, tracker members, the recorded calls; \<open>rt_ext\<close> is the
  control block of the external controller, if connected.\<close>

record runtime =
  rt_params :: params
  rt_runtime_tid :: u32
  rt_min_period :: u32
  rt_max_period :: u32
  rt_enable_external :: bool
  rt_ext :: "(bool \<times> u32) option"
  rt_draws :: nat
  rt_cache :: mod_cache
  rt_calls :: "detector_call list"
  rt_flushed :: "addr list"
  rt_stats :: statistics

record mem_env =
  me_draw :: "nat \<Rightarrow> u32 \<Rightarrow> u32 \<Rightarrow> u32"
  me_handle :: "u32 \<Rightarrow> addr"
  me_stack_limits :: "u32 \<Rightarrow> addr \<times> addr"
  me_buffer :: "u32 \<Rightarrow> addr \<times> mem_ref list"

definition new_shadow_thread :: "params \<Rightarrow> 'b \<Rightarrow> u32 \<Rightarrow> 'b shadow_thread" where
  "new_shadow_thread pr book tid = \<lparr>th_buf_ptr = 0, th_buf_end = 0, th_buf_ptr_stored = 0,
     th_sampling_pos = pa_sampling_rate pr, th_tid = tid, th_event_cnt = 0, th_appstack_beg = 0,
     th_appstack_end = 0, th_detector_data = 0, th_mem_base = 0, th_mem_buf = [], th_mutex_book = book,
     th_stack = stack_init, th_stats = statistics_new\<rparr>"

definition emit :: "detector_call list \<Rightarrow> runtime \<Rightarrow> runtime" where
  "emit cs g = g\<lparr>rt_calls := rt_calls g @ cs\<rparr>"

definition upd_stats :: "(statistics \<Rightarrow> statistics) \<Rightarrow> 'b shadow_thread \<Rightarrow> 'b shadow_thread" where
  "upd_stats f td = td\<lparr>th_stats := f (th_stats td)\<rparr>"

section \<open>Switching the detector on and off\<close>

definition enable :: "'b shadow_thread \<Rightarrow> 'b shadow_thread" where
  "enable td = td\<lparr>th_buf_ptr := th_buf_ptr_stored td\<rparr>"

definition disable :: "'b shadow_thread \<Rightarrow> 'b shadow_thread" where
  "disable td = td\<lparr>th_buf_ptr_stored := th_buf_ptr td, th_buf_ptr := 0\<rparr>"

definition is_enabled :: "'b shadow_thread \<Rightarrow> bool" where
  "is_enabled td \<longleftrightarrow> 0 \<noteq> th_buf_ptr td"

text \<open>The counter is unsigned, so \<^verbatim>\<open>--event_cnt <= 0\<close> holds only at zero.\<close>

definition enable_scope :: "'b shadow_thread \<Rightarrow> 'b shadow_thread" where
  "enable_scope td =
     (let td = td\<lparr>th_event_cnt := th_event_cnt td - 1\<rparr>
      in if th_event_cnt td \<le> 0 then enable td else td)"

definition disable_scope :: "'b shadow_thread \<Rightarrow> 'b shadow_thread" where
  "disable_scope td = (let td = disable td in td\<lparr>th_event_cnt := th_event_cnt td + 1\<rparr>)"

definition beg_excl_region :: "'b shadow_thread \<Rightarrow> 'b shadow_thread" where
  "beg_excl_region td = disable_scope td"

definition end_excl_region :: "'b shadow_thread \<Rightarrow> 'b shadow_thread" where
  "end_excl_region td = enable_scope td"

section \<open>Sampling\<close>

text \<open>\<^verbatim>\<open>static_cast<unsigned>(0.1 * rate)\<close> is the integer quotient by ten: the double
  nearest to 0.1 is slightly larger than 0.1 and the product of less than \<open>2^32\<close> exact enough.\<close>

definition update_sampling :: "runtime \<Rightarrow> runtime" where
  "update_sampling g =
     (let rate = pa_sampling_rate (rt_params g);
          delta = (if rate < 10 then 1 else rate div 10)
      in g\<lparr>rt_min_period := max (rate - delta) 1, rt_max_period := rate + delta\<rparr>)"

definition sample_ref :: "mem_env \<Rightarrow> 'b shadow_thread \<Rightarrow> runtime \<Rightarrow> bool \<times> 'b shadow_thread \<times> runtime" where
  "sample_ref me td g =
     (let td = td\<lparr>th_sampling_pos := th_sampling_pos td - 1\<rparr>
      in if pa_sampling_rate (rt_params g) = 1 then (True, td, g)
         else if th_sampling_pos td = 0
         then (True, td\<lparr>th_sampling_pos := me_draw me (rt_draws g) (rt_min_period g) (rt_max_period g)\<rparr>,
               g\<lparr>rt_draws := Suc (rt_draws g)\<rparr>)
         else (False, td, g))"

definition sample_bb :: "params \<Rightarrow> addr \<Rightarrow> bool" where
  "sample_bb pr tag \<longleftrightarrow> pa_instr_rate pr \<noteq> 0 \<and> drop_bit 3 tag mod ucast (pa_instr_rate pr) = 0"

definition switch_sampling :: "mem_env \<Rightarrow> 'b shadow_thread \<Rightarrow> runtime \<Rightarrow> 'b shadow_thread \<times> runtime" where
  "switch_sampling me td g =
     (let flag = push_bit 63 1;
          (sampled, td, g) = sample_ref me td g
      in if \<not> sampled
         then (let td = disable td in (td\<lparr>th_event_cnt := th_event_cnt td OR flag\<rparr>, g))
         else (let td = td\<lparr>th_event_cnt := th_event_cnt td AND NOT flag\<rparr>
               in (if th_event_cnt td = 0 then enable td else td, g)))"

section \<open>The reference buffer\<close>

definition is_write :: "mem_ref \<Rightarrow> bool" where
  "is_write r \<longleftrightarrow> mr_size r AND MEM_REF_WRITE_TAG \<noteq> 0"

definition filtered_memref :: "params \<Rightarrow> 'b shadow_thread \<Rightarrow> mem_ref \<Rightarrow> bool" where
  "filtered_memref pr td r =
     (if pa_excl_stack pr \<and> th_appstack_beg td < mr_addr r \<and> mr_addr r < th_appstack_end td then True
      else if PROC_ADDR_LIMIT < mr_addr r then True
      else False)"

text \<open>The size is an \<^verbatim>\<open>int32_t\<close>, which is sign-extended to \<^verbatim>\<open>size_t\<close>.\<close>

definition access_call :: "'b shadow_thread \<Rightarrow> mem_ref \<Rightarrow> detector_call" where
  "access_call td r =
     (if is_write r then DWrite (th_detector_data td) (mr_pc r) (mr_addr r) (scast (mr_size r))
      else DRead (th_detector_data td) (mr_pc r) (mr_addr r) (scast (mr_size r)))"

text \<open>The loop over the references below \<^verbatim>\<open>buf_ptr\<close>; \<open>None\<close>: it runs over the end of the buffer.\<close>

fun access_loop :: "params \<Rightarrow> addr \<Rightarrow> mem_ref list \<Rightarrow> 'b shadow_thread \<Rightarrow> (detector_call list \<times> 'b shadow_thread) option" where
  "access_loop pr cur [] td = (if cur < th_buf_ptr td then None else Some ([], td))"
| "access_loop pr cur (r # rs) td =
     (if cur < th_buf_ptr td then
        (if filtered_memref pr td r then access_loop pr (cur + sizeof_mem_ref) rs td
         else map_option (\<lambda>(cs, td'). (access_call td r # cs, td'))
                (access_loop pr (cur + sizeof_mem_ref) rs (upd_stats (sc_proc_refs_update (\<lambda>n. n + 1)) td)))
      else Some ([], td))"

definition num_refs :: "'b shadow_thread \<Rightarrow> u64" where
  "num_refs td = word_of_int (sint (th_buf_ptr td - th_mem_base td) div sint sizeof_mem_ref)"

text \<open>A null \<^verbatim>\<open>buf_ptr\<close> makes the pointer difference meaningless; it is only counted.\<close>

definition clear_buffer :: "'b shadow_thread \<Rightarrow> 'b shadow_thread" where
  "clear_buffer td =
     (let n = num_refs td;
          td = upd_stats (\<lambda>s. s\<lparr>sc_proc_refs := sc_proc_refs s + n, sc_flushes := sc_flushes s + 1\<rparr>) td
      in td\<lparr>th_buf_ptr := th_mem_base td\<rparr>)"

definition delayed_initialize_thread :: "mem_env \<Rightarrow> 'b shadow_thread \<Rightarrow> runtime \<Rightarrow> 'b shadow_thread \<times> runtime" where
  "delayed_initialize_thread me td g =
     (let h = me_handle me (th_tid td);
          g = emit [DFork (rt_runtime_tid g) (th_tid td) h] g;
          td = td\<lparr>th_detector_data := h\<rparr>;
          g = emit [DHappensAfter (th_detector_data td) (ucast (th_tid td))] g
      in (clear_buffer td, g))"

definition handle_ext_state :: "'b shadow_thread \<Rightarrow> runtime \<Rightarrow> 'b shadow_thread \<times> runtime" where
  "handle_ext_state td g =
     (case rt_ext g of
        None \<Rightarrow> (td, g)
      | Some (shm_ext_state, sampling_rate) \<Rightarrow>
          (let (td, g) = (if rt_enable_external g \<noteq> shm_ext_state
                 then (if \<not> shm_ext_state then beg_excl_region td else end_excl_region td,
                       g\<lparr>rt_enable_external := shm_ext_state\<rparr>)
                 else (td, g))
           in if sampling_rate \<noteq> pa_sampling_rate (rt_params g)
              then (td, update_sampling (g\<lparr>rt_params := (rt_params g)\<lparr>pa_sampling_rate := sampling_rate\<rparr>\<rparr>))
              else (td, g)))"

definition access_prologue :: "mem_env \<Rightarrow> 'b shadow_thread \<Rightarrow> runtime \<Rightarrow> 'b shadow_thread \<times> runtime" where
  "access_prologue me td g =
     (let (td, g) = (if th_detector_data td = 0 then delayed_initialize_thread me td g else (td, g))
      in if pa_extctrl (rt_params g) \<and> sc_flushes (th_stats td) AND (0xF - 1) = 0xF - 1
         then handle_ext_state td g else (td, g))"

definition analyze_access :: "mem_env \<Rightarrow> 'b shadow_thread \<Rightarrow> runtime \<Rightarrow> ('b shadow_thread \<times> runtime) option" where
  "analyze_access me td g =
     (let (td, g) = access_prologue me td g
      in if is_enabled td
         then (let n = num_refs td in
               case access_loop (rt_params g) (th_mem_base td) (th_mem_buf td) td of
                 None \<Rightarrow> None
               | Some (cs, td) \<Rightarrow>
                   Some ((upd_stats (sc_total_refs_update (\<lambda>t. t + n)) td)\<lparr>th_buf_ptr := th_mem_base td\<rparr>, emit cs g))
         else Some (td, g))"

definition process_buffer_ctx :: "mem_env \<Rightarrow> 'b shadow_thread \<Rightarrow> runtime \<Rightarrow> ('b shadow_thread \<times> runtime) option" where
  "process_buffer_ctx me td g =
     map_option (\<lambda>(td, g). (upd_stats (sc_flushes_update (\<lambda>n. n + 1)) td, g)) (analyze_access me td g)"

section \<open>Thread events\<close>

definition thread_init :: "mem_env \<Rightarrow> 'b shadow_thread \<Rightarrow> runtime \<Rightarrow> 'b shadow_thread" where
  "thread_init me td g =
     (let (base, refs) = me_buffer me (th_tid td);
          td = td\<lparr>th_mem_base := base, th_mem_buf := refs\<rparr>;
          td = td\<lparr>th_buf_ptr := th_mem_base td\<rparr>;
          td = td\<lparr>th_buf_ptr_stored := th_buf_ptr td\<rparr>;
          td = td\<lparr>th_buf_end := - 1 * (th_mem_base td + MEM_BUF_SIZE)\<rparr>;
          td = (if pa_exclude_master (rt_params g) \<and> th_tid td = rt_runtime_tid g then disable_scope td else td)
      in if rt_runtime_tid g \<noteq> th_tid td
         then td\<lparr>th_appstack_beg := fst (me_stack_limits me (th_tid td)),
                 th_appstack_end := snd (me_stack_limits me (th_tid td))\<rparr>
         else td)"

definition thread_exit :: "mem_env \<Rightarrow> 'b shadow_thread \<Rightarrow> runtime \<Rightarrow> runtime option" where
  "thread_exit me td g =
     (case process_buffer_ctx me td g of
        None \<Rightarrow> None
      | Some (td, g) \<Rightarrow>
          (let g = emit [DJoin (rt_runtime_tid g) (th_tid td)] g
           in Some (g\<lparr>rt_stats := statistics_merge (rt_stats g) (th_stats td)\<rparr>)))"

text \<open>The events of the client (\<^verbatim>\<open>drace-client.cpp\<close>): the first thread becomes the
  runtime thread; \<open>book\<close> is the fresh mutex table.\<close>

definition event_thread_init :: "mem_env \<Rightarrow> 'b \<Rightarrow> u32 \<Rightarrow> runtime \<Rightarrow> 'b shadow_thread \<times> runtime" where
  "event_thread_init me book tid g =
     (let g = (if rt_runtime_tid g = 0 then g\<lparr>rt_runtime_tid := tid\<rparr> else g);
          td = new_shadow_thread (rt_params g) book tid
      in (thread_init me td g, g))"

section \<open>Frequent code\<close>

definition get_pcs_from_hist :: "(u64 \<times> nat) list \<Rightarrow> u64 list" where
  "get_pcs_from_hist h = sort (map fst h)"

text \<open>\<^verbatim>\<open>std::set_symmetric_difference\<close> of two sorted ranges.\<close>

fun symmetric_difference :: "u64 list \<Rightarrow> u64 list \<Rightarrow> u64 list" where
  "symmetric_difference [] ys = ys"
| "symmetric_difference xs [] = xs"
| "symmetric_difference (x # xs) (y # ys) =
     (if x < y then x # symmetric_difference xs (y # ys)
      else if y < x then y # symmetric_difference (x # xs) ys
      else symmetric_difference xs ys)"

definition flush_region :: "u64 \<Rightarrow> runtime \<Rightarrow> runtime" where
  "flush_region pc g = g\<lparr>rt_flushed := rt_flushed g @ [push_bit HIST_PC_RES pc]\<rparr>"

definition update_cache :: "'b shadow_thread \<Rightarrow> runtime \<Rightarrow> 'b shadow_thread \<times> runtime" where
  "update_cache td g =
     (let new_freq = computeOutput (sc_pc_hits (th_stats td));
          (td, g) =
            (if pa_lossy_flush (rt_params g)
             then (let pc_new = get_pcs_from_hist new_freq;
                       pc_old = sc_freq_pcs (th_stats td);
                       g = fold flush_region (symmetric_difference pc_new pc_old) g
                   in (upd_stats (sc_freq_pcs_update (\<lambda>_. pc_new)) td, g))
             else (td, g))
      in (upd_stats (sc_freq_pc_hist_update (\<lambda>_. new_freq)) td, g))"

text \<open>\<^verbatim>\<open>std::binary_search\<close> in a sorted range is membership.\<close>

definition pc_in_freq :: "'b shadow_thread \<Rightarrow> addr \<Rightarrow> bool" where
  "pc_in_freq td bb \<longleftrightarrow> drop_bit HIST_PC_RES bb \<in> set (sc_freq_pcs (th_stats td))"

definition lossy_count_if_enabled :: "'b shadow_thread \<Rightarrow> mem_ref \<Rightarrow> runtime \<Rightarrow> 'b shadow_thread \<times> runtime" where
  "lossy_count_if_enabled td r g =
     (if pa_lossy (rt_params g)
      then (let td = upd_stats (sc_pc_hits_update (\<lambda>m. snd (processItem (drop_bit HIST_PC_RES (mr_pc r)) m))) td
            in if sc_flushes (th_stats td) AND (CC_UPDATE_PERIOD - 1) = CC_UPDATE_PERIOD - 1
               then update_cache td g else (td, g))
      else (td, g))"

section \<open>The loop over the buffer\<close>

lemma upd_stats_frame [simp]:
  "th_buf_ptr (upd_stats f td) = th_buf_ptr td" "th_mem_base (upd_stats f td) = th_mem_base td"
  "th_mem_buf (upd_stats f td) = th_mem_buf td" "th_detector_data (upd_stats f td) = th_detector_data td"
  "th_buf_ptr_stored (upd_stats f td) = th_buf_ptr_stored td" "th_buf_end (upd_stats f td) = th_buf_end td"
  "th_event_cnt (upd_stats f td) = th_event_cnt td" "th_tid (upd_stats f td) = th_tid td"
  "th_stats (upd_stats f td) = f (th_stats td)" "th_mutex_book (upd_stats f td) = th_mutex_book td"
  "th_appstack_beg (upd_stats f td) = th_appstack_beg td" "th_appstack_end (upd_stats f td) = th_appstack_end td"
  "th_stack (upd_stats f td) = th_stack td" "th_sampling_pos (upd_stats f td) = th_sampling_pos td"
  by (simp_all add: upd_stats_def)

lemma upd_stats_upd_stats: "upd_stats f (upd_stats h td) = upd_stats (\<lambda>s. f (h s)) td"
  by (simp add: upd_stats_def)

lemma upd_stats_id: "upd_stats (\<lambda>s. s) td = td"
  by (simp add: upd_stats_def)

lemma filtered_upd_stats [simp]: "filtered_memref pr (upd_stats f td) = filtered_memref pr td"
  by (rule ext) (simp add: filtered_memref_def)

lemma access_call_upd_stats [simp]: "access_call (upd_stats f td) = access_call td"
  by (rule ext) (simp add: access_call_def)

definition add_proc :: "u64 \<Rightarrow> statistics \<Rightarrow> statistics" where
  "add_proc n = sc_proc_refs_update (\<lambda>m. m + n)"

lemma access_loop_spec:
  "th_buf_ptr td = cur + 24 * of_nat k \<Longrightarrow> k \<le> length rs \<Longrightarrow> unat cur + 24 * length rs < 2 ^ 64 \<Longrightarrow>
   access_loop pr cur rs td =
     Some (map (access_call td) (filter (\<lambda>r. \<not> filtered_memref pr td r) (take k rs)),
           upd_stats (add_proc (of_nat (length (filter (\<lambda>r. \<not> filtered_memref pr td r) (take k rs))))) td)"
proof (induction rs arbitrary: cur k td)
  case Nil
  then show ?case by (simp add: add_proc_def upd_stats_def)
next
  case (Cons r rs)
  show ?case
  proof (cases k)
    case 0
    with Cons.prems show ?thesis by (simp add: add_proc_def upd_stats_def)
  next
    case (Suc j)
    have len: "j \<le> length rs" and room: "unat cur + 24 * Suc (length rs) < 2 ^ 64"
      using Cons.prems(2,3) Suc by simp_all
    have next_cur: "unat (cur + sizeof_mem_ref) = unat cur + 24"
      unfolding sizeof_mem_ref_def using room by (subst unat_add_no_wrap) simp_all
    have u24: "unat (24 * of_nat k :: u64) = 24 * k"
      using Cons.prems(2) room Suc by (simp add: unat_word_ariths unsigned_of_nat take_bit_eq_mod)
    have "unat (th_buf_ptr td) = unat cur + 24 * k"
      unfolding Cons.prems(1) using u24 Cons.prems(2) room by (subst unat_add_no_wrap) simp_all
    then have lt: "cur < th_buf_ptr td" using Suc by (simp add: word_less_nat_alt)
    have ptr: "th_buf_ptr td' = cur + sizeof_mem_ref + 24 * of_nat j" if "th_buf_ptr td' = th_buf_ptr td" for td'
      using that Cons.prems(1) Suc by (simp add: sizeof_mem_ref_def algebra_simps)
    have room': "unat (cur + sizeof_mem_ref) + 24 * length rs < 2 ^ 64" using next_cur room by simp
    note IH = Cons.IH [OF ptr len room']
    show ?thesis
    proof (cases "filtered_memref pr td r")
      case True
      then show ?thesis using lt IH [OF refl] Suc by simp
    next
      case False
      have "access_loop pr (cur + sizeof_mem_ref) rs (upd_stats (sc_proc_refs_update (\<lambda>n. n + 1)) td) =
          Some (map (access_call td) (filter (\<lambda>r. \<not> filtered_memref pr td r) (take j rs)),
            upd_stats (add_proc (of_nat (length (filter (\<lambda>r. \<not> filtered_memref pr td r) (take j rs)))))
              (upd_stats (sc_proc_refs_update (\<lambda>n. n + 1)) td))"
        using IH [of "upd_stats (sc_proc_refs_update (\<lambda>n. n + 1)) td"] by simp
      then show ?thesis using False lt Suc
        by (simp add: upd_stats_upd_stats) (simp add: upd_stats_def add_proc_def algebra_simps)
    qed
  qed
qed

text \<open>A thread whose buffer holds \<open>k\<close> references.\<close>

definition buffer_ok :: "'b shadow_thread \<Rightarrow> bool" where
  "buffer_ok td \<longleftrightarrow> th_mem_base td \<noteq> 0 \<and> unat (th_mem_base td) + 1536 < 2 ^ 63 \<and> length (th_mem_buf td) = MAX_NUM_MEM_REFS
     \<and> th_buf_end td = - (th_mem_base td + MEM_BUF_SIZE)"

definition filled :: "'b shadow_thread \<Rightarrow> nat \<Rightarrow> bool" where
  "filled td k \<longleftrightarrow> buffer_ok td \<and> k \<le> MAX_NUM_MEM_REFS \<and> th_buf_ptr td = th_mem_base td + 24 * of_nat k"

definition reported :: "params \<Rightarrow> 'b shadow_thread \<Rightarrow> mem_ref list \<Rightarrow> mem_ref list" where
  "reported pr td rs = filter (\<lambda>r. \<not> filtered_memref pr td r) rs"

lemma unat_24_mult: "k \<le> 64 \<Longrightarrow> unat (24 * of_nat k :: u64) = 24 * k"
  by (simp add: unat_word_ariths unsigned_of_nat take_bit_eq_mod)

lemma filled_ptr: "filled td k \<Longrightarrow> unat (th_buf_ptr td) = unat (th_mem_base td) + 24 * k"
  unfolding filled_def buffer_ok_def MAX_NUM_MEM_REFS_def
  by (simp add: unat_24_mult unat_add_no_wrap)

lemma filled_enabled: "filled td k \<Longrightarrow> is_enabled td"
proof -
  assume f: "filled td k"
  then have "0 < unat (th_mem_base td)" by (auto simp: filled_def buffer_ok_def unat_gt_0)
  then have "0 < unat (th_buf_ptr td)" using filled_ptr [OF f] by simp
  then show ?thesis by (auto simp: is_enabled_def)
qed

lemma filled_num_refs:
  assumes "filled td k"
  shows "num_refs td = of_nat k"
proof -
  have d: "th_buf_ptr td - th_mem_base td = 24 * of_nat k" and k: "k \<le> 64"
    using assms by (simp_all add: filled_def MAX_NUM_MEM_REFS_def)
  have "sint (24 * of_nat k :: u64) = 24 * int k"
    using unat_24_mult [OF k] k by (simp add: sint_uint uint_nat signed_take_bit_int_eq_self)
  then show ?thesis by (simp add: num_refs_def d sizeof_mem_ref_def)
qed

text \<open>Without external control and with an initialised thread the analysis is the loop.\<close>

lemma analyze_access_loop:
  assumes f: "filled td k" and "th_detector_data td \<noteq> 0" and "\<not> pa_extctrl (rt_params g)"
  shows "analyze_access me td g =
    Some ((upd_stats (\<lambda>s. sc_total_refs_update (\<lambda>t. t + of_nat k)
             (add_proc (of_nat (length (reported (rt_params g) td (take k (th_mem_buf td))))) s)) td)
            \<lparr>th_buf_ptr := th_mem_base td\<rparr>,
          emit (map (access_call td) (reported (rt_params g) td (take k (th_mem_buf td)))) g)"
proof -
  have "access_loop (rt_params g) (th_mem_base td) (th_mem_buf td) td =
    Some (map (access_call td) (reported (rt_params g) td (take k (th_mem_buf td))),
      upd_stats (add_proc (of_nat (length (reported (rt_params g) td (take k (th_mem_buf td)))))) td)"
    using f unfolding reported_def
    by (intro access_loop_spec) (simp_all add: filled_def buffer_ok_def MAX_NUM_MEM_REFS_def)
  then show ?thesis
    using assms filled_enabled [OF f] filled_num_refs [OF f]
    by (simp add: analyze_access_def access_prologue_def Let_def upd_stats_upd_stats)
qed

section \<open>What the analysis leaves alone\<close>

lemma access_loop_stats: "access_loop pr cur rs td = Some (cs, td') \<Longrightarrow> \<exists>f. td' = upd_stats f td"
proof (induction pr cur rs td arbitrary: cs td' rule: access_loop.induct)
  case (1 pr cur td)
  then have "td' = upd_stats (\<lambda>s. s) td" by (simp add: upd_stats_id split: if_splits)
  then show ?case by blast
next
  case (2 pr cur r rs td)
  show ?case
  proof (cases "cur < th_buf_ptr td")
    case lt: True
    show ?thesis
    proof (cases "filtered_memref pr td r")
      case True
      with 2 lt show ?thesis by simp
    next
      case False
      with 2(3) lt obtain ds where
        "access_loop pr (cur + sizeof_mem_ref) rs (upd_stats (sc_proc_refs_update (\<lambda>n. n + 1)) td) = Some (ds, td')"
        by auto
      from 2(2) [OF lt False this] show ?thesis by (auto simp: upd_stats_upd_stats)
    qed
  next
    case False
    with 2(3) have "td' = upd_stats (\<lambda>s. s) td" by (simp add: upd_stats_id)
    then show ?thesis by blast
  qed
qed

definition same_frame :: "'b shadow_thread \<Rightarrow> 'b shadow_thread \<Rightarrow> bool" where
  "same_frame td td' \<longleftrightarrow> th_mutex_book td' = th_mutex_book td \<and> th_stack td' = th_stack td \<and> th_tid td' = th_tid td \<and>
     th_sampling_pos td' = th_sampling_pos td"

lemma same_frame_steps [simp]:
  "same_frame td td" "same_frame td (upd_stats f td)" "same_frame td (td\<lparr>th_buf_ptr := p\<rparr>)" "same_frame td (enable td)"
  "same_frame td (disable td)" "same_frame td (enable_scope td)" "same_frame td (disable_scope td)"
  "same_frame td (beg_excl_region td)" "same_frame td (end_excl_region td)" "same_frame td (clear_buffer td)"
  by (simp_all add: same_frame_def enable_def disable_def enable_scope_def disable_scope_def beg_excl_region_def
      end_excl_region_def clear_buffer_def Let_def)

lemma same_frame_trans: "same_frame a b \<Longrightarrow> same_frame b c \<Longrightarrow> same_frame a c"
  by (simp add: same_frame_def)

lemma handle_ext_state_frame: "same_frame td (fst (handle_ext_state td g))"
  by (simp add: handle_ext_state_def split: option.split prod.split)

lemma delayed_frame: "same_frame td (fst (delayed_initialize_thread me td g))"
proof -
  have "same_frame td (td\<lparr>th_detector_data := me_handle me (th_tid td)\<rparr>)" by (simp add: same_frame_def)
  then show ?thesis unfolding delayed_initialize_thread_def Let_def fst_conv
    by (rule same_frame_trans) simp
qed

lemma access_prologue_frame: "same_frame td (fst (access_prologue me td g))"
proof (cases "th_detector_data td = 0")
  case True
  obtain td1 g1 where d: "delayed_initialize_thread me td g = (td1, g1)" by (cases "delayed_initialize_thread me td g")
  then have 1: "same_frame td td1" using delayed_frame [of td me g] by simp
  then have "same_frame td (fst (handle_ext_state td1 g1))" using handle_ext_state_frame by (rule same_frame_trans)
  then show ?thesis using True d 1 by (simp add: access_prologue_def)
next
  case False
  then show ?thesis by (simp add: access_prologue_def handle_ext_state_frame)
qed

lemma analyze_access_frame:
  assumes "analyze_access me td g = Some (td', g')"
  shows "same_frame td td'"
proof -
  obtain td1 g1 where p: "access_prologue me td g = (td1, g1)" by (cases "access_prologue me td g")
  then have 1: "same_frame td td1" using access_prologue_frame [of td me g] by simp
  have "same_frame td1 td'"
  proof (cases "is_enabled td1")
    case True
    with assms p obtain cs td2 where l: "access_loop (rt_params g1) (th_mem_base td1) (th_mem_buf td1) td1 = Some (cs, td2)"
      "td' = (upd_stats (sc_total_refs_update (\<lambda>t. t + num_refs td1)) td2)\<lparr>th_buf_ptr := th_mem_base td2\<rparr>"
      by (auto simp: analyze_access_def split: option.splits)
    then obtain f where "td2 = upd_stats f td1" using access_loop_stats by blast
    then show ?thesis using l(2) by (simp add: same_frame_def)
  next
    case False
    with assms p show ?thesis by (simp add: analyze_access_def)
  qed
  with 1 show ?thesis by (rule same_frame_trans)
qed

lemma process_buffer_frame: "process_buffer_ctx me td g = Some (td', g') \<Longrightarrow> same_frame td td'"
  by (auto simp: process_buffer_ctx_def intro: same_frame_trans [OF analyze_access_frame])

end
