(* ===== verification/InstrMem.thy ===== *)
theory InstrMem
  imports MemTracker
begin

text \<open>
  The instrumentation of application code: which memory accesses of a basic block are recorded
  (\<^verbatim>\<open>event_app_analysis\<close> and \<^verbatim>\<open>event_app_instruction\<close> in
  \<^verbatim>\<open>drace-client/src/memory-tracker.cpp\<close>), the routine that empties a full buffer and the inline code that records one access
  (\<^verbatim>\<open>drace-client/src/instr/instr-mem-fast.cpp\<close>), as an instruction list with an
  interpreter for the few instructions it uses.
\<close>

section \<open>Analysis of a basic block\<close>

text \<open>The result is the flag word handed on to the instrumentation; \<open>None\<close>: a module without
  module data is put into the cache.\<close>

definition event_app_analysis ::
    "tracker \<Rightarrow> addr \<Rightarrow> bool \<Rightarrow> 'b shadow_thread \<Rightarrow> runtime \<Rightarrow> (u8 \<times> runtime) option" where
  "event_app_analysis t bb_addr for_trace td g =
     (if for_trace \<and> pa_excl_traces (rt_params g) then Some (INSTR_STACK, g)
      else map_option (\<lambda>(instrument_bb, g).
             (if pa_lossy_flush (rt_params g) \<and> for_trace \<and> instrument_bb \<noteq> INSTR_NONE \<and> pc_in_freq td bb_addr
              then INSTR_NONE else instrument_bb, g))
        (case cache_lookup (rt_cache g) bb_addr of
           Some r \<Rightarrow> Some (md_instrument (tr_objs t ! r), g)
         | None \<Rightarrow>
             (case get_module_containing t bb_addr of
                Some r \<Rightarrow> map_option (\<lambda>c. (md_instrument (tr_objs t ! r), g\<lparr>rt_cache := c\<rparr>))
                           (cache_update r (tr_objs t ! r) (rt_cache g))
              | None \<Rightarrow> Some (INSTR_MEMORY OR INSTR_STACK, g))))"

text \<open>What DynamoRIO tells of an instruction.\<close>

datatype opcode = OP_pop | OP_popa | OP_popf | OP_push | OP_pusha | OP_pushf | OP_other

datatype operand = MemRef nat u32 | NoMem

fun opnd_is_memory_reference :: "operand \<Rightarrow> bool" where
  "opnd_is_memory_reference (MemRef _ _) = True"
| "opnd_is_memory_reference NoMem = False"

record app_instr =
  ai_app_pc :: addr
  ai_is_app :: bool
  ai_is_last :: bool
  ai_kind :: branch_kind
  ai_reads_mem :: bool
  ai_writes_mem :: bool
  ai_opcode :: opcode
  ai_stack_regs :: bool
  ai_lock :: bool
  ai_srcs :: "operand list"
  ai_dsts :: "operand list"

text \<open>The result: the call instrumentation, if any, and the operands to record with the write flag.
  \<open>ai_stack_regs\<close>: the stack or frame pointer is read or written.\<close>

definition event_app_instruction :: "params \<Rightarrow> addr \<Rightarrow> u8 \<Rightarrow> app_instr \<Rightarrow> call_instr option \<times> (operand \<times> bool) list" where
  "event_app_instruction pr tag flags i =
     (if ai_app_pc i = 0 \<or> \<not> ai_is_app i then (None, [])
      else (let called = (if flags AND INSTR_STACK \<noteq> 0 then wrap_generic_call (ai_is_last i) (ai_kind i) else None) in
        if called \<noteq> None then (called, [])
        else if flags AND INSTR_MEMORY = 0 then (None, [])
        else if \<not> ai_reads_mem i \<and> \<not> ai_writes_mem i then (None, [])
        else if pa_excl_stack pr \<and> (ai_opcode i \<in> {OP_pop, OP_popa, OP_popf, OP_push, OP_pusha, OP_pushf} \<or> ai_stack_regs i)
        then (None, [])
        else if \<not> sample_bb pr tag then (None, [])
        else (None,
          (if ai_reads_mem i then map (\<lambda>x. (x, False)) (filter opnd_is_memory_reference (ai_srcs i)) else []) @
          (if ai_writes_mem i then map (\<lambda>x. (x, \<not> ai_lock i)) (filter opnd_is_memory_reference (ai_dsts i)) else []))))"

section \<open>The inline code\<close>

datatype sreg = R1 | R2 | R3

datatype asm_label = L_restore | L_call

datatype asm =
    GetMemAddr sreg sreg
  | ReadTls sreg
  | MovLd sreg sreg u64
  | MovSt sreg u64 sreg
  | MovImm32 sreg u64 u32
  | MovImmPtr sreg u64 u64
  | MovImmLabel sreg asm_label
  | Lea sreg sreg "sreg option" u64
  | Jecxz asm_label
  | Jmp asm_label
  | JmpFlush
  | Label asm_label

text \<open>Offsets in \<^verbatim>\<open>mem_ref_t\<close> and \<^verbatim>\<open>ShadowThreadState\<close>; \<^verbatim>\<open>reg2\<close> is XCX.\<close>

definition offs_addr :: u64 where "offs_addr = 0"
definition offs_pc :: u64 where "offs_pc = 8"
definition offs_size :: u64 where "offs_size = 16"
definition offs_buf_ptr :: u64 where "offs_buf_ptr = 0"
definition offs_buf_end :: u64 where "offs_buf_end = 8"

definition instrument_mem_fast :: "addr \<Rightarrow> u32 \<Rightarrow> bool \<Rightarrow> asm list" where
  "instrument_mem_fast pc sz write =
    [GetMemAddr R1 R2,
     ReadTls R3,
     MovLd R2 R3 offs_buf_ptr,
     Jecxz L_restore,
     MovSt R2 offs_addr R1,
     MovImm32 R2 offs_size (sz OR (if write then MEM_REF_WRITE_TAG else 0)),
     MovImmPtr R2 offs_pc pc,
     Lea R2 R2 None sizeof_mem_ref,
     MovSt R3 offs_buf_ptr R2,
     MovLd R1 R3 offs_buf_end,
     Lea R2 R1 (Some R2) 0,
     Jecxz L_call,
     Jmp L_restore,
     Label L_call,
     MovImmLabel R2 L_restore,
     JmpFlush,
     Label L_restore]"

text \<open>
  The lean procedure the inline code jumps to when the buffer is full (\<^verbatim>\<open>code_cache_init\<close>
  in \<^verbatim>\<open>drace-client/src/memory-tracker.cpp\<close>): the jump is appended first and the clean call
  inserted before it. \<open>encoded\<close> is the length of the encoding, by DynamoRIO, and the result \<open>None\<close>
  the assertion that it fits; the page is left without write access.
\<close>

datatype flush_instr = CleanCall | JmpInd sreg

record code_page =
  cp_size :: nat
  cp_writable :: bool
  cp_code :: "flush_instr list"

definition flush_routine :: "flush_instr list" where
  "flush_routine = (let ilist = [] @ [JmpInd R2] in [CleanCall] @ ilist)"

definition code_cache_init :: "(flush_instr list \<Rightarrow> nat) \<Rightarrow> nat \<Rightarrow> code_page option" where
  "code_cache_init encoded page_size =
     (let page = \<lparr>cp_size = page_size, cp_writable = True, cp_code = []\<rparr>;
          page = page\<lparr>cp_code := flush_routine\<rparr>
      in if encoded flush_routine < page_size then Some (page\<lparr>cp_writable := False\<rparr>) else None)"

text \<open>Running it: the address it jumps to and how often \<^verbatim>\<open>process_buffer\<close> was called;
  \<open>None\<close>: control runs past the end.\<close>

fun run_flush :: "flush_instr list \<Rightarrow> (sreg \<Rightarrow> u64) \<Rightarrow> (addr \<times> nat) option" where
  "run_flush [] rs = None"
| "run_flush (CleanCall # is) rs = map_option (map_prod id Suc) (run_flush is rs)"
| "run_flush (JmpInd r # is) rs = Some (rs r, 0)"

lemma run_flush_routine: "run_flush flush_routine rs = Some (rs R2, 1)"
  by (simp add: flush_routine_def)

lemma code_cache_init_page:
  "code_cache_init encoded page_size = Some page \<Longrightarrow>
     \<not> cp_writable page \<and> encoded (cp_code page) < cp_size page \<and> run_flush (cp_code page) rs = Some (rs R2, 1)"
  by (auto simp: code_cache_init_def run_flush_routine split: if_splits)

text \<open>
  Memory is addressed in cells of eight bytes; a 32-bit store replaces the lower half of a cell.
  \<open>tls\<close> is the address of the thread state, \<open>a\<close> the address the operand denotes,
  \<open>la\<close> the address of a label. The result is the memory and whether the clean call
  was made, or \<open>None\<close> if control is lost.
\<close>

definition store32 :: "addr \<Rightarrow> u32 \<Rightarrow> (addr \<Rightarrow> u64) \<Rightarrow> addr \<Rightarrow> u64" where
  "store32 p v m = m(p := (m p AND NOT 0xFFFFFFFF) OR ucast v)"

definition seek :: "asm_label \<Rightarrow> asm list \<Rightarrow> asm list" where
  "seek l is = dropWhile (\<lambda>i. i \<noteq> Label l) is"

lemma seek_length: "length (seek l is) \<le> length is"
  by (simp add: seek_def length_dropWhile_le)

lemma seek_simps [simp]:
  "seek l [] = []" "seek l (i # is) = (if i = Label l then i # is else seek l is)"
  by (simp_all add: seek_def)

function exec :: "addr \<Rightarrow> (asm_label \<Rightarrow> addr) \<Rightarrow> addr \<Rightarrow> asm list \<Rightarrow> (sreg \<Rightarrow> u64) \<Rightarrow> (addr \<Rightarrow> u64) \<Rightarrow> ((addr \<Rightarrow> u64) \<times> bool) option" where
  "exec tls la a [] rs m = Some (m, False)"
| "exec tls la a (GetMemAddr r scratch # is) rs m = exec tls la a is (rs(r := a)) m"
| "exec tls la a (ReadTls r # is) rs m = exec tls la a is (rs(r := tls)) m"
| "exec tls la a (MovLd r b d # is) rs m = exec tls la a is (rs(r := m (rs b + d))) m"
| "exec tls la a (MovSt b d r # is) rs m = exec tls la a is rs (m(rs b + d := rs r))"
| "exec tls la a (MovImm32 b d v # is) rs m = exec tls la a is rs (store32 (rs b + d) v m)"
| "exec tls la a (MovImmPtr b d v # is) rs m = exec tls la a is rs (m(rs b + d := v))"
| "exec tls la a (MovImmLabel r l # is) rs m = exec tls la a is (rs(r := la l)) m"
| "exec tls la a (Lea r b i d # is) rs m =
     exec tls la a is (rs(r := rs b + (case i of None \<Rightarrow> 0 | Some x \<Rightarrow> rs x) + d)) m"
| "exec tls la a (Jecxz l # is) rs m =
     (if rs R2 = 0 then (if seek l is = [] then None else exec tls la a (seek l is) rs m) else exec tls la a is rs m)"
| "exec tls la a (Jmp l # is) rs m = (if seek l is = [] then None else exec tls la a (seek l is) rs m)"
| "exec tls la a (JmpFlush # is) rs m =
     (case run_flush flush_routine rs of
        None \<Rightarrow> None
      | Some (target, calls) \<Rightarrow>
          if target = la L_restore \<and> seek L_restore is \<noteq> [] then Some (m, 0 < calls) else None)"
| "exec tls la a (Label l # is) rs m = exec tls la a is rs m"
  by pat_completeness auto
termination
  by (relation "measure (\<lambda>(tls, la, a, is, rs, m). length is)") (auto intro: le_imp_less_Suc seek_length)

section \<open>What the inline code does\<close>

text \<open>The comment of the source as a step of the thread state: the new reference and whether the buffer is full.\<close>

definition record_ref :: "mem_ref \<Rightarrow> 'b shadow_thread \<Rightarrow> bool \<times> 'b shadow_thread" where
  "record_ref r td =
     (if \<not> is_enabled td then (False, td)
      else let td = td\<lparr>th_mem_buf := (th_mem_buf td)[unat (num_refs td) := r], th_buf_ptr := th_buf_ptr td + sizeof_mem_ref\<rparr>
           in (th_buf_ptr td + th_buf_end td = 0, td))"

definition read_ref :: "(addr \<Rightarrow> u64) \<Rightarrow> addr \<Rightarrow> mem_ref" where
  "read_ref m p = \<lparr>mr_addr = m (p + offs_addr), mr_pc = m (p + offs_pc), mr_size = ucast (m (p + offs_size))\<rparr>"

definition slot_addr :: "'b shadow_thread \<Rightarrow> nat \<Rightarrow> addr" where
  "slot_addr td i = th_mem_base td + 24 * of_nat i"

definition mem_rep :: "addr \<Rightarrow> (addr \<Rightarrow> u64) \<Rightarrow> 'b shadow_thread \<Rightarrow> bool" where
  "mem_rep tls m td \<longleftrightarrow> m (tls + offs_buf_ptr) = th_buf_ptr td \<and> m (tls + offs_buf_end) = th_buf_end td \<and>
     map (\<lambda>i. read_ref m (slot_addr td i)) [0..<MAX_NUM_MEM_REFS] = th_mem_buf td"

definition outside_buffer :: "'b shadow_thread \<Rightarrow> addr \<Rightarrow> bool" where
  "outside_buffer td p \<longleftrightarrow> MEM_BUF_SIZE \<le> p - th_mem_base td"

definition tls_apart :: "addr \<Rightarrow> 'b shadow_thread \<Rightarrow> bool" where
  "tls_apart tls td \<longleftrightarrow> outside_buffer td (tls + offs_buf_ptr) \<and> outside_buffer td (tls + offs_buf_end)"

lemma cell_offset:
  "i < 64 \<Longrightarrow> c < 24 \<Longrightarrow> unat (24 * of_nat i + of_nat c :: u64) = 24 * i + c"
  by (simp add: unat_word_ariths unsigned_of_nat take_bit_eq_mod)

lemma cell_eq:
  assumes "i < 64" "j < 64" "c < 24" "d < 24"
  shows "slot_addr td i + of_nat c = slot_addr td j + of_nat d \<longleftrightarrow> i = j \<and> c = d"
proof
  assume "slot_addr td i + of_nat c = slot_addr td j + of_nat d"
  then have "24 * of_nat i + of_nat c = (24 * of_nat j + of_nat d :: u64)" by (simp add: slot_addr_def)
  from arg_cong [OF this, of unat] have "24 * i + c = 24 * j + d"
    unfolding cell_offset [OF assms(1,3)] cell_offset [OF assms(2,4)] .
  then have "(24 * i + c) div 24 = (24 * j + d) div 24" "(24 * i + c) mod 24 = (24 * j + d) mod 24" by simp_all
  then show "i = j \<and> c = d" using assms(3,4) by simp
qed auto

lemma cell_outside:
  assumes "i < 64" "c < 24" "outside_buffer td p"
  shows "p \<noteq> slot_addr td i + of_nat c"
proof
  assume "p = slot_addr td i + of_nat c"
  then have "p - th_mem_base td = 24 * of_nat i + of_nat c" by (simp add: slot_addr_def)
  then have "unat (p - th_mem_base td) = 24 * i + c" using cell_offset [OF assms(1,2)] by simp
  moreover have "1536 \<le> unat (p - th_mem_base td)"
    using assms(3) by (simp add: outside_buffer_def MEM_BUF_SIZE_def MAX_NUM_MEM_REFS_def sizeof_mem_ref_def word_le_nat_alt)
  ultimately show False using assms(1,2) by simp
qed

lemmas cell_cs = cell_eq [where c = 0, simplified] cell_eq [where d = 0, simplified]

lemma ucast_store32: "ucast ((x AND NOT 0xFFFFFFFF) OR ucast v :: u64) = (v :: u32)"
proof (rule bit_word_eqI)
  fix n assume "n < LENGTH(32)"
  moreover have "bit (0xFFFFFFFF :: u64) n" if "n < 32" for n
  proof -
    have "mask 32 = (0xFFFFFFFF :: u64)" by (simp add: mask_eq_exp_minus_1)
    moreover have "bit (mask 32 :: u64) n" using that by (simp only: bit_mask_iff) simp
    ultimately show ?thesis by simp
  qed
  ultimately show "bit (ucast ((x AND NOT 0xFFFFFFFF) OR ucast v :: u64) :: u32) n = bit v n"
    by (simp add: bit_simps)
qed

lemmas offs_defs = offs_addr_def offs_pc_def offs_size_def offs_buf_ptr_def offs_buf_end_def

definition access_ref :: "addr \<Rightarrow> addr \<Rightarrow> u32 \<Rightarrow> bool \<Rightarrow> mem_ref" where
  "access_ref a pc sz write = \<lparr>mr_addr = a, mr_pc = pc, mr_size = sz OR (if write then MEM_REF_WRITE_TAG else 0)\<rparr>"

text \<open>The memory after the inline code, when the detector is enabled and the buffer pointer is \<open>p\<close>.\<close>

definition stored :: "addr \<Rightarrow> addr \<Rightarrow> mem_ref \<Rightarrow> (addr \<Rightarrow> u64) \<Rightarrow> addr \<Rightarrow> u64" where
  "stored tls p r m =
     ((store32 (p + offs_size) (mr_size r) (m(p + offs_addr := mr_addr r)))(p + offs_pc := mr_pc r))
       (tls + offs_buf_ptr := p + sizeof_mem_ref)"

lemma exec_disabled:
  "m (tls + offs_buf_ptr) = 0 \<Longrightarrow> exec tls la a (instrument_mem_fast pc sz w) rs m = Some (m, False)"
  by (simp add: instrument_mem_fast_def)

lemma exec_enabled:
  assumes "m (tls + offs_buf_ptr) = p" and "p \<noteq> 0"
    and "stored tls p (access_ref a pc sz w) m (tls + offs_buf_end) = e"
  shows "exec tls la a (instrument_mem_fast pc sz w) rs m = Some (stored tls p (access_ref a pc sz w) m, p + sizeof_mem_ref + e = 0)"
  using assms by (simp add: instrument_mem_fast_def stored_def access_ref_def algebra_simps run_flush_routine)

lemma read_stored:
  assumes "i < 64" "k < 64" "tls_apart tls td"
  shows "read_ref (stored tls (slot_addr td k) r m) (slot_addr td i) = (if i = k then r else read_ref m (slot_addr td i))"
proof -
  let ?s = "slot_addr td"
  have t: "tls + offs_buf_ptr \<noteq> ?s i" "tls + offs_buf_ptr \<noteq> ?s i + 8" "tls + offs_buf_ptr \<noteq> ?s i + 16"
    using assms(3) cell_outside [OF assms(1), of 0 td "tls + offs_buf_ptr"]
      cell_outside [OF assms(1), of 8 td "tls + offs_buf_ptr"] cell_outside [OF assms(1), of 16 td "tls + offs_buf_ptr"]
    by (simp_all add: tls_apart_def)
  have e: "?s k = ?s i \<longleftrightarrow> k = i" "?s i = ?s k \<longleftrightarrow> i = k" "?s k + 8 = ?s i + 8 \<longleftrightarrow> k = i" "?s k + 16 = ?s i + 16 \<longleftrightarrow> k = i"
    "?s i \<noteq> ?s k + 8" "?s i \<noteq> ?s k + 16" "?s i + 8 \<noteq> ?s k" "?s i + 8 \<noteq> ?s k + 16" "?s i + 16 \<noteq> ?s k" "?s i + 16 \<noteq> ?s k + 8"
    using cell_eq [OF assms(2,1), of 0 0 td] cell_eq [OF assms(1,2), of 0 0 td]
      cell_eq [OF assms(2,1), of 8 8 td] cell_eq [OF assms(2,1), of 16 16 td]
      cell_eq [OF assms(1,2), of 0 8 td] cell_eq [OF assms(1,2), of 0 16 td]
      cell_eq [OF assms(1,2), of 8 0 td] cell_eq [OF assms(1,2), of 8 16 td]
      cell_eq [OF assms(1,2), of 16 0 td] cell_eq [OF assms(1,2), of 16 8 td]
    by simp_all
  show ?thesis
  proof (cases "i = k")
    case True
    then show ?thesis using t e
      by (simp add: read_ref_def stored_def store32_def offs_addr_def offs_pc_def offs_size_def ucast_store32 [simplified])
  next
    case False
    then show ?thesis using t e
      by (simp add: read_ref_def stored_def store32_def offs_addr_def offs_pc_def offs_size_def)
  qed
qed

lemma stored_buf_ptr: "stored tls p r m (tls + offs_buf_ptr) = p + sizeof_mem_ref"
  by (simp add: stored_def)

lemma stored_buf_end:
  assumes "k < 64" "tls_apart tls td"
  shows "stored tls (slot_addr td k) r m (tls + offs_buf_end) = m (tls + offs_buf_end)"
  using assms(2) cell_outside [OF assms(1), of 0 td "tls + offs_buf_end"] cell_outside [OF assms(1), of 8 td "tls + offs_buf_end"]
    cell_outside [OF assms(1), of 16 td "tls + offs_buf_end"]
  by (simp add: stored_def store32_def tls_apart_def offs_addr_def offs_pc_def offs_size_def)
    (simp add: offs_buf_ptr_def offs_buf_end_def)

text \<open>The inline code refines the recording step.\<close>

lemma filled_slot: "filled td k \<Longrightarrow> th_buf_ptr td = slot_addr td k"
  by (simp add: filled_def slot_addr_def)

lemma record_ref_filled:
  assumes "filled td k" "k < MAX_NUM_MEM_REFS" and "record_ref r td = (fl, td')"
  shows "td' = td\<lparr>th_mem_buf := (th_mem_buf td)[k := r], th_buf_ptr := slot_addr td (Suc k)\<rparr>"
    and "filled td' (Suc k)" and "fl \<longleftrightarrow> Suc k = MAX_NUM_MEM_REFS"
proof -
  have k: "k < 64" using assms(2) by (simp add: MAX_NUM_MEM_REFS_def)
  have n: "unat (num_refs td) = k"
    using filled_num_refs [OF assms(1)] k by (simp add: unsigned_of_nat take_bit_eq_mod)
  have p: "th_buf_ptr td + sizeof_mem_ref = slot_addr td (Suc k)"
    using filled_slot [OF assms(1)] by (simp add: slot_addr_def sizeof_mem_ref_def algebra_simps)
  show td': "td' = td\<lparr>th_mem_buf := (th_mem_buf td)[k := r], th_buf_ptr := slot_addr td (Suc k)\<rparr>"
    using assms(3) filled_enabled [OF assms(1)] by (auto simp: record_ref_def n p Let_def)
  show f: "filled td' (Suc k)"
    using assms(1,2) unfolding td' by (simp add: filled_def buffer_ok_def slot_addr_def)
  have "fl \<longleftrightarrow> slot_addr td (Suc k) + th_buf_end td = 0"
    using assms(3) filled_enabled [OF assms(1)] by (auto simp: record_ref_def n p Let_def)
  also have "slot_addr td (Suc k) + th_buf_end td = 24 * of_nat (Suc k) - MEM_BUF_SIZE"
    using assms(1) by (simp add: filled_def buffer_ok_def slot_addr_def algebra_simps)
  also have "24 * of_nat (Suc k) - MEM_BUF_SIZE = 0 \<longleftrightarrow> 24 * of_nat (Suc k) = MEM_BUF_SIZE" by simp
  also have "\<dots> \<longleftrightarrow> unat (24 * of_nat (Suc k) :: u64) = unat MEM_BUF_SIZE" by (simp only: word_unat_eq_iff)
  also have "\<dots> \<longleftrightarrow> Suc k = MAX_NUM_MEM_REFS"
    unfolding unat_24_mult [OF Suc_leI [OF k]]
    by (simp add: MEM_BUF_SIZE_def sizeof_mem_ref_def MAX_NUM_MEM_REFS_def)
  finally show "fl \<longleftrightarrow> Suc k = MAX_NUM_MEM_REFS" .
qed

lemma inline_code_records:
  assumes rep: "mem_rep tls m td" "tls_apart tls td" and f: "filled td k" "k < MAX_NUM_MEM_REFS"
    and rr: "record_ref (access_ref a pc sz w) td = (fl, td')"
  shows "\<exists>m'. exec tls la a (instrument_mem_fast pc sz w) rs m = Some (m', fl) \<and> mem_rep tls m' td'"
proof -
  have k: "k < 64" using f(2) by (simp add: MAX_NUM_MEM_REFS_def)
  let ?r = "access_ref a pc sz w" and ?p = "slot_addr td k"
  let ?m = "stored tls ?p ?r m"
  note td' = record_ref_filled(1) [OF f rr]
  have p: "m (tls + offs_buf_ptr) = ?p" using rep(1) filled_slot [OF f(1)] by (simp add: mem_rep_def)
  have "?p \<noteq> 0" using filled_enabled [OF f(1)] filled_slot [OF f(1)] by (simp add: is_enabled_def)
  note ex = exec_enabled [where m = m and tls = tls and e = "?m (tls + offs_buf_end)", OF p this refl]
  have e: "?m (tls + offs_buf_end) = th_buf_end td"
    unfolding stored_buf_end [OF k rep(2)] using rep(1) by (simp add: mem_rep_def)
  have sl: "slot_addr td' = slot_addr td" by (rule ext) (simp add: slot_addr_def td')
  have nxt: "?p + sizeof_mem_ref = slot_addr td (Suc k)" by (simp add: slot_addr_def sizeof_mem_ref_def algebra_simps)
  have "map (\<lambda>i. read_ref ?m (slot_addr td i)) [0..<MAX_NUM_MEM_REFS] = (th_mem_buf td)[k := ?r]"
  proof (rule nth_equalityI)
    show "length (map (\<lambda>i. read_ref ?m (slot_addr td i)) [0..<MAX_NUM_MEM_REFS]) = length ((th_mem_buf td)[k := ?r])"
      using f(1) by (simp add: filled_def buffer_ok_def)
  next
    fix i assume "i < length (map (\<lambda>i. read_ref ?m (slot_addr td i)) [0..<MAX_NUM_MEM_REFS])"
    then have i: "i < 64" by (simp add: MAX_NUM_MEM_REFS_def)
    have "th_mem_buf td = map (\<lambda>i. read_ref m (slot_addr td i)) [0..<64]"
      using rep(1) by (simp add: mem_rep_def MAX_NUM_MEM_REFS_def)
    then have old: "th_mem_buf td ! i = read_ref m (slot_addr td i)" using i by simp
    have "length (th_mem_buf td) = 64" using f(1) by (simp add: filled_def buffer_ok_def MAX_NUM_MEM_REFS_def)
    then show "map (\<lambda>i. read_ref ?m (slot_addr td i)) [0..<MAX_NUM_MEM_REFS] ! i = (th_mem_buf td)[k := ?r] ! i"
      using i k old by (simp add: read_stored [OF i k rep(2)] MAX_NUM_MEM_REFS_def nth_list_update)
  qed
  then have rep': "mem_rep tls ?m td'"
    unfolding mem_rep_def sl by (simp add: stored_buf_ptr e nxt) (simp add: td')
  have "fl \<longleftrightarrow> ?p + sizeof_mem_ref + th_buf_end td = 0"
    using rr filled_enabled [OF f(1)] filled_slot [OF f(1)] by (auto simp: record_ref_def Let_def)
  then have "exec tls la a (instrument_mem_fast pc sz w) rs m = Some (?m, fl)" using ex e by simp
  with rep' show ?thesis by blast
qed

section \<open>Recording a sequence of accesses\<close>

text \<open>One access of the program: the inline code records it, and the lean procedure processes the buffer when it is full.\<close>

definition log_access :: "mem_env \<Rightarrow> mem_ref \<Rightarrow> 'b shadow_thread \<Rightarrow> runtime \<Rightarrow> ('b shadow_thread \<times> runtime) option" where
  "log_access me r td g =
     (let (fl, td) = record_ref r td in if fl then process_buffer_ctx me td g else Some (td, g))"

fun log_accesses :: "mem_env \<Rightarrow> mem_ref list \<Rightarrow> 'b shadow_thread \<Rightarrow> runtime \<Rightarrow> ('b shadow_thread \<times> runtime) option" where
  "log_accesses me [] td g = Some (td, g)"
| "log_accesses me (r # rs) td g = Option.bind (log_access me r td g) (\<lambda>(td, g). log_accesses me rs td g)"

definition same_view :: "'b shadow_thread \<Rightarrow> 'b shadow_thread \<Rightarrow> bool" where
  "same_view td td' \<longleftrightarrow> th_detector_data td' = th_detector_data td \<and> th_appstack_beg td' = th_appstack_beg td \<and>
     th_appstack_end td' = th_appstack_end td \<and> th_mem_base td' = th_mem_base td \<and> th_tid td' = th_tid td"

lemma same_view_calls:
  assumes "same_view td td'"
  shows "access_call td' = access_call td" "reported pr td' = reported pr td"
  using assms by (auto simp: same_view_def access_call_def reported_def filtered_memref_def fun_eq_iff)

lemma reported_refs_append: "reported pr td (xs @ ys) = reported pr td xs @ reported pr td ys"
  by (simp add: reported_def)

lemma process_buffer_filled:
  assumes "filled td k" and "th_detector_data td \<noteq> 0" and "\<not> pa_extctrl (rt_params g)"
  shows "\<exists>td'. process_buffer_ctx me td g =
      Some (td', emit (map (access_call td) (reported (rt_params g) td (take k (th_mem_buf td)))) g) \<and>
    filled td' 0 \<and> same_view td td'"
  using assms(1) unfolding process_buffer_ctx_def analyze_access_loop [OF assms]
  by (simp add: filled_def buffer_ok_def same_view_def)

lemma log_access_step:
  assumes f: "filled td k" "k < MAX_NUM_MEM_REFS" and h: "th_detector_data td \<noteq> 0" "\<not> pa_extctrl (rt_params g)"
  shows "\<exists>td' g' k'. log_access me r td g = Some (td', g') \<and> filled td' k' \<and> k' < MAX_NUM_MEM_REFS \<and> same_view td td' \<and>
    rt_params g' = rt_params g \<and>
    rt_calls g' @ map (access_call td) (reported (rt_params g) td (take k' (th_mem_buf td'))) =
    rt_calls g @ map (access_call td) (reported (rt_params g) td (take k (th_mem_buf td) @ [r]))"
proof -
  obtain fl td1 where rr: "record_ref r td = (fl, td1)" by (cases "record_ref r td")
  note step = record_ref_filled [OF f rr]
  have len: "k < length (th_mem_buf td)" using f by (simp add: filled_def buffer_ok_def)
  have buf: "take (Suc k) (th_mem_buf td1) = take k (th_mem_buf td) @ [r]"
    using len by (simp add: step(1) take_Suc_conv_app_nth)
  have view: "same_view td td1" by (simp add: same_view_def step(1))
  note calls = same_view_calls [OF view]
  show ?thesis
  proof (cases fl)
    case True
    have h1: "th_detector_data td1 \<noteq> 0" using h(1) by (simp add: step(1))
    from process_buffer_filled [OF step(2) h1 h(2), of me] obtain td2 where
      p: "process_buffer_ctx me td1 g =
        Some (td2, emit (map (access_call td1) (reported (rt_params g) td1 (take (Suc k) (th_mem_buf td1)))) g)"
      "filled td2 0" "same_view td1 td2" by blast
    have "log_access me r td g =
        Some (td2, emit (map (access_call td) (reported (rt_params g) td (take k (th_mem_buf td) @ [r]))) g)"
      using True p(1) by (simp add: log_access_def rr calls buf)
    moreover have "same_view td td2" using view p(3) by (simp add: same_view_def)
    ultimately show ?thesis using p(2)
      by (intro exI [of _ td2] exI [of _ "emit (map (access_call td) (reported (rt_params g) td (take k (th_mem_buf td) @ [r]))) g"]
            exI [of _ 0])
        (simp add: emit_def MAX_NUM_MEM_REFS_def reported_def)
  next
    case False
    then have "log_access me r td g = Some (td1, g)" by (simp add: log_access_def rr)
    moreover have "Suc k < MAX_NUM_MEM_REFS" using False step(3) f(2) by linarith
    ultimately show ?thesis using step(2) view buf by (intro exI [of _ td1] exI [of _ g] exI [of _ "Suc k"]) simp
  qed
qed

lemma log_accesses_steps:
  "filled td k \<Longrightarrow> k < MAX_NUM_MEM_REFS \<Longrightarrow> th_detector_data td \<noteq> 0 \<Longrightarrow> \<not> pa_extctrl (rt_params g) \<Longrightarrow>
   \<exists>td' g' k'. log_accesses me rs td g = Some (td', g') \<and> filled td' k' \<and> k' < MAX_NUM_MEM_REFS \<and> same_view td td' \<and>
    rt_params g' = rt_params g \<and>
    rt_calls g' @ map (access_call td) (reported (rt_params g) td (take k' (th_mem_buf td'))) =
    rt_calls g @ map (access_call td) (reported (rt_params g) td (take k (th_mem_buf td) @ rs))"
proof (induction rs arbitrary: td g k)
  case Nil
  then show ?case by (auto simp: same_view_def)
next
  case (Cons r rs)
  from log_access_step [OF Cons.prems, of me r] obtain td1 g1 k1 where
    1: "log_access me r td g = Some (td1, g1)" "filled td1 k1" "k1 < MAX_NUM_MEM_REFS" "same_view td td1"
      "rt_params g1 = rt_params g"
      "rt_calls g1 @ map (access_call td) (reported (rt_params g) td (take k1 (th_mem_buf td1))) =
       rt_calls g @ map (access_call td) (reported (rt_params g) td (take k (th_mem_buf td) @ [r]))" by blast
  have "th_detector_data td1 \<noteq> 0" "\<not> pa_extctrl (rt_params g1)"
    using 1(4,5) Cons.prems(3,4) by (simp_all add: same_view_def)
  from Cons.IH [OF 1(2,3) this] obtain td2 g2 k2 where
    2: "log_accesses me rs td1 g1 = Some (td2, g2)" "filled td2 k2" "k2 < MAX_NUM_MEM_REFS" "same_view td1 td2"
      "rt_params g2 = rt_params g1"
      "rt_calls g2 @ map (access_call td1) (reported (rt_params g1) td1 (take k2 (th_mem_buf td2))) =
       rt_calls g1 @ map (access_call td1) (reported (rt_params g1) td1 (take k1 (th_mem_buf td1) @ rs))" by blast
  note c = same_view_calls [OF 1(4)]
  have "rt_calls g2 @ map (access_call td) (reported (rt_params g) td (take k2 (th_mem_buf td2))) =
    (rt_calls g1 @ map (access_call td) (reported (rt_params g) td (take k1 (th_mem_buf td1)))) @
      map (access_call td) (reported (rt_params g) td rs)"
    using 2(6) by (simp add: c 1(5) reported_refs_append)
  also have "\<dots> = rt_calls g @ map (access_call td) (reported (rt_params g) td (take k (th_mem_buf td) @ r # rs))"
    unfolding 1(6) using reported_refs_append [of "rt_params g" td "take k (th_mem_buf td) @ [r]" rs] by simp
  moreover have "log_accesses me (r # rs) td g = Some (td2, g2)" using 1(1) 2(1) by simp
  moreover have "same_view td td2" using 1(4) 2(4) by (simp add: same_view_def)
  ultimately show ?case using 2(2,3,5) 1(5) by auto
qed

lemma record_ref_frame: "same_frame td (snd (record_ref r td))"
  by (simp add: record_ref_def Let_def same_frame_def)

lemma log_access_frame:
  assumes "log_access me r td g = Some (td', g')"
  shows "same_frame td td'"
proof -
  obtain fl td1 where rr: "record_ref r td = (fl, td1)" by (cases "record_ref r td")
  then have "same_frame td td1" using record_ref_frame [of td r] by simp
  moreover have "same_frame td1 td'"
    using assms process_buffer_frame by (auto simp: log_access_def rr split: if_splits)
  ultimately show ?thesis by (rule same_frame_trans)
qed

section \<open>The module cache\<close>

text \<open>The cached module is the one the tracker would find, as long as its entry is current.\<close>

definition cache_current :: "tracker \<Rightarrow> mod_cache \<Rightarrow> bool" where
  "cache_current t c \<longleftrightarrow> (\<forall>pc r. cache_lookup c pc = Some r \<longrightarrow> get_module_containing t pc = Some r)"

fun analyse_blocks :: "tracker \<Rightarrow> (addr \<times> bool) list \<Rightarrow> 'b shadow_thread \<Rightarrow> runtime \<Rightarrow> (u8 list \<times> runtime) option" where
  "analyse_blocks t [] td g = Some ([], g)"
| "analyse_blocks t ((pc, tr) # bs) td g =
     Option.bind (event_app_analysis t pc tr td g)
       (\<lambda>(fl, g). map_option (\<lambda>(fls, g). (fl # fls, g)) (analyse_blocks t bs td g))"

definition block_flags :: "tracker \<Rightarrow> 'b shadow_thread \<Rightarrow> params \<Rightarrow> addr \<times> bool \<Rightarrow> u8" where
  "block_flags t td pr b =
     (let (pc, for_trace) = b;
          fl = (case get_module_containing t pc of Some r \<Rightarrow> md_instrument (tr_objs t ! r) | None \<Rightarrow> INSTR_MEMORY OR INSTR_STACK)
      in if for_trace \<and> pa_excl_traces pr then INSTR_STACK
         else if pa_lossy_flush pr \<and> for_trace \<and> fl \<noteq> INSTR_NONE \<and> pc_in_freq td pc then INSTR_NONE else fl)"

lemma cache_current_update:
  assumes "registered rm ms t" "module_range_ok ms" and "get_module_containing t pc = Some r"
    and "cache_update r (tr_objs t ! r) c = Some c'"
  shows "cache_current t c'"
proof -
  note iff = get_module_iff [OF registered_ok [OF assms(1)] registered_disjoint [OF assms(1,2)]]
  have r: "known_module t r" "r < length ms" using assms(3) iff registered_known [OF assms(1)] by auto
  then have "describes rm (tr_excluded_mods t) (tr_excluded_paths t) (ms ! r) (tr_objs t ! r)"
    using assms(1) by (simp add: registered_def)
  then have "ca_mod c' = Some r" "ca_start c' = md_base (tr_objs t ! r)" "ca_end c' = md_end (tr_objs t ! r)"
    using assms(4) by (auto simp: describes_def cache_update_def)
  then show ?thesis using r(1) by (auto simp: cache_current_def cache_lookup_def iff contains_pc_def split: if_splits)
qed

lemma analysis_step:
  assumes "registered rm ms t" "module_range_ok ms" and "cache_current t (rt_cache g)"
  shows "\<exists>g'. event_app_analysis t pc tr td g = Some (block_flags t td (rt_params g) (pc, tr), g') \<and>
    cache_current t (rt_cache g') \<and> rt_params g' = rt_params g"
proof (cases "cache_lookup (rt_cache g) pc")
  case (Some r)
  then have "get_module_containing t pc = Some r" using assms(3) by (simp add: cache_current_def)
  with Some assms(3) show ?thesis by (auto simp: event_app_analysis_def block_flags_def)
next
  case None
  show ?thesis
  proof (cases "get_module_containing t pc")
    case None
    with \<open>cache_lookup (rt_cache g) pc = None\<close> assms(3) show ?thesis
      by (auto simp: event_app_analysis_def block_flags_def)
  next
    case (Some r)
    note iff = get_module_iff [OF registered_ok [OF assms(1)] registered_disjoint [OF assms(1,2)]]
    have "r < length ms" using Some iff registered_known [OF assms(1)] by auto
    then have "describes rm (tr_excluded_mods t) (tr_excluded_paths t) (ms ! r) (tr_objs t ! r)"
      using assms(1) by (simp add: registered_def)
    then obtain c' where c': "cache_update r (tr_objs t ! r) (rt_cache g) = Some c'"
      by (auto simp: describes_def cache_update_def)
    note cur = cache_current_update [OF assms(1,2) Some c']
    show ?thesis using None Some c' cur assms(3) by (auto simp: event_app_analysis_def block_flags_def)
  qed
qed

lemma analyse_blocks_flags:
  assumes "registered rm ms t" "module_range_ok ms"
  shows "cache_current t (rt_cache g) \<Longrightarrow>
    \<exists>g'. analyse_blocks t bs td g = Some (map (block_flags t td (rt_params g)) bs, g')"
proof (induction bs arbitrary: g)
  case (Cons b bs)
  obtain pc tr where b: "b = (pc, tr)" by (cases b)
  from analysis_step [OF assms Cons.prems, of pc tr td] obtain g1 where
    1: "event_app_analysis t pc tr td g = Some (block_flags t td (rt_params g) (pc, tr), g1)"
    "cache_current t (rt_cache g1)" "rt_params g1 = rt_params g" by blast
  from Cons.IH [OF 1(2)] obtain g2 where "analyse_blocks t bs td g1 = Some (map (block_flags t td (rt_params g1)) bs, g2)" by blast
  with 1 show ?case by (simp add: b)
qed simp

section \<open>Properties\<close>

definition sample_thread :: "unit shadow_thread" where
  "sample_thread = (new_shadow_thread params_init () 5)\<lparr>th_mem_base := 65536, th_mem_buf := replicate 64 \<lparr>mr_addr = 0, mr_pc = 0, mr_size = 0\<rparr>,
     th_buf_ptr := 65536, th_buf_end := - 67072, th_detector_data := 7\<rparr>"

definition sample_runtime :: runtime where
  "sample_runtime = \<lparr>rt_params = params_init, rt_runtime_tid = 1, rt_min_period = 1, rt_max_period = 2, rt_enable_external = True,
     rt_ext = None, rt_draws = 0, rt_cache = cache_init, rt_calls = [], rt_flushed = [], rt_stats = statistics_new\<rparr>"

definition sample_memory :: "addr \<Rightarrow> u64" where
  "sample_memory = (\<lambda>_. 0)(256 := 65536, 264 := - 67072)"

lemma sample_filled: "filled sample_thread 0"
  by (simp add: filled_def buffer_ok_def sample_thread_def MAX_NUM_MEM_REFS_def MEM_BUF_SIZE_def sizeof_mem_ref_def)

text \<open>C5: The inline code that is inserted before a memory access does exactly what its comment says: with the
  detector disabled nothing; otherwise it stores address, size with the write mark and pc in the next
  slot of the buffer, advances the buffer pointer and makes the clean call exactly when the buffer is full.\<close>

theorem inline_code_refines:
  assumes "mem_rep tls m td" "tls_apart tls td"
    and "\<not> is_enabled td \<or> (filled td k \<and> k < MAX_NUM_MEM_REFS)"
  shows "\<exists>m'. exec tls la a (instrument_mem_fast pc sz w) rs m = Some (m', fst (record_ref (access_ref a pc sz w) td)) \<and>
    mem_rep tls m' (snd (record_ref (access_ref a pc sz w) td))"
proof (cases "is_enabled td")
  case True
  obtain fl td' where "record_ref (access_ref a pc sz w) td = (fl, td')" by (cases "record_ref (access_ref a pc sz w) td")
  with inline_code_records [OF assms(1,2)] assms(3) True show ?thesis by auto
next
  case False
  then show ?thesis using assms(1) exec_disabled [of m tls]
    by (simp add: record_ref_def mem_rep_def is_enabled_def)
qed

lemma inline_code_refines_witness:
  "\<exists>m'. exec 256 (\<lambda>_. 0) 4096 (instrument_mem_fast 8192 4 True) (\<lambda>_. 0) sample_memory =
      Some (m', fst (record_ref (access_ref 4096 8192 4 True) sample_thread)) \<and>
    mem_rep 256 m' (snd (record_ref (access_ref 4096 8192 4 True) sample_thread))"
proof (rule inline_code_refines [where k = 0])
  show "mem_rep 256 sample_memory sample_thread" by code_simp
  show "tls_apart 256 sample_thread" by code_simp
  show "\<not> is_enabled sample_thread \<or> (filled sample_thread 0 \<and> 0 < MAX_NUM_MEM_REFS)"
    using sample_filled by (simp add: MAX_NUM_MEM_REFS_def)
qed





end
