(* ===== verification/RaceCollect.thy ===== *)
theory RaceCollect
  imports RaceFilters ModTracker
begin

text \<open>
  Symbol look-up (\<^verbatim>\<open>drace-client/src/symbol/Symbols.cpp\<close>, native modules) and the race
  collector (\<^verbatim>\<open>drace-client/src/race-collector.cpp\<close>,
  \<^verbatim>\<open>include/race-collector.h\<close>): duplicate filter, plausibility filter, symbol resolution,
  suppression, sinks. The debug information is the argument \<open>look\<close> (offset in the module to
  result), a sink is the list of races it was given, and the elapsed time is an argument.
\<close>

section \<open>Symbol look-up\<close>

datatype sym_lookup = SymOk string string u64 u64 | SymLineNA string | SymError

definition max_distance :: u64 where
  "max_distance = 32"

text \<open>
  The search runs backwards on unsigned offsets: \<open>None\<close> is a search that never ends,
  \<open>Some SymError\<close> one that finds nothing.
\<close>

partial_function (option) sym_search :: "(u64 \<Rightarrow> sym_lookup) \<Rightarrow> u64 \<Rightarrow> u64 \<Rightarrow> sym_lookup option" where
  "sym_search look offs limit =
     (if limit \<le> offs then
        (if look offs = SymError then sym_search look (offs - 1) limit else Some (look offs))
      else Some SymError)"

definition search_limit :: "u64 \<Rightarrow> u64" where
  "search_limit offs = max 0 (offs - max_distance)"

text \<open>The module of a pc: its base, its end, its name and its debug information.\<close>

type_synonym mod_info = "addr \<times> addr \<times> string \<times> (u64 \<Rightarrow> sym_lookup)"

definition get_bb_symbol :: "(addr \<Rightarrow> mod_info option) \<Rightarrow> addr \<Rightarrow> string option" where
  "get_bb_symbol modof pc =
     (case modof pc of
        None \<Rightarrow> Some ''unknown''
      | Some (base, mend, name, look) \<Rightarrow>
          (case sym_search look (pc - base) (search_limit (pc - base)) of
             None \<Rightarrow> None
           | Some (SymOk n f l lo) \<Rightarrow> Some n
           | Some (SymLineNA n) \<Rightarrow> Some n
           | Some SymError \<Rightarrow> Some ''unknown''))"

definition get_symbol_info :: "(addr \<Rightarrow> mod_info option) \<Rightarrow> addr \<Rightarrow> symbol_location option" where
  "get_symbol_info modof pc =
     (let sloc = symbol_location_init\<lparr>sl_pc := pc\<rparr> in
      case modof pc of
        None \<Rightarrow> Some sloc
      | Some (base, mend, name, look) \<Rightarrow>
          (let sloc = sloc\<lparr>sl_mod_base := base, sl_mod_end := mend, sl_mod_name := name\<rparr> in
           case sym_search look (pc - base) (search_limit (pc - base)) of
             None \<Rightarrow> None
           | Some (SymOk n f l lo) \<Rightarrow> Some (sloc\<lparr>sl_sym_name := n, sl_file := f, sl_line := l, sl_line_offs := lo\<rparr>)
           | Some (SymLineNA n) \<Rightarrow> Some (sloc\<lparr>sl_sym_name := n\<rparr>)
           | Some SymError \<Rightarrow> Some sloc))"

section \<open>The collector\<close>

record collector =
  rc_races :: "decorated_race list"
  rc_race_count :: u32
  rc_delayed_lookup :: bool
  rc_racy_stacks :: "u64 list"
  rc_sinks :: "decorated_race list list"
  rc_filter :: race_filter

definition collector_new :: "bool \<Rightarrow> race_filter \<Rightarrow> collector" where
  "collector_new delayed f = \<lparr>rc_races = [], rc_race_count = 0, rc_delayed_lookup = delayed, rc_racy_stacks = [],
     rc_sinks = [], rc_filter = f\<rparr>"

definition register_sink :: "collector \<Rightarrow> collector" where
  "register_sink c = c\<lparr>rc_sinks := rc_sinks c @ [[]]\<rparr>"

definition MAX_RACES :: nat where
  "MAX_RACES = 200"

record collect_env =
  ce_regex :: "string \<Rightarrow> string \<Rightarrow> bool"
  ce_instrument :: "addr \<Rightarrow> u8 option"
  ce_symbols :: "addr \<Rightarrow> symbol_location"
  ce_suppression_level :: u32

definition race_hash :: "race \<Rightarrow> u64" where
  "race_hash r = xor (ae_stack_trace (fst r) ! 0) (push_bit 1 (ae_stack_trace (snd r) ! 0))"

definition filter_duplicates :: "collect_env \<Rightarrow> race \<Rightarrow> collector \<Rightarrow> bool \<times> collector" where
  "filter_duplicates ce r c =
     (if ce_suppression_level ce = 0 then (False, c)
      else if race_hash r \<notin> set (rc_racy_stacks c)
           then (False, c\<lparr>rc_racy_stacks := race_hash r # rc_racy_stacks c\<rparr>)
           else (True, c))"

definition resolve_symbols :: "collect_env \<Rightarrow> resolved_access \<Rightarrow> resolved_access" where
  "resolve_symbols ce ra =
     ra\<lparr>ra_resolved := ra_resolved ra @
       map (\<lambda>i. ce_symbols ce (ae_stack_trace (ra_entry ra) ! i)) [0..<ae_stack_size (ra_entry ra)]\<rparr>"

definition resolve_race :: "collect_env \<Rightarrow> decorated_race \<Rightarrow> decorated_race" where
  "resolve_race ce r =
     (let r = (if \<not> dr_is_resolved r
               then r\<lparr>dr_resolved_addr := ce_symbols ce (ae_accessed_memory (ra_entry (dr_first r))),
                      dr_first := resolve_symbols ce (dr_first r), dr_second := resolve_symbols ce (dr_second r)\<rparr>
               else r)
      in r\<lparr>dr_is_resolved := True\<rparr>)"

definition forward_race :: "decorated_race \<Rightarrow> collector \<Rightarrow> collector" where
  "forward_race r c = c\<lparr>rc_sinks := map (\<lambda>s. s @ [r]) (rc_sinks c)\<rparr>"

text \<open>\<open>None\<close>: an assertion fails, or a suppression check is undefined.\<close>

definition add_race :: "collect_env \<Rightarrow> int \<Rightarrow> race \<Rightarrow> collector \<Rightarrow> collector option" where
  "add_race ce ttr r c =
     (if MAX_RACES < unat (rc_race_count c) then Some c
      else (let (dup, c) = filter_duplicates ce r c in
        if \<not> dup \<and> \<not> check_implausible (ce_instrument ce) r then
          (if \<not> (0 < ae_stack_size (fst r) \<and> 0 < ae_stack_size (snd r)) then None
           else (let d = decorated_race_of r ttr in
             if rc_delayed_lookup c
             then (let c = c\<lparr>rc_races := rc_races c @ [d]\<rparr>;
                       c = forward_race d c
                   in Some (c\<lparr>rc_race_count := rc_race_count c + 1\<rparr>))
             else (let d = resolve_race ce d;
                       c = c\<lparr>rc_races := rc_races c @ [d]\<rparr> in
                   case check_suppress (ce_regex ce) (rc_filter c) d of
                     None \<Rightarrow> None
                   | Some True \<Rightarrow> Some c
                   | Some False \<Rightarrow>
                       (let c = forward_race d c;
                            c = c\<lparr>rc_races := butlast (rc_races c)\<rparr>
                        in Some (c\<lparr>rc_race_count := rc_race_count c + 1\<rparr>)))))
        else Some c))"

fun resolve_loop :: "collect_env \<Rightarrow> race_filter \<Rightarrow> decorated_race list \<Rightarrow> u32 \<Rightarrow> (decorated_race list \<times> u32) option" where
  "resolve_loop ce f [] n = Some ([], n)"
| "resolve_loop ce f (r # rs) n =
     (let r = resolve_race ce r in
      case check_suppress (ce_regex ce) f r of
        None \<Rightarrow> None
      | Some True \<Rightarrow> resolve_loop ce f rs (n - 1)
      | Some False \<Rightarrow> map_option (\<lambda>(rs', n'). (r # rs', n')) (resolve_loop ce f rs n))"

definition resolve_all :: "collect_env \<Rightarrow> collector \<Rightarrow> collector option" where
  "resolve_all ce c = map_option (\<lambda>(rs, n). c\<lparr>rc_races := rs, rc_race_count := n\<rparr>)
     (resolve_loop ce (rc_filter c) (rc_races c) (rc_race_count c))"

fun add_races :: "collect_env \<Rightarrow> (int \<times> race) list \<Rightarrow> collector \<Rightarrow> collector option" where
  "add_races ce [] c = Some c"
| "add_races ce ((ttr, r) # rs) c = Option.bind (add_race ce ttr r c) (add_races ce rs)"

section \<open>Facts about the search\<close>

lemma sym_search_stop: "offs < limit \<Longrightarrow> sym_search look offs limit = Some SymError"
  by (subst sym_search.simps) (auto dest: leD)

text \<open>With a limit above zero the search looks at the offsets from the pc down to the limit.\<close>

lemma sym_search_bounded:
  assumes "0 < limit"
  shows "offs = limit + of_nat k - 1 \<Longrightarrow> unat limit + k \<le> 2 ^ 64 \<Longrightarrow>
    sym_search look offs limit =
      Some (case find (\<lambda>x. look x \<noteq> SymError) (map (\<lambda>i. limit + of_nat i) (rev [0..<k])) of
              None \<Rightarrow> SymError | Some x \<Rightarrow> look x)"
proof (induction k arbitrary: offs)
  case 0
  moreover have "limit \<noteq> 0" using assms by auto
  then have "unat (limit - 1) < unat limit" by (rule measure_unat)
  ultimately have "offs < limit" by (simp add: word_less_nat_alt)
  then show ?case by (simp add: sym_search_stop)
next
  case (Suc k)
  have o: "offs = limit + of_nat k" using Suc.prems(1) by simp
  have "unat limit + k < 2 ^ 64" using Suc.prems(2) by simp
  then have "unat offs = unat limit + k"
    unfolding o by (subst unat_add_no_wrap) (simp_all add: unsigned_of_nat take_bit_eq_mod)
  then have le: "limit \<le> offs" by (simp add: word_le_nat_alt)
  show ?case
  proof (cases "look offs = SymError")
    case True
    with le Suc.IH [of "offs - 1"] Suc.prems(2) show ?thesis
      by (subst sym_search.simps) (simp add: o)
  next
    case False
    with le show ?thesis by (subst sym_search.simps) (simp add: o)
  qed
qed

section \<open>Facts about the collector\<close>

lemma filter_duplicates_frame:
  "filter_duplicates ce r c = (dup, c') \<Longrightarrow> rc_races c' = rc_races c \<and> rc_race_count c' = rc_race_count c \<and>
     rc_sinks c' = rc_sinks c \<and> rc_filter c' = rc_filter c \<and> rc_delayed_lookup c' = rc_delayed_lookup c"
  by (auto simp: filter_duplicates_def split: if_splits)

lemma filter_duplicates_fresh:
  "filter_duplicates ce r c = (False, c') \<Longrightarrow> ce_suppression_level ce \<noteq> 0 \<Longrightarrow>
     race_hash r \<notin> set (rc_racy_stacks c) \<and> rc_racy_stacks c' = race_hash r # rc_racy_stacks c"
  by (auto simp: filter_duplicates_def split: if_splits)

lemma filter_duplicates_stacks:
  "filter_duplicates ce r c = (dup, c') \<Longrightarrow> set (rc_racy_stacks c) \<subseteq> set (rc_racy_stacks c')"
  by (auto simp: filter_duplicates_def split: if_splits)

text \<open>The race behind a decorated one.\<close>

definition raw_race :: "decorated_race \<Rightarrow> race" where
  "raw_race d = (ra_entry (dr_first d), ra_entry (dr_second d))"

lemma raw_race_of [simp]: "raw_race (decorated_race_of r ttr) = r"
  by (simp add: raw_race_def decorated_race_of_def resolved_access_of_def)

lemma raw_race_resolve [simp]: "raw_race (resolve_race ce d) = raw_race d"
  by (simp add: raw_race_def resolve_race_def resolve_symbols_def Let_def)

text \<open>
  What a sink has been given: distinct top hashes (if duplicates are filtered), plausible races,
  and without delayed look-up only races that are not suppressed.
\<close>

definition given_ok :: "collect_env \<Rightarrow> collector \<Rightarrow> decorated_race list \<Rightarrow> bool" where
  "given_ok ce c ds \<longleftrightarrow>
     length ds = unat (rc_race_count c) \<and> length ds \<le> Suc MAX_RACES \<and>
     (ce_suppression_level ce \<noteq> 0 \<longrightarrow> distinct (map (race_hash \<circ> raw_race) ds) \<and>
        (race_hash \<circ> raw_race) ` set ds \<subseteq> set (rc_racy_stacks c)) \<and>
     (\<forall>d \<in> set ds. \<not> check_implausible (ce_instrument ce) (raw_race d) \<and>
        (\<not> rc_delayed_lookup c \<longrightarrow> dr_is_resolved d \<and> check_suppress (ce_regex ce) (rc_filter c) d = Some False)) \<and>
     (rc_delayed_lookup c \<longrightarrow> rc_races c = ds)"

definition collector_ok :: "collect_env \<Rightarrow> collector \<Rightarrow> decorated_race list \<Rightarrow> bool" where
  "collector_ok ce c ds \<longleftrightarrow> given_ok ce c ds \<and> (\<forall>s \<in> set (rc_sinks c). s = ds)"

lemma collector_ok_new: "\<forall>s \<in> set sinks. s = [] \<Longrightarrow> collector_ok ce ((collector_new delayed f)\<lparr>rc_sinks := sinks\<rparr>) []"
  by (simp add: collector_ok_def given_ok_def collector_new_def)

lemma given_ok_skip:
  assumes "given_ok ce c ds" and "set (rc_racy_stacks c) \<subseteq> set (rc_racy_stacks c')"
    and "rc_race_count c' = rc_race_count c" and "rc_filter c' = rc_filter c"
    and "rc_delayed_lookup c' = rc_delayed_lookup c" and "rc_delayed_lookup c \<longrightarrow> rc_races c' = rc_races c"
  shows "given_ok ce c' ds"
  using assms unfolding given_ok_def by auto

lemma given_ok_add:
  assumes "given_ok ce c ds" and "unat (rc_race_count c) \<le> MAX_RACES"
    and "filter_duplicates ce (raw_race d) c = (False, c1)" and "\<not> check_implausible (ce_instrument ce) (raw_race d)"
    and "\<not> rc_delayed_lookup c \<longrightarrow> dr_is_resolved d \<and> check_suppress (ce_regex ce) (rc_filter c) d = Some False"
    and "rc_race_count c' = rc_race_count c + 1" and "rc_racy_stacks c' = rc_racy_stacks c1"
    and "rc_filter c' = rc_filter c" and "rc_delayed_lookup c' = rc_delayed_lookup c"
    and "rc_delayed_lookup c \<longrightarrow> rc_races c' = rc_races c @ [d]"
  shows "given_ok ce c' (ds @ [d])"
proof -
  have cnt: "unat (rc_race_count c + 1) = Suc (unat (rc_race_count c))"
    using assms(2) by (subst unat_add_no_wrap) (simp_all add: MAX_RACES_def)
  have hash: "ce_suppression_level ce \<noteq> 0 \<longrightarrow> race_hash (raw_race d) \<notin> set (rc_racy_stacks c) \<and>
      rc_racy_stacks c1 = race_hash (raw_race d) # rc_racy_stacks c"
    using filter_duplicates_fresh [OF assms(3)] by simp
  show ?thesis using assms cnt hash unfolding given_ok_def by auto
qed

lemma add_race_ok:
  assumes "collector_ok ce c ds" and "add_race ce ttr r c = Some c'"
  shows "\<exists>ds'. collector_ok ce c' ds'"
proof (cases "MAX_RACES < unat (rc_race_count c)")
  case True
  with assms show ?thesis by (auto simp: add_race_def)
next
  case False
  obtain dup c1 where f: "filter_duplicates ce r c = (dup, c1)" by (cases "filter_duplicates ce r c")
  note fr = filter_duplicates_frame [OF f] and st = filter_duplicates_stacks [OF f]
  have skip: "collector_ok ce c2 ds" if "rc_race_count c2 = rc_race_count c1" "rc_racy_stacks c2 = rc_racy_stacks c1"
    "rc_filter c2 = rc_filter c1" "rc_sinks c2 = rc_sinks c1" "rc_delayed_lookup c2 = rc_delayed_lookup c1"
    "rc_delayed_lookup c1 \<longrightarrow> rc_races c2 = rc_races c1" for c2
    using given_ok_skip [of ce c ds c2] assms(1) fr st that by (simp add: collector_ok_def)
  show ?thesis
  proof (cases "\<not> dup \<and> \<not> check_implausible (ce_instrument ce) r")
    case no: False
    with False f assms(2) have "c' = c1" by (auto simp: add_race_def)
    with skip [of c1] show ?thesis by auto
  next
    case yes: True
    let ?d = "decorated_race_of r ttr" and ?e = "resolve_race ce (decorated_race_of r ttr)"
    have sizes: "0 < ae_stack_size (fst r) \<and> 0 < ae_stack_size (snd r)"
      using False f yes assms(2) by (auto simp: add_race_def split: if_splits)
    have f': "filter_duplicates ce r c = (False, c1)" using f yes by simp
    show ?thesis
    proof (cases "rc_delayed_lookup c1")
      case True
      with False f' yes sizes assms(2)
      have c': "c' = (forward_race ?d (c1\<lparr>rc_races := rc_races c1 @ [?d]\<rparr>))\<lparr>rc_race_count := rc_race_count c1 + 1\<rparr>"
        by (simp add: add_race_def Let_def forward_race_def)
      have "given_ok ce c' (ds @ [?d])"
        by (rule given_ok_add [of ce c ds ?d c1])
          (use assms(1) False f' yes fr True in \<open>simp_all add: collector_ok_def c' forward_race_def\<close>)
      moreover have "\<forall>s \<in> set (rc_sinks c'). s = ds @ [?d]"
        using assms(1) fr by (simp add: collector_ok_def c' forward_race_def)
      ultimately show ?thesis unfolding collector_ok_def by blast
    next
      case stream: False
      have res: "dr_is_resolved ?e" by (simp add: resolve_race_def Let_def)
      show ?thesis
      proof (cases "check_suppress (ce_regex ce) (rc_filter c1) ?e")
        case None
        with False f' yes sizes stream assms(2) show ?thesis by (simp add: add_race_def Let_def)
      next
        case (Some sup)
        show ?thesis
        proof (cases sup)
          case True
          with Some False f' yes sizes stream assms(2) have "c' = c1\<lparr>rc_races := rc_races c1 @ [?e]\<rparr>"
            by (simp add: add_race_def Let_def)
          with skip [of c'] stream show ?thesis by auto
        next
          case nsup: False
          with Some False f' yes sizes stream assms(2)
          have c': "c' = (forward_race ?e (c1\<lparr>rc_races := rc_races c1\<rparr>))\<lparr>rc_race_count := rc_race_count c1 + 1\<rparr>"
            by (simp add: add_race_def Let_def forward_race_def)
          have "given_ok ce c' (ds @ [?e])"
            by (rule given_ok_add [of ce c ds ?e c1])
              (use assms(1) False f' yes fr stream res Some nsup in \<open>simp_all add: collector_ok_def c' forward_race_def\<close>)
          moreover have "\<forall>s \<in> set (rc_sinks c'). s = ds @ [?e]"
            using assms(1) fr by (simp add: collector_ok_def c' forward_race_def)
          ultimately show ?thesis unfolding collector_ok_def by blast
        qed
      qed
    qed
  qed
qed

lemma add_races_ok:
  "collector_ok ce c ds \<Longrightarrow> add_races ce rs c = Some c' \<Longrightarrow> \<exists>ds'. collector_ok ce c' ds'"
proof (induction ce rs c arbitrary: ds rule: add_races.induct)
  case (2 ce ttr r rs c)
  then obtain c1 where "add_race ce ttr r c = Some c1" "add_races ce rs c1 = Some c'"
    by (auto simp: bind_eq_Some_conv)
  with 2 add_race_ok [OF 2(2)] show ?case by metis
qed auto

lemma add_race_delayed: "add_race ce ttr r c = Some c' \<Longrightarrow> rc_delayed_lookup c' = rc_delayed_lookup c"
  by (auto simp: add_race_def Let_def forward_race_def dest!: filter_duplicates_frame
      split: if_splits prod.splits option.splits bool.splits)

lemma add_races_delayed: "add_races ce rs c = Some c' \<Longrightarrow> rc_delayed_lookup c' = rc_delayed_lookup c"
proof (induction ce rs c rule: add_races.induct)
  case (2 ce ttr r rs c)
  then obtain c1 where "add_race ce ttr r c = Some c1" "add_races ce rs c1 = Some c'"
    by (auto simp: bind_eq_Some_conv)
  with 2 add_race_delayed [of ce ttr r c c1] show ?case by simp
qed simp

lemma resolve_loop_spec:
  assumes "resolve_loop ce f rs n = Some (rs', n')"
  shows "rs' = filter (\<lambda>d. check_suppress (ce_regex ce) f d = Some False) (map (resolve_race ce) rs) \<and>
    n' = n - of_nat (length rs - length rs') \<and> length rs' \<le> length rs"
  using assms
proof (induction ce f rs n arbitrary: rs' n' rule: resolve_loop.induct)
  case (2 ce f r rs n)
  let ?d = "resolve_race ce r"
  show ?case
  proof (cases "check_suppress (ce_regex ce) f ?d")
    case (Some sup)
    show ?thesis
    proof (cases sup)
      case True
      with Some 2(3) have "resolve_loop ce f rs (n - 1) = Some (rs', n')" by simp
      from 2(1) [OF refl Some _ this] True
      have ih: "rs' = filter (\<lambda>d. check_suppress (ce_regex ce) f d = Some False) (map (resolve_race ce) rs)"
        "n' = n - 1 - of_nat (length rs - length rs')" "length rs' \<le> length rs" by blast+
      from ih(2,3) have "n' = n - of_nat (length (r # rs) - length rs')" "length rs' \<le> length (r # rs)"
        by (simp_all add: Suc_diff_le)
      moreover have "rs' = filter (\<lambda>d. check_suppress (ce_regex ce) f d = Some False) (map (resolve_race ce) (r # rs))"
        using ih(1) Some True by simp
      ultimately show ?thesis by blast
    next
      case False
      with Some 2(3) obtain rs1 where r1: "resolve_loop ce f rs n = Some (rs1, n')" "rs' = ?d # rs1" by auto
      from 2(2) [OF refl Some _ r1(1)] Some False r1(2) show ?thesis by simp
    qed
  qed (use 2(3) in simp)
qed auto

section \<open>Properties\<close>

text \<open>C32: Whatever races the detector reports, every sink receives the same races in the same order: no
  two with the same key of stack bottoms (unless the duplicate filter is off), none with a
  null pc or in a module that is not instrumented, none that is suppressed (in streaming mode),
  at most 201 of them, and the race count is their number.\<close>

theorem sinks_get_filtered_races:
  assumes "add_races ce rs ((collector_new delayed f)\<lparr>rc_sinks := replicate n []\<rparr>) = Some c"
  shows "\<exists>ds. rc_sinks c = replicate (length (rc_sinks c)) ds \<and> given_ok ce c ds"
proof -
  have "collector_ok ce ((collector_new delayed f)\<lparr>rc_sinks := replicate n []\<rparr>) []"
    by (rule collector_ok_new) simp
  from add_races_ok [OF this assms] obtain ds where "collector_ok ce c ds" by blast
  then show ?thesis unfolding collector_ok_def
    by (intro exI [of _ ds]) (metis replicate_length_same)
qed

definition plain_env :: collect_env where
  "plain_env = \<lparr>ce_regex = (\<lambda>p s. p = s), ce_instrument = (\<lambda>a. None), ce_symbols = (\<lambda>a. symbol_location_init\<lparr>sl_pc := a\<rparr>),
     ce_suppression_level = 1\<rparr>"

definition simple_access :: "u64 \<Rightarrow> access_entry" where
  "simple_access pc = access_entry_init\<lparr>ae_stack_size := 1, ae_stack_trace := pc # replicate 15 0\<rparr>"

lemma sinks_get_filtered_races_witness:
  "\<exists>c ds. add_races plain_env [(0, simple_access 5, simple_access 6), (1, simple_access 5, simple_access 6), (2, simple_access 7, simple_access 6)]
       ((collector_new False race_filter_empty)\<lparr>rc_sinks := replicate 2 []\<rparr>) = Some c \<and>
     rc_sinks c = [ds, ds] \<and> length ds = 2 \<and> given_ok plain_env c ds"
proof -
  let ?rs = "[(0, simple_access 5, simple_access 6), (1, simple_access 5, simple_access 6), (2, simple_access 7, simple_access 6)]"
  let ?c = "(collector_new False race_filter_empty)\<lparr>rc_sinks := replicate 2 []\<rparr>"
  have "case add_races plain_env ?rs ?c of None \<Rightarrow> False | Some c \<Rightarrow> map length (rc_sinks c) = [2, 2]" by code_simp
  then obtain c where c: "add_races plain_env ?rs ?c = Some c" "map length (rc_sinks c) = [2, 2]"
    by (auto split: option.splits)
  from sinks_get_filtered_races [OF c(1)] obtain ds where
    "rc_sinks c = replicate (length (rc_sinks c)) ds" "given_ok plain_env c ds" by blast
  moreover have "length (rc_sinks c) = 2" using c(2) by (metis length_map list.size(3,4) numeral_2_eq_2 One_nat_def add_0 add_Suc_right plus_1_eq_Suc)
  ultimately have ds: "rc_sinks c = [ds, ds]" "given_ok plain_env c ds" by (simp_all add: numeral_2_eq_2)
  with c(2) have "length ds = 2" by simp
  with c(1) ds show ?thesis by blast
qed

text \<open>With delayed look-up, resolving at the end keeps exactly the races that are not suppressed,
  resolved and in order, and the race count becomes their number.\<close>

theorem resolve_all_keeps_unsuppressed:
  assumes "add_races ce rs (collector_new True f) = Some c" and "resolve_all ce c = Some c'"
  shows "rc_races c' = filter (\<lambda>d. check_suppress (ce_regex ce) (rc_filter c) d = Some False) (map (resolve_race ce) (rc_races c)) \<and>
    unat (rc_race_count c') = length (rc_races c')"
proof -
  have "collector_ok ce (collector_new True f) []"
    using collector_ok_new [of "[]" ce True f] by (simp add: collector_new_def)
  from add_races_ok [OF this assms(1)] obtain ds where ok: "given_ok ce c ds" by (auto simp: collector_ok_def)
  have "rc_delayed_lookup c" using add_races_delayed [OF assms(1)] by (simp add: collector_new_def)
  with ok have len: "length (rc_races c) = unat (rc_race_count c)" by (simp add: given_ok_def)
  from assms(2) obtain rs' n' where r: "resolve_loop ce (rc_filter c) (rc_races c) (rc_race_count c) = Some (rs', n')"
    and c': "c' = c\<lparr>rc_races := rs', rc_race_count := n'\<rparr>" by (auto simp: resolve_all_def)
  have spec: "rs' = filter (\<lambda>d. check_suppress (ce_regex ce) (rc_filter c) d = Some False) (map (resolve_race ce) (rc_races c))"
    "n' = rc_race_count c - of_nat (length (rc_races c) - length rs')" "length rs' \<le> length (rc_races c)"
    using resolve_loop_spec [OF r] by blast+
  have "n' = of_nat (length (rc_races c)) - of_nat (length (rc_races c) - length rs')"
    using spec(2) len by simp
  also have "\<dots> = of_nat (length rs')" using spec(3) by (simp add: of_nat_diff)
  finally have "n' = of_nat (length rs')" .
  moreover have "length rs' \<le> unat (rc_race_count c)" using spec(3) len by simp
  from le_less_trans [OF this unat_bound] have "length rs' < 2 ^ 32" by (simp only: len_num1 len_bit0 len_bit1) simp
  ultimately have "unat n' = length rs'" by (simp add: unsigned_of_nat take_bit_eq_mod)
  with spec(1) c' show ?thesis by simp
qed

definition bad_env :: collect_env where
  "bad_env = plain_env\<lparr>ce_symbols := (\<lambda>a. symbol_location_init\<lparr>sl_sym_name := if a = 5 then ''bad'' else ''ok''\<rparr>)\<rparr>"

definition bad_filter :: race_filter where
  "bad_filter = race_filter_empty\<lparr>rf_race := [''bad'']\<rparr>"

lemma resolve_all_keeps_unsuppressed_witness:
  "\<exists>c c'. add_races bad_env [(0, simple_access 5, simple_access 6), (1, simple_access 7, simple_access 6)] (collector_new True bad_filter) = Some c \<and>
     resolve_all bad_env c = Some c' \<and> length (rc_races c) = 2 \<and> length (rc_races c') = 1 \<and> unat (rc_race_count c') = 1"
proof -
  let ?rs = "[(0, simple_access 5, simple_access 6), (1, simple_access 7, simple_access 6)]"
  have "case add_races bad_env ?rs (collector_new True bad_filter) of None \<Rightarrow> False | Some c \<Rightarrow> length (rc_races c) = 2 \<and>
      (case resolve_all bad_env c of None \<Rightarrow> False | Some c' \<Rightarrow> length (rc_races c') = 1)" by code_simp
  then obtain c c' where c: "add_races bad_env ?rs (collector_new True bad_filter) = Some c" "length (rc_races c) = 2"
    "resolve_all bad_env c = Some c'" "length (rc_races c') = 1"
    by (auto split: option.splits)
  from resolve_all_keeps_unsuppressed [OF c(1,3)] c show ?thesis by auto
qed

text \<open>In streaming mode a suppressed race is not forwarded and not counted, but it stays in the
  container that is documented to be empty in this mode.\<close>

theorem streaming_keeps_suppressed:
  assumes "\<not> rc_delayed_lookup c" and "add_race ce ttr r c = Some c'" and "rc_races c' \<noteq> rc_races c"
  shows "\<exists>d. rc_races c' = rc_races c @ [d] \<and> raw_race d = r \<and>
    check_suppress (ce_regex ce) (rc_filter c) d = Some True \<and> rc_sinks c' = rc_sinks c \<and> rc_race_count c' = rc_race_count c"
  using assms
  by (auto simp: add_race_def Let_def forward_race_def dest!: filter_duplicates_frame
      split: if_splits prod.splits option.splits bool.splits intro!: exI [of _ "resolve_race ce (decorated_race_of r ttr)"])

lemma streaming_keeps_suppressed_witness:
  "\<exists>c'. add_race bad_env 0 (simple_access 5, simple_access 6) (collector_new False bad_filter) = Some c' \<and>
     length (rc_races c') = 1 \<and> rc_race_count c' = 0"
proof -
  let ?c = "collector_new False bad_filter" and ?r = "(simple_access 5, simple_access 6)"
  have "case add_race bad_env 0 ?r ?c of None \<Rightarrow> False | Some c' \<Rightarrow> length (rc_races c') = 1" by code_simp
  then obtain c' where c': "add_race bad_env 0 ?r ?c = Some c'" "length (rc_races c') = 1" by (auto split: option.splits)
  moreover have "rc_races c' \<noteq> rc_races ?c" using c'(2) by (auto simp: collector_new_def)
  moreover have "\<not> rc_delayed_lookup ?c" "rc_race_count ?c = 0" by (simp_all add: collector_new_def)
  ultimately show ?thesis using streaming_keeps_suppressed [of ?c bad_env 0 ?r c'] by auto
qed

text \<open>C38: More than 32 bytes into a module the symbol found for a pc is that of the nearest offset at or
  up to 32 bytes below it that has one, and the search ends.\<close>

theorem symbol_search_window:
  assumes "32 < unat offs"
  shows "sym_search look offs (search_limit offs) =
    Some (case find (\<lambda>x. look x \<noteq> SymError) (map (\<lambda>i. offs - of_nat i) [0..<33]) of None \<Rightarrow> SymError | Some x \<Rightarrow> look x)"
proof -
  let ?l = "offs - 32"
  have l: "search_limit offs = ?l" by (simp add: search_limit_def max_distance_def max_def)
  have le: "(32 :: u64) \<le> offs" using assms by (simp add: word_le_nat_alt)
  have ul: "unat ?l = unat offs - 32" using unat_sub [OF le] by simp
  then have pos: "0 < ?l" using assms by (simp add: word_less_nat_alt)
  have "unat ?l + 33 \<le> 2 ^ 64" using ul assms unat_bound [of offs] by simp
  from sym_search_bounded [OF pos, of offs 33 look] this
  have "sym_search look offs ?l = Some (case find (\<lambda>x. look x \<noteq> SymError) (map (\<lambda>i. ?l + of_nat i) (rev [0..<33])) of
      None \<Rightarrow> SymError | Some x \<Rightarrow> look x)" by simp
  moreover have "map (\<lambda>i. ?l + of_nat i) (rev [0..<33]) = map (\<lambda>i. offs - of_nat i) [0..<33]"
    by (simp add: upt_rec algebra_simps)
  ultimately show ?thesis by (simp add: l)
qed

lemma symbol_search_window_witness:
  "sym_search (\<lambda>x. if x = 90 then SymLineNA ''f'' else SymError) 100 (search_limit 100) = Some (SymLineNA ''f'')"
proof -
  have "32 < unat (100 :: u64)" by simp
  from symbol_search_window [OF this, of "\<lambda>x. if x = 90 then SymLineNA ''f'' else SymError"]
  show ?thesis by (simp add: upt_rec)
qed

lemma sym_search_no_limit:
  assumes "sym_search look offs 0 = Some r"
  shows "\<exists>x. look x \<noteq> SymError"
proof -
  have "(0 :: u64) = 0 \<longrightarrow> (\<exists>x. look x \<noteq> SymError)"
    by (rule sym_search.raw_induct [of "\<lambda>look offs limit y. limit = 0 \<longrightarrow> (\<exists>x. look x \<noteq> SymError)", OF _ assms])
      (auto split: if_splits)
  then show ?thesis by simp
qed

text \<open>Near the begin of a module the unsigned limit wraps: less than 32 bytes into it no symbol is
  ever found, and at exactly 32 bytes the limit is zero, so that the search never ends if no
  look-up succeeds.\<close>

theorem symbol_search_edge:
  shows "(unat offs < 32 \<longrightarrow> sym_search look offs (search_limit offs) = Some SymError) \<and>
    ((\<forall>x. look' x = SymError) \<longrightarrow> sym_search look' 32 (search_limit 32) = None)"
proof (intro conjI impI)
  assume o: "unat offs < 32"
  have "search_limit offs = offs - 32" by (simp add: search_limit_def max_distance_def max_def)
  moreover have "offs < offs - 32"
  proof -
    have "unat (offs - 32) = 2 ^ 64 + unat offs - 32" using o by (simp add: unat_sub_if_size word_size)
    with o show ?thesis by (simp add: word_less_nat_alt)
  qed
  ultimately show "sym_search look offs (search_limit offs) = Some SymError" by (simp add: sym_search_stop)
next
  assume none: "\<forall>x. look' x = SymError"
  have "search_limit 32 = 0" by (simp add: search_limit_def max_distance_def)
  then show "sym_search look' 32 (search_limit 32) = None"
    using none sym_search_no_limit [of look' 32] by (cases "sym_search look' 32 0") auto
qed

lemma symbol_search_edge_witness:
  "sym_search (\<lambda>x. SymLineNA ''f'') 16 (search_limit 16) = Some SymError \<and>
   sym_search (\<lambda>x. SymError) 32 (search_limit 32) = None"
  using symbol_search_edge [of 16 "\<lambda>x. SymLineNA ''f''" "\<lambda>x. SymError"] by simp

end
