(* ===== verification/WrapEvents.thy ===== *)
theory WrapEvents
  imports InstrMem RaceCollect
begin

text \<open>
  The callbacks of wrapped functions and of the call instrumentation
  (\<^verbatim>\<open>drace-client/src/function-wrapper/event.cpp\<close>, Windows build). What the wrapper library
  tells of the wrapped call is a record, \<open>None\<close> being the null context after an exceptional unwind.
  The hash table of held mutexes belongs to DynamoRIO: its operations are the argument \<open>bk\<close>, the
  documented behaviour is \<open>book_laws\<close>. The result \<open>None\<close> of a callback is undefined behaviour of the
  buffer analysis or a failed assertion.
\<close>

section \<open>The environment\<close>

record wrap_ctx =
  wc_arg :: "nat \<Rightarrow> u64"
  wc_retval :: u64
  wc_func :: addr

record 'b book_ops =
  bk_lookup :: "'b \<Rightarrow> addr \<Rightarrow> u64"
  bk_add_replace :: "'b \<Rightarrow> addr \<Rightarrow> u64 \<Rightarrow> u64 \<times> 'b"
  bk_remove :: "'b \<Rightarrow> addr \<Rightarrow> 'b"

text \<open>\<^verbatim>\<open>hashtable_add_replace\<close> returns the old payload, null if there was none.\<close>

definition book_laws :: "'b book_ops \<Rightarrow> bool" where
  "book_laws bk \<longleftrightarrow>
     (\<forall>b k v. fst (bk_add_replace bk b k v) = bk_lookup bk b k \<and>
              bk_lookup bk (snd (bk_add_replace bk b k v)) = (bk_lookup bk b)(k := v)) \<and>
     (\<forall>b k. bk_lookup bk (bk_remove bk b k) = (bk_lookup bk b)(k := 0))"

type_synonym 'b step_result = "('b shadow_thread \<times> runtime) option"

definition is_excluded_master :: "'b shadow_thread \<Rightarrow> runtime \<Rightarrow> bool" where
  "is_excluded_master td g \<longleftrightarrow> pa_exclude_master (rt_params g) \<and> th_tid td = rt_runtime_tid g"

section \<open>Allocation\<close>

definition alloc_pre :: "mem_env \<Rightarrow> wrap_ctx \<Rightarrow> 'b shadow_thread \<Rightarrow> runtime \<Rightarrow> (u64 \<times> 'b shadow_thread \<times> runtime) option" where
  "alloc_pre me ctx td g = map_option (\<lambda>(td, g). (wc_arg ctx 2, td, g)) (process_buffer_ctx me td g)"

definition alloc_post :: "wrap_ctx option \<Rightarrow> u64 \<Rightarrow> 'b shadow_thread \<Rightarrow> runtime \<Rightarrow> 'b shadow_thread \<times> runtime" where
  "alloc_post wrapctx user_data td g =
     (case wrapctx of None \<Rightarrow> (td, g)
      | Some ctx \<Rightarrow>
          if user_data \<noteq> 0
          then (td, emit [DAllocate (th_detector_data td) (wc_func ctx) (wc_retval ctx) user_data] g)
          else (td, g))"

definition realloc_pre :: "mem_env \<Rightarrow> wrap_ctx \<Rightarrow> 'b shadow_thread \<Rightarrow> runtime \<Rightarrow> (u64 \<times> 'b shadow_thread \<times> runtime) option" where
  "realloc_pre me ctx td g =
     map_option (\<lambda>(td, g). (wc_arg ctx 3, td, emit [DDeallocate (th_detector_data td) (wc_arg ctx 2)] g))
       (process_buffer_ctx me td g)"

definition free_pre :: "mem_env \<Rightarrow> wrap_ctx \<Rightarrow> 'b shadow_thread \<Rightarrow> runtime \<Rightarrow> 'b step_result" where
  "free_pre me ctx td g =
     map_option (\<lambda>(td, g). (td, emit [DDeallocate (th_detector_data td) (wc_arg ctx 2)] g)) (process_buffer_ctx me td g)"

section \<open>Exclusion and suppression\<close>

definition begin_excl :: "'b shadow_thread \<Rightarrow> 'b shadow_thread" where
  "begin_excl td = beg_excl_region td"

definition end_excl :: "wrap_ctx option \<Rightarrow> 'b shadow_thread \<Rightarrow> 'b shadow_thread" where
  "end_excl wrapctx td = (case wrapctx of None \<Rightarrow> td | Some _ \<Rightarrow> end_excl_region td)"

definition suppr_addr :: "wrap_ctx \<Rightarrow> collector \<Rightarrow> collector" where
  "suppr_addr ctx c = c\<lparr>rc_filter := suppress_addr (wc_arg ctx 0) 8 (rc_filter c)\<rparr>"

section \<open>Mutexes\<close>

text \<open>The book-keeping of an acquired mutex, shared by all acquiring callbacks.\<close>

definition book_acquire :: "'b book_ops \<Rightarrow> addr \<Rightarrow> 'b shadow_thread \<Rightarrow> u64 \<times> 'b shadow_thread" where
  "book_acquire bk mutex td =
     (let (cnt, b) = bk_add_replace bk (th_mutex_book td) mutex 1
      in if 1 < cnt then (cnt + 1, td\<lparr>th_mutex_book := snd (bk_add_replace bk b mutex (cnt + 1))\<rparr>)
         else (cnt, td\<lparr>th_mutex_book := b\<rparr>))"

definition acquire_call :: "u64 \<Rightarrow> addr \<Rightarrow> bool \<Rightarrow> 'b shadow_thread \<Rightarrow> runtime \<Rightarrow> 'b shadow_thread \<times> runtime" where
  "acquire_call cnt mutex write td g =
     (let g = emit [DAcquire (th_detector_data td) mutex (sint (ucast cnt :: u32)) write] g
      in (upd_stats (sc_mutex_ops_update (\<lambda>n. n + 1)) td, g))"

definition prepare_and_aquire ::
    "'b book_ops \<Rightarrow> wrap_ctx option \<Rightarrow> addr \<Rightarrow> bool \<Rightarrow> bool \<Rightarrow> 'b shadow_thread \<Rightarrow> runtime \<Rightarrow> 'b shadow_thread \<times> runtime" where
  "prepare_and_aquire bk wrapctx mutex write trylock td g =
     (case wrapctx of None \<Rightarrow> (td, g)
      | Some ctx \<Rightarrow>
          if is_excluded_master td g then (td, g)
          else if trylock \<and> (ucast (wc_retval ctx) :: u32) \<noteq> 0 then (td, g)
          else (let (cnt, td) = book_acquire bk mutex td in acquire_call cnt mutex write td g))"

definition prepare_and_release ::
    "'b book_ops \<Rightarrow> mem_env \<Rightarrow> wrap_ctx option \<Rightarrow> bool \<Rightarrow> 'b shadow_thread \<Rightarrow> runtime \<Rightarrow> 'b step_result" where
  "prepare_and_release bk me wrapctx write td g =
     (case wrapctx of None \<Rightarrow> Some (td, g)
      | Some ctx \<Rightarrow>
          if is_excluded_master td g then Some (td, g)
          else (let mutex = wc_arg ctx 0;
                    cnt = bk_lookup bk (th_mutex_book td) mutex
                in if cnt = 0 then Some (td, g)
                   else (let td = (if 1 < cnt
                           then td\<lparr>th_mutex_book := snd (bk_add_replace bk (th_mutex_book td) mutex (cnt - 1))\<rparr>
                           else td\<lparr>th_mutex_book := bk_remove bk (th_mutex_book td) mutex\<rparr>)
                         in map_option (\<lambda>(td, g). (td, emit [DRelease (th_detector_data td) mutex write] g))
                              (process_buffer_ctx me td g))))"

definition get_arg :: "mem_env \<Rightarrow> wrap_ctx \<Rightarrow> 'b shadow_thread \<Rightarrow> runtime \<Rightarrow> (u64 \<times> 'b shadow_thread \<times> runtime) option" where
  "get_arg me ctx td g = map_option (\<lambda>(td, g). (wc_arg ctx 0, td, g)) (process_buffer_ctx me td g)"

definition get_arg_dotnet :: "wrap_ctx \<Rightarrow> u64" where
  "get_arg_dotnet ctx = wc_arg ctx 0"

definition mutex_lock where
  "mutex_lock bk wrapctx user_data td g = prepare_and_aquire bk wrapctx user_data True False td g"

definition mutex_trylock where
  "mutex_trylock bk wrapctx user_data td g = prepare_and_aquire bk wrapctx user_data True True td g"

definition mutex_unlock where
  "mutex_unlock bk me wrapctx td g = prepare_and_release bk me wrapctx True td g"

definition recmutex_lock where
  "recmutex_lock bk wrapctx user_data td g = prepare_and_aquire bk wrapctx user_data True False td g"

definition recmutex_trylock where
  "recmutex_trylock bk wrapctx user_data td g = prepare_and_aquire bk wrapctx user_data True True td g"

definition recmutex_unlock where
  "recmutex_unlock bk me wrapctx td g = prepare_and_release bk me wrapctx True td g"

definition mutex_read_lock where
  "mutex_read_lock bk wrapctx user_data td g = prepare_and_aquire bk wrapctx user_data False False td g"

definition mutex_read_trylock where
  "mutex_read_trylock bk wrapctx user_data td g = prepare_and_aquire bk wrapctx user_data False True td g"

definition mutex_read_unlock where
  "mutex_read_unlock bk me wrapctx td g = prepare_and_release bk me wrapctx False td g"

section \<open>Waiting for kernel objects\<close>

definition WAIT_OBJECT_0 :: u32 where "WAIT_OBJECT_0 = 0"

definition wait_for_single_obj ::
    "'b book_ops \<Rightarrow> mem_env \<Rightarrow> wrap_ctx option \<Rightarrow> addr \<Rightarrow> 'b shadow_thread \<Rightarrow> runtime \<Rightarrow> 'b step_result" where
  "wait_for_single_obj bk me wrapctx mutex td g =
     (case wrapctx of None \<Rightarrow> Some (td, g)
      | Some ctx \<Rightarrow>
          if is_excluded_master td g then Some (td, g)
          else if (ucast (wc_retval ctx) :: u32) \<noteq> WAIT_OBJECT_0 then Some (td, g)
          else (let (cnt, td) = book_acquire bk mutex td
                in map_option (\<lambda>(td, g). acquire_call cnt mutex True td g) (process_buffer_ctx me td g)))"

record wfmo_args =
  wa_ncount :: u32
  wa_handles :: addr
  wa_waitall :: bool

definition wait_for_mo_getargs :: "wrap_ctx \<Rightarrow> wfmo_args" where
  "wait_for_mo_getargs ctx = \<lparr>wa_ncount = ucast (wc_arg ctx 0), wa_handles = wc_arg ctx 1,
     wa_waitall = ((ucast (wc_arg ctx 2) :: u32) \<noteq> 0)\<rparr>"

definition acquire_handle :: "'b book_ops \<Rightarrow> addr \<Rightarrow> 'b shadow_thread \<times> runtime \<Rightarrow> 'b shadow_thread \<times> runtime" where
  "acquire_handle bk mutex tg =
     (let (td, g) = tg; (cnt, td) = book_acquire bk mutex td in acquire_call cnt mutex True td g)"

text \<open>\<open>handles p i\<close> is element \<open>i\<close> of the array of handles at \<open>p\<close> in the memory of the program.\<close>

definition wait_for_mult_obj ::
    "'b book_ops \<Rightarrow> mem_env \<Rightarrow> (addr \<Rightarrow> nat \<Rightarrow> addr) \<Rightarrow> wrap_ctx option \<Rightarrow> wfmo_args \<Rightarrow> 'b shadow_thread \<Rightarrow> runtime \<Rightarrow> 'b step_result" where
  "wait_for_mult_obj bk me handles wrapctx info td g =
     (case wrapctx of None \<Rightarrow> Some (td, g)
      | Some ctx \<Rightarrow>
          (let retval = (ucast (wc_retval ctx) :: u32) in
           map_option (\<lambda>tg.
              (let tg = (if wa_waitall info \<and> retval = WAIT_OBJECT_0
                         then fold (\<lambda>i. acquire_handle bk (handles (wa_handles info) i)) [0..<unat (wa_ncount info)] tg
                         else tg)
               in if \<not> wa_waitall info \<and> retval \<le> WAIT_OBJECT_0 + wa_ncount info - 1
                  then acquire_handle bk (handles (wa_handles info) (unat (retval - WAIT_OBJECT_0))) tg
                  else tg))
             (process_buffer_ctx me td g)))"

section \<open>Threads, barriers and annotations\<close>

text \<open>\<open>tid_of\<close> is \<^verbatim>\<open>GetThreadId\<close>.\<close>

definition thread_start :: "(u64 \<Rightarrow> u32) \<Rightarrow> wrap_ctx \<Rightarrow> 'b shadow_thread \<Rightarrow> runtime \<Rightarrow> 'b shadow_thread \<times> runtime" where
  "thread_start tid_of ctx td g =
     (td, emit [DHappensBefore (th_detector_data td) (ucast (tid_of (wc_retval ctx)))] g)"

definition barrier_enter :: "wrap_ctx \<Rightarrow> 'b shadow_thread \<Rightarrow> runtime \<Rightarrow> u64 \<times> 'b shadow_thread \<times> runtime" where
  "barrier_enter ctx td g = (wc_arg ctx 0, td, emit [DHappensBefore (th_detector_data td) (wc_arg ctx 0)] g)"

definition barrier_leave :: "wrap_ctx option \<Rightarrow> u64 \<Rightarrow> 'b shadow_thread \<Rightarrow> runtime \<Rightarrow> 'b shadow_thread \<times> runtime" where
  "barrier_leave wrapctx a td g =
     (case wrapctx of None \<Rightarrow> (td, g) | Some ctx \<Rightarrow> (td, emit [DHappensAfter (th_detector_data td) a] g))"

definition barrier_leave_or_cancel :: "wrap_ctx option \<Rightarrow> u64 \<Rightarrow> 'b shadow_thread \<Rightarrow> runtime \<Rightarrow> 'b shadow_thread \<times> runtime" where
  "barrier_leave_or_cancel wrapctx a td g =
     (case wrapctx of None \<Rightarrow> (td, g)
      | Some ctx \<Rightarrow> if wc_retval ctx \<noteq> 0 then (td, emit [DHappensAfter (th_detector_data td) a] g) else (td, g))"

definition happens_before :: "wrap_ctx option \<Rightarrow> u64 \<Rightarrow> 'b shadow_thread \<Rightarrow> runtime \<Rightarrow> 'b shadow_thread \<times> runtime" where
  "happens_before wrapctx a td g =
     (case wrapctx of None \<Rightarrow> (td, g) | Some ctx \<Rightarrow> (td, emit [DHappensBefore (th_detector_data td) a] g))"

definition happens_after :: "wrap_ctx option \<Rightarrow> u64 \<Rightarrow> 'b shadow_thread \<Rightarrow> runtime \<Rightarrow> 'b shadow_thread \<times> runtime" where
  "happens_after wrapctx a td g =
     (case wrapctx of None \<Rightarrow> (td, g) | Some ctx \<Rightarrow> (td, emit [DHappensAfter (th_detector_data td) a] g))"

section \<open>Calls and returns\<close>

definition on_func_call :: "mem_env \<Rightarrow> addr \<Rightarrow> 'b shadow_thread \<Rightarrow> runtime \<Rightarrow> 'b step_result" where
  "on_func_call me call_ins td g =
     map_option (\<lambda>(td, g).
        (let (td, g) = switch_sampling me td g;
             td = (if pa_lossy (rt_params g) \<and> \<not> pa_lossy_flush (rt_params g) \<and> pc_in_freq td call_ins then disable td else td);
             (cs, st) = stack_push call_ins (th_detector_data td) (th_stack td)
         in (td\<lparr>th_stack := st\<rparr>, emit cs g)))
       (analyze_access me td g)"

definition on_func_ret :: "mem_env \<Rightarrow> addr \<Rightarrow> 'b shadow_thread \<Rightarrow> runtime \<Rightarrow> 'b step_result" where
  "on_func_ret me target_addr td g =
     Option.bind (analyze_access me td g) (\<lambda>(td, g).
       map_option (\<lambda>(cs, st). (td\<lparr>th_stack := st\<rparr>, emit cs g))
         (leave_call (th_detector_data td) target_addr (th_stack td)))"

section \<open>The events of a thread in order\<close>

text \<open>What a thread does, as seen by the runtime: accesses, calls of a lock function (with the argument
  saved before and the mutex acquired afterwards) and calls of an unlock function.\<close>

datatype thread_op = Access mem_ref | Lock addr | Unlock addr

definition call_ctx :: "addr \<Rightarrow> wrap_ctx" where
  "call_ctx m = \<lparr>wc_arg = \<lambda>_. m, wc_retval = 0, wc_func = 0\<rparr>"

fun thread_op_step :: "'b book_ops \<Rightarrow> mem_env \<Rightarrow> thread_op \<Rightarrow> 'b shadow_thread \<Rightarrow> runtime \<Rightarrow> 'b step_result" where
  "thread_op_step bk me (Access r) td g = log_access me r td g"
| "thread_op_step bk me (Lock m) td g =
     map_option (\<lambda>(user_data, td, g). mutex_lock bk (Some (call_ctx m)) user_data td g) (get_arg me (call_ctx m) td g)"
| "thread_op_step bk me (Unlock m) td g = mutex_unlock bk me (Some (call_ctx m)) td g"

fun thread_ops :: "'b book_ops \<Rightarrow> mem_env \<Rightarrow> thread_op list \<Rightarrow> 'b shadow_thread \<Rightarrow> runtime \<Rightarrow> 'b step_result" where
  "thread_ops bk me [] td g = Some (td, g)"
| "thread_ops bk me (op # ops) td g = Option.bind (thread_op_step bk me op td g) (\<lambda>(td, g). thread_ops bk me ops td g)"

text \<open>The calls a detector should see, with the set of held mutexes: the third argument of an acquire
  tells whether the mutex was held already.\<close>

fun expected :: "params \<Rightarrow> 'b shadow_thread \<Rightarrow> addr set \<Rightarrow> thread_op list \<Rightarrow> detector_call list" where
  "expected pr td held [] = []"
| "expected pr td held (Access r # ops) = map (access_call td) (reported pr td [r]) @ expected pr td held ops"
| "expected pr td held (Lock m # ops) =
     DAcquire (th_detector_data td) m (if m \<in> held then 1 else 0) True # expected pr td (insert m held) ops"
| "expected pr td held (Unlock m # ops) =
     (if m \<in> held then DRelease (th_detector_data td) m True # expected pr td (held - {m}) ops
      else expected pr td held ops)"

lemma expected_same_view: "same_view td td' \<Longrightarrow> expected pr td' held ops = expected pr td held ops"
proof (induction ops arbitrary: held)
  case (Cons op ops)
  then show ?case by (cases op) (simp_all add: same_view_calls, simp_all add: same_view_def)
qed simp

text \<open>What the detector has seen, with the accesses that are still in the buffer.\<close>

definition seen :: "runtime \<Rightarrow> 'b shadow_thread \<Rightarrow> nat \<Rightarrow> detector_call list" where
  "seen g td k = rt_calls g @ map (access_call td) (reported (rt_params g) td (take k (th_mem_buf td)))"

definition thread_ok :: "'b book_ops \<Rightarrow> 'b shadow_thread \<Rightarrow> runtime \<Rightarrow> nat \<Rightarrow> addr set \<Rightarrow> bool" where
  "thread_ok bk td g k held \<longleftrightarrow> filled td k \<and> k < MAX_NUM_MEM_REFS \<and> th_detector_data td \<noteq> 0 \<and>
     \<not> pa_extctrl (rt_params g) \<and> \<not> is_excluded_master td g \<and>
     bk_lookup bk (th_mutex_book td) = (\<lambda>m. if m \<in> held then 1 else 0)"

lemma runtime_tid_same:
  assumes "process_buffer_ctx me td g = Some (td', emit cs g)"
  shows "rt_runtime_tid (emit cs g) = rt_runtime_tid g \<and> rt_params (emit cs g) = rt_params g"
  by (simp add: emit_def)

lemma flush_step:
  assumes "thread_ok bk td g k held"
  shows "\<exists>td' g'. process_buffer_ctx me td g = Some (td', g') \<and> thread_ok bk td' g' 0 held \<and> same_view td td' \<and>
    rt_params g' = rt_params g \<and> rt_runtime_tid g' = rt_runtime_tid g \<and> rt_calls g' = seen g td k"
proof -
  have a: "filled td k" "th_detector_data td \<noteq> 0" "\<not> pa_extctrl (rt_params g)" using assms by (simp_all add: thread_ok_def)
  from process_buffer_filled [OF a, of me] obtain td' where
    p: "process_buffer_ctx me td g = Some (td', emit (map (access_call td) (reported (rt_params g) td (take k (th_mem_buf td)))) g)"
    "filled td' 0" "same_view td td'" by blast
  have "same_frame td td'" using process_buffer_frame [OF p(1)] .
  then have "thread_ok bk td' (emit (map (access_call td) (reported (rt_params g) td (take k (th_mem_buf td)))) g) 0 held"
    using assms p(2,3) by (simp add: thread_ok_def same_view_def same_frame_def is_excluded_master_def emit_def MAX_NUM_MEM_REFS_def)
  then show ?thesis using p by (auto simp: seen_def emit_def)
qed

lemma log_access_tid:
  assumes "filled td k" "k < MAX_NUM_MEM_REFS" "th_detector_data td \<noteq> 0" "\<not> pa_extctrl (rt_params g)"
    and "log_access me r td g = Some (td', g')"
  shows "rt_runtime_tid g' = rt_runtime_tid g"
proof -
  obtain fl td1 where rr: "record_ref r td = (fl, td1)" by (cases "record_ref r td")
  note step = record_ref_filled [OF assms(1,2) rr]
  have h: "th_detector_data td1 \<noteq> 0" using assms(3) by (simp add: step(1))
  show ?thesis using assms(5) process_buffer_filled [OF step(2) h assms(4), of me]
    by (auto simp: log_access_def rr emit_def split: if_splits)
qed

lemma acquire_step:
  assumes laws: "book_laws bk" and ok: "thread_ok bk td g 0 held"
  shows "\<exists>td' g'. mutex_lock bk (Some (call_ctx m)) m td g = (td', g') \<and> thread_ok bk td' g' 0 (insert m held) \<and>
    same_view td td' \<and> rt_params g' = rt_params g \<and>
    rt_calls g' = rt_calls g @ [DAcquire (th_detector_data td) m (if m \<in> held then 1 else 0) True]"
proof -
  have look: "bk_lookup bk (th_mutex_book td) = (\<lambda>m. if m \<in> held then 1 else 0)" and ex: "\<not> is_excluded_master td g"
    using ok by (simp_all add: thread_ok_def)
  obtain cnt b where ar: "bk_add_replace bk (th_mutex_book td) m 1 = (cnt, b)" by fastforce
  then have cnt: "cnt = (if m \<in> held then 1 else 0)" and b: "bk_lookup bk b = (\<lambda>x. if x \<in> insert m held then 1 else 0)"
    using laws look unfolding book_laws_def by (auto simp: fun_eq_iff dest: spec [of _ "th_mutex_book td"]) (metis fst_conv snd_conv fun_upd_apply)+
  have ba: "book_acquire bk m td = (cnt, td\<lparr>th_mutex_book := b\<rparr>)"
    using cnt by (simp add: book_acquire_def ar)
  have rec: "sint (ucast cnt :: u32) = (if m \<in> held then 1 else 0)" by (simp add: cnt)
  show ?thesis
    using ok ex b
    by (simp add: mutex_lock_def prepare_and_aquire_def ba acquire_call_def Let_def rec thread_ok_def filled_def buffer_ok_def
        emit_def same_view_def is_excluded_master_def)
qed

lemma release_step:
  assumes laws: "book_laws bk" and ok: "thread_ok bk td g k held"
  shows "\<exists>td' g' k'. mutex_unlock bk me (Some (call_ctx m)) td g = Some (td', g') \<and>
    thread_ok bk td' g' k' (held - {m}) \<and> same_view td td' \<and> rt_params g' = rt_params g \<and>
    seen g' td' k' = seen g td k @ (if m \<in> held then [DRelease (th_detector_data td) m True] else [])"
proof -
  have look: "bk_lookup bk (th_mutex_book td) = (\<lambda>m. if m \<in> held then 1 else 0)" and ex: "\<not> is_excluded_master td g"
    using ok by (simp_all add: thread_ok_def)
  show ?thesis
  proof (cases "m \<in> held")
    case False
    then have "held - {m} = held" by blast
    moreover have "mutex_unlock bk me (Some (call_ctx m)) td g = Some (td, g)"
      using False look ex by (simp add: mutex_unlock_def prepare_and_release_def call_ctx_def)
    ultimately show ?thesis using ok False
      by (intro exI [of _ td] exI [of _ g] exI [of _ k]) (simp add: same_view_def)
  next
    case True
    let ?td = "td\<lparr>th_mutex_book := bk_remove bk (th_mutex_book td) m\<rparr>"
    have "bk_lookup bk (th_mutex_book ?td) = (\<lambda>x. if x \<in> held - {m} then 1 else 0)"
      using laws look by (auto simp: book_laws_def fun_eq_iff)
    then have "thread_ok bk ?td g k (held - {m})"
      using ok by (simp add: thread_ok_def filled_def buffer_ok_def is_excluded_master_def)
    from flush_step [OF this, of me] obtain td1 g1 where
      1: "process_buffer_ctx me ?td g = Some (td1, g1)" "thread_ok bk td1 g1 0 (held - {m})" "same_view ?td td1"
        "rt_params g1 = rt_params g" "rt_runtime_tid g1 = rt_runtime_tid g" "rt_calls g1 = seen g ?td k" by blast
    have view: "same_view td td1" using 1(3) by (simp add: same_view_def)
    have s: "seen g ?td k = seen g td k"
      using same_view_calls [of td ?td] by (simp add: seen_def same_view_def)
    let ?g = "emit [DRelease (th_detector_data td1) m True] g1"
    have "mutex_unlock bk me (Some (call_ctx m)) td g = Some (td1, ?g)"
      using True look ex 1(1) by (simp add: mutex_unlock_def prepare_and_release_def call_ctx_def)
    moreover have "thread_ok bk td1 ?g 0 (held - {m})"
      using 1(2) by (simp add: thread_ok_def is_excluded_master_def emit_def)
    moreover have "seen ?g td1 0 = seen g td k @ [DRelease (th_detector_data td) m True]"
      using 1(6) s view by (simp add: seen_def emit_def reported_def same_view_def)
    ultimately show ?thesis using view 1(4) True by (intro exI [of _ td1] exI [of _ ?g] exI [of _ 0]) (simp add: emit_def)
  qed
qed

lemma thread_op_spec:
  assumes laws: "book_laws bk" and ok: "thread_ok bk td g k held"
  shows "\<exists>td' g' k' held'. thread_op_step bk me op td g = Some (td', g') \<and> thread_ok bk td' g' k' held' \<and>
    same_view td td' \<and> rt_params g' = rt_params g \<and>
    seen g' td' k' @ expected (rt_params g) td held' ops = seen g td k @ expected (rt_params g) td held (op # ops)"
proof (cases op)
  case (Access r)
  have a: "filled td k" "k < MAX_NUM_MEM_REFS" "th_detector_data td \<noteq> 0" "\<not> pa_extctrl (rt_params g)"
    using ok by (simp_all add: thread_ok_def)
  from log_access_step [OF a, of me r] obtain td1 g1 k1 where
    1: "log_access me r td g = Some (td1, g1)" "filled td1 k1" "k1 < MAX_NUM_MEM_REFS" "same_view td td1"
      "rt_params g1 = rt_params g"
      "rt_calls g1 @ map (access_call td) (reported (rt_params g) td (take k1 (th_mem_buf td1))) =
       rt_calls g @ map (access_call td) (reported (rt_params g) td (take k (th_mem_buf td) @ [r]))" by blast
  have rtid: "rt_runtime_tid g1 = rt_runtime_tid g" using log_access_tid [OF a 1(1)] .
  have "same_frame td td1" using log_access_frame [OF 1(1)] .
  then have "thread_ok bk td1 g1 k1 held"
    using ok 1(2-5) rtid by (simp add: thread_ok_def same_view_def same_frame_def is_excluded_master_def)
  moreover have "seen g1 td1 k1 = seen g td k @ map (access_call td) (reported (rt_params g) td [r])"
    using 1(6) by (simp add: seen_def same_view_calls [OF 1(4)] 1(5) reported_refs_append)
  ultimately show ?thesis using Access 1(1,4,5)
    by (intro exI [of _ td1] exI [of _ g1] exI [of _ k1] exI [of _ held]) simp
next
  case (Lock m)
  from flush_step [OF ok, of me] obtain td1 g1 where
    1: "process_buffer_ctx me td g = Some (td1, g1)" "thread_ok bk td1 g1 0 held" "same_view td td1"
      "rt_params g1 = rt_params g" "rt_calls g1 = seen g td k" by blast
  from acquire_step [OF laws 1(2), of m] obtain td2 g2 where
    2: "mutex_lock bk (Some (call_ctx m)) m td1 g1 = (td2, g2)" "thread_ok bk td2 g2 0 (insert m held)" "same_view td1 td2"
      "rt_params g2 = rt_params g1"
      "rt_calls g2 = rt_calls g1 @ [DAcquire (th_detector_data td1) m (if m \<in> held then 1 else 0) True]" by blast
  have "thread_op_step bk me op td g = Some (td2, g2)"
    using Lock 1(1) 2(1) by (simp add: get_arg_def call_ctx_def)
  moreover have "same_view td td2" using 1(3) 2(3) by (simp add: same_view_def)
  moreover have "seen g2 td2 0 = seen g td k @ [DAcquire (th_detector_data td) m (if m \<in> held then 1 else 0) True]"
    using 2(5) 1(3,5) by (simp add: seen_def reported_def same_view_def)
  ultimately show ?thesis using Lock 2(2,4) 1(4)
    by (intro exI [of _ td2] exI [of _ g2] exI [of _ 0] exI [of _ "insert m held"]) simp
next
  case (Unlock m)
  from release_step [OF laws ok, of me m] obtain td1 g1 k1 where
    1: "mutex_unlock bk me (Some (call_ctx m)) td g = Some (td1, g1)" "thread_ok bk td1 g1 k1 (held - {m})" "same_view td td1"
      "rt_params g1 = rt_params g"
      "seen g1 td1 k1 = seen g td k @ (if m \<in> held then [DRelease (th_detector_data td) m True] else [])" by blast
  have "expected (rt_params g) td held (op # ops) =
      (if m \<in> held then [DRelease (th_detector_data td) m True] else []) @ expected (rt_params g) td (held - {m}) ops"
    using Unlock by (cases "m \<in> held") (simp_all add: Diff_triv)
  then show ?thesis using Unlock 1
    by (intro exI [of _ td1] exI [of _ g1] exI [of _ k1] exI [of _ "held - {m}"]) simp
qed

lemma thread_ops_spec:
  assumes laws: "book_laws bk"
  shows "thread_ok bk td g k held \<Longrightarrow> \<exists>td' g' k' held'. thread_ops bk me ops td g = Some (td', g') \<and>
    thread_ok bk td' g' k' held' \<and> seen g' td' k' = seen g td k @ expected (rt_params g) td held ops"
proof (induction ops arbitrary: td g k held)
  case Nil
  then show ?case by auto
next
  case (Cons op ops)
  from thread_op_spec [OF laws Cons.prems, of me op ops] obtain td1 g1 k1 held1 where
    1: "thread_op_step bk me op td g = Some (td1, g1)" "thread_ok bk td1 g1 k1 held1" "same_view td td1"
      "rt_params g1 = rt_params g"
      "seen g1 td1 k1 @ expected (rt_params g) td held1 ops = seen g td k @ expected (rt_params g) td held (op # ops)" by blast
  from Cons.IH [OF 1(2)] obtain td2 g2 k2 held2 where
    2: "thread_ops bk me ops td1 g1 = Some (td2, g2)" "thread_ok bk td2 g2 k2 held2"
      "seen g2 td2 k2 = seen g1 td1 k1 @ expected (rt_params g1) td1 held1 ops" by blast
  have "seen g2 td2 k2 = seen g td k @ expected (rt_params g) td held (op # ops)"
    using 2(3) 1(5) by (simp add: expected_same_view [OF 1(3)] 1(4))
  with 1(1) 2(1,2) show ?case by auto
qed

section \<open>A detector that is switched off for good\<close>

text \<open>Switching off twice without switching on stores the null pointer, and there is no way back.\<close>

datatype client_op = OnCall addr | OnReturn addr | OnAccess mem_ref | OnBeginExcl | OnEndExcl | OnFlush

fun client_step :: "mem_env \<Rightarrow> client_op \<Rightarrow> 'b shadow_thread \<Rightarrow> runtime \<Rightarrow> 'b step_result" where
  "client_step me (OnCall a) td g = on_func_call me a td g"
| "client_step me (OnReturn a) td g = on_func_ret me a td g"
| "client_step me (OnAccess r) td g = log_access me r td g"
| "client_step me OnBeginExcl td g = Some (begin_excl td, g)"
| "client_step me OnEndExcl td g = Some (end_excl (Some (call_ctx 0)) td, g)"
| "client_step me OnFlush td g = process_buffer_ctx me td g"

fun client_run :: "mem_env \<Rightarrow> client_op list \<Rightarrow> 'b shadow_thread \<Rightarrow> runtime \<Rightarrow> 'b step_result" where
  "client_run me [] td g = Some (td, g)"
| "client_run me (op # ops) td g = Option.bind (client_step me op td g) (\<lambda>(td, g). client_run me ops td g)"

fun is_access :: "detector_call \<Rightarrow> bool" where
  "is_access (DRead _ _ _ _) = True"
| "is_access (DWrite _ _ _ _) = True"
| "is_access _ = False"

definition accesses_seen :: "runtime \<Rightarrow> detector_call list" where
  "accesses_seen g = filter is_access (rt_calls g)"

definition stuck :: "'b shadow_thread \<Rightarrow> bool" where
  "stuck td \<longleftrightarrow> th_buf_ptr td = 0 \<and> th_buf_ptr_stored td = 0 \<and> th_detector_data td \<noteq> 0 \<and> stack_ok (th_stack td)"

lemma stuck_simps [simp]:
  "stuck (upd_stats f td) = stuck td" "stuck (td\<lparr>th_event_cnt := n\<rparr>) = stuck td" "stuck (td\<lparr>th_sampling_pos := p\<rparr>) = stuck td"
  by (simp_all add: stuck_def)

lemma stuck_switch: "stuck td \<Longrightarrow> stuck (enable td)" "stuck td \<Longrightarrow> stuck (disable td)"
  by (simp_all add: stuck_def enable_def disable_def)

lemma stuck_scopes: "stuck td \<Longrightarrow> stuck (enable_scope td)" "stuck td \<Longrightarrow> stuck (disable_scope td)"
  by (simp_all add: enable_scope_def disable_scope_def Let_def stuck_switch)

lemma stuck_ext_state:
  assumes "stuck td" and "handle_ext_state td g = (td', g')"
  shows "stuck td' \<and> rt_calls g' = rt_calls g"
  using assms(2) stuck_scopes [OF assms(1)] assms(1)
  by (auto simp: handle_ext_state_def beg_excl_region_def end_excl_region_def update_sampling_def Let_def
      split: option.splits if_splits)

lemma stuck_prologue:
  assumes "stuck td" and "access_prologue me td g = (td', g')"
  shows "stuck td' \<and> rt_calls g' = rt_calls g"
proof -
  have "th_detector_data td \<noteq> 0" using assms(1) by (simp add: stuck_def)
  with assms show ?thesis using stuck_ext_state [OF assms(1)]
    by (auto simp: access_prologue_def split: if_splits)
qed

lemma stuck_analyze:
  assumes "stuck td"
  shows "\<exists>td' g'. analyze_access me td g = Some (td', g') \<and> stuck td' \<and> rt_calls g' = rt_calls g"
proof -
  obtain td1 g1 where p: "access_prologue me td g = (td1, g1)" by (cases "access_prologue me td g")
  from stuck_prologue [OF assms p] have 1: "stuck td1" "rt_calls g1 = rt_calls g" by simp_all
  then have "\<not> is_enabled td1" by (simp add: is_enabled_def stuck_def)
  with p 1 show ?thesis by (simp add: analyze_access_def)
qed

lemma stuck_sampling:
  assumes "stuck td" and "switch_sampling me td g = (td', g')"
  shows "stuck td' \<and> rt_calls g' = rt_calls g"
proof -
  obtain b td1 g1 where s: "sample_ref me td g = (b, td1, g1)" by (metis prod_cases3)
  then have 1: "stuck td1" "rt_calls g1 = rt_calls g" using assms(1)
    by (auto simp: sample_ref_def Let_def split: if_splits)
  show ?thesis using assms(2) 1
    by (auto simp: switch_sampling_def s Let_def stuck_switch split: if_splits)
qed

lemma stuck_call:
  assumes "stuck td"
  shows "\<exists>td' g'. on_func_call me a td g = Some (td', g') \<and> stuck td' \<and> accesses_seen g' = accesses_seen g"
proof -
  from stuck_analyze [OF assms] obtain td1 g1 where
    1: "analyze_access me td g = Some (td1, g1)" "stuck td1" "rt_calls g1 = rt_calls g" by blast
  obtain td2 g2 where 2: "switch_sampling me td1 g1 = (td2, g2)" by (cases "switch_sampling me td1 g1")
  note s2 = stuck_sampling [OF 1(2) 2]
  define td3 where "td3 = (if pa_lossy (rt_params g2) \<and> \<not> pa_lossy_flush (rt_params g2) \<and> pc_in_freq td2 a then disable td2 else td2)"
  have s3: "stuck td3" using s2 by (simp add: td3_def stuck_switch)
  obtain cs st where p: "stack_push a (th_detector_data td3) (th_stack td3) = (cs, st)" by (cases "stack_push a (th_detector_data td3) (th_stack td3)")
  have ok: "stack_ok (th_stack td3)" using s3 by (simp add: stuck_def)
  from stack_push_spec [OF ok p] have st: "stack_ok st" "cs = [] \<or> cs = [DFuncEnter (th_detector_data td3) a]"
    by (auto split: if_splits)
  have "on_func_call me a td g = Some (td3\<lparr>th_stack := st\<rparr>, emit cs g2)"
    by (simp add: on_func_call_def 1(1) 2 Let_def p flip: td3_def)
  moreover have "stuck (td3\<lparr>th_stack := st\<rparr>)" using s3 st(1) by (simp add: stuck_def)
  moreover have "accesses_seen (emit cs g2) = accesses_seen g"
    using st(2) s2 1(3) by (auto simp: accesses_seen_def emit_def)
  ultimately show ?thesis by blast
qed

lemma exits_no_access: "filter is_access (replicate n (DFuncExit h)) = []"
  by (induction n) simp_all

lemma stuck_return:
  assumes "stuck td"
  shows "\<exists>td' g'. on_func_ret me a td g = Some (td', g') \<and> stuck td' \<and> accesses_seen g' = accesses_seen g"
proof -
  from stuck_analyze [OF assms] obtain td1 g1 where
    1: "analyze_access me td g = Some (td1, g1)" "stuck td1" "rt_calls g1 = rt_calls g" by blast
  then have ok: "stack_ok (th_stack td1)" by (simp add: stuck_def)
  from leave_call_spec [OF ok] obtain cs st n where
    "leave_call (th_detector_data td1) a (th_stack td1) = Some (cs, st)" "stack_ok st"
    "cs = replicate n (DFuncExit (th_detector_data td1))" by blast
  with 1 show ?thesis by (simp add: on_func_ret_def stuck_def accesses_seen_def emit_def exits_no_access)
qed

lemma stuck_step:
  assumes "stuck td"
  shows "\<exists>td' g'. client_step me op td g = Some (td', g') \<and> stuck td' \<and> accesses_seen g' = accesses_seen g"
proof (cases op)
  case (OnCall a)
  with stuck_call [OF assms] show ?thesis by simp
next
  case (OnReturn a)
  with stuck_return [OF assms] show ?thesis by simp
next
  case (OnAccess r)
  have "\<not> is_enabled td" using assms by (simp add: is_enabled_def stuck_def)
  then show ?thesis using OnAccess assms by (simp add: log_access_def record_ref_def)
next
  case OnBeginExcl
  then show ?thesis using stuck_scopes(2) [OF assms] by (simp add: begin_excl_def beg_excl_region_def)
next
  case OnEndExcl
  then show ?thesis using stuck_scopes(1) [OF assms] by (simp add: end_excl_def end_excl_region_def)
next
  case OnFlush
  from stuck_analyze [OF assms] obtain td1 g1 where
    "analyze_access me td g = Some (td1, g1)" "stuck td1" "rt_calls g1 = rt_calls g" by blast
  then show ?thesis using OnFlush by (simp add: process_buffer_ctx_def accesses_seen_def)
qed

lemma stuck_run:
  "stuck td \<Longrightarrow> \<exists>td' g'. client_run me ops td g = Some (td', g') \<and> stuck td' \<and> accesses_seen g' = accesses_seen g"
proof (induction ops arbitrary: td g)
  case (Cons op ops)
  from stuck_step [OF Cons.prems, of me op g] obtain td1 g1 where
    1: "client_step me op td g = Some (td1, g1)" "stuck td1" "accesses_seen g1 = accesses_seen g" by blast
  from Cons.IH [OF 1(2)] obtain td2 g2 where
    "client_run me ops td1 g1 = Some (td2, g2)" "stuck td2" "accesses_seen g2 = accesses_seen g1" by blast
  with 1 show ?case by simp
qed simp

text \<open>The first analysis of a thread tells the detector of it and empties the buffer.\<close>

lemma first_analysis:
  assumes b: "buffer_ok td" and z: "th_detector_data td = 0" and h: "me_handle me (th_tid td) \<noteq> 0" and e: "\<not> pa_extctrl (rt_params g)"
  shows "\<exists>td' g'. analyze_access me td g = Some (td', g') \<and> filled td' 0 \<and> th_detector_data td' = me_handle me (th_tid td) \<and>
    same_frame td td' \<and> th_event_cnt td' = th_event_cnt td \<and> rt_params g' = rt_params g \<and> accesses_seen g' = accesses_seen g"
proof -
  obtain td1 g1 where d: "delayed_initialize_thread me td g = (td1, g1)" by (cases "delayed_initialize_thread me td g")
  then have td1: "th_detector_data td1 = me_handle me (th_tid td)" "filled td1 0" "th_event_cnt td1 = th_event_cnt td"
    and g1: "rt_params g1 = rt_params g" "accesses_seen g1 = accesses_seen g"
    using b by (auto simp: delayed_initialize_thread_def Let_def clear_buffer_def filled_def buffer_ok_def emit_def accesses_seen_def)
  have "access_prologue me td g = (td1, g1)" "access_prologue me td1 g1 = (td1, g1)"
    using z e d td1(1) h g1(1) by (simp_all add: access_prologue_def)
  then have "analyze_access me td g = analyze_access me td1 g1" by (simp add: analyze_access_def)
  also have "\<dots> = Some ((upd_stats (\<lambda>s. sc_total_refs_update (\<lambda>t. t + of_nat 0)
      (add_proc (of_nat (length (reported (rt_params g1) td1 (take 0 (th_mem_buf td1))))) s)) td1)\<lparr>th_buf_ptr := th_mem_base td1\<rparr>,
      emit (map (access_call td1) (reported (rt_params g1) td1 (take 0 (th_mem_buf td1)))) g1)"
    using td1 h e g1(1) by (intro analyze_access_loop) simp_all
  finally have a: "analyze_access me td g = \<dots>" .
  from analyze_access_frame [OF a] td1 g1 show ?thesis
    unfolding a by (simp add: filled_def buffer_ok_def emit_def accesses_seen_def reported_def)
qed

lemma unsampled_call:
  assumes a: "analyze_access me td g = Some (td1, g1)" and ok: "stack_ok (th_stack td1)"
    and r: "pa_sampling_rate (rt_params g1) \<noteq> 1" "th_sampling_pos td1 - 1 \<noteq> 0"
  shows "\<exists>td' g'. on_func_call me c td g = Some (td', g') \<and> th_buf_ptr td' = 0 \<and>
    (th_buf_ptr td1 = 0 \<longrightarrow> th_buf_ptr_stored td' = 0) \<and> th_detector_data td' = th_detector_data td1 \<and>
    stack_ok (th_stack td') \<and> th_sampling_pos td' = th_sampling_pos td1 - 1 \<and> rt_params g' = rt_params g1 \<and>
    accesses_seen g' = accesses_seen g1"
proof -
  define td2 where "td2 = (disable (td1\<lparr>th_sampling_pos := th_sampling_pos td1 - 1\<rparr>))
    \<lparr>th_event_cnt := th_event_cnt td1 OR push_bit 63 1\<rparr>"
  have sw: "switch_sampling me td1 g1 = (td2, g1)"
    using r by (simp add: switch_sampling_def sample_ref_def Let_def td2_def disable_def)
  define td3 where "td3 = (if pa_lossy (rt_params g1) \<and> \<not> pa_lossy_flush (rt_params g1) \<and> pc_in_freq td2 c then disable td2 else td2)"
  have td3: "th_buf_ptr td3 = 0" "th_buf_ptr td1 = 0 \<longrightarrow> th_buf_ptr_stored td3 = 0" "th_detector_data td3 = th_detector_data td1"
    "th_stack td3 = th_stack td1" "th_sampling_pos td3 = th_sampling_pos td1 - 1"
    by (simp_all add: td3_def td2_def disable_def)
  obtain cs st where p: "stack_push c (th_detector_data td3) (th_stack td3) = (cs, st)"
    by (cases "stack_push c (th_detector_data td3) (th_stack td3)")
  from stack_push_spec [OF ok [folded td3(4)] p] have st: "stack_ok st" "cs = [] \<or> cs = [DFuncEnter (th_detector_data td3) c]"
    by (auto split: if_splits)
  have "on_func_call me c td g = Some (td3\<lparr>th_stack := st\<rparr>, emit cs g1)"
    by (simp add: on_func_call_def a sw Let_def p flip: td3_def)
  moreover have "accesses_seen (emit cs g1) = accesses_seen g1" using st(2) by (auto simp: accesses_seen_def emit_def)
  ultimately show ?thesis using td3 st(1) by (simp add: emit_def)
qed

lemma thread_init_fields:
  assumes "me_buffer me tid = (base, refs)" and "base \<noteq> 0" "unat base + 1536 < 2 ^ 63" "length refs = MAX_NUM_MEM_REFS"
    and "td = thread_init me (new_shadow_thread pr book tid) g"
  shows "buffer_ok td" "th_detector_data td = 0" "th_tid td = tid" "th_sampling_pos td = pa_sampling_rate pr" "th_stack td = stack_init"
    "th_event_cnt td = (if pa_exclude_master (rt_params g) \<and> tid = rt_runtime_tid g then 1 else 0)"
    "th_buf_ptr td = (if pa_exclude_master (rt_params g) \<and> tid = rt_runtime_tid g then 0 else base)"
  unfolding assms(5) using assms(1-4)
  by (simp_all add: thread_init_def new_shadow_thread_def buffer_ok_def disable_scope_def disable_def Let_def)

section \<open>Properties\<close>


definition map_book :: "(addr \<Rightarrow> u64) book_ops" where
  "map_book = \<lparr>bk_lookup = \<lambda>b. b, bk_add_replace = \<lambda>b k v. (b k, b(k := v)), bk_remove = \<lambda>b k. b(k := 0)\<rparr>"

definition sample_env :: mem_env where
  "sample_env = \<lparr>me_draw = \<lambda>_ lo _. lo, me_handle = \<lambda>_. 7, me_stack_limits = \<lambda>_. (0, 0),
     me_buffer = \<lambda>_. (65536, replicate 64 \<lparr>mr_addr = 0, mr_pc = 0, mr_size = 0\<rparr>)\<rparr>"

definition book_thread :: "(addr \<Rightarrow> u64) shadow_thread" where
  "book_thread = (thread_init sample_env (new_shadow_thread params_init (\<lambda>_. 0) 5) sample_runtime)\<lparr>th_detector_data := 7\<rparr>"

lemma book_thread_filled: "filled book_thread 0" "th_detector_data book_thread \<noteq> 0" "th_tid book_thread = 5" "th_mutex_book book_thread = (\<lambda>_. 0)"
  by (simp_all add: book_thread_def thread_init_def new_shadow_thread_def sample_env_def sample_runtime_def params_init_def
      filled_def buffer_ok_def MAX_NUM_MEM_REFS_def Let_def)

lemma sample_runtime_params: "rt_params sample_runtime = params_init" "rt_runtime_tid sample_runtime = 1"
  by (simp_all add: sample_runtime_def)

lemma map_book_laws: "book_laws map_book"
  by (simp add: book_laws_def map_book_def)


text \<open>Thread creation and entering a barrier are reported without flushing the buffer: the accesses the
  thread made before are reported to the detector after the event, as if they were not ordered before
  the new thread or the other side of the barrier.\<close>

theorem unflushed_events_overtake:
  assumes "filled td k" and "th_detector_data td \<noteq> 0" and "\<not> pa_extctrl (rt_params g)"
  shows "(\<exists>td' g'. (case thread_start tid_of ctx td g of (td, g) \<Rightarrow> process_buffer_ctx me td g) = Some (td', g') \<and>
      rt_calls g' = rt_calls g @ [DHappensBefore (th_detector_data td) (ucast (tid_of (wc_retval ctx)))] @
        map (access_call td) (reported (rt_params g) td (take k (th_mem_buf td)))) \<and>
    (\<exists>td' g'. (case barrier_enter ctx td g of (_, td, g) \<Rightarrow> process_buffer_ctx me td g) = Some (td', g') \<and>
      rt_calls g' = rt_calls g @ [DHappensBefore (th_detector_data td) (wc_arg ctx 0)] @
        map (access_call td) (reported (rt_params g) td (take k (th_mem_buf td))))"
proof -
  have flush: "\<exists>td' g'. process_buffer_ctx me td (emit [c] g) = Some (td', g') \<and>
      rt_calls g' = rt_calls g @ [c] @ map (access_call td) (reported (rt_params g) td (take k (th_mem_buf td)))" for c
  proof -
    have p: "rt_params (emit [c] g) = rt_params g" by (simp add: emit_def)
    with process_buffer_filled [OF assms(1,2), of "emit [c] g" me] assms(3) obtain td' where
      "process_buffer_ctx me td (emit [c] g) =
        Some (td', emit (map (access_call td) (reported (rt_params g) td (take k (th_mem_buf td)))) (emit [c] g))" by auto
    then show ?thesis by (simp add: emit_def)
  qed
  show ?thesis
    using flush [of "DHappensBefore (th_detector_data td) (ucast (tid_of (wc_retval ctx)))"]
      flush [of "DHappensBefore (th_detector_data td) (wc_arg ctx 0)"]
    by (simp add: thread_start_def barrier_enter_def)
qed

lemma unflushed_events_overtake_witness:
  "\<exists>td' g'. (case thread_start (\<lambda>_. 9) (call_ctx 48) book_thread sample_runtime of (td, g) \<Rightarrow> process_buffer_ctx sample_env td g) = Some (td', g') \<and>
      rt_calls g' = rt_calls sample_runtime @ [DHappensBefore (th_detector_data book_thread) (ucast (9 :: u32))] @
        map (access_call book_thread) (reported (rt_params sample_runtime) book_thread (take 0 (th_mem_buf book_thread)))"
  by (rule conjunct1 [OF unflushed_events_overtake [OF book_thread_filled(1,2)]])
    (simp add: sample_runtime_params params_init_def)

text \<open>C7: With a sampling rate of three or more the detector is lost to a thread for good: after the first two
  function calls of the thread, which are not sampled, no read or write of the thread is ever reported
  again, whatever the thread does and however the sampling goes on.\<close>

theorem sampling_stops_detection:
  assumes "3 \<le> pa_sampling_rate (rt_params g)" and "\<not> pa_extctrl (rt_params g)" and "me_handle me tid \<noteq> 0"
    and "me_buffer me tid = (base, refs)" "base \<noteq> 0" "unat base + 1536 < 2 ^ 63" "length refs = MAX_NUM_MEM_REFS"
    and "td = thread_init me (new_shadow_thread (rt_params g) book tid) g"
  shows "\<exists>td' g'. client_run me (OnCall a # OnCall b # ops) td g = Some (td', g') \<and> accesses_seen g' = accesses_seen g"
proof -
  note init = thread_init_fields [OF assms(4-8)]
  let ?rate = "pa_sampling_rate (rt_params g)"
  have r: "?rate \<noteq> 1" "?rate - 1 \<noteq> 0" "?rate - 1 - 1 \<noteq> 0" using assms(1) by (auto simp: word_le_nat_alt)
  have h: "me_handle me (th_tid td) \<noteq> 0" using assms(3) by (simp add: init(3))
  from first_analysis [OF init(1,2) h assms(2)] obtain td1 g1 where
    1: "analyze_access me td g = Some (td1, g1)" "th_detector_data td1 \<noteq> 0" "same_frame td td1" "rt_params g1 = rt_params g"
      "accesses_seen g1 = accesses_seen g" using h by auto
  then have ok1: "stack_ok (th_stack td1)" and pos1: "th_sampling_pos td1 = ?rate"
    using init(4,5) stack_ok_init(1) by (simp_all add: same_frame_def)
  from unsampled_call [OF 1(1) ok1, of a] r 1(4) pos1 obtain td2 g2 where
    2: "on_func_call me a td g = Some (td2, g2)" "th_buf_ptr td2 = 0" "th_detector_data td2 \<noteq> 0" "stack_ok (th_stack td2)"
      "th_sampling_pos td2 = ?rate - 1" "rt_params g2 = rt_params g" "accesses_seen g2 = accesses_seen g"
    using 1(2,5) by auto
  have "analyze_access me td2 g2 = Some (td2, g2)"
    using 2(2,3,6) assms(2) by (simp add: analyze_access_def access_prologue_def is_enabled_def)
  from unsampled_call [OF this 2(4), of b] r 2 obtain td3 g3 where
    3: "on_func_call me b td2 g2 = Some (td3, g3)" "th_buf_ptr td3 = 0" "th_buf_ptr_stored td3 = 0" "th_detector_data td3 \<noteq> 0"
      "stack_ok (th_stack td3)" "accesses_seen g3 = accesses_seen g" by auto
  then have "stuck td3" by (simp add: stuck_def)
  from stuck_run [OF this, of me ops g3] obtain td4 g4 where
    "client_run me ops td3 g3 = Some (td4, g4)" "accesses_seen g4 = accesses_seen g3" by blast
  with 2(1) 3(1,6) show ?thesis by simp
qed

lemma sampling_stops_detection_witness:
  "\<exists>td' g'. client_run sample_env (OnCall 1 # OnCall 2 # [OnAccess \<lparr>mr_addr = 4096, mr_pc = 8192, mr_size = 4\<rparr>, OnFlush])
      (thread_init sample_env (new_shadow_thread (params_init\<lparr>pa_sampling_rate := 3\<rparr>) () 5) (sample_runtime\<lparr>rt_params := params_init\<lparr>pa_sampling_rate := 3\<rparr>\<rparr>))
      (sample_runtime\<lparr>rt_params := params_init\<lparr>pa_sampling_rate := 3\<rparr>\<rparr>) = Some (td', g') \<and>
    accesses_seen g' = accesses_seen (sample_runtime\<lparr>rt_params := params_init\<lparr>pa_sampling_rate := 3\<rparr>\<rparr>)"
  by (rule sampling_stops_detection [where base = 65536 and refs = "replicate 64 \<lparr>mr_addr = 0, mr_pc = 0, mr_size = 0\<rparr>"])
    (simp_all add: params_init_def sample_env_def MAX_NUM_MEM_REFS_def)

text \<open>The main thread, when it is to be excluded, is switched off only until its first function call: the
  first analysis of the thread resets the buffer pointer, which switches the detector on again.\<close>

theorem excluded_master_resumes:
  assumes "pa_exclude_master (rt_params g)" "rt_runtime_tid g = tid" and "pa_sampling_rate (rt_params g) = 1" "\<not> pa_lossy (rt_params g)"
    and "\<not> pa_extctrl (rt_params g)" and "me_handle me tid \<noteq> 0"
    and "me_buffer me tid = (base, refs)" "base \<noteq> 0" "unat base + 1536 < 2 ^ 63" "length refs = MAX_NUM_MEM_REFS"
    and "td = thread_init me (new_shadow_thread (rt_params g) book tid) g"
  shows "\<not> is_enabled td \<and> (\<exists>td' g'. on_func_call me a td g = Some (td', g') \<and> is_enabled td' \<and> th_event_cnt td' = 1)"
proof -
  note init = thread_init_fields [OF assms(7-11)]
  have h: "me_handle me (th_tid td) \<noteq> 0" using assms(6) by (simp add: init(3))
  have cnt: "th_event_cnt td = 1" and off: "\<not> is_enabled td" using init(6,7) assms(1,2) by (simp_all add: is_enabled_def)
  from first_analysis [OF init(1,2) h assms(5)] obtain td1 g1 where
    1: "analyze_access me td g = Some (td1, g1)" "filled td1 0" "th_event_cnt td1 = 1" "rt_params g1 = rt_params g"
    using cnt by auto
  have on: "th_buf_ptr td1 \<noteq> 0" using filled_enabled [OF 1(2)] by (simp add: is_enabled_def)
  let ?td2 = "td1\<lparr>th_sampling_pos := th_sampling_pos td1 - 1, th_event_cnt := 1\<rparr>"
  have "switch_sampling me td1 g1 = (?td2, g1)"
    using 1(3,4) assms(3) by (simp add: switch_sampling_def sample_ref_def Let_def)
  moreover obtain cs st where "stack_push a (th_detector_data td1) (th_stack td1) = (cs, st)"
    by (cases "stack_push a (th_detector_data td1) (th_stack td1)")
  ultimately have "on_func_call me a td g = Some (?td2\<lparr>th_stack := st\<rparr>, emit cs g1)"
    using 1(1,4) assms(4) by (simp add: on_func_call_def Let_def)
  then show ?thesis using off on by (simp add: is_enabled_def)
qed

lemma excluded_master_resumes_witness:
  "\<not> is_enabled (thread_init sample_env (new_shadow_thread (params_init\<lparr>pa_exclude_master := True\<rparr>) () 1)
      (sample_runtime\<lparr>rt_params := params_init\<lparr>pa_exclude_master := True\<rparr>\<rparr>)) \<and>
    (\<exists>td' g'. on_func_call sample_env 4096 (thread_init sample_env (new_shadow_thread (params_init\<lparr>pa_exclude_master := True\<rparr>) () 1)
      (sample_runtime\<lparr>rt_params := params_init\<lparr>pa_exclude_master := True\<rparr>\<rparr>))
      (sample_runtime\<lparr>rt_params := params_init\<lparr>pa_exclude_master := True\<rparr>\<rparr>) = Some (td', g') \<and> is_enabled td' \<and> th_event_cnt td' = 1)"
  by (rule excluded_master_resumes [where tid = 1 and base = 65536 and refs = "replicate 64 \<lparr>mr_addr = 0, mr_pc = 0, mr_size = 0\<rparr>"])
    (simp_all add: params_init_def sample_env_def sample_runtime_def MAX_NUM_MEM_REFS_def)

end
