(* ===== verification/LogOutput.thy ===== *)
theory LogOutput
  imports FasttrackProps Complex_Main
begin

text \<open>
  The statistics the FastTrack detector prints at its end (\<^verbatim>\<open>process_log_output\<close> and the end of
  \<^verbatim>\<open>finalize\<close> in \<^verbatim>\<open>fasttrack.h\<close>): the percentages computed from the counters, and what the
  counters count over a run. A double is a rational; \<open>None\<close> is the value of a division by zero.
\<close>

section \<open>The printed values\<close>

text \<open>The sums are sums of 32-bit counters before they become doubles.\<close>

definition read_actions :: "log_counters \<Rightarrow> u32" where
  "read_actions c = read_ex_same_epoch c + read_sh_same_epoch c + read_exclusive c + read_share c + read_shared c"

definition write_actions :: "log_counters \<Rightarrow> u32" where
  "write_actions c = write_same_epoch c + write_exclusive c + write_shared c"

definition as_double :: "u32 \<Rightarrow> rat" where
  "as_double n = of_nat (unat n)"

definition percent :: "rat \<Rightarrow> rat \<Rightarrow> rat option" where
  "percent x whole = (if whole = 0 then None else Some (x / whole * 100))"

definition process_log_output :: "log_counters \<Rightarrow> (string \<times> rat option) list" where
  "process_log_output c =
     (let reads = as_double (read_actions c); writes = as_double (write_actions c);
          rd = percent reads (reads + writes);
          wr = map_option (\<lambda>r. 100 - r) rd
      in [(''Read Actions'', rd),
          (''Read exclusive same epoch'', percent (as_double (read_ex_same_epoch c)) reads),
          (''Read shared same epoch'', percent (as_double (read_sh_same_epoch c)) reads),
          (''Read exclusive'', percent (as_double (read_exclusive c)) reads),
          (''Read share'', percent (as_double (read_share c)) reads),
          (''Read shared'', percent (as_double (read_shared c)) reads),
          (''Write Actions'', wr),
          (''Write same epoch'', percent (as_double (write_same_epoch c)) writes),
          (''Write exclusive'', percent (as_double (write_exclusive c)) writes),
          (''Write shared'', percent (as_double (write_shared c)) writes)])"

definition finalize_output :: "ft_state \<Rightarrow> (string \<times> rat option) list" where
  "finalize_output s = (if log_flag s then process_log_output (log_count (ft_finalize s)) else [])"

section \<open>What the counters count\<close>

fun is_read :: "detector_call \<Rightarrow> bool" where
  "is_read (DRead tls pc a sz) = True"
| "is_read _ = False"

fun is_write :: "detector_call \<Rightarrow> bool" where
  "is_write (DWrite tls pc a sz) = True"
| "is_write _ = False"

text \<open>Logging stays on, and the counters move by the given numbers.\<close>

definition counted :: "nat \<Rightarrow> nat \<Rightarrow> ft_state \<Rightarrow> ft_state \<Rightarrow> bool" where
  "counted r w s s' \<longleftrightarrow> log_flag s' = log_flag s \<and> (log_flag s \<longrightarrow>
     read_actions (log_count s') = read_actions (log_count s) + of_nat r \<and>
     write_actions (log_count s') = write_actions (log_count s) + of_nat w)"

lemma counted_id [intro]: "log_flag s' = log_flag s \<Longrightarrow> log_count s' = log_count s \<Longrightarrow> counted 0 0 s s'"
  by (simp add: counted_def)

lemma counted_trans: "counted r w s s1 \<Longrightarrow> counted r' w' s1 s2 \<Longrightarrow> counted (r + r') (w + w') s s2"
  by (simp add: counted_def)

lemma counted_vars [simp]: "counted r w s (s'\<lparr>vars := vs\<rparr>) = counted r w s s'"
  by (simp add: counted_def)

lemma counted_start:
  "counted r w s1 s' \<Longrightarrow> log_flag s1 = log_flag s \<Longrightarrow> log_count s1 = log_count s \<Longrightarrow> counted r w s s'"
  by (simp add: counted_def)

lemma read_var_counted: "read_var s t v a = Some (s', v', rs) \<Longrightarrow> counted 1 0 s s'"
  by (auto simp: read_var_def bump_def counted_def read_actions_def write_actions_def Let_def
      split: if_splits bind_splits)

lemma write_var_counted: "write_var s t v a = Some (s', v', rs) \<Longrightarrow> counted 0 1 s s'"
  by (auto simp: write_var_def bump_def counted_def read_actions_def write_actions_def Let_def
      split: if_splits bind_splits)

lemma log_access_log: "log_access tls pc a s = Some (s1, t) \<Longrightarrow> log_flag s1 = log_flag s \<and> log_count s1 = log_count s"
  by (auto simp: log_access_def Let_def split: bind_splits)

lemma find_or_create_log: "find_or_create_var a sz s = (s1, v) \<Longrightarrow> log_flag s1 = log_flag s \<and> log_count s1 = log_count s"
  by (auto simp: find_or_create_var_def Let_def split: option.splits)

lemma ft_read_counted:
  assumes "ft_read tls pc a sz s = Some (s', rs)"
  shows "counted 1 0 s s'"
proof -
  obtain s1 t where l: "log_access tls pc a s = Some (s1, t)"
    using assms by (auto simp: ft_read_def split: bind_splits)
  obtain s2 v where f: "find_or_create_var a sz s1 = (s2, v)" by (cases "find_or_create_var a sz s1")
  obtain s3 v' where r: "read_var s2 t v a = Some (s3, v', rs)" and s': "s' = s3\<lparr>vars := hm_assign a v' (vars s3)\<rparr>"
    using assms by (auto simp: ft_read_def l f split: bind_splits)
  show ?thesis
    using counted_start [OF read_var_counted [OF r], of s] log_access_log [OF l] find_or_create_log [OF f]
    by (simp add: s')
qed

lemma ft_write_counted:
  assumes "ft_write tls pc a sz s = Some (s', rs)"
  shows "counted 0 1 s s'"
proof -
  obtain s1 t where l: "log_access tls pc a s = Some (s1, t)"
    using assms by (auto simp: ft_write_def split: bind_splits)
  obtain s2 v where f: "find_or_create_var a sz s1 = (s2, v)" by (cases "find_or_create_var a sz s1")
  obtain s3 v' where r: "write_var s2 t v a = Some (s3, v', rs)" and s': "s' = s3\<lparr>vars := hm_assign a v' (vars s3)\<rparr>"
    using assms by (auto simp: ft_write_def l f split: bind_splits)
  show ?thesis
    using counted_start [OF write_var_counted [OF r], of s] log_access_log [OF l] find_or_create_log [OF f]
    by (simp add: s')
qed

lemma cleanup_log: "log_flag (cleanup t s) = log_flag s" "log_count (cleanup t s) = log_count s"
  by (simp_all add: cleanup_def)

lemma erase_thread_log: "log_flag (erase_thread t s) = log_flag s" "log_count (erase_thread t s) = log_count s"
  by (simp_all add: erase_thread_def split: option.splits)

lemma create_thread_log: "create_thread t pt p s = (s', q) \<Longrightarrow> log_flag s' = log_flag s \<and> log_count s' = log_count s"
  by (auto simp: create_thread_def split: option.splits)

lemmas log_frames = cleanup_log erase_thread_log

lemma ft_step_counted:
  assumes "ft_step c s = Some (s', rs)"
  shows "counted (of_bool (is_read c)) (of_bool (is_write c)) s s'"
  using assms
proof (cases c)
  case (DRead tls pc a sz) then show ?thesis using assms ft_read_counted by simp
next
  case (DWrite tls pc a sz) then show ?thesis using assms ft_write_counted by simp
next
  case (DFork p q r)
  then show ?thesis using assms
    by (auto simp: ft_fork_def Let_def split: option.splits bind_splits dest!: create_thread_log)
next
  case (DJoin p q)
  then show ?thesis using assms
    by (auto simp: ft_join_def Let_def log_frames split: option.splits bind_splits)
qed (auto simp: ft_acquire_def ft_release_def ft_func_enter_def ft_func_exit_def ft_happens_before_def
    ft_happens_after_def ft_allocate_def ft_deallocate_def ft_finish_def Let_def log_frames
    split: if_splits option.splits bind_splits prod.splits)

lemma ft_run_counted:
  "ft_run cs s = Some (s', rs) \<Longrightarrow> counted (length (filter is_read cs)) (length (filter is_write cs)) s s'"
proof (induction cs arbitrary: s rs)
  case Nil
  then show ?case by auto
next
  case (Cons c cs)
  then obtain s1 r1 r2 where st: "ft_step c s = Some (s1, r1)" "ft_run cs s1 = Some (s', r2)"
    by (auto split: bind_splits)
  from counted_trans [OF ft_step_counted [OF st(1)] Cons.IH [OF st(2)]]
  show ?case by (cases "is_read c"; cases "is_write c") simp_all
qed

section \<open>What is printed\<close>

text \<open>In a run with the statistics on every read and every write is counted exactly once, modulo the 32 bits of
  the counters.\<close>

theorem counters_count_accesses:
  assumes "ft_run cs (fasttrack_init [prog, ''--stats''] ft_init) = Some (s, races)"
  shows "read_actions (log_count s) = of_nat (length (filter is_read cs))
    \<and> write_actions (log_count s) = of_nat (length (filter is_write cs))"
  using ft_run_counted [OF assms]
  by (simp add: counted_def fasttrack_init_def ft_init_def log_counters_init_def read_actions_def write_actions_def)

lemma percent_three:
  assumes "x + y + z = whole" "whole \<noteq> 0"
  shows "\<exists>p q r. percent x whole = Some p \<and> percent y whole = Some q \<and> percent z whole = Some r \<and> p + q + r = 100"
proof -
  have "x / whole * 100 + y / whole * 100 + z / whole * 100 = (x + y + z) / whole * 100"
    by (simp add: add_divide_distrib distrib_right)
  then show ?thesis using assms by (simp add: percent_def)
qed

text \<open>The shares of the writes add up to the whole, as long as their number fits the counters; without any write
  they are all the result of a division by zero.\<close>

theorem write_shares:
  assumes "unat (write_same_epoch c) + unat (write_exclusive c) + unat (write_shared c) < 2 ^ 32"
  shows "(\<exists>p q r. map snd (drop 7 (process_log_output c)) = [Some p, Some q, Some r] \<and> p + q + r = 100)
    \<or> write_actions c = 0 \<and> map snd (drop 7 (process_log_output c)) = [None, None, None]"
proof -
  let ?w = "as_double (write_actions c)"
  have "unat (write_actions c) = unat (write_same_epoch c) + unat (write_exclusive c) + unat (write_shared c)"
    using assms by (simp add: write_actions_def unat_word_ariths)
  then have s: "as_double (write_same_epoch c) + as_double (write_exclusive c) + as_double (write_shared c) = ?w"
    by (simp add: as_double_def)
  show ?thesis
  proof (cases "write_actions c = 0")
    case True
    then show ?thesis by (simp add: process_log_output_def Let_def percent_def as_double_def)
  next
    case False
    then have "?w \<noteq> 0" unfolding as_double_def by (simp only: of_nat_eq_0_iff unat_eq_0 not_False_eq_True)
    from percent_three [OF s this] show ?thesis by (simp add: process_log_output_def Let_def)
  qed
qed

end
