(* ===== verification/MsrProtocol.thy ===== *)
theory MsrProtocol
  imports Prelude
begin

text \<open>
  The dialogue between the client and the external symbol resolver over one block of shared memory
  and two events (\<^verbatim>\<open>common/ipc/SMData.h\<close>, \<^verbatim>\<open>SharedMemory.h\<close>,
  \<^verbatim>\<open>SyncSHMDriver.h\<close>, \<^verbatim>\<open>drace-client/src/MSR.cpp\<close>,
  \<^verbatim>\<open>ManagedResolver/src/ProtocolHandler.cpp\<close>). Both processes are program points of a step
  relation; a wait can end with the event or, where timeouts are allowed, without. What the debugging
  interfaces of Windows answer is the environment.
\<close>

section \<open>Messages\<close>

datatype msg_id = M_IP | M_SYMBOL | M_STACK | M_READY | M_CONNECT | M_ATTACH | M_ATTACHED | M_LOADSYMS | M_UNLOADSYMS
  | M_SEARCHSYMS | M_WAIT | M_CONFIRM | M_EXIT

text \<open>The raw buffer, by the structure that was written to it.\<close>

record symbol_info =
  si_module :: string
  si_function :: string
  si_path :: string
  si_line :: u32

datatype payload =
    P_none
  | P_base_info int string
  | P_ip u64
  | P_symbol_info symbol_info
  | P_symbol_request u64 u64 bool string string
  | P_symbol_response "u64 list"
  | P_context int u64 u64 u64

text \<open>Requests of the client, and what it makes of the answers.\<close>

datatype request =
    RqConnect
  | RqAttach int string
  | RqLoad u64 u64 string
  | RqUnload u64
  | RqLookup u64
  | RqSearch u64 u64 bool string string
  | RqStack int u64 u64 u64

datatype reply = RpBool bool | RpUnit | RpInfo symbol_info | RpFound "u64 list" | RpTimeout | RpGarbage

text \<open>Paths are copied into arrays of 256 characters.\<close>

definition attach_msg :: "int \<Rightarrow> string \<Rightarrow> msg_id \<times> payload" where
  [simp]: "attach_msg pid path = (M_ATTACH, P_base_info pid (take 256 path))"

definition load_msg :: "u64 \<Rightarrow> u64 \<Rightarrow> string \<Rightarrow> msg_id \<times> payload" where
  [simp]: "load_msg base sz path = (M_LOADSYMS, P_symbol_request base sz False (take 256 path) [])"

definition unload_msg :: "u64 \<Rightarrow> msg_id \<times> payload" where
  [simp]: "unload_msg base = (M_UNLOADSYMS, P_symbol_request base 0 False [] [])"

definition lookup_msg :: "u64 \<Rightarrow> msg_id \<times> payload" where
  [simp]: "lookup_msg ip = (M_IP, P_ip ip)"

definition search_msg :: "u64 \<Rightarrow> u64 \<Rightarrow> bool \<Rightarrow> string \<Rightarrow> string \<Rightarrow> msg_id \<times> payload" where
  [simp]: "search_msg base sz full path match = (M_SEARCHSYMS, P_symbol_request base sz full (take 256 path) match)"

definition stack_msg :: "int \<Rightarrow> u64 \<Rightarrow> u64 \<Rightarrow> u64 \<Rightarrow> msg_id \<times> payload" where
  [simp]: "stack_msg tid rbp rsp rip = (M_STACK, P_context tid rbp rsp rip)"

fun encode :: "request \<Rightarrow> payload \<Rightarrow> msg_id \<times> payload" where
  "encode RqConnect old = (M_CONNECT, old)"
| "encode (RqAttach pid path) old = attach_msg pid path"
| "encode (RqLoad base sz path) old = load_msg base sz path"
| "encode (RqUnload base) old = unload_msg base"
| "encode (RqLookup ip) old = lookup_msg ip"
| "encode (RqSearch base sz full path match) old = search_msg base sz full path match"
| "encode (RqStack tid rbp rsp rip) old = stack_msg tid rbp rsp rip"

text \<open>The dispatch of the resolver; \<open>None\<close>: an unknown message, or a buffer written with another structure.\<close>

fun decode :: "msg_id \<Rightarrow> payload \<Rightarrow> request option" where
  "decode M_CONNECT _ = Some RqConnect"
| "decode M_ATTACH (P_base_info pid path) = Some (RqAttach pid path)"
| "decode M_LOADSYMS (P_symbol_request base sz full path match) = Some (RqLoad base sz path)"
| "decode M_UNLOADSYMS (P_symbol_request base sz full path match) = Some (RqUnload base)"
| "decode M_IP (P_ip ip) = Some (RqLookup ip)"
| "decode M_SEARCHSYMS (P_symbol_request base sz full path match) = Some (RqSearch base sz full path match)"
| "decode M_STACK (P_context tid rbp rsp rip) = Some (RqStack tid rbp rsp rip)"
| "decode _ _ = None"

text \<open>A request as it arrives.\<close>

fun wire :: "request \<Rightarrow> request" where
  "wire (RqAttach pid path) = RqAttach pid (take 256 path)"
| "wire (RqLoad base sz path) = RqLoad base sz (take 256 path)"
| "wire (RqSearch base sz full path match) = RqSearch base sz full (take 256 path) match"
| "wire r = r"

lemma decode_encode: "decode (fst (encode r old)) (snd (encode r old)) = Some (wire r)"
  by (cases r) auto

section \<open>Shared memory\<close>

text \<open>The resolver creates the memory: it sets the event \<open>sh_in\<close> and waits for \<open>sh_out\<close>; both reset themselves.\<close>

record shm =
  sh_id :: msg_id
  sh_buf :: payload
  sh_in :: bool
  sh_out :: bool

definition server_notify :: "shm \<Rightarrow> shm" where "server_notify m = m\<lparr>sh_in := True\<rparr>"
definition client_notify :: "shm \<Rightarrow> shm" where "client_notify m = m\<lparr>sh_out := True\<rparr>"
definition put_msg :: "msg_id \<times> payload \<Rightarrow> shm \<Rightarrow> shm" where "put_msg mp m = m\<lparr>sh_id := fst mp, sh_buf := snd mp\<rparr>"
definition put_id :: "msg_id \<Rightarrow> shm \<Rightarrow> shm" where "put_id i m = m\<lparr>sh_id := i\<rparr>"

section \<open>The resolver\<close>

record msr_env =
  mv_once :: bool
  mv_open_ok :: "int \<Rightarrow> bool"
  mv_resolver_ok :: "string \<Rightarrow> bool"
  mv_resolve :: "u64 \<Rightarrow> symbol_info"
  mv_load_ok :: "u64 \<Rightarrow> string \<Rightarrow> bool"
  mv_search :: "u64 \<Rightarrow> string \<Rightarrow> bool \<Rightarrow> u64 list option"

definition truncated :: "symbol_info \<Rightarrow> symbol_info" where
  "truncated s = s\<lparr>si_module := take 255 (si_module s), si_function := take 127 (si_function s), si_path := take 255 (si_path s)\<rparr>"

fun file_part :: "string \<Rightarrow> string" where
  "file_part [] = []"
| "file_part (c # s) = (if \<exists>d \<in> set (c # s). d = CHR ''/'' \<or> d = CHR 0x5C then file_part s else c # s)"

text \<open>The data access library that belongs to a runtime library.\<close>

definition dac_dll :: "string \<Rightarrow> string option" where
  "dac_dll path = (if file_part path = ''coreclr.dll'' then Some ''mscordaccore.dll''
     else if file_part path = ''clr.dll'' then Some ''mscordacwks.dll'' else None)"

text \<open>The end of a handler: it answers, goes back to waiting without an answer, throws an exception, or
  runs past the end of an array.\<close>

datatype outcome = Answer "msg_id \<times> payload" | NoAnswer | Failure | Overrun

definition h_connect :: "payload \<Rightarrow> outcome" where
  [simp]: "h_connect old = Answer (M_CONFIRM, old)"

definition h_attach :: "msr_env \<Rightarrow> payload \<Rightarrow> int \<Rightarrow> string \<Rightarrow> outcome" where
  [simp]: "h_attach ev old pid path =
     (if \<not> mv_open_ok ev pid then Failure
      else case dac_dll path of None \<Rightarrow> Answer (M_EXIT, old)
        | Some dll \<Rightarrow> if mv_resolver_ok ev dll then Answer (M_ATTACHED, old) else Failure)"

definition h_stack :: "payload \<Rightarrow> outcome" where
  [simp]: "h_stack old = Answer (M_CONFIRM, old)"

definition h_resolve :: "msr_env \<Rightarrow> u64 \<Rightarrow> outcome" where
  [simp]: "h_resolve ev ip = Answer (M_IP, P_symbol_info (truncated (mv_resolve ev ip)))"

definition h_load :: "payload \<Rightarrow> outcome" where
  [simp]: "h_load old = Answer (M_CONFIRM, old)"

definition h_unload :: "payload \<Rightarrow> outcome" where
  [simp]: "h_unload old = Answer (M_CONFIRM, old)"

definition h_search :: "msr_env \<Rightarrow> u64 \<Rightarrow> bool \<Rightarrow> string \<Rightarrow> outcome" where
  [simp]: "h_search ev base full match =
     (if length match < 256 then
        (case mv_search ev base match full of
           None \<Rightarrow> NoAnswer
         | Some as \<Rightarrow> if length as \<le> 64 then Answer (M_SEARCHSYMS, P_symbol_response as) else Overrun)
      else Overrun)"

fun handler :: "msr_env \<Rightarrow> payload \<Rightarrow> request \<Rightarrow> outcome" where
  "handler ev old RqConnect = h_connect old"
| "handler ev old (RqAttach pid path) = h_attach ev old pid path"
| "handler ev old (RqLoad base sz path) = h_load old"
| "handler ev old (RqUnload base) = h_unload old"
| "handler ev old (RqLookup ip) = h_resolve ev ip"
| "handler ev old (RqSearch base sz full path match) = h_search ev base full match"
| "handler ev old (RqStack tid rbp rsp rip) = h_stack old"

text \<open>The modules whose symbols the debugging interface holds.\<close>

fun load_effect :: "msr_env \<Rightarrow> request \<Rightarrow> u64 list \<Rightarrow> u64 list" where
  "load_effect ev (RqLoad base sz path) ms = (if mv_load_ok ev base path then base # ms else ms)"
| "load_effect ev (RqUnload base) ms = filter (\<lambda>b. b \<noteq> base) ms"
| "load_effect ev _ ms = ms"

text \<open>Requests during which the resolver may send heartbeats.\<close>

fun is_long :: "request \<Rightarrow> bool" where
  "is_long (RqAttach _ _) = True"
| "is_long (RqLoad _ _ _) = True"
| "is_long _ = False"

text \<open>The second component of \<open>S_busy\<close> tells whether the resolver has been told to quit. \<open>S_undefined\<close>: an
  array was overrun or a buffer read with a structure it was not written with; what follows is not modelled.\<close>

datatype server_pc = S_idle | S_busy request bool | S_beat request | S_stopped | S_undefined

datatype client_pc = C_connect | C_retry | C_attach int string | C_attaching int string | C_ready | C_wait request | C_gone

record msr_state =
  ms_shm :: shm
  ms_client :: client_pc
  ms_server :: server_pc
  ms_log :: "(request \<times> reply) list"
  ms_loaded :: "u64 list"

definition msr_init :: "int \<Rightarrow> string \<Rightarrow> msr_state" where
  "msr_init pid path = \<lparr>ms_shm = server_notify (put_id M_READY \<lparr>sh_id = M_IP, sh_buf = P_none, sh_in = False, sh_out = False\<rparr>),
     ms_client = C_connect, ms_server = S_idle, ms_log = [], ms_loaded = []\<rparr>"

text \<open>The resolver leaves its loop; giving up its driver sends a last message.\<close>

definition server_stop :: "msr_state \<Rightarrow> msr_state" where
  "server_stop s = s\<lparr>ms_shm := server_notify (put_id M_EXIT (ms_shm s)), ms_server := S_stopped\<rparr>"

text \<open>\<^verbatim>\<open>process_msgs\<close>: a message has arrived.\<close>

definition known :: "msg_id \<Rightarrow> bool" where
  "known i = (i \<notin> {M_SYMBOL, M_READY, M_ATTACHED, M_WAIT})"

definition server_receive :: "msr_env \<Rightarrow> msr_state \<Rightarrow> msr_state" where
  "server_receive ev s =
     (let m = (ms_shm s)\<lparr>sh_out := False\<rparr> in
      if sh_id m = M_CONFIRM then s\<lparr>ms_shm := m\<rparr>
      else if sh_id m = M_EXIT then
        (let s = s\<lparr>ms_shm := server_notify (put_id M_READY m)\<rparr> in if mv_once ev then server_stop s else s)
      else if \<not> known (sh_id m) then server_stop (s\<lparr>ms_shm := m\<rparr>)
      else case decode (sh_id m) (sh_buf m) of
        Some r \<Rightarrow> s\<lparr>ms_shm := m, ms_server := S_busy r False\<rparr>
      | None \<Rightarrow> s\<lparr>ms_shm := m, ms_server := S_undefined\<rparr>)"

text \<open>\<^verbatim>\<open>waitHeartbeat\<close>: one heartbeat, and the confirmation or its absence.\<close>

definition server_beat :: "request \<Rightarrow> msr_state \<Rightarrow> msr_state" where
  "server_beat r s = s\<lparr>ms_shm := server_notify (put_id M_WAIT (ms_shm s)), ms_server := S_beat r\<rparr>"

definition server_beat_end :: "bool \<Rightarrow> request \<Rightarrow> msr_state \<Rightarrow> msr_state" where
  "server_beat_end received r s =
     (let m = (if received then (ms_shm s)\<lparr>sh_out := False\<rparr> else ms_shm s)
      in s\<lparr>ms_shm := m, ms_server := S_busy r (\<not> received \<or> sh_id m \<noteq> M_CONFIRM)\<rparr>)"

definition server_finish :: "msr_env \<Rightarrow> request \<Rightarrow> bool \<Rightarrow> msr_state \<Rightarrow> msr_state" where
  "server_finish ev r quit s =
     (let s' = s\<lparr>ms_server := S_idle, ms_loaded := load_effect ev r (ms_loaded s)\<rparr>;
          leave = (if quit then server_stop else id)
      in case handler ev (sh_buf (ms_shm s)) r of
        Answer mp \<Rightarrow> leave (s'\<lparr>ms_shm := server_notify (put_msg mp (ms_shm s))\<rparr>)
      | NoAnswer \<Rightarrow> leave s'
      | Failure \<Rightarrow> server_stop s
      | Overrun \<Rightarrow> s\<lparr>ms_server := S_undefined\<rparr>)"

section \<open>The client\<close>

definition client_send :: "request \<Rightarrow> msr_state \<Rightarrow> msr_state" where
  "client_send r s = s\<lparr>ms_shm := client_notify (put_msg (encode r (sh_buf (ms_shm s))) (ms_shm s)), ms_client := C_wait r\<rparr>"

text \<open>Giving up the driver sends a last message.\<close>

definition driver_reset :: "msr_state \<Rightarrow> msr_state" where
  "driver_reset s = s\<lparr>ms_shm := client_notify (put_id M_EXIT (ms_shm s)), ms_client := C_gone\<rparr>"

definition confirm_beat :: "msr_state \<Rightarrow> msr_state" where
  "confirm_beat s = s\<lparr>ms_shm := client_notify (put_id M_CONFIRM (ms_shm s))\<rparr>"

definition log_reply :: "request \<Rightarrow> reply \<Rightarrow> msr_state \<Rightarrow> msr_state" where
  "log_reply r rp s = s\<lparr>ms_log := ms_log s @ [(r, rp)], ms_client := C_ready\<rparr>"

text \<open>What the client takes as the answer to a request; \<open>received\<close>: the wait ended with the event.\<close>

definition load_result :: "shm \<Rightarrow> reply" where
  [simp]: "load_result m = RpBool (sh_id m = M_CONFIRM)"

definition lookup_result :: "bool \<Rightarrow> shm \<Rightarrow> reply" where
  [simp]: "lookup_result received m =
     (if \<not> received then RpTimeout else case sh_buf m of P_symbol_info si \<Rightarrow> RpInfo si | _ \<Rightarrow> RpGarbage)"

definition search_result :: "bool \<Rightarrow> shm \<Rightarrow> reply" where
  [simp]: "search_result received m =
     (if \<not> received then RpTimeout else case sh_buf m of P_symbol_response as \<Rightarrow> RpFound as | _ \<Rightarrow> RpGarbage)"

fun client_result :: "bool \<Rightarrow> request \<Rightarrow> shm \<Rightarrow> reply" where
  "client_result received (RqLoad _ _ _) m = load_result m"
| "client_result received (RqLookup _) m = lookup_result received m"
| "client_result received (RqSearch _ _ _ _ _) m = search_result received m"
| "client_result received _ m = RpUnit"

definition wake_connect :: "int \<Rightarrow> string \<Rightarrow> msr_state \<Rightarrow> msr_state" where
  "wake_connect pid path s =
     (if sh_id (ms_shm s) = M_READY then s\<lparr>ms_shm := client_notify (put_id M_CONNECT (ms_shm s)), ms_client := C_attach pid path\<rparr>
      else (driver_reset s)\<lparr>ms_client := C_retry\<rparr>)"

definition wake_attach :: "int \<Rightarrow> string \<Rightarrow> msr_state \<Rightarrow> msr_state" where
  "wake_attach pid path s =
     (if sh_id (ms_shm s) = M_CONFIRM
      then s\<lparr>ms_shm := client_notify (put_msg (attach_msg pid path) (ms_shm s)), ms_client := C_attaching pid path\<rparr>
      else driver_reset s)"

definition wake_attaching :: "msr_state \<Rightarrow> msr_state" where
  "wake_attaching s = (if sh_id (ms_shm s) = M_ATTACHED then s\<lparr>ms_client := C_ready\<rparr> else driver_reset s)"

definition wake_unload :: "request \<Rightarrow> msr_state \<Rightarrow> msr_state" where
  "wake_unload r s = (if sh_id (ms_shm s) = M_CONFIRM then log_reply r RpUnit s else s\<lparr>ms_client := C_gone\<rparr>)"

text \<open>A wait of the client ends, with the event or by its timeout. Attaching and loading stay in
  \<^verbatim>\<open>wait_heart_beat\<close> as long as a heartbeat is received.\<close>

definition client_wake :: "int \<Rightarrow> string \<Rightarrow> bool \<Rightarrow> msr_state \<Rightarrow> msr_state" where
  "client_wake pid path received s =
     (let s = (if received then s\<lparr>ms_shm := (ms_shm s)\<lparr>sh_in := False\<rparr>\<rparr> else s);
          heartbeat = (received \<and> sh_id (ms_shm s) = M_WAIT)
      in case ms_client s of
           C_connect \<Rightarrow> wake_connect pid path s
         | C_attach p q \<Rightarrow> wake_attach p q s
         | C_attaching p q \<Rightarrow> if heartbeat then confirm_beat s else wake_attaching s
         | C_wait r \<Rightarrow>
             if is_long r \<and> heartbeat then confirm_beat s
             else (case r of RqUnload b \<Rightarrow> wake_unload r s
                   | _ \<Rightarrow> log_reply r (client_result received r (ms_shm s)) s)
         | _ \<Rightarrow> s)"

text \<open>What the client asks in the course of its work; a longer search string fails an assertion.\<close>

fun client_request :: "request \<Rightarrow> bool" where
  "client_request RqConnect = False"
| "client_request (RqAttach _ _) = False"
| "client_request (RqSearch base sz full path match) = (length match \<le> 256)"
| "client_request _ = True"

fun waits :: "client_pc \<Rightarrow> bool" where
  "waits C_ready = False"
| "waits C_retry = False"
| "waits C_gone = False"
| "waits _ = True"

section \<open>The dialogue\<close>

inductive msr_step :: "msr_env \<Rightarrow> int \<Rightarrow> string \<Rightarrow> bool \<Rightarrow> msr_state \<Rightarrow> msr_state \<Rightarrow> bool" for ev pid path timeouts where
  request: "ms_client s = C_ready \<Longrightarrow> client_request r \<Longrightarrow> msr_step ev pid path timeouts s (client_send r s)"
| leave: "ms_client s = C_ready \<Longrightarrow> msr_step ev pid path timeouts s (driver_reset s)"
| retry: "ms_client s = C_retry \<Longrightarrow> msr_step ev pid path timeouts s (s\<lparr>ms_client := C_connect\<rparr>)"
| give_up: "ms_client s = C_retry \<Longrightarrow> msr_step ev pid path timeouts s (s\<lparr>ms_client := C_gone\<rparr>)"
| answered: "waits (ms_client s) \<Longrightarrow> sh_in (ms_shm s) \<Longrightarrow> msr_step ev pid path timeouts s (client_wake pid path True s)"
| timed_out: "timeouts \<Longrightarrow> waits (ms_client s) \<Longrightarrow> msr_step ev pid path timeouts s (client_wake pid path False s)"
| receive: "ms_server s = S_idle \<Longrightarrow> sh_out (ms_shm s) \<Longrightarrow> msr_step ev pid path timeouts s (server_receive ev s)"
| beat: "ms_server s = S_busy r False \<Longrightarrow> is_long r \<Longrightarrow> msr_step ev pid path timeouts s (server_beat r s)"
| confirmed: "ms_server s = S_beat r \<Longrightarrow> sh_out (ms_shm s) \<Longrightarrow> msr_step ev pid path timeouts s (server_beat_end True r s)"
| unconfirmed: "timeouts \<Longrightarrow> ms_server s = S_beat r \<Longrightarrow> msr_step ev pid path timeouts s (server_beat_end False r s)"
| finish: "ms_server s = S_busy r quit \<Longrightarrow> msr_step ev pid path timeouts s (server_finish ev r quit s)"

inductive msr_reachable :: "msr_env \<Rightarrow> int \<Rightarrow> string \<Rightarrow> bool \<Rightarrow> msr_state \<Rightarrow> bool" for ev pid path timeouts where
  start: "msr_reachable ev pid path timeouts (msr_init pid path)"
| step: "msr_reachable ev pid path timeouts s \<Longrightarrow> msr_step ev pid path timeouts s s' \<Longrightarrow> msr_reachable ev pid path timeouts s'"

section \<open>Without timeouts\<close>

text \<open>The two processes take turns: at every moment at most one event is set, and it is the one whose
  owner is waiting.\<close>

definition quiet :: "shm \<Rightarrow> bool" where "quiet m = (\<not> sh_in m \<and> \<not> sh_out m)"
definition to_server :: "shm \<Rightarrow> bool" where "to_server m = (sh_out m \<and> \<not> sh_in m)"
definition to_client :: "shm \<Rightarrow> bool" where "to_client m = (sh_in m \<and> \<not> sh_out m)"

definition phase_ask :: "request \<Rightarrow> msr_state \<Rightarrow> bool" where
  "phase_ask r s = (ms_server s = S_idle \<and> to_server (ms_shm s) \<and> known (sh_id (ms_shm s))
     \<and> sh_id (ms_shm s) \<notin> {M_CONFIRM, M_EXIT} \<and> decode (sh_id (ms_shm s)) (sh_buf (ms_shm s)) = Some r)"

definition phase_work :: "request \<Rightarrow> msr_state \<Rightarrow> bool" where
  "phase_work r s = (ms_server s = S_busy r False \<and> quiet (ms_shm s)
     \<or> ms_server s = S_beat r \<and> is_long r \<and> to_client (ms_shm s) \<and> sh_id (ms_shm s) = M_WAIT
     \<or> ms_server s = S_beat r \<and> is_long r \<and> to_server (ms_shm s) \<and> sh_id (ms_shm s) = M_CONFIRM)"

definition phase_answer :: "msr_env \<Rightarrow> request \<Rightarrow> msr_state \<Rightarrow> bool" where
  "phase_answer ev r s = (ms_server s = S_idle \<and> to_client (ms_shm s)
     \<and> (\<exists>old. handler ev old r = Answer (sh_id (ms_shm s), sh_buf (ms_shm s))))"

definition phase_lost :: "msr_env \<Rightarrow> request \<Rightarrow> msr_state \<Rightarrow> bool" where
  "phase_lost ev r s = (quiet (ms_shm s) \<and> (ms_server s = S_idle \<and> (\<exists>old. handler ev old r = NoAnswer)
     \<or> ms_server s = S_undefined \<and> (\<exists>old. handler ev old r = Overrun))
     \<or> ms_server s = S_stopped \<and> to_client (ms_shm s) \<and> sh_id (ms_shm s) = M_EXIT \<and> (\<exists>old. handler ev old r = Failure))"

definition phase :: "msr_env \<Rightarrow> request \<Rightarrow> msr_state \<Rightarrow> bool" where
  "phase ev r s = (phase_ask r s \<or> phase_work r s \<or> phase_answer ev r s \<or> phase_lost ev r s)"

fun turn :: "msr_env \<Rightarrow> client_pc \<Rightarrow> msr_state \<Rightarrow> bool" where
  "turn ev C_connect s = (ms_server s = S_idle \<and> to_client (ms_shm s) \<and> sh_id (ms_shm s) = M_READY)"
| "turn ev C_retry s = False"
| "turn ev (C_attach pid path) s = phase ev RqConnect s"
| "turn ev (C_attaching pid path) s = phase ev (wire (RqAttach pid path)) s"
| "turn ev C_ready s = (ms_server s = S_idle \<and> quiet (ms_shm s))"
| "turn ev (C_wait r) s = (client_request r \<and> phase ev (wire r) s)"
| "turn ev C_gone s = True"

text \<open>The answer a request deserves.\<close>

fun deserves :: "msr_env \<Rightarrow> request \<Rightarrow> reply \<Rightarrow> bool" where
  "deserves ev (RqLookup ip) rp = (rp = RpInfo (truncated (mv_resolve ev ip)))"
| "deserves ev (RqSearch base sz full path match) rp =
     (case mv_search ev base match full of Some as \<Rightarrow> length as \<le> 64 \<and> rp = RpFound as | None \<Rightarrow> False)"
| "deserves ev (RqLoad base sz path) rp = (rp = RpBool True)"
| "deserves ev _ rp = (rp = RpUnit)"

definition msr_inv :: "msr_env \<Rightarrow> msr_state \<Rightarrow> bool" where
  "msr_inv ev s = (turn ev (ms_client s) s \<and> list_all (\<lambda>(r, rp). deserves ev r rp) (ms_log s))"

lemmas phase_defs = phase_def phase_ask_def phase_work_def phase_answer_def phase_lost_def quiet_def to_server_def to_client_def
lemmas shm_defs = server_notify_def client_notify_def put_msg_def put_id_def

lemma phase_ask_sent:
  assumes "ms_server s = S_idle" "quiet (ms_shm s)"
  shows "phase_ask (wire r) (s\<lparr>ms_shm := client_notify (put_msg (encode r (sh_buf (ms_shm s))) (ms_shm s)), ms_client := c\<rparr>)"
  using assms by (cases r) (auto simp: phase_defs shm_defs known_def)

text \<open>Steps of the resolver stay within the phase.\<close>

lemma phase_receive:
  assumes "phase ev r s" "ms_server s = S_idle" "sh_out (ms_shm s)"
  shows "phase ev r (server_receive ev s)"
  using assms by (auto simp: phase_defs server_receive_def Let_def)

lemma phase_beat:
  assumes "phase ev r s" "ms_server s = S_busy q False" "is_long q"
  shows "phase ev r (server_beat q s)"
  using assms by (auto simp: phase_defs server_beat_def shm_defs)

lemma phase_beat_end:
  assumes "phase ev r s" "ms_server s = S_beat q" "sh_out (ms_shm s)"
  shows "phase ev r (server_beat_end True q s)"
  using assms by (auto simp: phase_defs server_beat_end_def)

lemma phase_finish:
  assumes "phase ev r s" "ms_server s = S_busy q quit"
  shows "phase ev r (server_finish ev q quit s)"
proof -
  have "q = r" "quit = False" "quiet (ms_shm s)" using assms by (auto simp: phase_defs)
  then show ?thesis
    by (cases "handler ev (sh_buf (ms_shm s)) r")
      (auto simp: phase_defs server_finish_def server_stop_def shm_defs Let_def)
qed

text \<open>Steps of the client.\<close>

lemmas wake_defs = client_wake_def wake_connect_def wake_attach_def wake_attaching_def wake_unload_def

lemma answer_load: "handler ev old r = Answer (i, p) \<Longrightarrow> is_long r \<Longrightarrow> i \<noteq> M_WAIT \<and> i \<noteq> M_EXIT \<or> (\<exists>q t. r = RqAttach q t)"
  by (cases r) auto

lemma answer_attach: "handler ev old (RqAttach q t) = Answer (i, p) \<Longrightarrow> i = M_EXIT \<or> i = M_ATTACHED"
  by (auto split: if_splits option.splits)

lemma answered_deserves:
  assumes "handler ev old (wire r) = Answer (i, p)" "sh_id m = i" "sh_buf m = p" "client_request r"
  shows "deserves ev r (client_result True r m) \<and> sh_id m \<noteq> M_WAIT \<and> (is_long r \<or> (\<exists>b. r = RqUnload b) \<longrightarrow> sh_id m = M_CONFIRM)"
  using assms by (cases r) (auto split: if_splits option.splits payload.splits)

lemma failure_attach: "handler ev old r = Failure \<Longrightarrow> \<exists>q t. r = RqAttach q t"
  by (cases r) (auto split: if_splits option.splits)

lemma wire_attach: "wire r = RqAttach q t \<Longrightarrow> \<not> client_request r"
  by (cases r) auto

lemma is_long_wire [simp]: "is_long (wire r) = is_long r"
  by (cases r) auto

lemma phase_in:
  assumes "phase ev r s" "sh_in (ms_shm s)"
  shows "ms_server s = S_beat r \<and> is_long r \<and> \<not> sh_out (ms_shm s) \<and> sh_id (ms_shm s) = M_WAIT
    \<or> ms_server s = S_idle \<and> \<not> sh_out (ms_shm s) \<and> (\<exists>old. handler ev old r = Answer (sh_id (ms_shm s), sh_buf (ms_shm s)))
    \<or> sh_id (ms_shm s) = M_EXIT \<and> (\<exists>old. handler ev old r = Failure)"
  using assms by (auto simp: phase_defs)

lemma phase_confirm:
  "ms_server s = S_beat r \<Longrightarrow> is_long r \<Longrightarrow> \<not> sh_out (ms_shm s)
    \<Longrightarrow> phase ev r (confirm_beat (s\<lparr>ms_shm := (ms_shm s)\<lparr>sh_in := False\<rparr>\<rparr>))"
  by (auto simp: phase_defs confirm_beat_def shm_defs)

lemma attach_inv:
  assumes "ms_client s = C_attach p q" "sh_in (ms_shm s)" "msr_inv ev s"
  shows "msr_inv ev (client_wake pid path True s)"
proof -
  have ph: "phase ev RqConnect s" and log: "list_all (\<lambda>(r, rp). deserves ev r rp) (ms_log s)"
    using assms by (auto simp: msr_inv_def)
  have "ms_server s = S_idle" "\<not> sh_out (ms_shm s)" "sh_id (ms_shm s) = M_CONFIRM"
    using phase_in[OF ph assms(2)] by auto
  then show ?thesis
    using assms(1) log phase_ask_sent[of "s\<lparr>ms_shm := (ms_shm s)\<lparr>sh_in := False\<rparr>\<rparr>" "RqAttach p q" "C_attaching p q"]
    by (simp add: msr_inv_def wake_defs phase_def quiet_def)
qed

lemma attaching_inv:
  assumes "ms_client s = C_attaching p q" "sh_in (ms_shm s)" "msr_inv ev s"
  shows "msr_inv ev (client_wake pid path True s)"
proof -
  let ?r = "wire (RqAttach p q)"
  have ph: "phase ev ?r s" and log: "list_all (\<lambda>(r, rp). deserves ev r rp) (ms_log s)"
    using assms by (auto simp: msr_inv_def)
  show ?thesis
  proof (cases "sh_id (ms_shm s) = M_WAIT")
    case True
    then have b: "ms_server s = S_beat ?r" "\<not> sh_out (ms_shm s)"
      using phase_in[OF ph assms(2)] answer_attach by (force, force)
    show ?thesis
      using phase_confirm[OF b(1) _ b(2)] assms(1) True log
      by (simp add: msr_inv_def wake_defs confirm_beat_def)
  next
    case False
    then show ?thesis
      using phase_in[OF ph assms(2)] answer_attach assms(1) log
      by (auto simp: msr_inv_def wake_defs driver_reset_def quiet_def Let_def)
  qed
qed

lemma wait_inv:
  assumes "ms_client s = C_wait r" "sh_in (ms_shm s)" "msr_inv ev s"
  shows "msr_inv ev (client_wake pid path True s)"
proof -
  have rq: "client_request r" and ph: "phase ev (wire r) s" and log: "list_all (\<lambda>(r, rp). deserves ev r rp) (ms_log s)"
    using assms by (auto simp: msr_inv_def)
  let ?m = "(ms_shm s)\<lparr>sh_in := False\<rparr>"
  from phase_in[OF ph assms(2)] consider
      (beat) "ms_server s = S_beat (wire r)" "is_long r" "\<not> sh_out (ms_shm s)" "sh_id (ms_shm s) = M_WAIT"
    | (answer) old where "ms_server s = S_idle" "\<not> sh_out (ms_shm s)" "handler ev old (wire r) = Answer (sh_id ?m, sh_buf ?m)"
    | (fail) old where "handler ev old (wire r) = Failure"
    by auto
  then show ?thesis
  proof cases
    case beat
    then show ?thesis
      using phase_confirm[OF beat(1)] assms(1) rq log
      by (simp add: msr_inv_def wake_defs confirm_beat_def)
  next
    case answer
    then show ?thesis
      using answered_deserves[OF answer(3) refl refl rq] assms(1) log
      by (cases r) (auto simp: msr_inv_def wake_defs log_reply_def quiet_def)
  next
    case fail
    then show ?thesis using failure_attach wire_attach rq by blast
  qed
qed

lemma wake_inv:
  assumes "waits (ms_client s)" "sh_in (ms_shm s)" "msr_inv ev s"
  shows "msr_inv ev (client_wake pid path True s)"
proof (cases "ms_client s")
  case C_connect
  then show ?thesis using assms
    by (auto simp: msr_inv_def wake_defs shm_defs phase_defs known_def)
next
  case (C_attach p q) then show ?thesis using attach_inv assms by blast
next
  case (C_attaching p q) then show ?thesis using attaching_inv assms by blast
next
  case (C_wait r) then show ?thesis using wait_inv assms by blast
qed (use assms in auto)

text \<open>A step of the resolver keeps the invariant when it keeps the phase.\<close>

lemma server_inv:
  assumes "msr_inv ev s" "ms_client s' = ms_client s" "ms_log s' = ms_log s"
    and "\<And>r. phase ev r s \<Longrightarrow> phase ev r s'"
    and "ms_client s = C_connect \<Longrightarrow> False" "ms_client s = C_ready \<Longrightarrow> False"
  shows "msr_inv ev s'"
  using assms by (cases "ms_client s") (auto simp: msr_inv_def)

lemma server_frame [simp]:
  "ms_client (server_receive ev s) = ms_client s" "ms_log (server_receive ev s) = ms_log s"
  "ms_client (server_beat r s) = ms_client s" "ms_log (server_beat r s) = ms_log s"
  "ms_client (server_beat_end b r s) = ms_client s" "ms_log (server_beat_end b r s) = ms_log s"
  "ms_client (server_finish ev r b s) = ms_client s" "ms_log (server_finish ev r b s) = ms_log s"
  by (auto simp: server_receive_def server_beat_def server_beat_end_def server_finish_def server_stop_def Let_def
      split: option.splits outcome.splits)

lemma resting: "msr_inv ev s \<Longrightarrow> ms_client s = C_connect \<or> ms_client s = C_ready \<Longrightarrow> ms_server s = S_idle \<and> \<not> sh_out (ms_shm s)"
  by (auto simp: msr_inv_def quiet_def to_client_def)

lemma msr_step_inv: "msr_step ev pid path False s s' \<Longrightarrow> msr_inv ev s \<Longrightarrow> msr_inv ev s'"
proof (induction rule: msr_step.induct)
  case (request s r)
  then show ?case using phase_ask_sent[of s r "C_wait r"]
    by (simp add: msr_inv_def client_send_def phase_def)
next
  case (leave s) then show ?case by (simp add: msr_inv_def driver_reset_def)
next
  case (answered s) then show ?case by (rule wake_inv)
next
  case (receive s)
  show ?case
    by (rule server_inv[OF receive(3)]) (use resting[OF receive(3)] receive(1,2) phase_receive in simp_all)
next
  case (beat s r)
  show ?case
    by (rule server_inv[OF beat(3)]) (use resting[OF beat(3)] beat(1,2) phase_beat in simp_all)
next
  case (confirmed s r)
  show ?case
    by (rule server_inv[OF confirmed(3)]) (use resting[OF confirmed(3)] confirmed(1,2) phase_beat_end in simp_all)
next
  case (finish s r quit)
  show ?case
    by (rule server_inv[OF finish(2)]) (use resting[OF finish(2)] finish(1) phase_finish in simp_all)
qed (auto simp: msr_inv_def)

lemma msr_reachable_inv: "msr_reachable ev pid path False s \<Longrightarrow> msr_inv ev s"
proof (induction rule: msr_reachable.induct)
  case start
  show ?case by (simp add: msr_inv_def msr_init_def shm_defs to_client_def)
next
  case (step s s')
  then show ?case by (blast intro: msr_step_inv)
qed

section \<open>A resolver that is gone\<close>

text \<open>The resolver has ended, its last message has been taken, and no confirmation is left in the memory.\<close>

definition deserted :: "msr_state \<Rightarrow> bool" where
  "deserted s \<longleftrightarrow> ms_server s \<in> {S_stopped, S_undefined} \<and> \<not> sh_in (ms_shm s) \<and>
     (case ms_client s of C_ready \<Rightarrow> True | C_gone \<Rightarrow> True | C_wait r \<Rightarrow> sh_id (ms_shm s) \<noteq> M_CONFIRM | _ \<Rightarrow> False)"

fun no_answer :: "request \<Rightarrow> reply" where
  "no_answer (RqLookup _) = RpTimeout"
| "no_answer (RqSearch _ _ _ _ _) = RpTimeout"
| "no_answer (RqLoad _ _ _) = RpBool False"
| "no_answer _ = RpUnit"

inductive_cases msr_stepE [consumes 1, case_names request leave retry give_up answered timed_out
    receive beat confirmed unconfirmed finish]: "msr_step ev pid path timeouts s s'"

lemma encode_no_confirm: "client_request r \<Longrightarrow> fst (encode r b) \<noteq> M_CONFIRM"
  by (cases r) auto

lemma deserted_step:
  assumes "msr_step ev pid path timeouts s s'" and "deserted s"
  shows "deserted s' \<and> ms_loaded s' = ms_loaded s
    \<and> (ms_log s' = ms_log s \<or> (\<exists>r. ms_log s' = ms_log s @ [(r, no_answer r)]))"
  using assms(1)
proof (cases rule: msr_stepE)
  case (request r)
  then show ?thesis using assms(2) encode_no_confirm [of r "sh_buf (ms_shm s)"]
    by (simp add: deserted_def client_send_def shm_defs split: prod.splits)
next
  case timed_out
  then obtain r where r: "ms_client s = C_wait r" "sh_id (ms_shm s) \<noteq> M_CONFIRM"
    using assms(2) by (auto simp: deserted_def split: client_pc.splits)
  then show ?thesis using assms(2) timed_out
    by (cases r) (auto simp: deserted_def wake_defs log_reply_def)
qed (use assms(2) in \<open>auto simp: deserted_def driver_reset_def shm_defs split: client_pc.splits\<close>)

text \<open>From then on nothing wrong is taken for an answer: a look-up or a search ends in a timeout and a load
  is reported as failed.\<close>

theorem deserted_client:
  assumes "(msr_step ev pid path timeouts)\<^sup>*\<^sup>* s s'" and "deserted s"
  shows "deserted s' \<and> ms_loaded s' = ms_loaded s
    \<and> (\<exists>new. ms_log s' = ms_log s @ new \<and> list_all (\<lambda>(r, rp). rp = no_answer r) new)"
  using assms(1)
proof (induction rule: rtranclp_induct)
  case base
  show ?case using assms(2) by (intro conjI exI [of _ "[]"]) simp_all
next
  case (step s1 s2)
  then obtain new where new: "ms_log s1 = ms_log s @ new" "list_all (\<lambda>(r, rp). rp = no_answer r) new" by blast
  from deserted_step [OF step(2)] step(3) have d: "deserted s2" "ms_loaded s2 = ms_loaded s"
    and l: "ms_log s2 = ms_log s1 \<or> (\<exists>r. ms_log s2 = ms_log s1 @ [(r, no_answer r)])" by simp_all
  from l have "\<exists>new'. ms_log s2 = ms_log s @ new' \<and> list_all (\<lambda>(r, rp). rp = no_answer r) new'"
  proof
    assume "ms_log s2 = ms_log s1" then show ?thesis using new by (intro exI [of _ new]) simp
  next
    assume "\<exists>r. ms_log s2 = ms_log s1 @ [(r, no_answer r)]"
    then obtain r where "ms_log s2 = ms_log s1 @ [(r, no_answer r)]" by blast
    then show ?thesis using new by (intro exI [of _ "new @ [(r, no_answer r)]"]) simp
  qed
  with d show ?case by simp
qed

section \<open>Runs\<close>

abbreviation mk :: "msg_id \<Rightarrow> payload \<Rightarrow> bool \<Rightarrow> bool \<Rightarrow> client_pc \<Rightarrow> server_pc \<Rightarrow> (request \<times> reply) list \<Rightarrow> u64 list \<Rightarrow> msr_state" where
  "mk i b ein eout c sv lg ld \<equiv> \<lparr>ms_shm = \<lparr>sh_id = i, sh_buf = b, sh_in = ein, sh_out = eout\<rparr>, ms_client = c, ms_server = sv,
     ms_log = lg, ms_loaded = ld\<rparr>"

lemmas msr_ops = Let_def wake_defs server_receive_def server_finish_def server_beat_def server_beat_end_def client_send_def
  confirm_beat_def log_reply_def driver_reset_def shm_defs known_def

lemma then_answered: "msr_reachable ev pid path t s \<Longrightarrow> waits (ms_client s) \<Longrightarrow> sh_in (ms_shm s)
    \<Longrightarrow> s' = client_wake pid path True s \<Longrightarrow> msr_reachable ev pid path t s'"
  by (blast intro: msr_reachable.step msr_step.answered)

lemma then_timed_out: "msr_reachable ev pid path True s \<Longrightarrow> waits (ms_client s)
    \<Longrightarrow> s' = client_wake pid path False s \<Longrightarrow> msr_reachable ev pid path True s'"
  by (blast intro: msr_reachable.step msr_step.timed_out)

lemma then_request: "msr_reachable ev pid path t s \<Longrightarrow> ms_client s = C_ready \<Longrightarrow> client_request r
    \<Longrightarrow> s' = client_send r s \<Longrightarrow> msr_reachable ev pid path t s'"
  by (blast intro: msr_reachable.step msr_step.request)

lemma then_receive: "msr_reachable ev pid path t s \<Longrightarrow> ms_server s = S_idle \<Longrightarrow> sh_out (ms_shm s)
    \<Longrightarrow> s' = server_receive ev s \<Longrightarrow> msr_reachable ev pid path t s'"
  by (blast intro: msr_reachable.step msr_step.receive)

lemma then_beat: "msr_reachable ev pid path t s \<Longrightarrow> ms_server s = S_busy r False \<Longrightarrow> is_long r
    \<Longrightarrow> s' = server_beat r s \<Longrightarrow> msr_reachable ev pid path t s'"
  by (blast intro: msr_reachable.step msr_step.beat)

lemma then_finish: "msr_reachable ev pid path t s \<Longrightarrow> ms_server s = S_busy r quit
    \<Longrightarrow> s' = server_finish ev r quit s \<Longrightarrow> msr_reachable ev pid path t s'"
  by (blast intro: msr_reachable.step msr_step.finish)

text \<open>A client that finds a resolver gets a ready connection.\<close>

definition attachable :: "msr_env \<Rightarrow> int \<Rightarrow> string \<Rightarrow> bool" where
  "attachable ev pid path = (mv_open_ok ev pid \<and> (case dac_dll (take 256 path) of Some dll \<Rightarrow> mv_resolver_ok ev dll | None \<Rightarrow> False))"

lemma attached:
  assumes "attachable ev pid path"
  shows "msr_reachable ev pid path t (mk M_ATTACHED (P_base_info pid (take 256 path)) False False C_ready S_idle [] [])"
proof -
  let ?A = "RqAttach pid (take 256 path)"
  have "msr_reachable ev pid path t (mk M_READY P_none True False C_connect S_idle [] [])"
    using msr_reachable.start[of ev pid path t] by (simp add: msr_init_def shm_defs)
  then have "msr_reachable ev pid path t (mk M_CONNECT P_none False True (C_attach pid path) S_idle [] [])"
    by (rule then_answered) (simp_all add: msr_ops)
  then have "msr_reachable ev pid path t (mk M_CONNECT P_none False False (C_attach pid path) (S_busy RqConnect False) [] [])"
    by (rule then_receive) (simp_all add: msr_ops)
  then have "msr_reachable ev pid path t (mk M_CONFIRM P_none True False (C_attach pid path) S_idle [] [])"
    by (rule then_finish[of _ _ _ _ _ RqConnect False]) (simp_all add: msr_ops)
  then have "msr_reachable ev pid path t (mk M_ATTACH (P_base_info pid (take 256 path)) False True (C_attaching pid path) S_idle [] [])"
    by (rule then_answered) (simp_all add: msr_ops)
  then have "msr_reachable ev pid path t (mk M_ATTACH (P_base_info pid (take 256 path)) False False (C_attaching pid path) (S_busy ?A False) [] [])"
    by (rule then_receive) (simp_all add: msr_ops)
  then have "msr_reachable ev pid path t (mk M_ATTACHED (P_base_info pid (take 256 path)) True False (C_attaching pid path) S_idle [] [])"
    by (rule then_finish[of _ _ _ _ _ ?A False]) (use assms in \<open>auto simp: msr_ops attachable_def split: option.splits\<close>)
  then show ?thesis
    by (rule then_answered) (simp_all add: msr_ops)
qed

text \<open>A request that is not long runs through.\<close>

lemma served:
  assumes "msr_reachable ev pid path t (mk i b False False C_ready S_idle lg ld)"
    and "client_request r" "\<not> is_long r" "\<forall>q. r \<noteq> RqUnload q"
    and "handler ev (snd (encode r b)) (wire r) = Answer (i', b')"
  shows "msr_reachable ev pid path t (mk i' b' False False C_ready S_idle
           (lg @ [(r, client_result True r \<lparr>sh_id = i', sh_buf = b', sh_in = False, sh_out = False\<rparr>)]) (load_effect ev (wire r) ld))"
proof -
  obtain i1 b1 where e: "encode r b = (i1, b1)" by fastforce
  have d: "decode i1 b1 = Some (wire r)" "known i1" "i1 \<noteq> M_CONFIRM" "i1 \<noteq> M_EXIT"
    using decode_encode[of r b] e by (cases r; auto simp: known_def)+
  from assms(1) have "msr_reachable ev pid path t (mk i1 b1 False True (C_wait r) S_idle lg ld)"
    by (rule then_request[where r = r]) (simp_all add: client_send_def shm_defs assms(2) e)
  then have "msr_reachable ev pid path t (mk i1 b1 False False (C_wait r) (S_busy (wire r) False) lg ld)"
    by (rule then_receive) (use d in \<open>simp_all add: server_receive_def\<close>)
  then have "msr_reachable ev pid path t (mk i' b' True False (C_wait r) S_idle lg (load_effect ev (wire r) ld))"
    by (rule then_finish[of _ _ _ _ _ "wire r" False]) (use assms(5) e in \<open>simp_all add: server_finish_def shm_defs\<close>)
  then show ?thesis
    by (rule then_answered) (use assms(3,4) in \<open>cases r; simp add: wake_defs log_reply_def Let_def\<close>)+
qed

text \<open>C12: As long as no wait times out, every answer the client takes belongs to its question: a lookup gets what
  the debugging interface resolves (cut to the size of the message), a search gets the addresses found, and
  loading and unloading are acknowledged. Loading is acknowledged whether or not any symbol was loaded.\<close>

theorem answers_match_questions:
  assumes "msr_reachable ev pid path False s"
  shows "list_all (\<lambda>(r, rp). deserves ev r rp) (ms_log s)"
  using msr_reachable_inv[OF assms] by (simp add: msr_inv_def)

definition demo_env :: msr_env where
  "demo_env = \<lparr>mv_once = False, mv_open_ok = (\<lambda>_. True), mv_resolver_ok = (\<lambda>_. True),
     mv_resolve = (\<lambda>ip. \<lparr>si_module = ''app'', si_function = ''main'', si_path = ''a.cs'', si_line = ucast ip\<rparr>),
     mv_load_ok = (\<lambda>_ _. False), mv_search = (\<lambda>_ _ _. None)\<rparr>"

lemma demo_attachable: "attachable demo_env 1 ''clr.dll''"
  by code_simp

lemma demo_lookup:
  "msr_reachable demo_env 1 ''clr.dll'' t (mk M_IP (P_symbol_info (truncated (mv_resolve demo_env 7))) False False C_ready S_idle
     [(RqLookup 7, RpInfo (truncated (mv_resolve demo_env 7)))] [])"
  using served[OF attached[OF demo_attachable], of "RqLookup 7"] by simp

theorem answers_match_questions_witness:
  "list_all (\<lambda>(r, rp). deserves demo_env r rp)
     (ms_log (mk M_IP (P_symbol_info (truncated (mv_resolve demo_env 7))) False False C_ready S_idle
        [(RqLookup 7, RpInfo (truncated (mv_resolve demo_env 7)))] []))"
  by (rule answers_match_questions[OF demo_lookup])

text \<open>With timeouts the client can report loaded symbols when none are loaded: after it has confirmed a
  heartbeat its own confirmation is still in the shared memory, and a wait that then ends without an event is
  taken for the acknowledgement; the resolver is still waiting for that confirmation.\<close>

theorem heartbeat_timeout_is_success:
  assumes "attachable ev pid path"
  shows "\<exists>s. msr_reachable ev pid path True s \<and> ms_log s = [(RqLoad base sz q, RpBool True)] \<and> ms_loaded s = []
     \<and> ms_server s = S_beat (RqLoad base sz (take 256 q))"
proof -
  let ?r = "RqLoad base sz q" and ?w = "RqLoad base sz (take 256 q)"
  let ?p = "P_symbol_request base sz False (take 256 q) []"
  have "msr_reachable ev pid path True (mk M_LOADSYMS ?p False True (C_wait ?r) S_idle [] [])"
    by (rule then_request[OF attached[OF assms], where r = ?r]) (simp_all add: msr_ops)
  then have "msr_reachable ev pid path True (mk M_LOADSYMS ?p False False (C_wait ?r) (S_busy ?w False) [] [])"
    by (rule then_receive) (simp_all add: msr_ops)
  then have "msr_reachable ev pid path True (mk M_WAIT ?p True False (C_wait ?r) (S_beat ?w) [] [])"
    by (rule then_beat[where r = ?w]) (simp_all add: msr_ops)
  then have "msr_reachable ev pid path True (mk M_CONFIRM ?p False True (C_wait ?r) (S_beat ?w) [] [])"
    by (rule then_answered) (simp_all add: msr_ops)
  then have "msr_reachable ev pid path True (mk M_CONFIRM ?p False True C_ready (S_beat ?w) [(?r, RpBool True)] [])"
    by (rule then_timed_out) (simp_all add: msr_ops)
  then show ?thesis by (intro exI conjI) (assumption, simp_all)
qed

theorem heartbeat_timeout_is_success_witness:
  "\<exists>s. msr_reachable demo_env 1 ''clr.dll'' True s \<and> ms_log s = [(RqLoad 4096 10 ''a.dll'', RpBool True)] \<and> ms_loaded s = []
     \<and> ms_server s = S_beat (RqLoad 4096 10 (take 256 ''a.dll''))"
  by (rule heartbeat_timeout_is_success[OF demo_attachable])

text \<open>Messages are not numbered, so an answer that comes after the client gave up waiting is taken as the
  answer to its next question: the second lookup returns what the first address resolves to.\<close>

theorem late_answer_is_taken:
  assumes "attachable ev pid path"
  shows "\<exists>s. msr_reachable ev pid path True s
     \<and> ms_log s = [(RqLookup a, RpTimeout), (RqLookup b, RpInfo (truncated (mv_resolve ev a)))]"
proof -
  let ?ans = "P_symbol_info (truncated (mv_resolve ev a))"
  have "msr_reachable ev pid path True (mk M_IP (P_ip a) False True (C_wait (RqLookup a)) S_idle [] [])"
    by (rule then_request[OF attached[OF assms], where r = "RqLookup a"]) (simp_all add: msr_ops)
  then have "msr_reachable ev pid path True (mk M_IP (P_ip a) False False (C_wait (RqLookup a)) (S_busy (RqLookup a) False) [] [])"
    by (rule then_receive) (simp_all add: msr_ops)
  then have "msr_reachable ev pid path True (mk M_IP (P_ip a) False False C_ready (S_busy (RqLookup a) False) [(RqLookup a, RpTimeout)] [])"
    by (rule then_timed_out) (simp_all add: msr_ops)
  then have "msr_reachable ev pid path True (mk M_IP (P_ip b) False True (C_wait (RqLookup b)) (S_busy (RqLookup a) False) [(RqLookup a, RpTimeout)] [])"
    by (rule then_request[where r = "RqLookup b"]) (simp_all add: msr_ops)
  then have "msr_reachable ev pid path True (mk M_IP ?ans True True (C_wait (RqLookup b)) S_idle [(RqLookup a, RpTimeout)] [])"
    by (rule then_finish[where r = "RqLookup a" and quit = False]) (simp_all add: msr_ops)
  then have "msr_reachable ev pid path True (mk M_IP ?ans False True C_ready S_idle
      [(RqLookup a, RpTimeout), (RqLookup b, RpInfo (truncated (mv_resolve ev a)))] [])"
    by (rule then_answered) (simp_all add: msr_ops)
  then show ?thesis by (intro exI conjI) (assumption, simp_all)
qed

theorem late_answer_is_taken_witness:
  "\<exists>s. msr_reachable demo_env 1 ''clr.dll'' True s
     \<and> ms_log s = [(RqLookup 7, RpTimeout), (RqLookup 8, RpInfo (truncated (mv_resolve demo_env 7)))]"
  by (rule late_answer_is_taken[OF demo_attachable])

text \<open>C24: Without timeouts the dialogue only stops in a search: whenever the client waits, one of the two
  processes can move, or the client waits for a search that found nothing to answer with or overran an array.\<close>

definition unanswered :: "msr_env \<Rightarrow> client_pc \<Rightarrow> bool" where
  "unanswered ev c = (case c of C_wait (RqSearch base sz full path match) \<Rightarrow>
     (256 \<le> length match \<or> (case mv_search ev base match full of None \<Rightarrow> True | Some as \<Rightarrow> 64 < length as)) | _ \<Rightarrow> False)"

lemma lost_unanswered:
  assumes "phase_lost ev (wire r) s" "client_request r"
  shows "unanswered ev (C_wait r)"
  using assms failure_attach[of ev _ "wire r"] wire_attach[of r]
  by (cases r) (auto simp: phase_lost_def unanswered_def split: if_splits option.splits)

lemma phase_moves:
  assumes "phase ev r s" "waits (ms_client s)"
  shows "(\<exists>s'. msr_step ev pid path False s s') \<or> phase_lost ev r s"
  using assms msr_step.receive[of s] msr_step.finish[of s r False] msr_step.confirmed[of s r] msr_step.answered[of s]
  unfolding phase_def phase_ask_def phase_work_def phase_answer_def to_server_def to_client_def by blast

theorem only_searches_hang:
  assumes "msr_reachable ev pid path False s" "waits (ms_client s)"
  shows "(\<exists>s'. msr_step ev pid path False s s') \<or> unanswered ev (ms_client s)"
proof (cases "sh_in (ms_shm s)")
  case True
  then show ?thesis using msr_step.answered assms(2) by blast
next
  case False
  have turn: "turn ev (ms_client s) s" using msr_reachable_inv[OF assms(1)] by (simp add: msr_inv_def)
  have attach: "\<not> phase_lost ev RqConnect s" "\<And>p q. \<not> phase_lost ev (wire (RqAttach p q)) s"
    using False by (auto simp: phase_lost_def to_client_def split: if_splits option.splits)
  show ?thesis
  proof (cases "ms_client s")
    case C_connect then show ?thesis using turn False by (simp add: to_client_def)
  next
    case (C_attach p q)
    then show ?thesis using phase_moves[of ev RqConnect s] turn assms(2) attach(1) by auto
  next
    case (C_attaching p q)
    then show ?thesis using phase_moves[of ev "wire (RqAttach p q)" s] turn assms(2) attach(2) by auto
  next
    case (C_wait r)
    then have "client_request r" "phase ev (wire r) s" using turn by simp_all
    then show ?thesis using phase_moves[of ev "wire r" s] lost_unanswered[of ev r s] assms(2) C_wait by auto
  qed (use turn assms(2) in auto)
qed

lemma demo_search:
  "msr_reachable demo_env 1 ''clr.dll'' False
     (mk M_SEARCHSYMS (P_symbol_request 4096 10 True ''a.dll'' ''Enter'') False True (C_wait (RqSearch 4096 10 True ''a.dll'' ''Enter'')) S_idle [] [])"
  by (rule then_request[OF attached[OF demo_attachable], where r = "RqSearch 4096 10 True ''a.dll'' ''Enter''"]) (simp_all add: msr_ops)

theorem only_searches_hang_witness:
  "\<exists>s. msr_reachable demo_env 1 ''clr.dll'' False s \<and> ((\<exists>s'. msr_step demo_env 1 ''clr.dll'' False s s') \<or> unanswered demo_env (ms_client s))"
  by (rule exI, rule conjI[OF demo_search only_searches_hang[OF demo_search]]) simp

end
