(* ===== verification/ManagedLines.thy ===== *)
theory ManagedLines
  imports Prelude
begin

text \<open>
  The resolver of managed code (\<^verbatim>\<open>ManagedResolver/src/ManagedResolver.cpp\<close>): how the debugging
  interfaces are opened and closed, and how a native address becomes a module, a method and a source line.
  The interfaces of the runtime and of the debugger are the arguments \<open>ie\<close> and \<open>cl\<close>: a record
  of what each call answers, \<open>None\<close> where the call fails.
\<close>

section \<open>Opening and closing\<close>

record clr_init_env =
  ie_dac :: u64
  ie_create_instance :: bool
  ie_clr_ok :: bool
  ie_engine :: u64
  ie_debug_create :: bool
  ie_client_ok :: bool
  ie_attach_ok :: bool
  ie_wait_ok :: bool
  ie_symbols_ok :: bool

datatype handle_kind = H_process | H_dac | H_engine

datatype handle_action = Opened handle_kind u64 | Closed handle_kind u64 | Detached

record clr_resolver =
  cr_process :: u64
  cr_dac :: u64
  cr_engine :: u64
  cr_clr :: bool
  cr_target :: bool
  cr_client :: bool
  cr_control :: bool
  cr_symbols :: bool
  cr_symbols3 :: bool
  cr_log :: "handle_action list"

text \<open>The two library handles have no initial value.\<close>

definition resolver_new :: "u64 \<Rightarrow> u64 \<Rightarrow> clr_resolver" where
  "resolver_new dac engine = \<lparr>cr_process = 0, cr_dac = dac, cr_engine = engine, cr_clr = False, cr_target = False,
     cr_client = False, cr_control = False, cr_symbols = False, cr_symbols3 = False, cr_log = []\<rparr>"

definition logged :: "handle_action \<Rightarrow> clr_resolver \<Rightarrow> clr_resolver" where
  "logged a r = r\<lparr>cr_log := cr_log r @ [a]\<rparr>"

definition clr_close :: "clr_resolver \<Rightarrow> clr_resolver" where
  "clr_close r =
     (let r = (if cr_client r then logged Detached r else r);
          r = (if cr_process r \<noteq> 0 then (logged (Closed H_process (cr_process r)) r)\<lparr>cr_process := 0\<rparr> else r);
          r = r\<lparr>cr_clr := False, cr_target := False, cr_client := False, cr_control := False, cr_symbols := False, cr_symbols3 := False\<rparr>;
          r = (if cr_dac r \<noteq> 0 then (logged (Closed H_dac (cr_dac r)) r)\<lparr>cr_dac := 0\<rparr> else r);
          r = (if cr_engine r \<noteq> 0 then (logged (Closed H_engine (cr_engine r)) r)\<lparr>cr_engine := 0\<rparr> else r)
      in r)"

text \<open>\<open>None\<close>: \<^verbatim>\<open>DebugCreate\<close> is not found and called nevertheless.\<close>

definition init_symbol_resolver :: "clr_init_env \<Rightarrow> u64 \<Rightarrow> clr_resolver \<Rightarrow> (bool \<times> clr_resolver) option" where
  "init_symbol_resolver ie h r =
     (let r = r\<lparr>cr_process := h\<rparr>;
          r = r\<lparr>cr_dac := ie_dac ie\<rparr>;
          r = (if ie_dac ie \<noteq> 0 then logged (Opened H_dac (ie_dac ie)) r else r)
      in if ie_dac ie = 0 \<or> \<not> ie_create_instance ie then Some (False, clr_close r)
      else (let r = r\<lparr>cr_target := True\<rparr> in
        if \<not> ie_clr_ok ie then Some (False, clr_close r)
        else (let r = r\<lparr>cr_clr := True, cr_engine := ie_engine ie\<rparr>;
                  r = (if ie_engine ie \<noteq> 0 then logged (Opened H_engine (ie_engine ie)) r else r)
          in if \<not> ie_debug_create ie then None
          else if \<not> ie_client_ok ie then Some (False, clr_close r)
          else (let r = r\<lparr>cr_client := True\<rparr> in
            if \<not> ie_attach_ok ie then Some (False, clr_close r)
            else (let r = r\<lparr>cr_control := True\<rparr> in
              if \<not> ie_wait_ok ie then Some (False, clr_close r)
              else Some (True, r\<lparr>cr_symbols := ie_symbols_ok ie, cr_symbols3 := ie_symbols_ok ie\<rparr>))))))"

section \<open>From an address to a source line\<close>

record clr_module =
  mo_file :: "string option"
  mo_extents :: "(nat \<times> u64) list option"

record clr_method =
  me_il_offset :: u32
  me_map :: "u32 list"
  me_scope :: "(u32 \<times> clr_module) option"

record clr_env =
  cl_ready :: bool
  cl_method :: "u64 \<Rightarrow> clr_method option"
  cl_name :: "u64 \<Rightarrow> (nat \<times> string) option"
  cl_line :: "u64 \<Rightarrow> (u32 \<times> string) option"
  cl_module_base :: "u64 \<Rightarrow> u64 option"
  cl_symbol :: "u64 \<Rightarrow> u32 \<Rightarrow> u64 option"

definition IL_NO_MAPPING :: u32 where "IL_NO_MAPPING = - 1"
definition IL_PROLOG :: u32 where "IL_PROLOG = - 2"
definition IL_EPILOG :: u32 where "IL_EPILOG = - 3"

definition il_marker :: "u32 \<Rightarrow> bool" where
  "il_marker l = (l = IL_NO_MAPPING \<or> l = IL_PROLOG \<or> l = IL_EPILOG)"

text \<open>The address map of a method. The call is repeated with a larger array but the same count, so the entries past the
  sixteenth are what the new array held: \<open>junk\<close>.\<close>

definition il_address_map :: "(nat \<Rightarrow> u32) \<Rightarrow> u32 list \<Rightarrow> u32 list" where
  "il_address_map junk m = (if length m \<le> 16 then m else take 16 m @ map junk [16..<length m])"

fun highest_offset :: "u32 list \<Rightarrow> u32 \<Rightarrow> u32" where
  "highest_offset [] h = h"
| "highest_offset (l # ls) h = highest_offset ls (if il_marker l then h else if l > h then l else h)"

text \<open>\<open>None\<close>: no mapping.\<close>

definition il_offset :: "(nat \<Rightarrow> u32) \<Rightarrow> clr_method \<Rightarrow> u32 option" where
  "il_offset junk me =
     (if me_il_offset me = IL_NO_MAPPING then None
      else if me_il_offset me = IL_PROLOG then Some 0
      else if me_il_offset me = IL_EPILOG then Some (highest_offset (il_address_map junk (me_map me)) 0)
      else Some (me_il_offset me))"

text \<open>The extents of one type, up to the first that belongs to a module.\<close>

fun scan_extents :: "clr_env \<Rightarrow> nat \<Rightarrow> (nat \<times> u64) list \<Rightarrow> u64" where
  "scan_extents cl ty [] = 0"
| "scan_extents cl ty ((t, base) # es) =
     (if t \<noteq> ty then scan_extents cl ty es
      else case cl_module_base cl base of
        None \<Rightarrow> scan_extents cl ty es
      | Some b \<Rightarrow> if b \<noteq> 0 then b else scan_extents cl ty es)"

text \<open>Precompiled images (type 1) first, then files (type 0).\<close>

definition module_base :: "clr_env \<Rightarrow> clr_module \<Rightarrow> u64" where
  "module_base cl mo =
     (case mo_extents mo of None \<Rightarrow> 0
      | Some es \<Rightarrow> let b = scan_extents cl 1 es in if b \<noteq> 0 then b else scan_extents cl 0 es)"

definition no_stop_line :: u32 where "no_stop_line = 0xFEEFEE"

datatype line_search = Line u32 string | LineFailed | AllMarkers u64

fun skip_markers :: "clr_env \<Rightarrow> nat \<Rightarrow> u64 \<Rightarrow> line_search" where
  "skip_markers cl 0 off = AllMarkers off"
| "skip_markers cl (Suc n) off =
     (case cl_line cl off of
        None \<Rightarrow> LineFailed
      | Some (l, p) \<Rightarrow> if l = no_stop_line then skip_markers cl n (off + 1) else Line l p)"

text \<open>The out parameters: \<open>None\<close> is a null pointer. The text is appended to.\<close>

type_synonym line_out = "string option \<times> u64 option"

definition collect_line :: "u32 \<Rightarrow> string \<Rightarrow> line_out \<Rightarrow> line_out" where
  "collect_line l p out = (map_option (\<lambda>s. s @ p) (fst out), map_option (\<lambda>_. ucast l) (snd out))"

definition default_line :: "clr_env \<Rightarrow> u64 \<Rightarrow> line_out \<Rightarrow> bool \<times> line_out" where
  "default_line cl ip out =
     (if fst out = None then (True, out)
      else case cl_line cl ip of None \<Rightarrow> (False, out) | Some (l, p) \<Rightarrow> (True, collect_line l p out))"

definition get_module_file_line_info ::
  "clr_env \<Rightarrow> (nat \<Rightarrow> u32) \<Rightarrow> u64 \<Rightarrow> line_out \<Rightarrow> string option \<Rightarrow> bool \<times> line_out \<times> string option" where
  "get_module_file_line_info cl junk ip out mpath =
     (if \<not> cl_ready cl then (False, out, mpath)
      else let fallback = (\<lambda>ip mpath. let (b, o') = default_line cl ip out in (b, o', mpath)) in
      case cl_method cl ip of None \<Rightarrow> fallback ip mpath
      | Some me \<Rightarrow>
      (case il_offset junk me of None \<Rightarrow> fallback ip mpath
       | Some il \<Rightarrow>
       (case me_scope me of None \<Rightarrow> fallback ip mpath
        | Some (tok, mo) \<Rightarrow>
          if mpath \<noteq> None \<and> mo_file mo = None then (False, out, mpath)
          else
            let mpath = (case (mpath, mo_file mo) of (Some s, Some f) \<Rightarrow> Some (s @ f) | _ \<Rightarrow> mpath) in
            if mpath \<noteq> None \<and> fst out = None then (True, out, mpath)
            else (case cl_symbol cl (module_base cl mo) tok of None \<Rightarrow> fallback ip mpath
              | Some offset \<Rightarrow>
                (case skip_markers cl 64 (offset + ucast il) of
                   Line l p \<Rightarrow> (True, collect_line l p out, mpath)
                 | LineFailed \<Rightarrow> fallback ip mpath
                 | AllMarkers off \<Rightarrow> fallback off mpath)))))"

definition get_file_line_info :: "clr_env \<Rightarrow> (nat \<Rightarrow> u32) \<Rightarrow> u64 \<Rightarrow> string \<Rightarrow> u64 \<Rightarrow> bool \<times> string \<times> u64" where
  "get_file_line_info cl junk ip line num =
     (case get_module_file_line_info cl junk ip (Some line, Some num) None of
        (b, (l, n), _) \<Rightarrow> (b, the l, the n))"

definition get_module_name :: "clr_env \<Rightarrow> (nat \<Rightarrow> u32) \<Rightarrow> u64 \<Rightarrow> string \<Rightarrow> bool \<times> string" where
  "get_module_name cl junk ip path =
     (case get_module_file_line_info cl junk ip (None, None) (Some path) of (b, _, p) \<Rightarrow> (b, the p))"

text \<open>The name buffer has 1024 entries and is terminated at the length the interface answers, which is the length of
  the whole name: \<open>None\<close> is a write past the buffer.\<close>

definition get_method_name :: "clr_env \<Rightarrow> u64 \<Rightarrow> string \<Rightarrow> (bool \<times> string) option" where
  "get_method_name cl ip symbol =
     (case cl_name cl ip of
        None \<Rightarrow> Some (False, symbol)
      | Some (len, name) \<Rightarrow> if len < 1024 then Some (True, symbol @ take len name) else None)"

section \<open>Opening and closing are balanced\<close>

definition all_closed :: "clr_resolver \<Rightarrow> bool" where
  "all_closed r = (cr_process r = 0 \<and> cr_dac r = 0 \<and> cr_engine r = 0 \<and> \<not> cr_clr r \<and> \<not> cr_target r \<and> \<not> cr_client r \<and>
     \<not> cr_control r \<and> \<not> cr_symbols r \<and> \<not> cr_symbols3 r)"

text \<open>Every library that was loaded has been freed as often as it was loaded, and nothing else.\<close>

definition balanced :: "handle_action list \<Rightarrow> bool" where
  "balanced acts = (\<forall>h. count_list acts (Opened H_dac h) = count_list acts (Closed H_dac h)
     \<and> count_list acts (Opened H_engine h) = count_list acts (Closed H_engine h))"

lemma close_all [simp]: "all_closed (clr_close r)"
  by (auto simp: clr_close_def all_closed_def logged_def Let_def)

lemma close_idempotent: "all_closed r \<Longrightarrow> clr_close r = r"
  by (simp add: clr_close_def all_closed_def)


definition demo_init_env :: clr_init_env where
  "demo_init_env = \<lparr>ie_dac = 5, ie_create_instance = True, ie_clr_ok = True, ie_engine = 6, ie_debug_create = True,
     ie_client_ok = True, ie_attach_ok = False, ie_wait_ok = True, ie_symbols_ok = True\<rparr>"

definition demo_failed :: clr_resolver where
  "demo_failed = (resolver_new 0 0)\<lparr>cr_log := [Opened H_dac 5, Opened H_engine 6, Detached, Closed H_process 9, Closed H_dac 5, Closed H_engine 6]\<rparr>"

lemma demo_init: "init_symbol_resolver demo_init_env 9 (resolver_new 7 0) = Some (False, demo_failed)"
  by code_simp


text \<open>With an uninitialised handle a library that was never loaded is freed.\<close>

lemma uninitialised_handle_freed:
  assumes "e \<noteq> 0" "ie_dac ie = 0"
  shows "\<exists>r. init_symbol_resolver ie h (resolver_new dac e) = Some (False, r) \<and> \<not> balanced (cr_log r)"
  using assms
  by (auto simp: init_symbol_resolver_def Let_def balanced_def clr_close_def logged_def resolver_new_def intro!: exI [of _ e])

section \<open>Lines of managed code\<close>

lemma Max_insert_max:
  fixes h l :: "'a::linorder"
  assumes "finite S"
  shows "Max (insert (max l h) S) = Max (insert h (insert l S))"
  using assms by (cases "S = {}") (simp_all add: max.left_commute max.commute max.assoc)

lemma highest_offset_max: "highest_offset ls h = Max (insert h {l \<in> set ls. \<not> il_marker l})"
proof (induction ls arbitrary: h)
  case (Cons l ls)
  let ?S = "{x \<in> set ls. \<not> il_marker x}"
  show ?case
  proof (cases "il_marker l")
    case True
    then have "{x \<in> set (l # ls). \<not> il_marker x} = ?S" by auto
    then show ?thesis using True Cons.IH by simp
  next
    case False
    then have "insert h {x \<in> set (l # ls). \<not> il_marker x} = insert h (insert l ?S)" by auto
    moreover have "Max (insert (max l h) ?S) = Max (insert h (insert l ?S))" by (rule Max_insert_max) simp
    moreover have "(if l > h then l else h) = max l h" by (auto simp: max_def)
    ultimately show ?thesis using False Cons.IH [of "max l h"] by simp
  qed
qed simp

text \<open>The offset of an epilog is the largest real offset of the method (0 if there is none), for methods whose
  address map has at most 16 entries. A longer map leaves the entries past the sixteenth to chance.\<close>

theorem epilog_offset:
  assumes "me_il_offset me = IL_EPILOG" "length (me_map me) \<le> 16"
  shows "il_offset junk me = Some (Max (insert 0 {l \<in> set (me_map me). \<not> il_marker l}))"
  using assms by (simp add: il_offset_def il_address_map_def highest_offset_max IL_EPILOG_def IL_NO_MAPPING_def IL_PROLOG_def)

lemma long_map_junk:
  assumes "me_il_offset me = IL_EPILOG" "16 < length (me_map me)" "\<not> il_marker j"
  shows "\<exists>junk l. il_offset junk me = Some l \<and> j \<le> l"
proof (intro exI conjI)
  let ?junk = "\<lambda>_. j"
  show "il_offset ?junk me = Some (highest_offset (il_address_map ?junk (me_map me)) 0)"
    using assms(1) by (simp add: il_offset_def IL_EPILOG_def IL_NO_MAPPING_def IL_PROLOG_def)
  have "j \<in> set (il_address_map ?junk (me_map me))" using assms(2) by (auto simp: il_address_map_def)
  then show "j \<le> highest_offset (il_address_map ?junk (me_map me)) 0"
    unfolding highest_offset_max using assms(3) by (intro Max_ge) auto
qed

lemma skip_markers_line:
  "k < n \<Longrightarrow> (\<And>i. i < k \<Longrightarrow> \<exists>p. cl_line cl (off + of_nat i) = Some (no_stop_line, p)) \<Longrightarrow>
   cl_line cl (off + of_nat k) = Some (l, p) \<Longrightarrow> l \<noteq> no_stop_line \<Longrightarrow> skip_markers cl n off = Line l p"
proof (induction n arbitrary: k off)
  case (Suc n)
  show ?case
  proof (cases k)
    case 0
    then show ?thesis using Suc.prems by simp
  next
    case (Suc k')
    obtain q where q: "cl_line cl off = Some (no_stop_line, q)" using Suc.prems(2) [of 0] Suc by auto
    have "\<exists>p. cl_line cl (off + 1 + of_nat i) = Some (no_stop_line, p)" if "i < k'" for i
      using Suc.prems(2) [of "Suc i"] that Suc by (simp add: add.assoc)
    then have "skip_markers cl n (off + 1) = Line l p"
      using Suc.prems(1,3,4) Suc by (intro Suc.IH [of k']) (auto simp: add.assoc)
    then show ?thesis using q by simp
  qed
qed simp

text \<open>The method, its offset and its position in the module file are known for the address.\<close>

definition method_position :: "clr_env \<Rightarrow> (nat \<Rightarrow> u32) \<Rightarrow> u64 \<Rightarrow> u64 option" where
  "method_position cl junk ip =
     (case cl_method cl ip of None \<Rightarrow> None
      | Some me \<Rightarrow> (case (il_offset junk me, me_scope me) of
          (Some il, Some (tok, mo)) \<Rightarrow> map_option (\<lambda>offset. offset + ucast il) (cl_symbol cl (module_base cl mo) tok)
        | _ \<Rightarrow> None))"

lemma file_line_cases:
  assumes "cl_ready cl"
  shows "get_file_line_info cl junk ip line num =
    (case method_position cl junk ip of
       None \<Rightarrow> (case cl_line cl ip of None \<Rightarrow> (False, line, num) | Some (l, p) \<Rightarrow> (True, line @ p, ucast l))
     | Some off \<Rightarrow> (case skip_markers cl 64 off of
         Line l p \<Rightarrow> (True, line @ p, ucast l)
       | LineFailed \<Rightarrow> (case cl_line cl ip of None \<Rightarrow> (False, line, num) | Some (l, p) \<Rightarrow> (True, line @ p, ucast l))
       | AllMarkers o' \<Rightarrow> (case cl_line cl o' of None \<Rightarrow> (False, line, num) | Some (l, p) \<Rightarrow> (True, line @ p, ucast l))))"
  using assms
  by (auto simp: get_file_line_info_def get_module_file_line_info_def method_position_def default_line_def collect_line_def Let_def
      split: option.splits line_search.splits prod.splits)

text \<open>For an address in managed code the line reported is that of the first position, counted from the method's,
  that is not a no-stop marker, provided it is one of the next 64.\<close>

theorem managed_line:
  assumes "cl_ready cl" "method_position cl junk ip = Some off" "k < 64"
    and "\<forall>i<k. \<exists>p. cl_line cl (off + of_nat i) = Some (no_stop_line, p)"
    and "cl_line cl (off + of_nat k) = Some (l, p)" "l \<noteq> no_stop_line"
  shows "get_file_line_info cl junk ip line num = (True, line @ p, ucast l)"
proof -
  have "skip_markers cl 64 off = Line l p"
    using assms(3-6) by (intro skip_markers_line [of k]) auto
  then show ?thesis using assms(1,2) by (simp add: file_line_cases)
qed

definition demo_clr :: clr_env where
  "demo_clr = \<lparr>cl_ready = True,
     cl_method = (\<lambda>_. Some \<lparr>me_il_offset = IL_EPILOG, me_map = [0, 6, IL_PROLOG, 2],
       me_scope = Some (3, \<lparr>mo_file = Some ''app.dll'', mo_extents = Some [(0, 100), (1, 200)]\<rparr>)\<rparr>),
     cl_name = (\<lambda>_. Some (8, ''App.Main'')),
     cl_line = (\<lambda>o'. if o' = 4106 then Some (no_stop_line, ''a.cs'') else if o' = 4107 then Some (17, ''a.cs'') else None),
     cl_module_base = (\<lambda>b. Some b), cl_symbol = (\<lambda>b tok. if b = 200 then Some 4100 else None)\<rparr>"

lemma demo_position: "method_position demo_clr junk ip = Some 4106"
  by (simp add: method_position_def demo_clr_def il_offset_def IL_EPILOG_def IL_NO_MAPPING_def IL_PROLOG_def il_address_map_def
      il_marker_def module_base_def)

theorem managed_line_witness: "get_file_line_info demo_clr (\<lambda>_. 0) 9999 [] 0 = (True, ''a.cs'', 17)"
  using managed_line [of demo_clr "\<lambda>_. 0" 9999 4106 1 17 "''a.cs''" "[]" 0] demo_position [of "\<lambda>_. 0" 9999]
  by (simp add: demo_clr_def no_stop_line_def)

theorem epilog_offset_witness:
  "il_offset (\<lambda>_. 0) \<lparr>me_il_offset = IL_EPILOG, me_map = [0, 6, IL_PROLOG, 2], me_scope = None\<rparr>
    = Some (Max (insert 0 {l \<in> set [0, 6, IL_PROLOG, 2]. \<not> il_marker l}))"
  using epilog_offset [of "\<lparr>me_il_offset = IL_EPILOG, me_map = [0, 6, IL_PROLOG, 2], me_scope = None\<rparr>" "\<lambda>_. 0"] by simp

end
