(* ===== verification/SymbolQuery.thy ===== *)
theory SymbolQuery
  imports RaceCollect MsrProtocol ManagedLines
begin

text \<open>
  The symbol of a program counter in the Windows build, from the debugging interfaces of the resolver over the
  protocol to the location in a report: \<^verbatim>\<open>ProtocolHandler::resolveIP\<close> on the side of the resolver,
  \<^verbatim>\<open>Symbols::get_symbol_info\<close> on the side of the client, and what the two give together.
\<close>

section \<open>The resolver's answer\<close>

text \<open>\<^verbatim>\<open>resolveIP\<close> before its texts are cut: \<open>None\<close> is a method name that overruns its buffer.\<close>

definition resolve_ip :: "clr_env \<Rightarrow> (nat \<Rightarrow> u32) \<Rightarrow> u64 \<Rightarrow> symbol_info option" where
  "resolve_ip cl junk ip =
     (case get_method_name cl ip [] of
        None \<Rightarrow> None
      | Some (_, f) \<Rightarrow>
          (let m = snd (get_module_name cl junk ip []);
               (_, p, n) = get_file_line_info cl junk ip [] 0
           in Some \<lparr>si_module = m, si_function = f, si_path = p, si_line = ucast n\<rparr>))"

text \<open>The environment of the protocol whose resolver works on these interfaces.\<close>

definition managed_env :: "clr_env \<Rightarrow> (nat \<Rightarrow> u32) \<Rightarrow> msr_env \<Rightarrow> msr_env" where
  "managed_env cl junk ev = ev\<lparr>mv_resolve := (\<lambda>ip. case resolve_ip cl junk ip of Some si \<Rightarrow> si | None \<Rightarrow> mv_resolve ev ip)\<rparr>"

section \<open>The client's location\<close>

text \<open>\<open>lookup\<close> is the resolver, if it is attached; the kind of a module is that of the tracker.\<close>

definition get_symbol_info_win ::
  "(addr \<Rightarrow> (mod_info \<times> u8) option) \<Rightarrow> (addr \<Rightarrow> symbol_info) option \<Rightarrow> addr \<Rightarrow> symbol_location option" where
  "get_symbol_info_win modof lookup pc =
     (case modof pc of
        Some (mi, ty) \<Rightarrow>
          if ty = MOD_NATIVE \<or> ty = MOD_MANAGED \<and> lookup = None then get_symbol_info (\<lambda>_. Some mi) pc
          else (case lookup of
              None \<Rightarrow> Some (symbol_location_init\<lparr>sl_pc := pc\<rparr>)
            | Some f \<Rightarrow>
                (let si = f pc; (base, mend, name, _) = mi;
                     sloc = symbol_location_init\<lparr>sl_pc := pc, sl_mod_name := si_module si, sl_sym_name := si_function si,
                       sl_file := si_path si, sl_line := ucast (si_line si)\<rparr>;
                     sloc = (if sl_mod_name sloc = [] then sloc\<lparr>sl_mod_name := name, sl_mod_base := base, sl_mod_end := mend\<rparr> else sloc)
                 in Some (if sl_mod_name sloc = [] \<and> sl_sym_name sloc \<noteq> [] then sloc\<lparr>sl_mod_name := ''JIT''\<rparr> else sloc)))
      | None \<Rightarrow>
          (case lookup of
             None \<Rightarrow> Some (symbol_location_init\<lparr>sl_pc := pc\<rparr>)
           | Some f \<Rightarrow>
               (let si = f pc;
                    sloc = symbol_location_init\<lparr>sl_pc := pc, sl_mod_name := si_module si, sl_sym_name := si_function si,
                      sl_file := si_path si, sl_line := ucast (si_line si)\<rparr>
                in Some (if sl_mod_name sloc = [] \<and> sl_sym_name sloc \<noteq> [] then sloc\<lparr>sl_mod_name := ''JIT''\<rparr> else sloc))))"

section \<open>The contract of the resolver\<close>

text \<open>What the client relies on when it asks for a symbol: every look-up that got an answer got the symbol of
  its address, cut to the fields of the message.\<close>

locale symbol_service =
  fixes asked :: "'s \<Rightarrow> (request \<times> reply) list" and reachable :: "'s \<Rightarrow> bool" and symbol :: "addr \<Rightarrow> symbol_info"
  assumes truthful: "reachable s \<Longrightarrow> (RqLookup pc, rp) \<in> set (asked s) \<Longrightarrow> rp = RpInfo (truncated (symbol pc))"
begin

lemma answers_agree:
  "reachable s \<Longrightarrow> reachable s' \<Longrightarrow> (RqLookup pc, rp) \<in> set (asked s) \<Longrightarrow> (RqLookup pc, rp') \<in> set (asked s') \<Longrightarrow> rp = rp'"
  using truthful by metis

lemma texts_fit:
  "reachable s \<Longrightarrow> (RqLookup pc, RpInfo si) \<in> set (asked s)
    \<Longrightarrow> length (si_module si) < 256 \<and> length (si_function si) < 128 \<and> length (si_path si) < 256"
  by (auto dest!: truthful simp: truncated_def)

lemma client_location:
  assumes "reachable s" "(RqLookup pc, RpInfo si) \<in> set (asked s)" "modof pc = None" "si_function (symbol pc) \<noteq> []"
  shows "\<exists>sloc. get_symbol_info_win modof (Some (\<lambda>_. si)) pc = Some sloc \<and> sl_pc sloc = pc
    \<and> sl_sym_name sloc = take 127 (si_function (symbol pc)) \<and> sl_file sloc = take 255 (si_path (symbol pc))
    \<and> sl_line sloc = ucast (si_line (symbol pc))
    \<and> sl_mod_name sloc = (let m = take 255 (si_module (symbol pc)) in if m = [] then ''JIT'' else m)"
proof -
  have "si = truncated (symbol pc)" using truthful [OF assms(1,2)] by simp
  then show ?thesis using assms(3,4)
    by (auto simp: get_symbol_info_win_def truncated_def symbol_location_init_def Let_def)
qed

end

text \<open>The dialogue over shared memory keeps this contract as long as no wait times out.\<close>

interpretation dialogue: symbol_service ms_log "msr_reachable ev pid path False" "mv_resolve ev" for ev pid path
proof unfold_locales
  fix s pc rp
  assume "msr_reachable ev pid path False s" "(RqLookup pc, rp) \<in> set (ms_log s)"
  then have "deserves ev (RqLookup pc) rp"
    using msr_reachable_inv [of ev pid path s] by (auto simp: msr_inv_def list_all_iff)
  then show "rp = RpInfo (truncated (mv_resolve ev pc))" by simp
qed

section \<open>Facts\<close>

lemma resolve_ip_line:
  assumes "get_method_name cl pc [] = Some (b, f)" "get_file_line_info cl junk pc [] 0 = (True, p, ucast (l :: u32))"
  shows "resolve_ip cl junk pc = Some \<lparr>si_module = snd (get_module_name cl junk pc []), si_function = f, si_path = p, si_line = l\<rparr>"
proof -
  have "(ucast (ucast l :: u64) :: u32) = l" by (simp add: ucast_up_ucast_id is_up)
  then show ?thesis using assms by (simp add: resolve_ip_def)
qed


definition demo_dialogue :: msr_state where
  "demo_dialogue = mk M_IP (P_symbol_info (truncated (mv_resolve (managed_env demo_clr (\<lambda>_. 0) demo_env) 9999))) False False C_ready S_idle
     [(RqLookup 9999, RpInfo (truncated (mv_resolve (managed_env demo_clr (\<lambda>_. 0) demo_env) 9999)))] []"

lemma demo_managed_attachable: "attachable (managed_env demo_clr (\<lambda>_. 0) demo_env) 1 ''clr.dll''"
  using demo_attachable by (simp add: attachable_def managed_env_def split: option.splits)

lemma demo_dialogue_reachable: "msr_reachable (managed_env demo_clr (\<lambda>_. 0) demo_env) 1 ''clr.dll'' False demo_dialogue"
  using served [OF attached [OF demo_managed_attachable], of "RqLookup 9999"] by (simp add: demo_dialogue_def)


end
