(* ===== verification/TextFormat.thy ===== *)
theory TextFormat
  imports Prelude
begin

text \<open>
  Numbers as text, as \<^verbatim>\<open>printf\<close> and \<^verbatim>\<open>std::to_string\<close> write them, and how
  \<^verbatim>\<open>std::stoi\<close> reads them. The reports and the interactive controller share them.
\<close>

section \<open>Digits\<close>

definition digit :: "nat \<Rightarrow> char" where
  "digit n = char_of (if n < 10 then 48 + n else 87 + n)"

definition digit_val :: "char \<Rightarrow> nat" where
  "digit_val c = (let n = of_char c :: nat in if n < 58 then n - 48 else n - 87)"

lemma digit_val_digit [simp]: "n < 16 \<Longrightarrow> digit_val (digit n) = n"
  by (simp add: digit_def digit_val_def)

function to_base :: "nat \<Rightarrow> nat \<Rightarrow> string" where
  "to_base b n = (if b < 2 \<or> n < b then [digit n] else to_base b (n div b) @ [digit (n mod b)])"
  by pat_completeness auto
termination by (relation "measure snd") auto

declare to_base.simps [simp del]

definition of_base :: "nat \<Rightarrow> string \<Rightarrow> nat" where
  "of_base b s = foldl (\<lambda>a c. a * b + digit_val c) 0 s"

lemma of_base_snoc: "of_base b (s @ [c]) = of_base b s * b + digit_val c"
  by (simp add: of_base_def)

lemma of_base_to_base [simp]: "2 \<le> b \<Longrightarrow> b \<le> 16 \<Longrightarrow> of_base b (to_base b n) = n"
proof (induction b n rule: to_base.induct)
  case (1 b n)
  show ?case
  proof (cases "n < b")
    case True
    then show ?thesis using 1(3) by (subst to_base.simps) (simp add: of_base_def)
  next
    case False
    moreover have "n mod b < 16" using 1(2,3) mod_less_divisor [of b n] by linarith
    ultimately show ?thesis using 1 by (subst to_base.simps) (simp add: of_base_snoc)
  qed
qed

text \<open>A number below a power of the base has at most that many digits.\<close>

lemma length_to_base: "2 \<le> b \<Longrightarrow> n < b ^ Suc k \<Longrightarrow> length (to_base b n) \<le> Suc k"
proof (induction k arbitrary: n)
  case 0
  then show ?case by (subst to_base.simps) simp
next
  case (Suc k)
  then have "n div b < b ^ Suc k" by (simp add: less_mult_imp_div_less mult.commute)
  then have "length (to_base b (n div b)) \<le> Suc k" by (rule Suc.IH [OF Suc.prems(1)])
  then show ?case by (subst to_base.simps) simp
qed

definition pad :: "nat \<Rightarrow> string \<Rightarrow> string" where
  "pad w s = replicate (w - length s) (CHR ''0'') @ s"

lemma of_base_zeros [simp]: "of_base b (replicate k (CHR ''0'') @ s) = of_base b s"
  by (induction k) (simp_all add: of_base_def digit_val_def)

lemma of_base_pad [simp]: "of_base b (pad w s) = of_base b s"
  by (simp add: pad_def)

lemma length_pad [simp]: "length (pad w s) = max w (length s)"
  by (simp add: pad_def)

section \<open>Formats\<close>

text \<open>\<^verbatim>\<open>%#0wx\<close>: the prefix counts for the width and is left out for zero.\<close>

definition hexfmt :: "nat \<Rightarrow> nat \<Rightarrow> string" where
  "hexfmt w n = (if n = 0 then pad w ''0'' else ''0x'' @ pad (w - 2) (to_base 16 n))"

definition parse_hex :: "string \<Rightarrow> nat" where
  "parse_hex s = of_base 16 (if take 2 s = ''0x'' then drop 2 s else s)"

lemma parse_hex_hexfmt [simp]: "parse_hex (hexfmt w n) = n"
proof (cases "n = 0")
  case True
  have "set (pad w ''0'') \<subseteq> {CHR ''0''}" by (auto simp: pad_def)
  then have "CHR ''x'' \<notin> set (take 2 (pad w ''0''))" by (auto dest: in_set_takeD)
  then have "take 2 (pad w ''0'') \<noteq> ''0x''" by (metis list.set_intros(1,2))
  moreover have "of_base 16 (pad w ''0'') = 0" by (subst of_base_pad) (simp add: of_base_def digit_val_def)
  ultimately show ?thesis using True by (simp add: parse_hex_def hexfmt_def)
qed (simp add: parse_hex_def hexfmt_def)

lemma hexfmt_inject: "hexfmt w m = hexfmt w n \<Longrightarrow> m = n"
  by (metis parse_hex_hexfmt)

lemma length_hexfmt:
  assumes n: "n < 16 ^ (w - 2)" and w: "3 \<le> w"
  shows "length (hexfmt w n) = w"
proof -
  from w have "Suc (w - 3) = w - 2" by simp
  then have "length (to_base 16 n) \<le> w - 2" using length_to_base [of 16 n "w - 3"] n by simp
  then show ?thesis using w by (auto simp: hexfmt_def)
qed

text \<open>\<^verbatim>\<open>%i\<close> and \<^verbatim>\<open>std::to_string\<close>.\<close>

definition fmt_int :: "int \<Rightarrow> string" where
  "fmt_int i = (if i < 0 then CHR ''-'' # to_base 10 (nat (- i)) else to_base 10 (nat i))"

definition fmt_nat :: "nat \<Rightarrow> string" where
  "fmt_nat n = to_base 10 n"

definition parse_nat :: "string \<Rightarrow> nat" where
  "parse_nat s = of_base 10 s"

lemma parse_fmt_nat [simp]: "parse_nat (fmt_nat n) = n"
  by (simp add: parse_nat_def fmt_nat_def)

end
