(* ===== verification/Reports.thy ===== *)
theory Reports
  imports RaceCollect TextFormat
begin

text \<open>
  The report sinks: the text of a source location (\<^verbatim>\<open>drace-client/src/symbol/SymbolLocation.cpp\<close>),
  the text report (\<^verbatim>\<open>include/sink/hr-text.h\<close>) and the XML report
  (\<^verbatim>\<open>include/sink/valkyrie.h\<close>). The XML library is the sequence of calls it receives; what a
  sequence of calls means is \<open>xml_read\<close>, which builds the element tree. DynamoRIO's \<^verbatim>\<open>dr_snprintf\<close>
  does not terminate a text that fills its buffer, so measuring it reads past the end: \<open>None\<close>.
\<close>

section \<open>Source locations as text\<close>

definition pretty_bufsize :: nat where
  "pretty_bufsize = 512"

text \<open>A text is appended at \<^verbatim>\<open>strbuf + strlen(strbuf)\<close>.\<close>

definition append_text :: "string \<Rightarrow> string \<Rightarrow> string option" where
  "append_text cur t = (if length cur + length t < pretty_bufsize then Some (cur @ t) else None)"

definition fmt_ptr :: "u64 \<Rightarrow> string" where
  "fmt_ptr p = ''0x'' @ pad 16 (to_base 16 (unat p))"

definition int_of_u64 :: "u64 \<Rightarrow> int" where
  "int_of_u64 w = sint (ucast w :: u32)"

definition newline :: string where "newline = [CHR 0x0A]"
definition tab :: string where "tab = [CHR 0x09]"

definition get_pretty :: "symbol_location \<Rightarrow> string option" where
  "get_pretty l =
     Option.bind (append_text [] (fmt_ptr (sl_pc l) @ '' '')) (\<lambda>s.
     Option.bind (if sl_mod_base l \<noteq> 0
                  then append_text s (''(rel: '' @ hexfmt 10 (unat (ucast (sl_pc l - sl_mod_base l) :: u32)) @ '')'' @ newline)
                  else append_text s (''(dynamic code)'' @ newline)) (\<lambda>s.
     if sl_mod_name l \<noteq> [] then
       Option.bind (append_text s (tab @ ''Module '' @ sl_mod_name l @ newline)) (\<lambda>s.
       Option.bind (if sl_sym_name l \<noteq> [] then append_text s (tab @ ''Symbol '' @ sl_sym_name l @ newline) else Some s) (\<lambda>s.
       if sl_file l \<noteq> []
       then append_text s (tab @ ''File '' @ sl_file l @ '':'' @ fmt_int (int_of_u64 (sl_line l)) @ '' + '' @
              fmt_int (int_of_u64 (sl_line_offs l)) @ newline)
       else Some s))
     else Some s))"

section \<open>The text report\<close>

definition kind_text :: "access_entry \<Rightarrow> string" where
  "kind_text e = (if ae_write e then ''write'' else ''read'')"

definition pad_left :: "nat \<Rightarrow> string \<Rightarrow> string" where
  "pad_left w s = replicate (w - length s) (CHR '' '') @ s"

fun hr_frames :: "nat \<Rightarrow> symbol_location list \<Rightarrow> string option" where
  "hr_frames p [] = Some []"
| "hr_frames p (l # ls) =
     Option.bind (get_pretty l) (\<lambda>t. map_option (\<lambda>r. hexfmt 4 p @ '' PC '' @ t @ r) (hr_frames (Suc p) ls))"

definition hr_access :: "bool \<Rightarrow> nat \<Rightarrow> resolved_access \<Rightarrow> string option" where
  "hr_access resolved i ac =
     (let e = ra_entry ac;
          ssize = length (ra_resolved ac);
          head = ''Access '' @ fmt_nat i @ '' tid: '' @ fmt_int (sint (ae_thread_id e)) @ '' '' @ kind_text e @ '' to/from '' @
            fmt_ptr (ae_accessed_memory e) @ '' with size '' @ fmt_int (int_of_u64 (ae_access_size e)) @ newline;
          block = (if ae_onheap e
                   then ''Block begin at '' @ fmt_ptr (ae_heap_block_begin e) @ '', size '' @
                          fmt_nat (unat (ucast (ae_heap_block_size e) :: u32)) @ newline
                   else []);
          size_text = ''Callstack (size '' @ fmt_nat (ae_stack_size e) @ '')'' @ newline
      in map_option (\<lambda>st. head @ block @ size_text @ st)
           (if resolved then hr_frames 0 (map (\<lambda>p. ra_resolved ac ! (ssize - 1 - p)) [0..<ssize])
            else Some (''-> (unresolved stack size: '' @ fmt_nat (ae_stack_size e) @ '')'' @ newline)))"

definition hr_process_single_race :: "decorated_race \<Rightarrow> string option" where
  "hr_process_single_race r =
     Option.bind (if sl_mod_name (dr_resolved_addr r) \<noteq> []
                  then map_option (\<lambda>t. ''Racy-address in module: '' @ t) (get_pretty (dr_resolved_addr r)) else Some []) (\<lambda>m.
     Option.bind (hr_access (dr_is_resolved r) 0 (dr_first r)) (\<lambda>a0.
     map_option (\<lambda>a1. ''----- DATA Race at '' @ pad_left 8 (fmt_int (dr_elapsed r)) @ '' ms runtime -----'' @ newline @ m @ a0 @ a1 @
         ''--------------------------------------------'' @ newline)
       (hr_access (dr_is_resolved r) 1 (dr_second r))))"

section \<open>Calls of the XML library\<close>

datatype xml_call = XDecl | XOpen string | XAttr string string | XText string | XClose

datatype xml = XE string "(string \<times> string) list" "xml list" | XT string

text \<open>The tree under construction is the stack of open elements, the innermost first.\<close>

type_synonym open_elem = "string \<times> (string \<times> string) list \<times> xml list"

fun xml_read :: "xml_call list \<Rightarrow> open_elem list \<Rightarrow> xml list option" where
  "xml_read [] [(n, as, cs)] = Some cs"
| "xml_read (XDecl # r) st = xml_read r st"
| "xml_read (XOpen n # r) st = xml_read r ((n, [], []) # st)"
| "xml_read (XAttr k v # r) ((n, as, []) # st) = xml_read r ((n, as @ [(k, v)], []) # st)"
| "xml_read (XText t # r) ((n, as, cs) # st) = xml_read r ((n, as, cs @ [XT t]) # st)"
| "xml_read (XClose # r) ((n, as, cs) # (n', as', cs') # st) = xml_read r ((n', as', cs' @ [XE n as cs]) # st)"
| "xml_read _ _ = None"

definition xml_document :: "xml_call list \<Rightarrow> xml list option" where
  "xml_document cs = xml_read cs [([], [], [])]"

section \<open>The XML report\<close>

record report_env =
  ve_pid :: int
  ve_argv :: "string list"
  ve_app :: string
  ve_start :: int
  ve_iso :: "int \<Rightarrow> string"
  ve_now :: int

text \<open>The file holds the calls whose text has been written; times are in milliseconds, 0 is the unset one.\<close>

record valkyrie =
  vk_printer :: "xml_call list"
  vk_file :: "xml_call list"
  vk_num_processed :: u32
  vk_end_time :: int

definition vk_push :: "xml_call list \<Rightarrow> valkyrie \<Rightarrow> valkyrie" where
  "vk_push cs v = v\<lparr>vk_printer := vk_printer v @ cs\<rparr>"

definition vk_flush :: "valkyrie \<Rightarrow> valkyrie" where
  "vk_flush v = v\<lparr>vk_file := vk_file v @ vk_printer v, vk_printer := []\<rparr>"

definition print_header :: "report_env \<Rightarrow> xml_call list" where
  "print_header ve =
     [XOpen ''protocolversion'', XText ''4'', XClose,
      XOpen ''protocoltool'', XText ''helgrind'', XClose,
      XOpen ''preamble'', XOpen ''line'', XText ''Drace, a thread error detector'', XClose, XClose,
      XOpen ''pid'', XText (fmt_int (ve_pid ve)), XClose,
      XOpen ''tool'', XText ''drace'', XClose]"

definition print_params :: "report_env \<Rightarrow> xml_call list" where
  "print_params ve =
     [XOpen ''args'', XOpen ''vargv'', XOpen ''exe'', XText (ve_argv ve ! 0), XClose] @
     concat (map (\<lambda>i. [XOpen ''arg'', XText (ve_argv ve ! i), XClose]) [1..<length (ve_argv ve)]) @
     [XClose, XOpen ''argv'', XOpen ''exe'', XText (ve_app ve), XClose, XClose, XClose]"

definition print_frame :: "symbol_location \<Rightarrow> xml_call list" where
  "print_frame f =
     [XOpen ''frame'', XOpen ''ip'', XText (hexfmt 18 (unat (sl_pc f))), XClose,
      XOpen ''obj'', XText (sl_mod_name f), XClose] @
     (if sl_sym_name f \<noteq> [] then [XOpen ''fn'', XText (sl_sym_name f), XClose] else []) @
     (if sl_file f \<noteq> []
      then [XOpen ''dir'', XText (dir_from_path (sl_file f)), XClose,
            XOpen ''file'', XText (basename (sl_file f)), XClose] else []) @
     (if sl_line f \<noteq> 0
      then [XOpen ''line'', XText (fmt_nat (unat (sl_line f))), XClose,
            XOpen ''offset'', XText (fmt_nat (unat (sl_line_offs f))), XClose] else []) @
     [XClose]"

definition print_stack :: "symbol_location list \<Rightarrow> xml_call list" where
  "print_stack stack =
     (let ssize = length stack in
      [XOpen ''stack''] @ concat (map (\<lambda>i. print_frame (stack ! (ssize - 1 - i))) [0..<ssize]) @ [XClose])"

definition print_address :: "symbol_location \<Rightarrow> xml_call list" where
  "print_address l =
     (if sl_mod_name l \<noteq> [] then
        [XOpen ''resolvedaddress'', XOpen ''modname'', XText (sl_mod_name l), XClose] @
        (if sl_sym_name l \<noteq> [] then [XOpen ''symname'', XText (sl_sym_name l), XClose] else []) @
        (if sl_file l \<noteq> []
         then [XOpen ''file'', XText (sl_file l), XClose,
               XOpen ''line'', XText (fmt_nat (unat (sl_line l))), XClose,
               XOpen ''offset'', XText (fmt_nat (unat (sl_line_offs l))), XClose] else []) @
        [XClose]
      else [])"

definition access_text :: "string \<Rightarrow> access_entry \<Rightarrow> string" where
  "access_text intro e = intro @ kind_text e @ '' of size '' @ fmt_int (int_of_u64 (ae_access_size e)) @ '' at '' @
     hexfmt 18 (unat (ae_accessed_memory e)) @ '' by thread #'' @ fmt_int (sint (ae_thread_id e))"

definition print_access :: "string \<Rightarrow> resolved_access \<Rightarrow> xml_call list" where
  "print_access intro r =
     [XOpen ''xwhat'', XOpen ''text'', XText (access_text intro (ra_entry r)), XClose,
      XOpen ''hthreadid'', XText (fmt_nat (unat (ae_thread_id (ra_entry r)))), XClose, XClose] @
     print_stack (ra_resolved r)"

definition print_race :: "decorated_race \<Rightarrow> valkyrie \<Rightarrow> valkyrie" where
  "print_race race v =
     (let r = dr_first race; r2 = dr_second race;
          unique = hexfmt 4 (unat (vk_num_processed v));
          v = v\<lparr>vk_num_processed := vk_num_processed v + 1\<rparr>
      in vk_flush (vk_push
           ([XOpen ''error'', XOpen ''unique'', XText unique, XClose,
             XOpen ''tid'', XText (fmt_nat (unat (ae_thread_id (ra_entry r2)))), XClose,
             XOpen ''threadname'', XText ''Thread'', XClose,
             XOpen ''kind'', XText ''Race'', XClose,
             XOpen ''timestamp'', XAttr ''unit'' ''ms'', XText (fmt_int (dr_elapsed race)), XClose] @
            print_address (dr_resolved_addr race) @
            print_access ''Possible data race during '' r2 @
            print_access ''This conflicts with a previous '' r @
            [XClose]) v))"

definition vk_open :: "report_env \<Rightarrow> int \<Rightarrow> valkyrie" where
  "vk_open ve stop =
     vk_flush (vk_push
       ([XDecl, XOpen ''valgrindoutput''] @ print_header ve @ print_params ve @
        [XOpen ''status'', XOpen ''state'', XText ''RUNNING'', XClose,
         XOpen ''time'', XText (ve_iso ve (ve_start ve)), XClose, XClose])
       \<lparr>vk_printer = [], vk_file = [], vk_num_processed = 0, vk_end_time = stop\<rparr>)"

definition vk_close :: "report_env \<Rightarrow> valkyrie \<Rightarrow> valkyrie" where
  "vk_close ve v =
     (let v = (if vk_end_time v = 0 then v\<lparr>vk_end_time := ve_now ve\<rparr> else v)
      in vk_flush (vk_push
           [XOpen ''status'', XOpen ''state'', XText ''FINISHED'', XClose,
            XOpen ''time'', XText (ve_iso ve (vk_end_time v)), XClose,
            XOpen ''duration'', XAttr ''unit'' ''ms'', XText (fmt_int (vk_end_time v - ve_start ve)), XClose,
            XClose, XClose] v))"

definition vk_process_all :: "decorated_race list \<Rightarrow> valkyrie \<Rightarrow> valkyrie" where
  "vk_process_all races v = fold print_race races v"

section \<open>Reading a report back\<close>

text \<open>What a reader of the report gets to know of a location, an access and a race.\<close>

record location_view =
  lv_pc :: u64
  lv_module :: string
  lv_symbol :: "string option"
  lv_source :: "(string \<times> string) option"
  lv_line :: "(nat \<times> nat) option"

record race_view =
  rv_unique :: nat
  rv_address :: "string option"
  rv_accesses :: "(nat \<times> string \<times> location_view list) list"

definition location_view_of :: "symbol_location \<Rightarrow> location_view" where
  "location_view_of l = \<lparr>lv_pc = sl_pc l, lv_module = sl_mod_name l,
     lv_symbol = (if sl_sym_name l = [] then None else Some (sl_sym_name l)),
     lv_source = (if sl_file l = [] then None else Some (dir_from_path (sl_file l), basename (sl_file l))),
     lv_line = (if sl_line l = 0 then None else Some (unat (sl_line l), unat (sl_line_offs l)))\<rparr>"

definition access_view_of :: "string \<Rightarrow> resolved_access \<Rightarrow> nat \<times> string \<times> location_view list" where
  "access_view_of intro r =
     (unat (ae_thread_id (ra_entry r)), access_text intro (ra_entry r), map location_view_of (rev (ra_resolved r)))"

definition race_view_of :: "nat \<Rightarrow> decorated_race \<Rightarrow> race_view" where
  "race_view_of i r = \<lparr>rv_unique = i,
     rv_address = (if sl_mod_name (dr_resolved_addr r) = [] then None else Some (sl_mod_name (dr_resolved_addr r))),
     rv_accesses = [access_view_of ''Possible data race during '' (dr_second r),
       access_view_of ''This conflicts with a previous '' (dr_first r)]\<rparr>"

fun is_elem :: "string \<Rightarrow> xml \<Rightarrow> bool" where
  "is_elem n (XE m as cs) = (m = n)"
| "is_elem n (XT t) = False"

fun content :: "xml \<Rightarrow> xml list" where
  "content (XE n as cs) = cs"
| "content (XT t) = []"

fun text_in :: "xml list \<Rightarrow> string" where
  "text_in [XT t] = t"
| "text_in _ = []"

definition child :: "string \<Rightarrow> xml list \<Rightarrow> xml list option" where
  "child n cs = map_option content (find (is_elem n) cs)"

definition child_text :: "string \<Rightarrow> xml list \<Rightarrow> string option" where
  "child_text n cs = map_option text_in (child n cs)"

definition text_or :: "string \<Rightarrow> xml list \<Rightarrow> string" where
  "text_or n cs = (case child_text n cs of Some t \<Rightarrow> t | None \<Rightarrow> [])"

definition read_frame :: "xml \<Rightarrow> location_view" where
  "read_frame x = (let cs = content x in
     \<lparr>lv_pc = word_of_nat (parse_hex (text_or ''ip'' cs)), lv_module = text_or ''obj'' cs,
      lv_symbol = child_text ''fn'' cs,
      lv_source = (case child_text ''dir'' cs of None \<Rightarrow> None | Some d \<Rightarrow> map_option (Pair d) (child_text ''file'' cs)),
      lv_line = (case child_text ''line'' cs of None \<Rightarrow> None
                 | Some l \<Rightarrow> map_option (\<lambda>i. (parse_nat l, parse_nat i)) (child_text ''offset'' cs))\<rparr>)"

definition read_access :: "xml \<times> xml \<Rightarrow> nat \<times> string \<times> location_view list" where
  "read_access p = (let cs = content (fst p) in
     (parse_nat (text_or ''hthreadid'' cs), text_or ''text'' cs, map read_frame (content (snd p))))"

definition read_race :: "xml \<Rightarrow> race_view" where
  "read_race x = (let cs = content x in
     \<lparr>rv_unique = parse_hex (text_or ''unique'' cs),
      rv_address = map_option (text_or ''modname'') (child ''resolvedaddress'' cs),
      rv_accesses = map read_access (zip (filter (is_elem ''xwhat'') cs) (filter (is_elem ''stack'') cs))\<rparr>)"

definition read_report :: "xml_call list \<Rightarrow> race_view list option" where
  "read_report calls =
     (case xml_document calls of
        Some [XE n as cs] \<Rightarrow> if n = ''valgrindoutput'' then Some (map read_race (filter (is_elem ''error'') cs)) else None
      | _ \<Rightarrow> None)"

section \<open>The trees behind the calls\<close>

fun render :: "xml \<Rightarrow> xml_call list" where
  "render (XE n as cs) = XOpen n # map (\<lambda>(k, v). XAttr k v) as @ concat (map render cs) @ [XClose]"
| "render (XT t) = [XText t]"

definition elem_text :: "string \<Rightarrow> string \<Rightarrow> xml" where
  "elem_text n t = XE n [] [XT t]"

lemma render_elem_text [simp]: "render (elem_text n t) = [XOpen n, XText t, XClose]"
  by (simp add: elem_text_def)

lemma xml_read_attrs: "xml_read (map (\<lambda>(k, v). XAttr k v) bs @ r) ((n, as, []) # st) = xml_read r ((n, as @ bs, []) # st)"
  by (induction bs arbitrary: as) auto

lemma xml_read_render: "xml_read (render t @ r) ((n, as, cs) # st) = xml_read r ((n, as, cs @ [t]) # st)"
proof (induction t arbitrary: r n as cs st)
  case (XE m bs ts)
  have "xml_read (concat (map render ts) @ r) ((n, as, cs) # st) = xml_read r ((n, as, cs @ ts) # st)" for r n as cs st
    using XE by (induction ts arbitrary: cs) auto
  then show ?case by (simp add: xml_read_attrs)
qed simp

definition frame_tree :: "symbol_location \<Rightarrow> xml" where
  "frame_tree f = XE ''frame'' [] ([elem_text ''ip'' (hexfmt 18 (unat (sl_pc f))), elem_text ''obj'' (sl_mod_name f)] @
     (if sl_sym_name f \<noteq> [] then [elem_text ''fn'' (sl_sym_name f)] else []) @
     (if sl_file f \<noteq> [] then [elem_text ''dir'' (dir_from_path (sl_file f)), elem_text ''file'' (basename (sl_file f))] else []) @
     (if sl_line f \<noteq> 0 then [elem_text ''line'' (fmt_nat (unat (sl_line f))), elem_text ''offset'' (fmt_nat (unat (sl_line_offs f)))] else []))"

definition address_trees :: "symbol_location \<Rightarrow> xml list" where
  "address_trees l = (if sl_mod_name l \<noteq> [] then [XE ''resolvedaddress'' []
     ([elem_text ''modname'' (sl_mod_name l)] @ (if sl_sym_name l \<noteq> [] then [elem_text ''symname'' (sl_sym_name l)] else []) @
      (if sl_file l \<noteq> [] then [elem_text ''file'' (sl_file l), elem_text ''line'' (fmt_nat (unat (sl_line l))),
         elem_text ''offset'' (fmt_nat (unat (sl_line_offs l)))] else []))] else [])"

definition access_trees :: "string \<Rightarrow> resolved_access \<Rightarrow> xml list" where
  "access_trees intro r = [XE ''xwhat'' [] [elem_text ''text'' (access_text intro (ra_entry r)),
     elem_text ''hthreadid'' (fmt_nat (unat (ae_thread_id (ra_entry r))))],
     XE ''stack'' [] (map frame_tree (rev (ra_resolved r)))]"

definition race_tree :: "nat \<Rightarrow> decorated_race \<Rightarrow> xml" where
  "race_tree i race = XE ''error'' [] ([elem_text ''unique'' (hexfmt 4 i),
     elem_text ''tid'' (fmt_nat (unat (ae_thread_id (ra_entry (dr_second race))))), elem_text ''threadname'' ''Thread'',
     elem_text ''kind'' ''Race'', XE ''timestamp'' [(''unit'', ''ms'')] [XT (fmt_int (dr_elapsed race))]] @
     address_trees (dr_resolved_addr race) @ access_trees ''Possible data race during '' (dr_second race) @
     access_trees ''This conflicts with a previous '' (dr_first race))"

lemma print_frame_render: "print_frame f = render (frame_tree f)"
  by (simp add: print_frame_def frame_tree_def)

lemma map_index_rev: "map (\<lambda>i. f (xs ! (length xs - 1 - i))) [0..<length xs] = map f (rev xs)"
  by (rule nth_equalityI) (simp_all add: rev_nth)

lemma print_stack_render: "print_stack st = render (XE ''stack'' [] (map frame_tree (rev st)))"
  using map_index_rev [of "\<lambda>x. render (frame_tree x)" st] by (simp add: print_stack_def print_frame_render comp_def)

lemma print_address_render: "print_address l = concat (map render (address_trees l))"
  by (simp add: print_address_def address_trees_def)

lemma print_access_render: "print_access intro r = concat (map render (access_trees intro r))"
  by (simp add: print_access_def access_trees_def print_stack_render)

lemma print_race_calls:
  assumes "vk_printer v = []"
  shows "print_race race v = v\<lparr>vk_num_processed := vk_num_processed v + 1,
    vk_file := vk_file v @ render (race_tree (unat (vk_num_processed v)) race)\<rparr>"
  using assms by (simp add: print_race_def Let_def vk_flush_def vk_push_def race_tree_def print_address_render print_access_render)

lemma process_all_calls:
  "vk_printer v = [] \<Longrightarrow> unat (vk_num_processed v) + length races < 2 ^ 32 \<Longrightarrow>
   fold print_race races v = v\<lparr>vk_num_processed := vk_num_processed v + of_nat (length races),
     vk_file := vk_file v @ concat (map render (map (\<lambda>(i, r). race_tree i r) (enumerate (unat (vk_num_processed v)) races)))\<rparr>"
proof (induction races arbitrary: v)
  case (Cons r races)
  have n: "unat (vk_num_processed v + 1) = Suc (unat (vk_num_processed v))"
    using Cons.prems(2) by (subst unat_add_no_wrap) auto
  show ?case using Cons.IH [of "print_race r v"] Cons.prems by (simp add: print_race_calls n add.assoc)
qed simp

section \<open>Every report can be read back\<close>

lemma find_elem_append [simp]: "find P (xs @ ys) = (case find P xs of None \<Rightarrow> find P ys | Some x \<Rightarrow> Some x)"
  by (induction xs) auto

lemma is_elem_elem_text [simp]: "is_elem m (elem_text n t) = (n = m)"
  by (simp add: elem_text_def)

lemma text_in_elem_text [simp]: "text_in (content (elem_text n t)) = t"
  by (simp add: elem_text_def)

lemmas reader_defs = child_def child_text_def text_or_def

lemma read_frame_tree: "read_frame (frame_tree l) = location_view_of l"
  by (simp add: read_frame_def frame_tree_def location_view_of_def reader_defs)

lemma read_access_trees: "map read_access (zip (filter (is_elem ''xwhat'') (access_trees intro r)) (filter (is_elem ''stack'') (access_trees intro r)))
    = [access_view_of intro r]"
  by (simp add: access_trees_def read_access_def access_view_of_def reader_defs read_frame_tree comp_def)

lemma read_race_tree: "read_race (race_tree i race) = race_view_of i race"
  by (simp add: race_tree_def read_race_def race_view_of_def address_trees_def access_trees_def read_access_def
      access_view_of_def reader_defs read_frame_tree comp_def)

definition head_trees :: "report_env \<Rightarrow> xml list" where
  "head_trees ve = [elem_text ''protocolversion'' ''4'', elem_text ''protocoltool'' ''helgrind'',
     XE ''preamble'' [] [elem_text ''line'' ''Drace, a thread error detector''], elem_text ''pid'' (fmt_int (ve_pid ve)),
     elem_text ''tool'' ''drace'',
     XE ''args'' [] [XE ''vargv'' [] (elem_text ''exe'' (ve_argv ve ! 0) # map (\<lambda>i. elem_text ''arg'' (ve_argv ve ! i)) [1..<length (ve_argv ve)]),
       XE ''argv'' [] [elem_text ''exe'' (ve_app ve)]],
     XE ''status'' [] [elem_text ''state'' ''RUNNING'', elem_text ''time'' (ve_iso ve (ve_start ve))]]"

definition end_trees :: "report_env \<Rightarrow> int \<Rightarrow> xml list" where
  "end_trees ve stop = [XE ''status'' [] [elem_text ''state'' ''FINISHED'', elem_text ''time'' (ve_iso ve stop),
     XE ''duration'' [(''unit'', ''ms'')] [XT (fmt_int (stop - ve_start ve))]]]"

definition stop_time :: "report_env \<Rightarrow> int \<Rightarrow> int" where
  "stop_time ve stop = (if stop = 0 then ve_now ve else stop)"

definition report_tree :: "report_env \<Rightarrow> int \<Rightarrow> decorated_race list \<Rightarrow> xml" where
  "report_tree ve stop races = XE ''valgrindoutput'' []
     (head_trees ve @ map (\<lambda>(i, r). race_tree i r) (enumerate 0 races) @ end_trees ve (stop_time ve stop))"

lemma open_calls: "vk_open ve stop = \<lparr>vk_printer = [], vk_file = XDecl # XOpen ''valgrindoutput'' # concat (map render (head_trees ve)),
    vk_num_processed = 0, vk_end_time = stop\<rparr>"
  by (simp add: vk_open_def vk_flush_def vk_push_def print_header_def print_params_def head_trees_def comp_def)

lemma close_calls:
  "vk_printer v = [] \<Longrightarrow> vk_file (vk_close ve v) = vk_file v @ concat (map render (end_trees ve (stop_time ve (vk_end_time v)))) @ [XClose]"
  by (simp add: vk_close_def vk_flush_def vk_push_def end_trees_def stop_time_def)

lemma report_calls:
  assumes "length races < 2 ^ 32"
  shows "vk_file (vk_close ve (vk_process_all races (vk_open ve stop))) = XDecl # render (report_tree ve stop races)"
proof -
  have "vk_process_all races (vk_open ve stop) = (vk_open ve stop)\<lparr>vk_num_processed := of_nat (length races),
      vk_file := vk_file (vk_open ve stop) @ concat (map render (map (\<lambda>(i, r). race_tree i r) (enumerate 0 races)))\<rparr>"
    unfolding vk_process_all_def using assms
    by (subst process_all_calls) (simp_all add: open_calls)
  then show ?thesis by (simp add: close_calls open_calls report_tree_def)
qed

lemma document_render: "xml_document (XDecl # render t) = Some [t]"
  using xml_read_render [of t "[]" "[]" "[]" "[]" "[]"] by (simp add: xml_document_def)

lemma errors_of_report:
  "filter (is_elem ''error'') (content (report_tree ve stop races)) = map (\<lambda>(i, r). race_tree i r) (enumerate 0 races)"
proof -
  have "filter (is_elem ''error'') (map (\<lambda>(i, r). race_tree i r) (enumerate k races)) = map (\<lambda>(i, r). race_tree i r) (enumerate k races)" for k
    by (induction races arbitrary: k) (auto simp: race_tree_def)
  then show ?thesis by (simp add: report_tree_def head_trees_def end_trees_def)
qed

lemma read_report_tree:
  "read_report (XDecl # render (report_tree ve stop races)) = Some (map (\<lambda>(i, r). race_view_of i r) (enumerate 0 races))"
proof -
  have t: "report_tree ve stop races = XE ''valgrindoutput'' [] (content (report_tree ve stop races))"
    by (simp add: report_tree_def)
  have "read_report (XDecl # render (report_tree ve stop races)) =
      Some (map read_race (filter (is_elem ''error'') (content (report_tree ve stop races))))"
    by (subst t) (simp add: read_report_def document_render del: render.simps)
  also have "\<dots> = Some (map (\<lambda>(i, r). race_view_of i r) (enumerate 0 races))"
    unfolding errors_of_report by (simp add: comp_def case_prod_beta read_race_tree)
  finally show ?thesis .
qed

text \<open>C17: A finished XML report is one well-formed document, whatever the races are, and reading it back gives every
  race in order under a number of its own, with both accesses and their complete call stacks, the newest
  call first.\<close>

theorem report_roundtrip:
  assumes "length races < 2 ^ 32"
  shows "read_report (vk_file (vk_close ve (vk_process_all races (vk_open ve stop))))
    = Some (map (\<lambda>(i, r). race_view_of i r) (enumerate 0 races))"
  using read_report_tree report_calls [OF assms] by simp

definition demo_location :: symbol_location where
  "demo_location = symbol_location_init\<lparr>sl_pc := 0x401000, sl_mod_base := 0x400000, sl_mod_name := ''app.exe'', sl_sym_name := ''main'',
     sl_file := ''src/app.cpp'', sl_line := 12, sl_line_offs := 4\<rparr>"

definition demo_race :: decorated_race where
  "demo_race = (decorated_race_of (access_entry_init\<lparr>ae_thread_id := 7\<rparr>, access_entry_init\<lparr>ae_write := True, ae_thread_id := 8\<rparr>) 15)
     \<lparr>dr_second := \<lparr>ra_entry = access_entry_init\<lparr>ae_write := True, ae_thread_id := 8\<rparr>,
        ra_resolved = [demo_location\<lparr>sl_line := 30\<rparr>, demo_location]\<rparr>, dr_is_resolved := True\<rparr>"

definition demo_report_env :: report_env where
  "demo_report_env = \<lparr>ve_pid = 99, ve_argv = [''drace'', ''-d'', ''fasttrack''], ve_app = ''app.exe'', ve_start = 5,
     ve_iso = (\<lambda>t. fmt_int t), ve_now = 25\<rparr>"

theorem report_roundtrip_witness:
  "read_report (vk_file (vk_close demo_report_env (vk_process_all [demo_race, demo_race] (vk_open demo_report_env 0))))
    = Some (map (\<lambda>(i, r). race_view_of i r) (enumerate 0 [demo_race, demo_race]))"
  by (rule report_roundtrip) simp

section \<open>Locations in the text report\<close>

lemma length_fmt_ptr [simp]: "length (fmt_ptr p) = 18"
proof -
  have "unat p < 16 ^ Suc 15" using unat_bound [of p] by simp
  then have "length (to_base 16 (unat p)) \<le> 16" using length_to_base [of 16 "unat p" 15] by simp
  then show ?thesis by (simp add: fmt_ptr_def)
qed

lemma length_rel [simp]: "length (hexfmt 10 (unat (w :: u32))) = 10"
  using unat_bound [of w] by (intro length_hexfmt) simp_all

lemma length_fmt_int: "- (10 ^ 10) < i \<Longrightarrow> i < 10 ^ 10 \<Longrightarrow> length (fmt_int i) \<le> 11"
  using length_to_base [of 10 "nat (- i)" 9] length_to_base [of 10 "nat i" 9] by (auto simp: fmt_int_def nat_less_iff)

lemma length_line: "length (fmt_int (int_of_u64 w)) \<le> 11"
proof (rule length_fmt_int)
  have "- (2 ^ 31) \<le> sint (ucast w :: u32)" "sint (ucast w :: u32) < 2 ^ 31"
    using sint_ge [of "ucast w :: u32"] sint_lt [of "ucast w :: u32"] by simp_all
  then show "- (10 ^ 10) < int_of_u64 w" "int_of_u64 w < 10 ^ 10" by (simp_all add: int_of_u64_def)
qed

definition pretty_text :: "symbol_location \<Rightarrow> string" where
  "pretty_text l = fmt_ptr (sl_pc l) @ '' '' @
     (if sl_mod_base l \<noteq> 0 then ''(rel: '' @ hexfmt 10 (unat (ucast (sl_pc l - sl_mod_base l) :: u32)) @ '')'' @ newline
      else ''(dynamic code)'' @ newline) @
     (if sl_mod_name l = [] then [] else
        tab @ ''Module '' @ sl_mod_name l @ newline @
        (if sl_sym_name l = [] then [] else tab @ ''Symbol '' @ sl_sym_name l @ newline) @
        (if sl_file l = [] then [] else tab @ ''File '' @ sl_file l @ '':'' @ fmt_int (int_of_u64 (sl_line l)) @ '' + '' @
           fmt_int (int_of_u64 (sl_line_offs l)) @ newline))"

lemma get_pretty_exact: "get_pretty l = (if length (pretty_text l) < pretty_bufsize then Some (pretty_text l) else None)"
  unfolding get_pretty_def append_text_def pretty_text_def
  by (auto simp: newline_def tab_def pretty_bufsize_def)

text \<open>A source location is printed completely, without running past the buffer of 512 characters, if its module,
  symbol and file names have at most 423 characters together.\<close>

theorem pretty_complete:
  assumes "length (sl_mod_name l) + length (sl_sym_name l) + length (sl_file l) \<le> 423"
  shows "get_pretty l = Some (pretty_text l)"
proof -
  have "length (pretty_text l) < pretty_bufsize"
    using assms length_line [of "sl_line l"] length_line [of "sl_line_offs l"]
    by (simp add: pretty_text_def newline_def tab_def pretty_bufsize_def)
  then show ?thesis by (simp add: get_pretty_exact)
qed

theorem pretty_complete_witness: "get_pretty demo_location = Some (pretty_text demo_location)"
  by (rule pretty_complete) (simp add: demo_location_def symbol_location_init_def)

text \<open>With symbol and file names of the 255 characters the symbol look-up can return, a location is never printed safely.\<close>

lemma pretty_overrun:
  "sl_mod_name l \<noteq> [] \<Longrightarrow> 255 \<le> length (sl_sym_name l) \<Longrightarrow> 255 \<le> length (sl_file l) \<Longrightarrow> get_pretty l = None"
  by (auto simp: get_pretty_exact pretty_text_def newline_def tab_def pretty_bufsize_def)

end
