(* ===== verification/ClientReports.thy ===== *)
theory ClientReports
  imports Reports
begin

text \<open>
  How the client sets up its reports and writes them (\<^verbatim>\<open>register_report_sinks\<close> and
  \<^verbatim>\<open>generate_summary\<close> in \<^verbatim>\<open>drace-client/src/drace-client.cpp\<close>): with immediate
  symbol look-up the races are streamed to the sinks, with delayed look-up the files are written at the end.
  A sink is named by what it writes to; \<open>good\<close> tells which files can be opened.
\<close>

record client_params =
  cp_delayed :: bool
  cp_log_open :: bool
  cp_xml_file :: string
  cp_out_file :: string

datatype sink = ConsoleText | TextFile string | XmlFile string

definition register_report_sinks :: "client_params \<Rightarrow> (string \<Rightarrow> bool) \<Rightarrow> sink list" where
  "register_report_sinks cp good =
     (if cp_log_open cp then [ConsoleText] else []) @
     (if \<not> cp_delayed cp then
        (if cp_xml_file cp \<noteq> [] \<and> good (cp_xml_file cp) then [XmlFile (cp_xml_file cp)] else []) @
        (if cp_out_file cp \<noteq> [] \<and> good (cp_out_file cp) then [TextFile (cp_out_file cp)] else [])
      else [])"

text \<open>What is written at the end; \<open>None\<close> as for the collector.\<close>

definition generate_summary ::
  "collect_env \<Rightarrow> (string \<Rightarrow> bool) \<Rightarrow> client_params \<Rightarrow> collector \<Rightarrow> (collector \<times> (sink \<times> decorated_race list) list) option" where
  "generate_summary ce good cp c =
     (if cp_delayed cp then
        Option.bind (resolve_all ce c) (\<lambda>c.
          Some (c, (if cp_out_file cp \<noteq> [] \<and> good (cp_out_file cp) then [(TextFile (cp_out_file cp), rc_races c)] else []) @
                   (if cp_xml_file cp \<noteq> [] \<and> good (cp_xml_file cp) then [(XmlFile (cp_xml_file cp), rc_races c)] else [])))
      else Some (c, []))"

text \<open>A whole run: the sinks are registered, the detector reports its races, the summary is written.\<close>

definition client_reports ::
  "collect_env \<Rightarrow> (string \<Rightarrow> bool) \<Rightarrow> client_params \<Rightarrow> race_filter \<Rightarrow> (int \<times> race) list \<Rightarrow> (sink \<times> decorated_race list) list option" where
  "client_reports ce good cp f rs =
     (let sinks = register_report_sinks cp good;
          c = fold (\<lambda>_. register_sink) sinks (collector_new (cp_delayed cp) f)
      in Option.bind (add_races ce rs c) (\<lambda>c.
         map_option (\<lambda>(c', files). zip sinks (rc_sinks c) @ files) (generate_summary ce good cp c)))"

section \<open>The two modes give the same reports\<close>

text \<open>The races that pass the filter of duplicates and the check of plausibility.\<close>

fun accepted :: "collect_env \<Rightarrow> (int \<times> race) list \<Rightarrow> collector \<Rightarrow> decorated_race list" where
  "accepted ce [] c = []"
| "accepted ce ((ttr, r) # rs) c =
     (let (dup, c) = filter_duplicates ce r c
      in if \<not> dup \<and> \<not> check_implausible (ce_instrument ce) r then decorated_race_of r ttr # accepted ce rs c
         else accepted ce rs c)"

lemma accepted_stacks: "rc_racy_stacks c = rc_racy_stacks c' \<Longrightarrow> accepted ce rs c = accepted ce rs c'"
proof (induction rs arbitrary: c c')
  case (Cons x rs)
  obtain ttr r where x: "x = (ttr, r)" by (cases x)
  obtain d1 c1 d2 c2 where f: "filter_duplicates ce r c = (d1, c1)" "filter_duplicates ce r c' = (d2, c2)" by fastforce
  then have "d1 = d2" "rc_racy_stacks c1 = rc_racy_stacks c2"
    using Cons.prems by (auto simp: filter_duplicates_def split: if_splits)
  then show ?case using Cons.IH [of c1 c2] f by (simp add: x)
qed simp

definition unsuppressed :: "collect_env \<Rightarrow> race_filter \<Rightarrow> decorated_race list \<Rightarrow> decorated_race list" where
  "unsuppressed ce f ds = filter (\<lambda>d. check_suppress (ce_regex ce) f d = Some False) (map (resolve_race ce) ds)"

lemma add_race_cases:
  assumes "add_race ce ttr r c = Some c'" "unat (rc_race_count c) \<le> MAX_RACES" "filter_duplicates ce r c = (dup, c1)"
  shows "unat (rc_race_count c') \<le> Suc (unat (rc_race_count c)) \<and> rc_racy_stacks c' = rc_racy_stacks c1 \<and> rc_filter c' = rc_filter c
    \<and> rc_delayed_lookup c' = rc_delayed_lookup c
    \<and> (let ds = (if \<not> dup \<and> \<not> check_implausible (ce_instrument ce) r then [decorated_race_of r ttr] else []) in
       (if rc_delayed_lookup c then rc_races c' = rc_races c @ ds
        else rc_sinks c' = map (\<lambda>s. s @ unsuppressed ce (rc_filter c) ds) (rc_sinks c)))"
proof -
  note fr = filter_duplicates_frame [OF assms(3)]
  have cnt: "unat (rc_race_count c + 1) = Suc (unat (rc_race_count c))"
    using assms(2) by (subst unat_add_no_wrap) (simp_all add: MAX_RACES_def)
  have lim: "\<not> MAX_RACES < unat (rc_race_count c)" using assms(2) by simp
  show ?thesis
  proof (cases "\<not> dup \<and> \<not> check_implausible (ce_instrument ce) r")
    case False
    then show ?thesis using assms(1,3) lim fr by (auto simp: add_race_def unsuppressed_def)
  next
    case ok: True
    show ?thesis
    proof (cases "rc_delayed_lookup c")
      case True
      then show ?thesis using assms(1,3) lim fr ok cnt
        by (auto simp: add_race_def forward_race_def Let_def split: if_splits)
    next
      case False
      then show ?thesis using assms(1,3) lim fr ok cnt
        by (auto simp: add_race_def forward_race_def Let_def unsuppressed_def split: if_splits option.splits bool.splits)
    qed
  qed
qed

lemma add_races_collects:
  assumes "add_races ce rs c = Some c'" "unat (rc_race_count c) + length rs \<le> Suc MAX_RACES"
  shows "rc_filter c' = rc_filter c
    \<and> (if rc_delayed_lookup c then rc_races c' = rc_races c @ accepted ce rs c
       else rc_sinks c' = map (\<lambda>s. s @ unsuppressed ce (rc_filter c) (accepted ce rs c)) (rc_sinks c))"
  using assms
proof (induction rs arbitrary: c)
  case (Cons x rs)
  obtain ttr r where x: "x = (ttr, r)" by (cases x)
  obtain c1 where c1: "add_race ce ttr r c = Some c1" "add_races ce rs c1 = Some c'"
    using Cons.prems(1) by (auto simp: x bind_eq_Some_conv)
  obtain dup c2 where f: "filter_duplicates ce r c = (dup, c2)" by fastforce
  let ?ds = "if \<not> dup \<and> \<not> check_implausible (ce_instrument ce) r then [decorated_race_of r ttr] else []"
  have a: "unat (rc_race_count c1) \<le> Suc (unat (rc_race_count c))" "rc_racy_stacks c1 = rc_racy_stacks c2" "rc_filter c1 = rc_filter c"
      "rc_delayed_lookup c1 = rc_delayed_lookup c"
      "rc_delayed_lookup c \<Longrightarrow> rc_races c1 = rc_races c @ ?ds"
      "\<not> rc_delayed_lookup c \<Longrightarrow> rc_sinks c1 = map (\<lambda>s. s @ unsuppressed ce (rc_filter c) ?ds) (rc_sinks c)"
    using add_race_cases [OF c1(1) _ f] Cons.prems(2) by (auto simp: Let_def)
  have "accepted ce (x # rs) c = ?ds @ accepted ce rs c1"
    using f accepted_stacks [OF a(2), of ce rs] by (simp add: x)
  moreover have "unat (rc_race_count c1) + length rs \<le> Suc MAX_RACES" using a(1) Cons.prems(2) by simp
  ultimately show ?case using Cons.IH [OF c1(2)] a(3-6) by (auto simp: unsuppressed_def)
qed (simp add: unsuppressed_def map_idI)

lemma register_sinks: "fold (\<lambda>_. register_sink) xs c = c\<lparr>rc_sinks := rc_sinks c @ replicate (length xs) []\<rparr>"
  by (induction xs arbitrary: c) (simp_all add: register_sink_def replicate_app_Cons_same)

definition report_races :: "collect_env \<Rightarrow> race_filter \<Rightarrow> (int \<times> race) list \<Rightarrow> decorated_race list" where
  "report_races ce f rs = unsuppressed ce f (accepted ce rs (collector_new False f))"

lemma file_reports:
  assumes "client_reports ce good cp f rs = Some reps" "length rs \<le> Suc MAX_RACES"
  shows "map_of reps (XmlFile p) = (if p \<noteq> [] \<and> p = cp_xml_file cp \<and> good p then Some (report_races ce f rs) else None)
    \<and> map_of reps (TextFile p) = (if p \<noteq> [] \<and> p = cp_out_file cp \<and> good p then Some (report_races ce f rs) else None)"
proof -
  let ?sinks = "register_report_sinks cp good"
  let ?c0 = "(collector_new (cp_delayed cp) f)\<lparr>rc_sinks := replicate (length ?sinks) []\<rparr>"
  have c0: "fold (\<lambda>_. register_sink) ?sinks (collector_new (cp_delayed cp) f) = ?c0"
    by (simp add: register_sinks collector_new_def)
  obtain c c' files where c: "add_races ce rs ?c0 = Some c" "generate_summary ce good cp c = Some (c', files)"
    and reps: "reps = zip ?sinks (rc_sinks c) @ files"
    using assms(1) by (auto simp: client_reports_def c0 Let_def bind_eq_Some_conv)
  have acc: "accepted ce rs ?c0 = accepted ce rs (collector_new False f)"
    by (rule accepted_stacks) (simp add: collector_new_def)
  have lim: "unat (rc_race_count ?c0) + length rs \<le> Suc MAX_RACES" using assms(2) by (simp add: collector_new_def)
  note col = add_races_collects [OF c(1) lim]
  show ?thesis
  proof (cases "cp_delayed cp")
    case True
    have races: "rc_races c = accepted ce rs (collector_new False f)" "rc_filter c = f"
      using col True acc by (simp_all add: collector_new_def)
    obtain c1 where c1: "resolve_all ce c = Some c1" and files: "files =
        (if cp_out_file cp \<noteq> [] \<and> good (cp_out_file cp) then [(TextFile (cp_out_file cp), rc_races c1)] else []) @
        (if cp_xml_file cp \<noteq> [] \<and> good (cp_xml_file cp) then [(XmlFile (cp_xml_file cp), rc_races c1)] else [])"
      using c(2) True by (auto simp: generate_summary_def bind_eq_Some_conv)
    obtain rs' n' where "resolve_loop ce (rc_filter c) (rc_races c) (rc_race_count c) = Some (rs', n')" "rc_races c1 = rs'"
      using c1 by (auto simp: resolve_all_def)
    then have "rc_races c1 = report_races ce f rs"
      using resolve_loop_spec races by (fastforce simp: report_races_def unsuppressed_def)
    moreover have "map_of (zip ?sinks (rc_sinks c)) s = None" if "s \<noteq> ConsoleText" for s
      using True that by (auto simp: register_report_sinks_def map_of_eq_None_iff dest!: set_zip_leftD)
    ultimately show ?thesis by (auto simp: reps files map_add_def)
  next
    case False
    have "rc_sinks c = replicate (length ?sinks) (report_races ce f rs)"
      using col False acc by (simp add: collector_new_def report_races_def)
    moreover have "files = []" using c(2) False by (simp add: generate_summary_def)
    ultimately have "reps = map (\<lambda>s. (s, report_races ce f rs)) ?sinks"
      by (simp add: reps zip_replicate2)
    then show ?thesis using False by (auto simp: register_report_sinks_def)
  qed
qed

definition xml_file_calls :: "report_env \<Rightarrow> int \<Rightarrow> decorated_race list \<Rightarrow> xml_call list" where
  "xml_file_calls ve stop races = vk_file (vk_close ve (vk_process_all races (vk_open ve stop)))"


definition demo_params :: client_params where
  "demo_params = \<lparr>cp_delayed = False, cp_log_open = True, cp_xml_file = ''r.xml'', cp_out_file = ''r.txt''\<rparr>"

definition demo_races :: "(int \<times> race) list" where
  "demo_races = [(0, simple_access 5, simple_access 6), (1, simple_access 7, simple_access 6), (2, simple_access 7, simple_access 6)]"


end
