(* ===== verification/EndToEnd.thy ===== *)
theory EndToEnd
  imports RaceTheorem ClientReports
begin

text \<open>
  Detector, race collector and reports together: what becomes of a race between the call of the detector that
  finds it (\<^verbatim>\<open>fasttrack.h\<close>, \<^verbatim>\<open>report_race\<close>), the collector it is handed to
  (\<^verbatim>\<open>race-collector.h\<close>, \<^verbatim>\<open>add_race\<close>) and the XML file that a user reads.
\<close>

section \<open>The races of a run\<close>

text \<open>In the order in which the detector hands them to its callback; \<open>ttr\<close> gives the time at which the collector
  takes the n-th of them.\<close>

definition detector_races :: "(nat \<Rightarrow> int) \<Rightarrow> log \<Rightarrow> (int \<times> race) list" where
  "detector_races ttr log = map (\<lambda>(n, r). (ttr n, r)) (enumerate 0 (concat (map e_races log)))"

lemma detector_races_raw: "map snd (detector_races ttr log) = concat (map e_races log)"
proof -
  have "map snd (detector_races ttr log) = map snd (enumerate 0 (concat (map e_races log)))"
    unfolding detector_races_def map_map by (rule map_cong) auto
  then show ?thesis by simp
qed

lemma detector_races_length: "length (detector_races ttr log) = length (concat (map e_races log))"
  by (metis detector_races_raw length_map)

section \<open>The race that stands for another\<close>

text \<open>Races that the filter of duplicates takes for the same.\<close>

definition same_key :: "collect_env \<Rightarrow> race \<Rightarrow> race \<Rightarrow> bool" where
  "same_key env r d = (if ce_suppression_level env = 0 then d = r else race_hash d = race_hash r)"

definition representative :: "collect_env \<Rightarrow> (int \<times> race) list \<Rightarrow> race \<Rightarrow> (int \<times> race) option" where
  "representative env rs r = find (\<lambda>(_, d). same_key env r d) rs"

lemma representative_exists:
  assumes "r \<in> snd ` set rs"
  shows "\<exists>t d. representative env rs r = Some (t, d) \<and> same_key env r d"
proof (cases "representative env rs r")
  case None
  then have "\<forall>x \<in> set rs. \<not> same_key env r (snd x)"
    by (auto simp: representative_def find_None_iff case_prod_unfold)
  moreover have "same_key env r r" by (simp add: same_key_def)
  ultimately show ?thesis using assms by blast
next
  case (Some x)
  then have "same_key env r (snd x)" unfolding representative_def find_Some_iff case_prod_unfold by metis
  with Some show ?thesis by (metis prod.collapse)
qed

lemma accepted_representative:
  "representative env rs r = Some (t, d) \<Longrightarrow> ce_suppression_level env \<noteq> 0 \<longrightarrow> race_hash r \<notin> set (rc_racy_stacks c)
    \<Longrightarrow> check_implausible (ce_instrument env) d \<or> decorated_race_of d t \<in> set (accepted env rs c)"
proof (induction rs arbitrary: c)
  case (Cons x rs)
  obtain t1 d1 where x: "x = (t1, d1)" by (cases x)
  obtain dup c1 where f: "filter_duplicates env d1 c = (dup, c1)" by (cases "filter_duplicates env d1 c")
  show ?case
  proof (cases "same_key env r d1")
    case True
    then have "t = t1" "d = d1" using Cons.prems(1) by (simp_all add: representative_def x)
    moreover have "\<not> dup" using f True Cons.prems(2)
      by (auto simp: filter_duplicates_def same_key_def split: if_splits)
    ultimately show ?thesis using f by (simp add: x)
  next
    case False
    then have "representative env rs r = Some (t, d)" using Cons.prems(1) by (simp add: representative_def x)
    moreover have "ce_suppression_level env \<noteq> 0 \<longrightarrow> race_hash r \<notin> set (rc_racy_stacks c1)"
      using f False Cons.prems(2) by (auto simp: filter_duplicates_def same_key_def split: if_splits)
    ultimately have "check_implausible (ce_instrument env) d \<or> decorated_race_of d t \<in> set (accepted env rs c1)"
      by (rule Cons.IH)
    then show ?thesis using f by (auto simp: x)
  qed
qed (simp add: representative_def)

lemma accepted_length: "length (accepted env rs c) \<le> length rs"
proof (induction rs arbitrary: c)
  case (Cons x rs)
  obtain t r where x: "x = (t, r)" by (cases x)
  obtain dup c1 where f: "filter_duplicates env r c = (dup, c1)" by (cases "filter_duplicates env r c")
  show ?case using Cons.IH [of c1] by (simp add: x f)
qed simp

lemma report_races_length: "length (report_races env f rs) \<le> length rs"
  unfolding report_races_def unsuppressed_def
  using accepted_length [of env rs] by (metis (no_types) length_filter_le length_map le_trans)

text \<open>What the file says of a race: it is shown with both call stacks, or the first race of its key is
  implausible or suppressed.\<close>

definition shown :: "decorated_race list \<Rightarrow> race_view list \<Rightarrow> decorated_race \<Rightarrow> bool" where
  "shown ds vs d \<longleftrightarrow> (\<exists>n < length ds. ds ! n = d \<and> vs ! n = race_view_of n d)"

definition withheld :: "collect_env \<Rightarrow> race_filter \<Rightarrow> race \<Rightarrow> decorated_race \<Rightarrow> bool" where
  "withheld env f d dr \<longleftrightarrow> check_implausible (ce_instrument env) d \<or> check_suppress (ce_regex env) f dr \<noteq> Some False"

lemma report_shows:
  assumes reps: "client_reports env good cp f rs = Some reps" and len: "length rs \<le> 201"
    and xml: "cp_xml_file cp \<noteq> []" "good (cp_xml_file cp)" and r: "representative env rs r = Some (t, d)"
  shows "\<exists>ds vs. map_of reps (XmlFile (cp_xml_file cp)) = Some ds \<and> read_report (xml_file_calls renv stop ds) = Some vs
    \<and> (shown ds vs (resolve_race env (decorated_race_of d t)) \<or> withheld env f d (resolve_race env (decorated_race_of d t)))"
proof -
  let ?ds = "report_races env f rs" and ?d = "resolve_race env (decorated_race_of d t)"
  have ds_file: "map_of reps (XmlFile (cp_xml_file cp)) = Some ?ds"
    using file_reports [OF reps] len xml by (simp add: MAX_RACES_def)
  have "length ?ds < 2 ^ 32" using report_races_length [of env f rs] len by simp
  then have vs: "read_report (xml_file_calls renv stop ?ds) = Some (map (\<lambda>(n, r). race_view_of n r) (enumerate 0 ?ds))"
    unfolding xml_file_calls_def using report_calls [of ?ds] read_report_tree by simp
  have "withheld env f d ?d \<or> ?d \<in> set ?ds"
    using accepted_representative [OF r, of "collector_new False f"]
    by (auto simp: withheld_def report_races_def unsuppressed_def collector_new_def)
  moreover have "shown ?ds (map (\<lambda>(n, r). race_view_of n r) (enumerate 0 ?ds)) ?d" if mem: "?d \<in> set ?ds"
  proof -
    obtain n where "n < length ?ds" "?ds ! n = ?d" using mem unfolding in_set_conv_nth by blast
    then show ?thesis unfolding shown_def by (intro exI [of _ n]) (simp add: nth_enumerate_eq)
  qed
  ultimately show ?thesis using ds_file vs by blast
qed

section \<open>From the access to the report\<close>

text \<open>C2: No unordered access is lost on the way to the user. Take a run of the detector, an access \<open>j\<close> of a thread \<open>t\<close>
  and the last write \<open>i\<close> to the same address before it, by another thread \<open>u\<close> that has not ended, without a
  happens-before order between the two. If at most 201 races are found and the XML file can be written, then a race
  of \<open>u\<close>'s write with \<open>t\<close>'s access reached the collector, and reading the finished file back gives it, or the
  first race that the filter of duplicates takes for the same, with both call stacks, unless that first race is
  implausible or not cleared by the suppressions.\<close>

theorem unordered_access_in_report:
  assumes "logged_run cs ft_init [] = Some (s, log)" and "length cs < 2 ^ 32"
    and "j < length log" and "access (ev log j) t a" and "last_write (take j log) a i"
    and "ev log i = EWrite u a" and "u \<noteq> t" and "thread_at s u \<noteq> None" and "\<not> hb log i j"
    and "client_reports env good cp f (detector_races ttr log) = Some reps"
    and "length (concat (map e_races log)) \<le> 201" and "cp_xml_file cp \<noteq> []" and "good (cp_xml_file cp)"
  shows "\<exists>r d time ds vs. pair_reported [r] u t a \<and> same_key env r d
    \<and> representative env (detector_races ttr log) r = Some (time, d)
    \<and> map_of reps (XmlFile (cp_xml_file cp)) = Some ds \<and> read_report (xml_file_calls renv stop ds) = Some vs
    \<and> (shown ds vs (resolve_race env (decorated_race_of d time)) \<or> withheld env f d (resolve_race env (decorated_race_of d time)))"
proof -
  have "trace_inv s log" using logged_run_inv [OF trace_inv_init _ assms(1)] assms(2) by simp
  then have "covered s log i j u t a" using assms(3-8) unfolding trace_inv_def cover_inv_def by blast
  moreover have "i < length log" using last_write_less [OF assms(5)] assms(3) by simp
  ultimately have "RaceTheorem.reported log i j u t a" using assms(6,9) by (auto simp: covered_def epoch_before_def)
  then obtain k where k: "k \<le> j" "pair_reported (e_races (log ! k)) u t a" unfolding reported_def by blast
  then obtain r where r: "r \<in> set (e_races (log ! k))" "pair_reported [r] u t a"
    by (auto simp: pair_reported_def)
  then have "r \<in> set (concat (map e_races log))" using k(1) assms(3) by auto
  then have "r \<in> snd ` set (detector_races ttr log)"
    using detector_races_raw [of ttr log] by (metis set_map)
  from representative_exists [OF this] obtain time d where
    d: "representative env (detector_races ttr log) r = Some (time, d)" "same_key env r d" by blast
  have "length (detector_races ttr log) \<le> 201" using assms(11) detector_races_length [of ttr log] by simp
  from report_shows [OF assms(10) this assms(12,13) d(1)] r(2) d show ?thesis by blast
qed

lemma hb_next: "hb log i (Suc i) \<Longrightarrow> ordered_by (ev log i) (ev log (Suc i))"
  by (erule hb.cases) (auto dest!: hb_less)

lemma unordered_access_in_report_witness:
  "\<exists>s log reps r d time ds vs. logged_run (demo_calls @ [DRead 200 90 4096 4]) ft_init [] = Some (s, log)
    \<and> client_reports plain_env (\<lambda>_. True) demo_params race_filter_empty (detector_races int log) = Some reps
    \<and> pair_reported [r] 1 2 4096 \<and> representative plain_env (detector_races int log) r = Some (time, d)
    \<and> map_of reps (XmlFile ''r.xml'') = Some ds \<and> read_report (xml_file_calls demo_report_env 7 ds) = Some vs
    \<and> (shown ds vs (resolve_race plain_env (decorated_race_of d time))
       \<or> withheld plain_env race_filter_empty d (resolve_race plain_env (decorated_race_of d time)))"
proof -
  let ?cs = "demo_calls @ [DRead 200 90 4096 4]"
  let ?r = "logged_run ?cs ft_init []"
  have l: "length ?cs < 2 ^ 32" by (simp add: demo_calls_def)
  have "case ?r of None \<Rightarrow> False | Some (s, log) \<Rightarrow> length log = 6 \<and> ev log 5 = ERead 2 4096 \<and>
      last_write (take 5 log) 4096 4 \<and> ev log 4 = EWrite 1 4096 \<and> thread_at s 1 \<noteq> None \<and>
      length (concat (map e_races log)) = 1 \<and>
      client_reports plain_env (\<lambda>_. True) demo_params race_filter_empty (detector_races int log) \<noteq> None"
    by code_simp
  then obtain s log reps where r: "?r = Some (s, log)" and h: "length log = 6" "ev log 5 = ERead 2 4096"
      "last_write (take 5 log) 4096 4" "ev log 4 = EWrite 1 4096" "thread_at s 1 \<noteq> None"
      "length (concat (map e_races log)) = 1"
    and reps: "client_reports plain_env (\<lambda>_. True) demo_params race_filter_empty (detector_races int log) = Some reps"
    by (auto split: option.splits)
  have a: "5 < length log" "access (ev log 5) 2 4096" "(1 :: u32) \<noteq> 2" using h by (simp_all add: access_def)
  have n: "\<not> hb log 4 5" using hb_next [of log 4] h by (auto simp: ordered_by_def into_def)
  have b: "length (concat (map e_races log)) \<le> 201" "cp_xml_file demo_params \<noteq> []" using h(6) by (simp_all add: demo_params_def)
  from unordered_access_in_report [OF r l a(1,2) h(3,4) a(3) h(5) n reps b, of demo_report_env 7]
  show ?thesis using r reps by (simp add: demo_params_def) blast
qed

section \<open>A race that hides others\<close>

text \<open>The filter of duplicates comes first and records the key of every race. So a race that is then dropped as
  implausible hides all later ones with its key, although no report ever shows one of them.\<close>

theorem implausible_hides:
  assumes "ce_suppression_level env \<noteq> 0" and "race_hash d = race_hash r" and "check_implausible (ce_instrument env) d"
    and "add_races env ((t, d) # (t', r) # rs) c = Some c'" and "unat (rc_race_count c) \<le> MAX_RACES"
  shows "\<exists>c2. rc_sinks c2 = rc_sinks c \<and> rc_races c2 = rc_races c \<and> add_races env rs c2 = Some c'"
proof -
  obtain dup c1 where f: "filter_duplicates env d c = (dup, c1)" by (cases "filter_duplicates env d c")
  note fr = filter_duplicates_frame [OF f]
  have a1: "add_race env t d c = Some c1" using f assms(3,5) by (simp add: add_race_def)
  have "race_hash r \<in> set (rc_racy_stacks c1)"
    using f assms(1,2) by (auto simp: filter_duplicates_def split: if_splits)
  then have "filter_duplicates env r c1 = (True, c1)" using assms(1) by (simp add: filter_duplicates_def)
  then have "add_race env t' r c1 = Some c1" using assms(5) fr by (simp add: add_race_def)
  with a1 assms(4) fr show ?thesis by auto
qed

end
