(* ===== verification/ExtControl.thy ===== *)
theory ExtControl
  imports MemTracker TextFormat
begin

text \<open>
  External control: the interactive controller of the resolver process
  (\<^verbatim>\<open>ManagedResolver/src/Controller.cpp\<close>) writes a control block in shared memory
  (\<^verbatim>\<open>ClientCB\<close> in \<^verbatim>\<open>common/ipc/SMData.h\<close>), which the memory tracker of the
  client reads now and then (\<open>handle_ext_state\<close>). The input is the list of characters typed.
\<close>

section \<open>The control block\<close>

text \<open>Whether the detector is enabled, and the sampling rate. The block exists as long as its pointer is not null.\<close>

type_synonym client_cb = "bool \<times> u32"

definition enable_detector :: "client_cb option \<Rightarrow> client_cb option" where
  "enable_detector cb = (case cb of Some (en, rate) \<Rightarrow> if en then cb else Some (True, rate) | None \<Rightarrow> None)"

definition disable_detector :: "client_cb option \<Rightarrow> client_cb option" where
  "disable_detector cb = (case cb of Some (en, rate) \<Rightarrow> if \<not> en then cb else Some (False, rate) | None \<Rightarrow> None)"

definition set_samplingrate :: "int \<Rightarrow> client_cb option \<Rightarrow> client_cb option" where
  "set_samplingrate s cb = (case cb of Some (en, rate) \<Rightarrow> Some (en, word_of_int s) | None \<Rightarrow> None)"

section \<open>Reading a number\<close>

text \<open>\<^verbatim>\<open>std::stoi\<close>: leading white space, a sign, decimal digits, then anything.\<close>

datatype stoi = StoiOk int | StoiInvalid | StoiRange

definition is_space :: "char \<Rightarrow> bool" where
  "is_space c = (c = CHR '' '' \<or> (9 \<le> (of_char c :: nat) \<and> (of_char c :: nat) \<le> 13))"

definition is_dec :: "char \<Rightarrow> bool" where
  "is_dec c = (48 \<le> (of_char c :: nat) \<and> (of_char c :: nat) \<le> 57)"

definition stoi_of :: "string \<Rightarrow> stoi" where
  "stoi_of s =
     (let s = dropWhile is_space s;
          neg = (s \<noteq> [] \<and> hd s = CHR ''-'');
          s = (if s \<noteq> [] \<and> (hd s = CHR ''-'' \<or> hd s = CHR ''+'') then tl s else s);
          ds = takeWhile is_dec s;
          v = (if neg then - int (of_base 10 ds) else int (of_base 10 ds))
      in if ds = [] then StoiInvalid
         else if v < - (2 ^ 31) \<or> 2 ^ 31 \<le> v then StoiRange
         else StoiOk v)"

section \<open>The loop\<close>

text \<open>The end of a run over the input: the loop waits for more, or it has been left because of an exception it does not
  catch (only \<^verbatim>\<open>invalid_argument\<close> is caught).\<close>

datatype control = Waiting "client_cb option" | Left "client_cb option"

definition skip_line :: "string \<Rightarrow> string" where
  "skip_line s = tl (dropWhile (\<lambda>c. c \<noteq> CHR 0x0A) s)"

lemma length_skip_line: "length (skip_line s) \<le> length s"
  by (simp add: skip_line_def) (meson diff_le_self le_trans length_dropWhile_le)

function control_loop :: "string \<Rightarrow> client_cb option \<Rightarrow> control" where
  "control_loop [] cb = Waiting cb"
| "control_loop (c # s) cb =
     (if c = CHR ''e'' then control_loop s (enable_detector cb)
      else if c = CHR ''d'' then control_loop s (disable_detector cb)
      else if c = CHR ''s'' then
        (case stoi_of (takeWhile (\<lambda>c. c \<noteq> CHR 0x0A) s) of
           StoiOk v \<Rightarrow> control_loop (skip_line s) (set_samplingrate v cb)
         | StoiInvalid \<Rightarrow> control_loop (skip_line s) cb
         | StoiRange \<Rightarrow> Left cb)
      else control_loop s cb)"
  by pat_completeness auto
termination by (relation "measure (length \<circ> fst)") (auto simp: le_imp_less_Suc length_skip_line)

section \<open>From the keyboard to the tracker\<close>

lemma is_dec_digit: "n < 10 \<Longrightarrow> is_dec (digit n)"
  by (simp add: is_dec_def digit_def)

lemma is_dec_to_base: "c \<in> set (to_base 10 n) \<Longrightarrow> is_dec c"
proof (induction "10 :: nat" n rule: to_base.induct)
  case (1 n)
  show ?case
  proof (cases "n < 10")
    case True
    then show ?thesis using 1(2) is_dec_digit by (subst (asm) to_base.simps) simp
  next
    case False
    then show ?thesis using 1 is_dec_digit [of "n mod 10"] by (subst (asm) (2) to_base.simps) auto
  qed
qed

lemma to_base_not_Nil [simp]: "to_base b n \<noteq> []"
  by (subst to_base.simps) simp

lemma dec_not_special: "is_dec c \<Longrightarrow> \<not> is_space c \<and> c \<noteq> CHR ''-'' \<and> c \<noteq> CHR ''+'' \<and> c \<noteq> CHR 0x0A"
  by (auto simp: is_dec_def is_space_def)

lemma stoi_fmt_nat: "n < 2 ^ 31 \<Longrightarrow> stoi_of (fmt_nat n) = StoiOk (int n)"
proof -
  assume n: "n < 2 ^ 31"
  have d: "\<forall>c \<in> set (fmt_nat n). is_dec c" using is_dec_to_base by (simp add: fmt_nat_def)
  moreover have h: "hd (fmt_nat n) \<in> set (fmt_nat n)" by (simp add: fmt_nat_def)
  ultimately have hd: "\<not> is_space (hd (fmt_nat n))" "hd (fmt_nat n) \<noteq> CHR ''-''" "hd (fmt_nat n) \<noteq> CHR ''+''"
    using dec_not_special by blast+
  have "dropWhile is_space (fmt_nat n) = fmt_nat n" using hd(1) by (cases "fmt_nat n") simp_all
  moreover have tw: "takeWhile is_dec (fmt_nat n) = fmt_nat n" using d by (simp add: takeWhile_eq_all_conv)
  moreover have "fmt_nat n \<noteq> []" by (simp add: fmt_nat_def)
  moreover have "of_base 10 (fmt_nat n) = n" using parse_fmt_nat [of n] by (simp add: parse_nat_def)
  ultimately show ?thesis using hd n by (simp add: stoi_of_def Let_def tw)
qed

lemma control_set_rate:
  assumes "n < 2 ^ 31"
  shows "control_loop (CHR ''s'' # fmt_nat n @ [CHR 0x0A]) (Some (en, rate)) = Waiting (Some (en, of_nat n))"
proof -
  have "\<forall>c \<in> set (fmt_nat n). c \<noteq> CHR 0x0A" using is_dec_to_base dec_not_special by (auto simp: fmt_nat_def)
  then have "takeWhile (\<lambda>c. c \<noteq> CHR 0x0A) (fmt_nat n @ [CHR 0x0A]) = fmt_nat n" "skip_line (fmt_nat n @ [CHR 0x0A]) = []"
    by (simp_all add: takeWhile_append2 skip_line_def dropWhile_append2)
  then show ?thesis using stoi_fmt_nat [OF assms] by (simp add: set_samplingrate_def)
qed

text \<open>A sampling rate typed into the controller arrives at the memory tracker: after the next check of the control
  block the tracker samples with this rate, and the sampling periods enclose it.\<close>

theorem typed_rate_arrives:
  assumes "0 < n" "n < 2 ^ 31"
    and "control_loop (CHR ''s'' # fmt_nat n @ [CHR 0x0A]) (rt_ext g) = Waiting (Some cb)" "rt_ext g \<noteq> None"
    and "handle_ext_state td (g\<lparr>rt_ext := Some cb\<rparr>) = (td', g')" "pa_sampling_rate (rt_params g) \<noteq> of_nat n"
  shows "pa_sampling_rate (rt_params g') = of_nat n
    \<and> 0 < rt_min_period g' \<and> rt_min_period g' \<le> of_nat n \<and> of_nat n \<le> rt_max_period g'"
proof -
  obtain en rate where ext: "rt_ext g = Some (en, rate)" using assms(4) by auto
  have cb: "cb = (en, of_nat n)" using assms(3) control_set_rate [OF assms(2)] ext by simp
  define w :: u32 where "w = of_nat n"
  have un: "unat w = n" using assms(2) by (simp add: w_def unsigned_of_nat take_bit_eq_mod)
  let ?d = "if w < 10 then 1 else w div 10"
  have g': "pa_sampling_rate (rt_params g') = w" "rt_min_period g' = max (w - ?d) 1" "rt_max_period g' = w + ?d"
    using assms(5,6) by (auto simp: handle_ext_state_def cb w_def [symmetric] update_sampling_def Let_def split: if_splits prod.splits)
  have d: "unat ?d \<le> n" "unat ?d + n < 2 ^ 32"
    using un assms(1,2) by (auto simp: unat_div_distrib)
  have le: "?d \<le> w" using d un by (simp add: word_le_nat_alt)
  have "w - ?d \<le> w" using le by (simp add: word_sub_le)
  moreover have "1 \<le> w" using assms(1) un by (simp add: word_le_nat_alt)
  moreover have "w \<le> w + ?d" using d un by (subst word_le_nat_alt) (simp add: unat_add_no_wrap)
  moreover have "0 < max (w - ?d) 1" by (simp add: less_max_iff_disj)
  ultimately show ?thesis using g' by (simp add: w_def [symmetric])
qed

definition demo_runtime :: runtime where
  "demo_runtime = \<lparr>rt_params = params_init, rt_runtime_tid = 1, rt_min_period = 1, rt_max_period = 2, rt_enable_external = True,
     rt_ext = Some (True, 1), rt_draws = 0, rt_cache = cache_init, rt_calls = [], rt_flushed = [], rt_stats = statistics_new\<rparr>"

definition demo_thread :: "u32 \<Rightarrow> unit shadow_thread" where
  "demo_thread tid = (new_shadow_thread params_init () tid)\<lparr>th_buf_ptr := 4096, th_buf_ptr_stored := 4096, th_mem_base := 4096\<rparr>"

theorem typed_rate_arrives_witness:
  "\<exists>td' g'. handle_ext_state (demo_thread 2) (demo_runtime\<lparr>rt_ext := Some (True, 20)\<rparr>) = (td', g')
    \<and> pa_sampling_rate (rt_params g') = of_nat 20 \<and> 0 < rt_min_period g' \<and> rt_min_period g' \<le> of_nat 20 \<and> of_nat 20 \<le> rt_max_period g'"
proof -
  obtain td' g' where h: "handle_ext_state (demo_thread 2) (demo_runtime\<lparr>rt_ext := Some (True, 20)\<rparr>) = (td', g')" by fastforce
  have "control_loop (CHR ''s'' # fmt_nat 20 @ [CHR 0x0A]) (rt_ext demo_runtime) = Waiting (Some (True, 20))"
    using control_set_rate [of 20 True 1] by (simp add: demo_runtime_def)
  then show ?thesis using typed_rate_arrives [of 20 demo_runtime "(True, 20)" "demo_thread 2" td' g'] h
    by (simp add: demo_runtime_def params_init_def)
qed

text \<open>Switching the detector off from outside reaches one thread only: the thread that notices it first is switched off
  and takes the notice away from all others. If another thread notices that it is switched on again, the first
  one stays off, and the other's count of nested exclusions wraps around.\<close>

theorem external_switch_hits_one_thread:
  assumes "rt_enable_external g" "pa_sampling_rate (rt_params g) = rate"
    and "is_enabled td1" "is_enabled td2" "th_event_cnt td1 = 0" "th_event_cnt td2 = 0"
    and "handle_ext_state td1 (g\<lparr>rt_ext := Some (False, rate)\<rparr>) = (td1', g1)"
    and "handle_ext_state td2 g1 = (td2', g2)"
    and "handle_ext_state td2' (g2\<lparr>rt_ext := Some (True, rate)\<rparr>) = (td2'', g3)"
    and "handle_ext_state td1' g3 = (td1'', g4)"
  shows "\<not> is_enabled td1' \<and> is_enabled td2' \<and> \<not> is_enabled td1'' \<and> th_event_cnt td2'' = - 1"
proof -
  have 1: "td1' = (disable td1)\<lparr>th_event_cnt := 1\<rparr>" "g1 = g\<lparr>rt_ext := Some (False, rate), rt_enable_external := False\<rparr>"
    using assms(1,2,5,7) by (auto simp: handle_ext_state_def beg_excl_region_def disable_scope_def disable_def Let_def)
  then have 2: "td2' = td2" "g2 = g1" using assms(2,8) by (auto simp: handle_ext_state_def)
  then have 3: "td2'' = td2\<lparr>th_event_cnt := - 1\<rparr>" "rt_enable_external g3" "rt_ext g3 = Some (True, rate)" "rt_params g3 = rt_params g"
    using assms(2,6,9) 1(2) by (auto simp: handle_ext_state_def end_excl_region_def enable_scope_def Let_def)
  then have "td1'' = td1'" using assms(2,10) by (auto simp: handle_ext_state_def)
  then show ?thesis using 1 2 3 assms(4) by (simp add: is_enabled_def disable_def)
qed

theorem external_switch_hits_one_thread_witness:
  "\<exists>td1' g1 td2' g2 td2'' g3 td1'' g4.
     handle_ext_state (demo_thread 2) (demo_runtime\<lparr>rt_ext := Some (False, 1)\<rparr>) = (td1', g1) \<and>
     handle_ext_state (demo_thread 3) g1 = (td2', g2) \<and>
     handle_ext_state td2' (g2\<lparr>rt_ext := Some (True, 1)\<rparr>) = (td2'', g3) \<and>
     handle_ext_state td1' g3 = (td1'', g4) \<and>
     \<not> is_enabled td1' \<and> is_enabled td2' \<and> \<not> is_enabled td1'' \<and> th_event_cnt td2'' = - 1"
proof -
  obtain td1' g1 where 1: "handle_ext_state (demo_thread 2) (demo_runtime\<lparr>rt_ext := Some (False, 1)\<rparr>) = (td1', g1)" by fastforce
  obtain td2' g2 where 2: "handle_ext_state (demo_thread 3) g1 = (td2', g2)" by fastforce
  obtain td2'' g3 where 3: "handle_ext_state td2' (g2\<lparr>rt_ext := Some (True, 1)\<rparr>) = (td2'', g3)" by fastforce
  obtain td1'' g4 where 4: "handle_ext_state td1' g3 = (td1'', g4)" by fastforce
  have "\<not> is_enabled td1' \<and> is_enabled td2' \<and> \<not> is_enabled td1'' \<and> th_event_cnt td2'' = - 1"
    by (rule external_switch_hits_one_thread [OF _ _ _ _ _ _ 1 2 3 4])
      (simp_all add: demo_runtime_def demo_thread_def params_init_def new_shadow_thread_def is_enabled_def)
  with 1 2 3 4 show ?thesis by blast
qed

end
