(* ===== verification/AlignedBuf.thy ===== *)
theory AlignedBuf
  imports Prelude "HOL-Library.Multiset"
begin

text \<open>
  The aligned thread-local buffer (\<^verbatim>\<open>drace-client/include/aligned-buffer.h\<close>) that holds the memory
  references and the shadow stack of a thread. Addresses and sizes are numbers without wrap-around; the allocator
  is the argument \<open>al\<close>, from the number of allocations made so far to the address it returns. Its calls are
  recorded, each with the context (the thread) it was made for.
\<close>

text \<open>A block: the context, its address and its size.\<close>

type_synonym block = "nat \<times> nat \<times> nat"

datatype heap_call = Alloc block | Free block

record aligned_buffer =
  ab_mem :: nat
  ab_size_in_bytes :: nat
  ab_alloc_ctx :: nat
  ab_data :: nat
  ab_calls :: "heap_call list"

definition ab_empty :: aligned_buffer where
  "ab_empty = \<lparr>ab_mem = 0, ab_size_in_bytes = 0, ab_alloc_ctx = 0, ab_data = 0, ab_calls = []\<rparr>"

text \<open>\<^verbatim>\<open>std::align\<close>: the first aligned address with room for \<open>n\<close> bytes; it is called with the capacity
  instead of the number of bytes.\<close>

definition std_align :: "nat \<Rightarrow> nat \<Rightarrow> nat \<Rightarrow> nat \<Rightarrow> nat option" where
  "std_align alignment n p space =
     (let q = (p + alignment - 1) div alignment * alignment
      in if q - p + n \<le> space then Some q else None)"

definition ab_allocate :: "nat \<Rightarrow> nat \<Rightarrow> (nat \<Rightarrow> nat) \<Rightarrow> nat \<Rightarrow> nat \<Rightarrow> aligned_buffer \<Rightarrow> aligned_buffer option" where
  "ab_allocate alignment tsize al ctx capacity b =
     (if capacity \<noteq> 0 then
        (let n = capacity * tsize + alignment; mem = al (length (ab_calls b)) in
         case std_align alignment capacity mem n of
           None \<Rightarrow> None
         | Some q \<Rightarrow> Some (b\<lparr>ab_size_in_bytes := n, ab_mem := mem, ab_data := q, ab_calls := ab_calls b @ [Alloc (ctx, mem, n)]\<rparr>))
      else Some b)"

definition ab_deallocate :: "nat option \<Rightarrow> aligned_buffer \<Rightarrow> aligned_buffer" where
  "ab_deallocate ctx b =
     (if ab_size_in_bytes b \<noteq> 0 then
        (let ctx = (case ctx of None \<Rightarrow> ab_alloc_ctx b | Some c \<Rightarrow> c)
         in b\<lparr>ab_calls := ab_calls b @ [Free (ctx, ab_mem b, ab_size_in_bytes b)], ab_size_in_bytes := 0, ab_data := 0\<rparr>)
      else b)"

definition ab_resize :: "nat \<Rightarrow> nat \<Rightarrow> (nat \<Rightarrow> nat) \<Rightarrow> nat \<Rightarrow> nat \<Rightarrow> aligned_buffer \<Rightarrow> aligned_buffer option" where
  "ab_resize alignment tsize al capacity ctx b =
     (let b = b\<lparr>ab_alloc_ctx := ctx\<rparr>;
          b = ab_deallocate (Some (ab_alloc_ctx b)) b
      in ab_allocate alignment tsize al (ab_alloc_ctx b) capacity b)"

datatype ab_op = Resize nat nat | Deallocate "nat option"

fun ab_run :: "nat \<Rightarrow> nat \<Rightarrow> (nat \<Rightarrow> nat) \<Rightarrow> ab_op list \<Rightarrow> aligned_buffer \<Rightarrow> aligned_buffer option" where
  "ab_run alignment tsize al [] b = Some b"
| "ab_run alignment tsize al (Resize capacity ctx # ops) b =
     Option.bind (ab_resize alignment tsize al capacity ctx b) (ab_run alignment tsize al ops)"
| "ab_run alignment tsize al (Deallocate ctx # ops) b = ab_run alignment tsize al ops (ab_deallocate ctx b)"

section \<open>Alignment and room\<close>

lemma std_align_bounds:
  assumes "0 < alignment"
  shows "let q = ((p :: nat) + alignment - 1) div alignment * alignment in p \<le> q \<and> q < p + alignment \<and> q mod alignment = 0"
proof -
  let ?r = "(p + alignment - 1) mod alignment"
  have "(p + alignment - 1) div alignment * alignment + ?r = p + alignment - 1" by simp
  moreover have "?r < alignment" using assms by simp
  ultimately have "p \<le> (p + alignment - 1) div alignment * alignment" "(p + alignment - 1) div alignment * alignment < p + alignment"
    using assms by linarith+
  then show ?thesis by (simp add: Let_def)
qed

lemma allocate_succeeds:
  assumes "0 < alignment" "0 < tsize"
  shows "\<exists>b'. ab_allocate alignment tsize al ctx capacity b = Some b'"
proof -
  let ?mem = "al (length (ab_calls b))"
  let ?q = "(?mem + alignment - 1) div alignment * alignment"
  have "?q < ?mem + alignment" using std_align_bounds [OF assms(1), of ?mem] by (simp add: Let_def)
  moreover have "capacity \<le> capacity * tsize" using assms(2) by simp
  ultimately have "?q - ?mem + capacity \<le> capacity * tsize + alignment" by linarith
  then show ?thesis by (simp add: ab_allocate_def std_align_def Let_def)
qed

text \<open>The buffer in use lies within its block and is aligned.\<close>

definition ab_ok :: "nat \<Rightarrow> nat \<Rightarrow> aligned_buffer \<Rightarrow> bool" where
  "ab_ok alignment tsize b = (if ab_size_in_bytes b = 0 then True else
     ab_data b mod alignment = 0 \<and> ab_mem b \<le> ab_data b \<and>
     (\<exists>capacity. ab_size_in_bytes b = capacity * tsize + alignment \<and> ab_data b + capacity * tsize \<le> ab_mem b + ab_size_in_bytes b))"

lemma allocate_ok:
  assumes "0 < alignment" "ab_allocate alignment tsize al ctx capacity b = Some b'" "ab_ok alignment tsize b"
  shows "ab_ok alignment tsize b'"
  using assms std_align_bounds [OF assms(1), of "al (length (ab_calls b))"]
  by (auto simp: ab_allocate_def std_align_def ab_ok_def Let_def split: if_splits)

section \<open>Blocks are freed once\<close>

text \<open>Blocks without their contexts.\<close>

definition allocated :: "heap_call list \<Rightarrow> (nat \<times> nat) multiset" where
  "allocated cs = mset (List.map_filter (\<lambda>c. case c of Alloc (_, a, n) \<Rightarrow> Some (a, n) | Free _ \<Rightarrow> None) cs)"

definition freed :: "heap_call list \<Rightarrow> (nat \<times> nat) multiset" where
  "freed cs = mset (List.map_filter (\<lambda>c. case c of Free (_, a, n) \<Rightarrow> Some (a, n) | Alloc _ \<Rightarrow> None) cs)"

lemma calls_simps [simp]:
  "allocated [] = {#}" "freed [] = {#}"
  "allocated (cs @ [Alloc (c, a, n)]) = add_mset (a, n) (allocated cs)" "allocated (cs @ [Free (c, a, n)]) = allocated cs"
  "freed (cs @ [Alloc (c, a, n)]) = freed cs" "freed (cs @ [Free (c, a, n)]) = add_mset (a, n) (freed cs)"
  by (simp_all add: allocated_def freed_def map_filter_def)

definition held :: "aligned_buffer \<Rightarrow> (nat \<times> nat) multiset" where
  "held b = (if ab_size_in_bytes b = 0 then {#} else {#(ab_mem b, ab_size_in_bytes b)#})"

definition ab_inv :: "nat \<Rightarrow> nat \<Rightarrow> aligned_buffer \<Rightarrow> bool" where
  "ab_inv alignment tsize b = (ab_ok alignment tsize b \<and> allocated (ab_calls b) = freed (ab_calls b) + held b)"

lemma deallocate_inv: "ab_inv alignment tsize b \<Longrightarrow> ab_inv alignment tsize (ab_deallocate ctx b) \<and> ab_size_in_bytes (ab_deallocate ctx b) = 0"
  by (auto simp: ab_inv_def ab_deallocate_def ab_ok_def held_def Let_def)

lemma resize_inv:
  assumes "0 < alignment" "0 < tsize" "ab_inv alignment tsize b"
  shows "\<exists>b'. ab_resize alignment tsize al capacity ctx b = Some b' \<and> ab_inv alignment tsize b'"
proof -
  let ?b = "ab_deallocate (Some ctx) (b\<lparr>ab_alloc_ctx := ctx\<rparr>)"
  have "ab_inv alignment tsize (b\<lparr>ab_alloc_ctx := ctx\<rparr>)" using assms(3) by (simp add: ab_inv_def ab_ok_def held_def)
  from deallocate_inv [OF this] have inv: "ab_inv alignment tsize ?b" "ab_size_in_bytes ?b = 0" by blast+
  obtain b' where b': "ab_allocate alignment tsize al ctx capacity ?b = Some b'"
    using allocate_succeeds [OF assms(1,2)] by blast
  have "ab_alloc_ctx ?b = ctx" by (simp add: ab_deallocate_def Let_def)
  then have "ab_resize alignment tsize al capacity ctx b = Some b'" using b' by (simp add: ab_resize_def Let_def)
  moreover have "ab_ok alignment tsize b'" using allocate_ok [OF assms(1) b'] inv(1) by (simp add: ab_inv_def)
  moreover have "allocated (ab_calls b') = freed (ab_calls b') + held b'"
    using b' inv assms(1) by (auto simp: ab_allocate_def ab_inv_def held_def Let_def split: if_splits option.splits)
  ultimately show ?thesis by (simp add: ab_inv_def)
qed

lemma run_inv:
  assumes "0 < alignment" "0 < tsize"
  shows "ab_inv alignment tsize b \<Longrightarrow> \<exists>b'. ab_run alignment tsize al ops b = Some b' \<and> ab_inv alignment tsize b'"
proof (induction ops arbitrary: b)
  case (Cons p ops)
  show ?case
  proof (cases p)
    case (Resize capacity ctx)
    obtain b1 where "ab_resize alignment tsize al capacity ctx b = Some b1" "ab_inv alignment tsize b1"
      using resize_inv [OF assms Cons.prems] by blast
    then show ?thesis using Cons.IH Resize by simp
  next
    case (Deallocate ctx)
    then show ?thesis using Cons.IH deallocate_inv [OF Cons.prems] by simp
  qed
qed simp



text \<open>A buffer that is resized for another thread is freed in the heap of that thread, not in its own.\<close>

lemma resize_frees_elsewhere:
  "ab_run 64 24 (\<lambda>n. 1024 + 4096 * n) [Resize 2 1, Resize 2 2] ab_empty = Some b \<Longrightarrow>
   Alloc (1, 1024, 112) \<in> set (ab_calls b) \<and> Free (2, 1024, 112) \<in> set (ab_calls b)"
  by (auto simp: ab_resize_def ab_allocate_def ab_deallocate_def ab_empty_def std_align_def)

end
