(* ===== verification/SysHandles.thy ===== *)
theory SysHandles
  imports Prelude
begin

text \<open>
  What the program holds of the operating system and of DynamoRIO, and the classes that wrap it: loaded libraries
  (\<^verbatim>\<open>drace-client/include/util/DrModuleLoader.h\<close>, like the loaders of \<^verbatim>\<open>common/util\<close>), files
  (\<^verbatim>\<open>include/DrFile.h\<close>), thread-local objects (\<^verbatim>\<open>include/DrThreadLocal.h\<close>) and shared memory
  (\<^verbatim>\<open>common/ipc/SharedMemory.h\<close>). A wrapper records its calls; a sequence of calls is legal if nothing is
  taken twice, nothing is used or given back that is not held, and nothing is given back that something held needs.
\<close>

section \<open>Calls\<close>

datatype 'r os_call = Acq 'r | Rel 'r | Use 'r

fun effect :: "'r os_call \<Rightarrow> 'r set \<Rightarrow> 'r set" where
  "effect (Acq r) H = insert r H"
| "effect (Rel r) H = H - {r}"
| "effect (Use r) H = H"

fun permitted :: "('r \<Rightarrow> 'r set) \<Rightarrow> 'r set \<Rightarrow> 'r os_call \<Rightarrow> bool" where
  "permitted needs H (Acq r) = (r \<notin> H \<and> needs r \<subseteq> H)"
| "permitted needs H (Rel r) = (r \<in> H \<and> (\<forall>s \<in> H. r \<notin> needs s))"
| "permitted needs H (Use r) = (r \<in> H)"

fun legal :: "('r \<Rightarrow> 'r set) \<Rightarrow> 'r set \<Rightarrow> 'r os_call list \<Rightarrow> bool" where
  "legal needs H [] = True"
| "legal needs H (c # cs) = (permitted needs H c \<and> legal needs (effect c H) cs)"

definition held :: "'r set \<Rightarrow> 'r os_call list \<Rightarrow> 'r set" where
  "held H cs = fold effect cs H"

abbreviation no_needs :: "'r \<Rightarrow> 'r set" where
  "no_needs \<equiv> (\<lambda>_. {})"

lemma held_append [simp]: "held H (cs @ ds) = held (held H cs) ds"
  by (simp add: held_def)

lemma held_simps [simp]: "held H [] = H" "held H (c # cs) = held (effect c H) cs"
  by (simp_all add: held_def)

lemma legal_append [simp]: "legal needs H (cs @ ds) = (legal needs H cs \<and> legal needs (held H cs) ds)"
  by (induction cs arbitrary: H) auto

section \<open>Libraries\<close>

text \<open>A handle of 0 is no library; \<open>os\<close> is what the system answers for a file name.\<close>

record library_loader =
  ll_lib :: nat
  ll_calls :: "nat os_call list"

definition loader_new :: library_loader where
  "loader_new = \<lparr>ll_lib = 0, ll_calls = []\<rparr>"

definition loader_loaded :: "library_loader \<Rightarrow> bool" where
  "loader_loaded l = (ll_lib l \<noteq> 0)"

definition loader_load :: "(string \<Rightarrow> nat) \<Rightarrow> string \<Rightarrow> library_loader \<Rightarrow> bool \<times> library_loader" where
  "loader_load os filename l =
     (if ll_lib l = 0 then
        (let h = os filename
         in (h \<noteq> 0, l\<lparr>ll_lib := h, ll_calls := ll_calls l @ (if h \<noteq> 0 then [Acq h] else [])\<rparr>))
      else (False, l))"

definition loader_unload :: "library_loader \<Rightarrow> bool \<times> library_loader" where
  "loader_unload l =
     (if ll_lib l \<noteq> 0 then (True, l\<lparr>ll_lib := 0, ll_calls := ll_calls l @ [Rel (ll_lib l)]\<rparr>) else (False, l))"

definition loader_get :: "(nat \<Rightarrow> string \<Rightarrow> nat) \<Rightarrow> string \<Rightarrow> library_loader \<Rightarrow> nat" where
  "loader_get lookup proc l = lookup (ll_lib l) proc"

datatype loader_op = Load "string \<Rightarrow> nat" string | Unload

fun loader_do :: "loader_op \<Rightarrow> library_loader \<Rightarrow> bool \<times> library_loader" where
  "loader_do (Load os filename) l = loader_load os filename l"
| "loader_do Unload l = loader_unload l"

definition loader_run :: "loader_op list \<Rightarrow> library_loader" where
  "loader_run ops = fold (\<lambda>op l. snd (loader_do op l)) ops loader_new"

definition loader_delete :: "library_loader \<Rightarrow> library_loader" where
  "loader_delete l = snd (loader_unload l)"

definition loader_inv :: "library_loader \<Rightarrow> bool" where
  "loader_inv l \<longleftrightarrow> legal no_needs {} (ll_calls l) \<and> held {} (ll_calls l) = (if loader_loaded l then {ll_lib l} else {})"

lemma loader_do_inv: "loader_inv l \<Longrightarrow> loader_inv (snd (loader_do op l))"
  by (cases op) (auto simp: loader_inv_def loader_load_def loader_unload_def loader_loaded_def Let_def)

lemma loader_run_inv: "loader_inv (loader_run ops)"
  unfolding loader_run_def by (rule fold_invariant_prefix) (simp_all add: loader_do_inv, simp add: loader_inv_def loader_new_def loader_loaded_def)

text \<open>Whatever a loader is asked to do, it holds exactly the library it says it has loaded, never loads over a loaded
  library, and its destructor gives back what is left.\<close>

theorem loader_balanced:
  "legal no_needs {} (ll_calls (loader_delete (loader_run ops)))
    \<and> held {} (ll_calls (loader_run ops)) = (if loader_loaded (loader_run ops) then {ll_lib (loader_run ops)} else {})
    \<and> held {} (ll_calls (loader_delete (loader_run ops))) = {}"
  using loader_run_inv [of ops] loader_do_inv [OF loader_run_inv, of Unload ops]
  by (auto simp: loader_inv_def loader_delete_def loader_unload_def loader_loaded_def split: if_splits)

section \<open>Files\<close>

datatype 'r file_handle = Stdout | Stderr | Opened 'r | InvalidFile

record 'r dr_file =
  df_handle :: "'r file_handle"
  df_needs_closing :: bool

text \<open>\<open>opens\<close> tells whether a file can be opened; \<open>r\<close> names it from then on.\<close>

definition dr_file_new :: "(string \<Rightarrow> bool) \<Rightarrow> 'r \<Rightarrow> string \<Rightarrow> 'r dr_file" where
  "dr_file_new opens r filename =
     (if filename = ''stdout'' then \<lparr>df_handle = Stdout, df_needs_closing = False\<rparr>
      else if filename = ''stderr'' then \<lparr>df_handle = Stderr, df_needs_closing = False\<rparr>
      else if opens filename then \<lparr>df_handle = Opened r, df_needs_closing = True\<rparr>
      else \<lparr>df_handle = InvalidFile, df_needs_closing = False\<rparr>)"

definition dr_file_good :: "'r dr_file \<Rightarrow> bool" where
  "dr_file_good f = (df_handle f \<noteq> InvalidFile)"

text \<open>What the constructor takes and the destructor gives back; flushing a handle takes nothing.\<close>

fun handle_calls :: "('r \<Rightarrow> 'r os_call) \<Rightarrow> 'r file_handle \<Rightarrow> 'r os_call list" where
  "handle_calls f (Opened r) = [f r]"
| "handle_calls f _ = []"

definition dr_file_delete :: "'r dr_file \<Rightarrow> 'r os_call list" where
  "dr_file_delete f = (if df_needs_closing f then handle_calls Rel (df_handle f) else handle_calls Use (df_handle f))"

lemma dr_file_balanced:
  assumes "f = dr_file_new opens r filename" "r \<notin> H"
  shows "legal no_needs H (handle_calls Acq (df_handle f) @ dr_file_delete f) \<and> held H (handle_calls Acq (df_handle f) @ dr_file_delete f) = H"
  using assms by (auto simp: dr_file_new_def dr_file_delete_def)

text \<open>The log file of the name \<^verbatim>\<open>null\<close> is a file of that name.\<close>

lemma null_is_a_file: "opens ''null'' \<Longrightarrow> df_handle (dr_file_new opens r ''null'') = Opened r"
  by (simp add: dr_file_new_def)

section \<open>Thread-local objects\<close>

text \<open>The objects live in memory taken from DynamoRIO, the pointer to the object of a thread in a field of the thread,
  0 if it was never set. \<open>al\<close> is the allocator, from the blocks in use to a new address; \<open>idx\<close> is the index the
  registration answers, \<open>-1\<close> if there is none left. \<open>None\<close> is a failed assertion or the use of an object that is gone.\<close>

datatype tls_res = Field | Slot nat

record 'a thread_local =
  tl_idx :: int
  tl_initialized :: bool
  tl_fields :: "nat \<Rightarrow> nat"
  tl_heap :: "nat \<rightharpoonup> 'a"
  tl_calls :: "tls_res os_call list"

definition thread_local_new :: "'a thread_local" where
  "thread_local_new = \<lparr>tl_idx = -1, tl_initialized = False, tl_fields = (\<lambda>_. 0), tl_heap = Map.empty, tl_calls = []\<rparr>"

definition ensure_initialized :: "int \<Rightarrow> 'a thread_local \<Rightarrow> 'a thread_local option" where
  "ensure_initialized idx t =
     (if \<not> tl_initialized t then
        (if idx \<noteq> -1 then Some (t\<lparr>tl_idx := idx, tl_initialized := True, tl_calls := tl_calls t @ [Acq Field]\<rparr>) else None)
      else Some t)"

definition add_slot :: "((nat \<rightharpoonup> 'a) \<Rightarrow> nat) \<Rightarrow> int \<Rightarrow> nat \<Rightarrow> 'a \<Rightarrow> 'a thread_local \<Rightarrow> 'a thread_local option" where
  "add_slot al idx ctx x t =
     Option.bind (ensure_initialized idx t) (\<lambda>t.
       (let p = al (tl_heap t) in
        if p = 0 then None
        else Some (t\<lparr>tl_heap := (tl_heap t)(p \<mapsto> x), tl_fields := (tl_fields t)(ctx := p),
               tl_calls := tl_calls t @ [Acq (Slot p), Use Field]\<rparr>)))"

definition get_slot :: "nat \<Rightarrow> 'a thread_local \<Rightarrow> 'a option" where
  "get_slot ctx t = tl_heap t (tl_fields t ctx)"

definition remove_slot :: "nat \<Rightarrow> 'a thread_local \<Rightarrow> 'a thread_local option" where
  "remove_slot ctx t =
     (case get_slot ctx t of
        None \<Rightarrow> None
      | Some _ \<Rightarrow> Some (t\<lparr>tl_heap := (tl_heap t)(tl_fields t ctx := None),
            tl_calls := tl_calls t @ [Use Field, Rel (Slot (tl_fields t ctx))]\<rparr>))"

definition free_any_data :: "'a thread_local \<Rightarrow> 'a thread_local" where
  "free_any_data t =
     (if tl_initialized t then t\<lparr>tl_idx := 0, tl_initialized := False, tl_calls := tl_calls t @ [Rel Field]\<rparr> else t)"

datatype 'a slot_op = AddSlot nat 'a | RemoveSlot nat

fun slot_do :: "((nat \<rightharpoonup> 'a) \<Rightarrow> nat) \<Rightarrow> int \<Rightarrow> 'a slot_op \<Rightarrow> 'a thread_local \<Rightarrow> 'a thread_local option" where
  "slot_do al idx (AddSlot ctx x) t = add_slot al idx ctx x t"
| "slot_do al idx (RemoveSlot ctx) t = remove_slot ctx t"

fun slot_run :: "((nat \<rightharpoonup> 'a) \<Rightarrow> nat) \<Rightarrow> int \<Rightarrow> 'a slot_op list \<Rightarrow> 'a thread_local \<Rightarrow> 'a thread_local option" where
  "slot_run al idx [] t = Some t"
| "slot_run al idx (op # ops) t = Option.bind (slot_do al idx op t) (slot_run al idx ops)"

text \<open>What it is for: a map from threads to objects. A thread starts once and ends once.\<close>

fun slot_spec :: "'a slot_op \<Rightarrow> (nat \<rightharpoonup> 'a) \<Rightarrow> (nat \<rightharpoonup> 'a)" where
  "slot_spec (AddSlot ctx x) m = m(ctx \<mapsto> x)"
| "slot_spec (RemoveSlot ctx) m = m(ctx := None)"

fun proper :: "'a slot_op list \<Rightarrow> nat set \<Rightarrow> bool" where
  "proper [] D = True"
| "proper (AddSlot ctx x # ops) D = (ctx \<notin> D \<and> proper ops (insert ctx D))"
| "proper (RemoveSlot ctx # ops) D = (ctx \<in> D \<and> proper ops (D - {ctx}))"

definition slots_inv :: "'a thread_local \<Rightarrow> (nat \<rightharpoonup> 'a) \<Rightarrow> bool" where
  "slots_inv t m \<longleftrightarrow> finite (dom m) \<and> (\<forall>c \<in> dom m. get_slot c t = m c) \<and> inj_on (tl_fields t) (dom m)
     \<and> dom (tl_heap t) = tl_fields t ` dom m \<and> (tl_initialized t \<or> dom m = {})
     \<and> legal no_needs {} (tl_calls t)
     \<and> held {} (tl_calls t) = (if tl_initialized t then {Field} else {}) \<union> Slot ` dom (tl_heap t)"

definition allocator :: "((nat \<rightharpoonup> 'a) \<Rightarrow> nat) \<Rightarrow> bool" where
  "allocator al \<longleftrightarrow> (\<forall>h. finite (dom h) \<longrightarrow> al h \<noteq> 0 \<and> al h \<notin> dom h)"

lemma add_slot_inv:
  assumes "slots_inv t m" "allocator al" "idx \<noteq> -1" "ctx \<notin> dom m"
  shows "\<exists>t'. add_slot al idx ctx x t = Some t' \<and> slots_inv t' (m(ctx \<mapsto> x))"
proof -
  obtain t1 where t1: "ensure_initialized idx t = Some t1" "tl_initialized t1" "tl_heap t1 = tl_heap t" "tl_fields t1 = tl_fields t"
      "legal no_needs {} (tl_calls t1)" "held {} (tl_calls t1) = {Field} \<union> Slot ` dom (tl_heap t)"
    using assms(1,3) by (cases "tl_initialized t") (auto simp: ensure_initialized_def slots_inv_def)
  let ?p = "al (tl_heap t)"
  have fin: "finite (dom (tl_heap t))" using assms(1) by (auto simp: slots_inv_def)
  then have p: "?p \<noteq> 0" "?p \<notin> dom (tl_heap t)" using assms(2) by (auto simp: allocator_def)
  have other: "tl_fields t c \<noteq> ?p" if "c \<in> dom m" for c
  proof
    assume "tl_fields t c = ?p"
    then have "?p \<in> tl_fields t ` dom m" using that by (metis imageI)
    then show False using p(2) assms(1) by (simp add: slots_inv_def)
  qed
  let ?t = "t1\<lparr>tl_heap := (tl_heap t1)(?p \<mapsto> x), tl_fields := (tl_fields t1)(ctx := ?p), tl_calls := tl_calls t1 @ [Acq (Slot ?p), Use Field]\<rparr>"
  have "add_slot al idx ctx x t = Some ?t" using p(1) t1 by (simp add: add_slot_def Let_def)
  moreover have "slots_inv ?t (m(ctx \<mapsto> x))"
    unfolding slots_inv_def
  proof (intro conjI ballI)
    show "get_slot c ?t = (m(ctx \<mapsto> x)) c" if "c \<in> dom (m(ctx \<mapsto> x))" for c
      using that other [of c] assms(1,4) t1 by (auto simp: get_slot_def slots_inv_def)
    show "inj_on (tl_fields ?t) (dom (m(ctx \<mapsto> x)))"
    proof -
      have "inj_on (tl_fields t) (dom m)" using assms(1) by (simp add: slots_inv_def)
      then have "inj_on ((tl_fields t)(ctx := ?p)) (dom m)" by (rule inj_on_fun_updI) (metis other image_iff)
      moreover have "((tl_fields t)(ctx := ?p)) ctx \<notin> (tl_fields t)(ctx := ?p) ` (dom m - {ctx})"
      proof (rule notI, erule imageE)
        fix c assume c: "((tl_fields t)(ctx := ?p)) ctx = ((tl_fields t)(ctx := ?p)) c" "c \<in> dom m - {ctx}"
        then have "tl_fields t c = ?p" by simp
        then show False using other [of c] c(2) by blast
      qed
      ultimately show ?thesis using t1(4) by (simp add: inj_on_insert)
    qed
    show "dom (tl_heap ?t) = tl_fields ?t ` dom (m(ctx \<mapsto> x))"
      using assms(1,4) t1 by (auto simp: slots_inv_def)
  qed (use assms(1) p t1 in \<open>auto simp: slots_inv_def\<close>)
  ultimately show ?thesis by blast
qed

lemma remove_slot_inv:
  assumes "slots_inv t m" "ctx \<in> dom m"
  shows "\<exists>t'. remove_slot ctx t = Some t' \<and> slots_inv t' (m(ctx := None))"
proof -
  let ?p = "tl_fields t ctx"
  obtain x where x: "get_slot ctx t = Some x" using assms by (auto simp: slots_inv_def)
  have other: "tl_fields t c \<noteq> ?p" if "c \<in> dom m" "c \<noteq> ctx" for c
    using that assms by (auto simp: slots_inv_def inj_on_def)
  let ?t = "t\<lparr>tl_heap := (tl_heap t)(?p := None), tl_calls := tl_calls t @ [Use Field, Rel (Slot ?p)]\<rparr>"
  have r: "remove_slot ctx t = Some ?t" by (simp add: remove_slot_def x)
  have pd: "?p \<in> dom (tl_heap t)" using x by (auto simp: get_slot_def)
  have "slots_inv ?t (m(ctx := None))"
    unfolding slots_inv_def
  proof (intro conjI ballI)
    show "get_slot c ?t = (m(ctx := None)) c" if "c \<in> dom (m(ctx := None))" for c
      using that other [of c] assms by (auto simp: get_slot_def slots_inv_def)
    show "inj_on (tl_fields ?t) (dom (m(ctx := None)))"
      using assms(1) by (auto simp: slots_inv_def inj_on_def)
    show "dom (tl_heap ?t) = tl_fields ?t ` dom (m(ctx := None))"
      using assms other by (auto simp: slots_inv_def)
    have "held {} (tl_calls t) = (if tl_initialized t then {Field} else {}) \<union> Slot ` dom (tl_heap t)"
      using assms(1) by (simp add: slots_inv_def)
    then show "held {} (tl_calls ?t) = (if tl_initialized ?t then {Field} else {}) \<union> Slot ` dom (tl_heap ?t)"
      by auto
  qed (use assms pd in \<open>auto simp: slots_inv_def\<close>)
  then show ?thesis using r by blast
qed

lemma slot_run_inv:
  assumes "slots_inv t m" "allocator al" "idx \<noteq> -1" "proper ops (dom m)"
  shows "\<exists>t'. slot_run al idx ops t = Some t' \<and> slots_inv t' (fold slot_spec ops m)"
  using assms
proof (induction ops arbitrary: t m)
  case (Cons op ops)
  show ?case
  proof (cases op)
    case (AddSlot c x)
    then obtain t' where t': "add_slot al idx c x t = Some t'" "slots_inv t' (m(c \<mapsto> x))"
      using add_slot_inv [OF Cons.prems(1-3)] Cons.prems(4) by (metis proper.simps(2))
    have "proper ops (dom (m(c \<mapsto> x)))" using Cons.prems(4) AddSlot by simp
    from Cons.IH [OF t'(2) Cons.prems(2,3) this] show ?thesis
      by (simp only: AddSlot t'(1) slot_run.simps slot_do.simps Option.bind.simps fold.simps comp_apply slot_spec.simps)
  next
    case (RemoveSlot c)
    then obtain t' where t': "remove_slot c t = Some t'" "slots_inv t' (m(c := None))"
      using remove_slot_inv [OF Cons.prems(1)] Cons.prems(4) by (metis proper.simps(3))
    have "proper ops (dom (m(c := None)))" using Cons.prems(4) RemoveSlot by simp
    from Cons.IH [OF t'(2) Cons.prems(2,3) this] show ?thesis
      by (simp only: RemoveSlot t'(1) slot_run.simps slot_do.simps Option.bind.simps fold.simps comp_apply slot_spec.simps)
  qed
qed simp

lemma slots_inv_new: "slots_inv thread_local_new Map.empty"
  by (simp add: slots_inv_def thread_local_new_def)

lemma free_any_data_twice: "free_any_data (free_any_data t) = free_any_data t"
  by (simp add: free_any_data_def)

text \<open>C23: Thread-local objects are a map from the running threads to their objects: every thread finds its own, each block is taken and
  given back once, and when the client ends exactly the objects of the threads that still run are left. The explicit destructor call of the
  client and the destructor of the global object give the field back once.\<close>

theorem thread_local_refines:
  assumes "allocator al" "idx \<noteq> -1" "proper ops {}"
  shows "\<exists>t. slot_run al idx ops thread_local_new = Some t \<and> (\<forall>c x. fold slot_spec ops Map.empty c = Some x \<longrightarrow> get_slot c t = Some x)
    \<and> legal no_needs {} (tl_calls (free_any_data (free_any_data t)))
    \<and> held {} (tl_calls (free_any_data (free_any_data t))) = Slot ` dom (tl_heap t)
    \<and> card (dom (tl_heap t)) = card (dom (fold slot_spec ops Map.empty))"
proof -
  obtain t where t: "slot_run al idx ops thread_local_new = Some t" "slots_inv t (fold slot_spec ops Map.empty)"
    using slot_run_inv [OF slots_inv_new assms(1,2)] assms(3) by auto
  let ?m = "fold slot_spec ops Map.empty"
  have "get_slot c t = Some x" if "?m c = Some x" for c x
    using t(2) that domI [of ?m c x] unfolding slots_inv_def by metis
  moreover have "card (dom (tl_heap t)) = card (dom ?m)"
    using t(2) by (simp add: slots_inv_def card_image)
  moreover have "legal no_needs {} (tl_calls (free_any_data t)) \<and> held {} (tl_calls (free_any_data t)) = Slot ` dom (tl_heap t)"
    using t(2) by (auto simp: slots_inv_def free_any_data_def)
  ultimately show ?thesis using t(1) by (auto simp: free_any_data_twice)
qed

text \<open>The field of a thread that ended is not reset: it points to memory that was given back.\<close>

lemma removed_slot_dangles:
  assumes "remove_slot ctx t = Some t'"
  shows "tl_fields t' ctx = tl_fields t ctx \<and> get_slot ctx t' = None"
  using assms by (auto simp: remove_slot_def get_slot_def split: option.splits)

section \<open>Shared memory\<close>

text \<open>A member that was not initialised has an indeterminate value. \<open>so\<close> tells which calls of the system succeed.\<close>

datatype shm_res = Mapping | View | EventIn | EventOut

datatype shm_handle = Indeterminate | NullHandle | Valid

record shm_os =
  so_mapping :: bool
  so_view :: bool
  so_event_in :: bool
  so_event_out :: bool

record shm_object =
  sh_creator :: bool
  sh_event_in :: shm_handle
  sh_event_out :: shm_handle
  sh_map_file :: shm_handle
  sh_buffer :: shm_handle
  sh_calls :: "shm_res os_call list"

definition obtain_handle :: "bool \<Rightarrow> shm_res \<Rightarrow> shm_handle \<times> shm_res os_call list" where
  "obtain_handle ok r = (if ok then (Valid, [Acq r]) else (NullHandle, []))"

text \<open>The constructor; the first component tells whether it throws.\<close>

definition shm_new :: "bool \<Rightarrow> shm_os \<Rightarrow> bool \<Rightarrow> bool \<times> shm_object" where
  "shm_new nothrow so create =
     (let s = \<lparr>sh_creator = create, sh_event_in = Indeterminate, sh_event_out = Indeterminate, sh_map_file = Indeterminate,
              sh_buffer = NullHandle, sh_calls = []\<rparr>;
          (h, cs) = obtain_handle (so_mapping so) Mapping;
          s = s\<lparr>sh_map_file := h, sh_calls := sh_calls s @ cs\<rparr>
      in if sh_map_file s = NullHandle then (\<not> nothrow, s)
         else (let (h, cs) = obtain_handle (so_view so) View; s = s\<lparr>sh_buffer := h, sh_calls := sh_calls s @ cs\<rparr>
           in if sh_buffer s = NullHandle then (\<not> nothrow, s)
              else (let (h, cs) = obtain_handle (so_event_in so) EventIn; s = s\<lparr>sh_event_in := h, sh_calls := sh_calls s @ cs\<rparr>;
                        (h, cs) = obtain_handle (so_event_out so) EventOut; s = s\<lparr>sh_event_out := h, sh_calls := sh_calls s @ cs\<rparr>
                in if sh_event_in s = NullHandle \<or> sh_event_out s = NullHandle then (\<not> nothrow, s) else (False, s))))"

definition release_handle :: "shm_handle \<Rightarrow> shm_res \<Rightarrow> shm_res os_call list option" where
  "release_handle h r = (case h of Indeterminate \<Rightarrow> None | NullHandle \<Rightarrow> Some [] | Valid \<Rightarrow> Some [Rel r])"

text \<open>The destructor. \<open>None\<close>: it gives back a handle that was never set. After an exception it does not run.\<close>

definition shm_delete :: "shm_object \<Rightarrow> shm_object option" where
  "shm_delete s =
     Option.bind (release_handle (sh_event_in s) EventIn) (\<lambda>a.
     Option.bind (release_handle (sh_event_out s) EventOut) (\<lambda>b.
     Option.bind (release_handle (sh_buffer s) View) (\<lambda>c.
     Option.bind (release_handle (sh_map_file s) Mapping) (\<lambda>d.
     Some (s\<lparr>sh_calls := sh_calls s @ a @ b @ c @ d\<rparr>)))))"

text \<open>\<^verbatim>\<open>SyncSHMDriver::valid\<close> looks at the buffer only.\<close>

definition driver_valid :: "shm_object \<Rightarrow> bool" where
  "driver_valid s = (sh_buffer s \<noteq> NullHandle)"

text \<open>C37: Without exceptions, shared memory that could be mapped is given back as a whole; memory that could not be mapped is destroyed
  with event handles that were never set. With exceptions, what was taken before the failure is never given back.\<close>

theorem shared_memory_failures:
  "(let (threw, s) = shm_new True so create
    in \<not> threw \<and> (if so_mapping so \<and> so_view so
         then (\<exists>s'. shm_delete s = Some s' \<and> legal no_needs {} (sh_calls s') \<and> held {} (sh_calls s') = {}) else shm_delete s = None))
   \<and> (let (threw, s) = shm_new False so create
      in if threw then held {} (sh_calls s) = (if so_mapping so then {Mapping} \<union> (if so_view so then {View} \<union> (if so_event_in so then {EventIn} else {})
             \<union> (if so_event_out so then {EventOut} else {}) else {}) else {})
         else (\<exists>s'. shm_delete s = Some s' \<and> legal no_needs {} (sh_calls s') \<and> held {} (sh_calls s') = {}))"
  by (cases "so_mapping so"; cases "so_view so"; cases "so_event_in so"; cases "so_event_out so")
    (auto simp: shm_new_def obtain_handle_def shm_delete_def release_handle_def)

text \<open>A driver counts as valid although its events could not be opened.\<close>

lemma valid_without_events: "so_mapping so \<Longrightarrow> so_view so \<Longrightarrow> \<not> so_event_in so \<Longrightarrow> driver_valid (snd (shm_new True so create))
    \<and> sh_event_in (snd (shm_new True so create)) = NullHandle"
  by (simp add: shm_new_def obtain_handle_def driver_valid_def)

definition demo_allocator :: "(nat \<rightharpoonup> 'a) \<Rightarrow> nat" where
  "demo_allocator h = Suc (Max (insert 0 (dom h)))"

lemma demo_allocator: "allocator demo_allocator"
proof -
  have "Suc (Max (insert 0 (dom h))) \<notin> dom h" if "finite (dom h)" for h :: "nat \<rightharpoonup> 'a"
  proof
    assume "Suc (Max (insert 0 (dom h))) \<in> dom h"
    then have "Suc (Max (insert 0 (dom h))) \<le> Max (insert 0 (dom h))" by (intro Max_ge) (use that in simp_all)
    then show False by simp
  qed
  then show ?thesis by (simp add: allocator_def demo_allocator_def)
qed

theorem thread_local_refines_witness:
  "\<exists>t. slot_run demo_allocator 5 [AddSlot 1 ''a'', AddSlot 2 ''b'', RemoveSlot 1] thread_local_new = Some t \<and> get_slot 2 t = Some ''b''
    \<and> held {} (tl_calls (free_any_data (free_any_data t))) = Slot ` dom (tl_heap t) \<and> card (dom (tl_heap t)) = 1"
proof -
  have "proper [AddSlot 1 ''a'', AddSlot 2 ''b'', RemoveSlot 1] {}" by simp
  from thread_local_refines [OF demo_allocator _ this, of 5] obtain t where
    t: "slot_run demo_allocator 5 [AddSlot 1 ''a'', AddSlot 2 ''b'', RemoveSlot 1] thread_local_new = Some t"
      "\<forall>c x. fold slot_spec [AddSlot 1 ''a'', AddSlot 2 ''b'', RemoveSlot 1] Map.empty c = Some x \<longrightarrow> get_slot c t = Some x"
      "held {} (tl_calls (free_any_data (free_any_data t))) = Slot ` dom (tl_heap t)"
      "card (dom (tl_heap t)) = card (dom (fold slot_spec [AddSlot 1 ''a'', AddSlot 2 ''b'', RemoveSlot 1] Map.empty))"
    by auto
  moreover have "dom (fold slot_spec [AddSlot 1 ''a'', AddSlot 2 ''b'', RemoveSlot 1] Map.empty) = {2 :: nat}" by auto
  ultimately show ?thesis by (intro exI [of _ t]) simp
qed

end
