(* ===== verification/ClientLife.thy ===== *)
theory ClientLife
  imports SysHandles
begin

text \<open>
  The life of the client (\<^verbatim>\<open>dr_client_main\<close>, \<^verbatim>\<open>event_exit\<close> and the thread events in
  \<^verbatim>\<open>drace-client/src/drace-client.cpp\<close>, with the constructors and destructors they run): which of its parts take
  which extensions, events, locks, blocks and files, and in which order they are given back. What the parts do in
  between is in their own theories. Objects that are shared are given back with their last owner.
\<close>

section \<open>What the client holds\<close>

datatype res = LogFile | OutFile | XmlFile
  | ExtMgr | ExtUtil | ExtWrap | ExtReg | ExtSyms
  | ExitEvent | ThreadInitEvent | ThreadExitEvent | LowMemoryEvent | ModLoadEvent | ModUnloadEvent | App2AppEvent | BbEvent
  | SymFile | SymName | ModLock | StatsLock | RegVector | CodeCache | RacesLock
  | DetectorLib | DetectorObj | TlsField | SlotMem nat | MutexBook nat | RefBuffer nat

record life_env =
  le_logfile :: string
  le_opens :: "string \<Rightarrow> bool"
  le_config_ok :: bool
  le_unix :: bool
  le_detector :: string
  le_lib_loads :: "string \<Rightarrow> bool"
  le_delayed :: bool
  le_xml_file :: string
  le_out_file :: string
  le_stats_show :: bool
  le_extctrl :: bool
  le_msr_connects :: bool

text \<open>The detector built into the client is used where its library cannot be loaded late.\<close>

definition detector_static :: "life_env \<Rightarrow> bool" where
  "detector_static env = (\<not> le_unix env \<and> le_detector env = ''tsan'')"

definition detector_lib :: "life_env \<Rightarrow> string" where
  "detector_lib env = (if le_unix env then ''lib'' else []) @ ''drace.detector.'' @ le_detector env @ (if le_unix env then ''.so'' else ''.dll'')"

text \<open>The extensions and their events need the manager, the detector needs the code of its library.\<close>

definition life_needs :: "life_env \<Rightarrow> res \<Rightarrow> res set" where
  "life_needs env r =
     (if r \<in> {ExtUtil, ExtWrap, ExtReg, ThreadInitEvent, ThreadExitEvent, LowMemoryEvent, ModLoadEvent, ModUnloadEvent, App2AppEvent, BbEvent, TlsField}
      then {ExtMgr} else if r = DetectorObj \<and> \<not> detector_static env then {DetectorLib} else {})"

datatype sink_object = LogSink | FileSink "res dr_file"

record life =
  lf_calls :: "res os_call list"
  lf_log_file :: "res dr_file"
  lf_log_owners :: nat
  lf_log_target :: "res file_handle option"
  lf_stats :: nat
  lf_syms :: nat
  lf_tracker :: bool
  lf_memory :: bool
  lf_collector :: "sink_object list option"
  lf_detector :: bool
  lf_lib :: bool
  lf_tagged :: bool
  lf_tls :: bool
  lf_live :: "nat set"

definition call :: "res os_call list \<Rightarrow> life \<Rightarrow> life" where
  "call cs s = s\<lparr>lf_calls := lf_calls s @ cs\<rparr>"

text \<open>A line of the log; \<open>None\<close> is the target 0.\<close>

definition log_line :: "life \<Rightarrow> life" where
  "log_line s = (case lf_log_target s of None \<Rightarrow> s | Some h \<Rightarrow> call (handle_calls Use h) s)"

section \<open>Start\<close>

definition open_log :: "life_env \<Rightarrow> life" where
  "open_log env =
     (let f = dr_file_new (le_opens env) LogFile (le_logfile env)
      in \<lparr>lf_calls = handle_calls Acq (df_handle f), lf_log_file = f, lf_log_owners = 1,
          lf_log_target = (if dr_file_good f then Some (df_handle f) else None), lf_stats = 0, lf_syms = 0, lf_tracker = False,
          lf_memory = False, lf_collector = None, lf_detector = False, lf_lib = False, lf_tagged = False, lf_tls = False, lf_live = {}\<rparr>)"

definition start_extensions :: "life \<Rightarrow> life" where
  "start_extensions s = call [Acq ExtMgr, Acq ExtUtil, Acq ExitEvent, Acq ThreadInitEvent, Acq ThreadExitEvent, Acq ExtWrap] s"

definition start_stats :: "life \<Rightarrow> life" where
  "start_stats s = (call [Acq LowMemoryEvent] s)\<lparr>lf_stats := 1\<rparr>"

definition start_symbols :: "life \<Rightarrow> life" where
  "start_symbols s = (call [Acq ExtSyms, Acq SymFile, Acq SymName] s)\<lparr>lf_syms := 1\<rparr>"

definition start_tracker :: "life \<Rightarrow> life" where
  "start_tracker s = (call [Acq ModLock, Acq ModLoadEvent, Acq ModUnloadEvent] s)\<lparr>lf_syms := lf_syms s + 1, lf_tracker := True\<rparr>"

definition start_memory :: "life \<Rightarrow> life" where
  "start_memory s =
     log_line ((call [Acq StatsLock, Acq ExtReg, Acq RegVector, Acq CodeCache, Acq App2AppEvent, Acq BbEvent] s)
       \<lparr>lf_stats := lf_stats s + 1, lf_memory := True\<rparr>)"

definition start_collector :: "life \<Rightarrow> life" where
  "start_collector s = (call [Acq RacesLock] s)\<lparr>lf_syms := lf_syms s + 1, lf_collector := Some []\<rparr>"

definition add_sink :: "sink_object \<Rightarrow> life \<Rightarrow> life" where
  "add_sink k s = s\<lparr>lf_collector := map_option (\<lambda>ks. ks @ [k]) (lf_collector s)\<rparr>"

text \<open>A file that cannot be opened is destroyed at the end of the block.\<close>

definition add_file_sink :: "life_env \<Rightarrow> res \<Rightarrow> string \<Rightarrow> life \<Rightarrow> life" where
  "add_file_sink env r filename s =
     (if filename \<noteq> [] then
        (let f = dr_file_new (le_opens env) r filename; s = call (handle_calls Acq (df_handle f)) s
         in if dr_file_good f then log_line (add_sink (FileSink f) s) else call (dr_file_delete f) (log_line s))
      else s)"

definition start_sinks :: "life_env \<Rightarrow> life \<Rightarrow> life" where
  "start_sinks env s =
     (let s = (if lf_log_target s \<noteq> None then (add_sink LogSink s)\<lparr>lf_log_owners := lf_log_owners s + 1\<rparr> else s)
      in if \<not> le_delayed env then add_file_sink env OutFile (le_out_file env) (add_file_sink env XmlFile (le_xml_file env) s) else s)"

definition start_detector :: "life_env \<Rightarrow> life \<Rightarrow> life option" where
  "start_detector env s =
     Option.bind
       (if detector_static env then Some s
        else if le_lib_loads env (detector_lib env) then Some ((call [Acq DetectorLib, Use DetectorLib] s)\<lparr>lf_lib := True\<rparr>) else None)
       (\<lambda>s. Some (log_line ((call [Acq DetectorObj, Use DetectorObj] s)\<lparr>lf_detector := True\<rparr>)))"

text \<open>The local pointer to the symbols ends with the function. \<open>None\<close>: the client aborts.\<close>

definition dr_client_main :: "life_env \<Rightarrow> life option" where
  "dr_client_main env =
     (let s = log_line (open_log env) in
      if \<not> le_config_ok env then None
      else (let s = start_collector (start_memory (start_tracker (start_symbols (start_stats (start_extensions (log_line s))))))
        in Option.bind (start_detector env (start_sinks env s)) (\<lambda>s.
           (let s = log_line s in
            if le_extctrl env \<and> (le_unix env \<or> \<not> le_msr_connects env) then None
            else Some (s\<lparr>lf_syms := lf_syms s - 1\<rparr>)))))"

section \<open>Threads\<close>

definition thread_begins :: "nat \<Rightarrow> life \<Rightarrow> life option" where
  "thread_begins c s =
     (let s = (if lf_tagged s then s else log_line (s\<lparr>lf_tagged := True\<rparr>));
          s = (if lf_tls s then s else (call [Acq TlsField] s)\<lparr>lf_tls := True\<rparr>);
          s = (call [Acq (SlotMem c), Acq (MutexBook c), Use TlsField] s)\<lparr>lf_live := insert c (lf_live s)\<rparr>
      in if lf_memory s then Some (log_line (call [Acq (RefBuffer c)] s)) else None)"

definition thread_ends :: "life_env \<Rightarrow> nat \<Rightarrow> life \<Rightarrow> life option" where
  "thread_ends env c s =
     (if c \<in> lf_live s \<and> lf_memory s \<and> lf_detector s then
        (let s = call [Use TlsField, Use DetectorObj, Use StatsLock] s;
             s = (if le_stats_show env then log_line s else s);
             s = call [Rel (RefBuffer c), Use TlsField, Rel (MutexBook c), Rel (SlotMem c)] s
         in Some (log_line (s\<lparr>lf_live := lf_live s - {c}\<rparr>)))
      else None)"

datatype thread_event = Begins nat | Ends nat

fun thread_events :: "life_env \<Rightarrow> thread_event list \<Rightarrow> life \<Rightarrow> life option" where
  "thread_events env [] s = Some s"
| "thread_events env (Begins c # es) s = Option.bind (thread_begins c s) (thread_events env es)"
| "thread_events env (Ends c # es) s = Option.bind (thread_ends env c s) (thread_events env es)"

section \<open>End\<close>

definition drop_log :: "life \<Rightarrow> life" where
  "drop_log s =
     (let s = s\<lparr>lf_log_owners := lf_log_owners s - 1\<rparr>
      in if lf_log_owners s = 0 then call (dr_file_delete (lf_log_file s)) s else s)"

definition drop_stats :: "life \<Rightarrow> life" where
  "drop_stats s = (let s = s\<lparr>lf_stats := lf_stats s - 1\<rparr> in if lf_stats s = 0 then call [Rel LowMemoryEvent] s else s)"

definition drop_syms :: "life \<Rightarrow> life" where
  "drop_syms s =
     (let s = s\<lparr>lf_syms := lf_syms s - 1\<rparr> in if lf_syms s = 0 then call [Rel SymFile, Rel SymName, Rel ExtSyms] s else s)"

text \<open>With delayed look-up the files are written now, each opened and closed again.\<close>

definition write_report :: "life_env \<Rightarrow> res \<Rightarrow> string \<Rightarrow> life \<Rightarrow> life" where
  "write_report env r filename s =
     (if filename \<noteq> [] then
        (let f = dr_file_new (le_opens env) r filename;
             s = call (handle_calls Acq (df_handle f)) s;
             s = (if dr_file_good f then call (handle_calls Use (df_handle f)) s else if r = OutFile then log_line s else s)
         in call (dr_file_delete f) s)
      else s)"

definition write_summary :: "life_env \<Rightarrow> life \<Rightarrow> life" where
  "write_summary env s =
     (if le_delayed env
      then write_report env XmlFile (le_xml_file env) (write_report env OutFile (le_out_file env) (call [Use RacesLock, Use ExtSyms] s))
      else s)"

definition end_tracker :: "life \<Rightarrow> life" where
  "end_tracker s =
     (if lf_tracker s then drop_syms ((call [Rel ModLoadEvent, Rel ModUnloadEvent, Rel ModLock] s)\<lparr>lf_tracker := False\<rparr>) else s)"

definition end_memory :: "life \<Rightarrow> life" where
  "end_memory s =
     (if lf_memory s
      then drop_stats ((call [Rel CodeCache, Rel RegVector, Rel App2AppEvent, Rel BbEvent, Rel ExtReg, Rel StatsLock] s)\<lparr>lf_memory := False\<rparr>)
      else s)"

fun end_sink :: "sink_object \<Rightarrow> life \<Rightarrow> life" where
  "end_sink LogSink s = drop_log s"
| "end_sink (FileSink f) s = call (handle_calls Use (df_handle f) @ dr_file_delete f) s"

definition end_collector :: "life \<Rightarrow> life" where
  "end_collector s =
     (case lf_collector s of None \<Rightarrow> s
      | Some ks \<Rightarrow> call [Rel RacesLock] (drop_syms (fold end_sink ks (s\<lparr>lf_collector := None\<rparr>))))"

definition end_detector :: "life \<Rightarrow> life" where
  "end_detector s =
     (let s = (call [Use DetectorObj, Rel DetectorObj] s)\<lparr>lf_detector := False\<rparr>
      in if lf_lib s then (call [Rel DetectorLib] s)\<lparr>lf_lib := False\<rparr> else s)"

definition end_thread_state :: "life \<Rightarrow> life" where
  "end_thread_state s = (if lf_tls s then (call [Rel TlsField] s)\<lparr>lf_tls := False\<rparr> else s)"

definition event_exit :: "life_env \<Rightarrow> life \<Rightarrow> life option" where
  "event_exit env s =
     (if lf_collector s = None \<or> \<not> lf_detector s then None
      else (let s = call [Rel ThreadInitEvent, Rel ThreadExitEvent] s;
                s = write_summary env s;
                s = (if le_stats_show env then log_line s else s);
                s = drop_stats (end_collector (end_memory (end_tracker (log_line s))));
                s = end_thread_state (end_detector (call [Rel ExtWrap] s));
                s = call [Rel ExtUtil, Rel ExtMgr] s
        in Some (drop_log (log_line s))))"

definition life_run :: "life_env \<Rightarrow> thread_event list \<Rightarrow> life option" where
  "life_run env es = Option.bind (dr_client_main env) (\<lambda>s. Option.bind (thread_events env es s) (event_exit env))"

section \<open>Bookkeeping\<close>

definition sound :: "life_env \<Rightarrow> life \<Rightarrow> bool" where
  "sound env s \<longleftrightarrow> legal (life_needs env) {} (lf_calls s)"

definition holds :: "life \<Rightarrow> res set" where
  "holds s = held {} (lf_calls s)"

fun handle_res :: "'r file_handle \<Rightarrow> 'r set" where
  "handle_res (Opened r) = {r}"
| "handle_res _ = {}"

lemma handle_held [simp]:
  "held H (handle_calls Acq h) = H \<union> handle_res h" "held H (handle_calls Use h) = H" "held H (handle_calls Rel h) = H - handle_res h"
  by (cases h; auto)+

lemma handle_use [simp]: "legal needs H (handle_calls Use h) \<longleftrightarrow> handle_res h \<subseteq> H"
  by (cases h) auto

definition file_res :: "res set" where
  "file_res = {LogFile, OutFile, XmlFile}"

lemma handle_acq: "handle_res h \<subseteq> file_res \<Longrightarrow> legal (life_needs env) H (handle_calls Acq h) \<longleftrightarrow> handle_res h \<inter> H = {}"
  by (cases h) (auto simp: life_needs_def file_res_def)

lemma needs_no_file: "r \<in> file_res \<Longrightarrow> r \<notin> life_needs env q"
  by (auto simp: life_needs_def file_res_def split: if_splits)

lemma handle_rel: "handle_res h \<subseteq> file_res \<Longrightarrow> legal (life_needs env) H (handle_calls Rel h) \<longleftrightarrow> handle_res h \<subseteq> H"
  by (cases h) (auto simp: needs_no_file)

lemma dr_file_res: "handle_res (df_handle (dr_file_new opens r name)) = (if df_needs_closing (dr_file_new opens r name) then {r} else {})"
  by (simp add: dr_file_new_def)

lemma dr_file_delete_effect:
  assumes "f = dr_file_new opens r name" "r \<in> file_res"
  shows "held H (dr_file_delete f) = H - handle_res (df_handle f)" "legal (life_needs env) H (dr_file_delete f) \<longleftrightarrow> handle_res (df_handle f) \<subseteq> H"
  using assms by (auto simp: dr_file_delete_def dr_file_res handle_rel)

lemma sound_call [simp]: "sound env (call cs s) \<longleftrightarrow> sound env s \<and> legal (life_needs env) (holds s) cs"
  by (simp add: sound_def holds_def call_def)

lemma holds_call [simp]: "holds (call cs s) = held (holds s) cs"
  by (simp add: holds_def call_def)

lemma call_frame [simp]:
  "lf_log_file (call cs s) = lf_log_file s" "lf_log_owners (call cs s) = lf_log_owners s" "lf_log_target (call cs s) = lf_log_target s"
  "lf_stats (call cs s) = lf_stats s" "lf_syms (call cs s) = lf_syms s" "lf_tracker (call cs s) = lf_tracker s" "lf_memory (call cs s) = lf_memory s"
  "lf_collector (call cs s) = lf_collector s" "lf_detector (call cs s) = lf_detector s" "lf_lib (call cs s) = lf_lib s"
  "lf_tagged (call cs s) = lf_tagged s" "lf_tls (call cs s) = lf_tls s" "lf_live (call cs s) = lf_live s"
  by (simp_all add: call_def)

lemma field_sound [simp]:
  "sound env (s\<lparr>lf_log_owners := n\<rparr>) = sound env s" "sound env (s\<lparr>lf_stats := n\<rparr>) = sound env s" "sound env (s\<lparr>lf_syms := n\<rparr>) = sound env s"
  "sound env (s\<lparr>lf_tracker := b\<rparr>) = sound env s" "sound env (s\<lparr>lf_memory := b\<rparr>) = sound env s" "sound env (s\<lparr>lf_collector := ks\<rparr>) = sound env s"
  "sound env (s\<lparr>lf_detector := b\<rparr>) = sound env s" "sound env (s\<lparr>lf_lib := b\<rparr>) = sound env s" "sound env (s\<lparr>lf_tagged := b\<rparr>) = sound env s"
  "sound env (s\<lparr>lf_tls := b\<rparr>) = sound env s" "sound env (s\<lparr>lf_live := L\<rparr>) = sound env s"
  by (simp_all add: sound_def)

lemma field_holds [simp]:
  "holds (s\<lparr>lf_log_owners := n\<rparr>) = holds s" "holds (s\<lparr>lf_stats := n\<rparr>) = holds s" "holds (s\<lparr>lf_syms := n\<rparr>) = holds s"
  "holds (s\<lparr>lf_tracker := b\<rparr>) = holds s" "holds (s\<lparr>lf_memory := b\<rparr>) = holds s" "holds (s\<lparr>lf_collector := ks\<rparr>) = holds s"
  "holds (s\<lparr>lf_detector := b\<rparr>) = holds s" "holds (s\<lparr>lf_lib := b\<rparr>) = holds s" "holds (s\<lparr>lf_tagged := b\<rparr>) = holds s"
  "holds (s\<lparr>lf_tls := b\<rparr>) = holds s" "holds (s\<lparr>lf_live := L\<rparr>) = holds s"
  by (simp_all add: holds_def)

definition log_res :: "life \<Rightarrow> res set" where
  "log_res s = (case lf_log_target s of None \<Rightarrow> {} | Some h \<Rightarrow> handle_res h)"

lemma log_line_effect [simp]:
  "sound env (log_line s) \<longleftrightarrow> sound env s \<and> log_res s \<subseteq> holds s" "holds (log_line s) = holds s"
  by (auto simp: log_line_def log_res_def split: option.splits)

lemma log_line_frame [simp]:
  "lf_log_file (log_line s) = lf_log_file s" "lf_log_owners (log_line s) = lf_log_owners s" "lf_log_target (log_line s) = lf_log_target s"
  "lf_stats (log_line s) = lf_stats s" "lf_syms (log_line s) = lf_syms s" "lf_tracker (log_line s) = lf_tracker s" "lf_memory (log_line s) = lf_memory s"
  "lf_collector (log_line s) = lf_collector s" "lf_detector (log_line s) = lf_detector s" "lf_lib (log_line s) = lf_lib s"
  "lf_tagged (log_line s) = lf_tagged s" "lf_tls (log_line s) = lf_tls s" "lf_live (log_line s) = lf_live s"
  by (simp_all add: log_line_def split: option.splits)

lemma log_res_frame [simp]:
  "log_res (call cs s) = log_res s" "log_res (log_line s) = log_res s" "log_res (s\<lparr>lf_log_owners := n\<rparr>) = log_res s" "log_res (s\<lparr>lf_stats := n\<rparr>) = log_res s"
  "log_res (s\<lparr>lf_syms := n\<rparr>) = log_res s" "log_res (s\<lparr>lf_tracker := b\<rparr>) = log_res s" "log_res (s\<lparr>lf_memory := b\<rparr>) = log_res s"
  "log_res (s\<lparr>lf_collector := ks\<rparr>) = log_res s" "log_res (s\<lparr>lf_detector := b\<rparr>) = log_res s" "log_res (s\<lparr>lf_lib := b\<rparr>) = log_res s"
  "log_res (s\<lparr>lf_tagged := b\<rparr>) = log_res s" "log_res (s\<lparr>lf_tls := b\<rparr>) = log_res s" "log_res (s\<lparr>lf_live := L\<rparr>) = log_res s"
  by (simp_all add: log_res_def)

section \<open>A running client\<close>

text \<open>The sinks and what is held between the start and the end.\<close>

definition file_sink :: "life_env \<Rightarrow> res \<Rightarrow> string \<Rightarrow> sink_object list" where
  "file_sink env r filename =
     (let f = dr_file_new (le_opens env) r filename in if filename \<noteq> [] \<and> dr_file_good f then [FileSink f] else [])"

definition log_file :: "life_env \<Rightarrow> res dr_file" where
  "log_file env = dr_file_new (le_opens env) LogFile (le_logfile env)"

definition sinks :: "life_env \<Rightarrow> sink_object list" where
  "sinks env = (if dr_file_good (log_file env) then [LogSink] else [])
     @ (if \<not> le_delayed env then file_sink env XmlFile (le_xml_file env) @ file_sink env OutFile (le_out_file env) else [])"

fun sink_res :: "sink_object \<Rightarrow> res set" where
  "sink_res LogSink = {}"
| "sink_res (FileSink f) = handle_res (df_handle f)"

definition core :: "life_env \<Rightarrow> res set" where
  "core env = {ExtMgr, ExtUtil, ExtWrap, ExtReg, ExtSyms, ExitEvent, ThreadInitEvent, ThreadExitEvent, LowMemoryEvent, ModLoadEvent,
     ModUnloadEvent, App2AppEvent, BbEvent, SymFile, SymName, ModLock, StatsLock, RegVector, CodeCache, RacesLock, DetectorObj}
     \<union> (if detector_static env then {} else {DetectorLib})"

definition files :: "life_env \<Rightarrow> res set" where
  "files env = handle_res (df_handle (log_file env)) \<union> \<Union> (sink_res ` set (sinks env))"

definition thread_res :: "nat \<Rightarrow> res set" where
  "thread_res c = {SlotMem c, MutexBook c, RefBuffer c}"

definition running :: "life_env \<Rightarrow> life \<Rightarrow> bool" where
  "running env s \<longleftrightarrow> sound env s \<and> holds s = core env \<union> files env \<union> (if lf_tls s then {TlsField} else {}) \<union> \<Union> (thread_res ` lf_live s)
     \<and> (lf_live s = {} \<or> lf_tls s) \<and> lf_log_file s = log_file env \<and> lf_log_owners s = (if dr_file_good (log_file env) then 2 else 1)
     \<and> lf_log_target s = (if dr_file_good (log_file env) then Some (df_handle (log_file env)) else None)
     \<and> lf_stats s = 2 \<and> lf_syms s = 2 \<and> lf_tracker s \<and> lf_memory s \<and> lf_collector s = Some (sinks env) \<and> lf_detector s
     \<and> lf_lib s = (\<not> detector_static env)"

lemma add_sink_frame [simp]:
  "sound env (add_sink k s) = sound env s" "holds (add_sink k s) = holds s" "log_res (add_sink k s) = log_res s"
  "lf_log_file (add_sink k s) = lf_log_file s" "lf_log_owners (add_sink k s) = lf_log_owners s" "lf_log_target (add_sink k s) = lf_log_target s"
  "lf_stats (add_sink k s) = lf_stats s" "lf_syms (add_sink k s) = lf_syms s" "lf_tracker (add_sink k s) = lf_tracker s"
  "lf_memory (add_sink k s) = lf_memory s" "lf_detector (add_sink k s) = lf_detector s" "lf_lib (add_sink k s) = lf_lib s"
  "lf_tagged (add_sink k s) = lf_tagged s" "lf_tls (add_sink k s) = lf_tls s" "lf_live (add_sink k s) = lf_live s"
  by (simp_all add: add_sink_def)

lemma add_file_sink_frame [simp]:
  "log_res (add_file_sink env r n s) = log_res s"
  "lf_log_file (add_file_sink env r n s) = lf_log_file s" "lf_log_owners (add_file_sink env r n s) = lf_log_owners s"
  "lf_log_target (add_file_sink env r n s) = lf_log_target s" "lf_stats (add_file_sink env r n s) = lf_stats s"
  "lf_syms (add_file_sink env r n s) = lf_syms s" "lf_tracker (add_file_sink env r n s) = lf_tracker s"
  "lf_memory (add_file_sink env r n s) = lf_memory s" "lf_detector (add_file_sink env r n s) = lf_detector s"
  "lf_lib (add_file_sink env r n s) = lf_lib s" "lf_tagged (add_file_sink env r n s) = lf_tagged s"
  "lf_tls (add_file_sink env r n s) = lf_tls s" "lf_live (add_file_sink env r n s) = lf_live s"
  by (simp_all add: add_file_sink_def Let_def)

lemma bad_file: "\<not> dr_file_good (dr_file_new opens r n) \<Longrightarrow> df_handle (dr_file_new opens r n) = InvalidFile \<and> \<not> df_needs_closing (dr_file_new opens r n)"
  by (auto simp: dr_file_good_def dr_file_new_def split: if_splits)

lemma dr_file_handle_res: "handle_res (df_handle (dr_file_new opens r n)) \<subseteq> {r}"
  by (simp add: dr_file_res)

lemma add_file_sink_effect:
  assumes "r \<in> file_res" "r \<notin> holds s" "log_res s \<subseteq> holds s"
  shows "sound env (add_file_sink env r n s) = sound env s"
    "holds (add_file_sink env r n s) = holds s \<union> \<Union> (sink_res ` set (file_sink env r n))"
    "lf_collector (add_file_sink env r n s) = map_option (\<lambda>ks. ks @ file_sink env r n) (lf_collector s)"
proof -
  let ?f = "dr_file_new (le_opens env) r n"
  have h: "handle_res (df_handle ?f) \<subseteq> file_res" "handle_res (df_handle ?f) \<inter> holds s = {}"
    using dr_file_handle_res [of "le_opens env" r n] assms(1,2) by auto
  have a: "legal (life_needs env) (holds s) (handle_calls Acq (df_handle ?f))" by (simp add: handle_acq h)
  show "sound env (add_file_sink env r n s) = sound env s"
    "holds (add_file_sink env r n s) = holds s \<union> \<Union> (sink_res ` set (file_sink env r n))"
    "lf_collector (add_file_sink env r n s) = map_option (\<lambda>ks. ks @ file_sink env r n) (lf_collector s)"
    using a assms(3) bad_file [of "le_opens env" r n]
    by (auto simp: add_file_sink_def file_sink_def Let_def add_sink_def dr_file_delete_def option.map_comp comp_def option.map_ident)
qed

lemma sinks_started:
  assumes "lf_collector s = Some []" "XmlFile \<notin> holds s" "OutFile \<notin> holds s" "log_res s \<subseteq> holds s"
    and "lf_log_target s = (if dr_file_good (log_file env) then Some (df_handle (log_file env)) else None)"
  shows "sound env (start_sinks env s) = sound env s" "holds (start_sinks env s) = holds s \<union> \<Union> (sink_res ` set (sinks env))"
    "lf_collector (start_sinks env s) = Some (sinks env)"
    "lf_log_owners (start_sinks env s) = (if dr_file_good (log_file env) then lf_log_owners s + 1 else lf_log_owners s)"
proof -
  let ?s = "if lf_log_target s \<noteq> None then (add_sink LogSink s)\<lparr>lf_log_owners := lf_log_owners s + 1\<rparr> else s"
  let ?x = "add_file_sink env XmlFile (le_xml_file env) ?s"
  have s: "sound env ?s = sound env s" "holds ?s = holds s" "log_res ?s = log_res s" by simp_all
  have x: "sound env ?x = sound env s" "holds ?x = holds s \<union> \<Union> (sink_res ` set (file_sink env XmlFile (le_xml_file env)))"
      "lf_collector ?x = map_option (\<lambda>ks. ks @ file_sink env XmlFile (le_xml_file env)) (lf_collector ?s)"
    using add_file_sink_effect [of XmlFile ?s env "le_xml_file env"] assms(2,4) s by (simp_all add: file_res_def)
  have out: "OutFile \<notin> holds ?x" "log_res ?x \<subseteq> holds ?x"
    using assms(3,4) dr_file_handle_res [of "le_opens env" XmlFile "le_xml_file env"] unfolding x(2) by (auto simp: file_sink_def Let_def split: if_splits)
  note o = add_file_sink_effect [OF _ out, of env "le_out_file env"]
  show "sound env (start_sinks env s) = sound env s" "holds (start_sinks env s) = holds s \<union> \<Union> (sink_res ` set (sinks env))"
    "lf_collector (start_sinks env s) = Some (sinks env)"
    "lf_log_owners (start_sinks env s) = (if dr_file_good (log_file env) then lf_log_owners s + 1 else lf_log_owners s)"
    unfolding start_sinks_def sinks_def Let_def
    using o x s assms(1,5) by (auto simp: file_res_def add_sink_def)
qed

lemma log_opened:
  "sound env (open_log env)" "holds (open_log env) = handle_res (df_handle (log_file env))" "log_res (open_log env) \<subseteq> holds (open_log env)"
  "handle_res (df_handle (log_file env)) \<subseteq> {LogFile}"
proof -
  let ?f = "dr_file_new (le_opens env) LogFile (le_logfile env)"
  have "handle_res (df_handle ?f) \<subseteq> file_res" using dr_file_handle_res [of "le_opens env" LogFile "le_logfile env"] by (auto simp: file_res_def)
  then show "sound env (open_log env)" "holds (open_log env) = handle_res (df_handle (log_file env))" "log_res (open_log env) \<subseteq> holds (open_log env)"
    "handle_res (df_handle (log_file env)) \<subseteq> {LogFile}"
    by (simp_all add: open_log_def sound_def holds_def log_file_def log_res_def handle_acq dr_file_handle_res Let_def)
qed

definition parts_started :: "life_env \<Rightarrow> life" where
  "parts_started env =
     start_collector (start_memory (start_tracker (start_symbols (start_stats (start_extensions (log_line (log_line (open_log env))))))))"

lemmas start_defs = start_extensions_def start_stats_def start_symbols_def start_tracker_def start_memory_def start_collector_def

lemma parts_started_state:
  "sound env (parts_started env)"
  "holds (parts_started env) = (core env - {DetectorLib, DetectorObj}) \<union> handle_res (df_handle (log_file env))"
proof -
  have f: "r \<notin> handle_res (df_handle (log_file env))" if "r \<noteq> LogFile" for r
    using that log_opened(4) by auto
  show "sound env (parts_started env)"
    using log_opened f by (simp add: parts_started_def start_defs life_needs_def subset_insertI2)
  show "holds (parts_started env) = (core env - {DetectorLib, DetectorObj}) \<union> handle_res (df_handle (log_file env))"
    using log_opened(2) f by (auto simp: parts_started_def start_defs core_def)
qed

lemma parts_started_fields:
  "lf_log_file (parts_started env) = log_file env" "lf_log_owners (parts_started env) = 1"
  "lf_log_target (parts_started env) = (if dr_file_good (log_file env) then Some (df_handle (log_file env)) else None)"
  "lf_stats (parts_started env) = 2" "lf_syms (parts_started env) = 3" "lf_tracker (parts_started env)" "lf_memory (parts_started env)"
  "lf_collector (parts_started env) = Some []" "\<not> lf_lib (parts_started env)" "\<not> lf_tls (parts_started env)" "lf_live (parts_started env) = {}"
  by (simp_all add: parts_started_def start_defs open_log_def log_file_def Let_def)

lemma start_sinks_frame [simp]:
  "lf_log_file (start_sinks env s) = lf_log_file s" "lf_log_target (start_sinks env s) = lf_log_target s"
  "lf_stats (start_sinks env s) = lf_stats s" "lf_syms (start_sinks env s) = lf_syms s" "lf_tracker (start_sinks env s) = lf_tracker s"
  "lf_memory (start_sinks env s) = lf_memory s" "lf_detector (start_sinks env s) = lf_detector s" "lf_lib (start_sinks env s) = lf_lib s"
  "lf_tls (start_sinks env s) = lf_tls s" "lf_live (start_sinks env s) = lf_live s" "log_res (start_sinks env s) = log_res s"
  by (simp_all add: start_sinks_def Let_def)

lemma main_running:
  assumes "dr_client_main env = Some s"
  shows "running env s \<and> \<not> lf_tls s \<and> lf_live s = {}"
proof -
  let ?p = "parts_started env" and ?q = "start_sinks env (parts_started env)"
  have f: "r \<notin> handle_res (df_handle (log_file env))" if "r \<noteq> LogFile" for r
    using that log_opened(4) by auto
  have log: "log_res ?p \<subseteq> holds ?p" unfolding parts_started_state by (auto simp: log_res_def parts_started_fields)
  have no: "XmlFile \<notin> holds ?p" "OutFile \<notin> holds ?p" "DetectorLib \<notin> holds ?p" "DetectorObj \<notin> holds ?p" using f
    by (simp_all add: parts_started_state core_def)
  note q = sinks_started [OF parts_started_fields(8) no(1,2) log parts_started_fields(3)]
  have k: "r \<notin> sink_res k" if "k \<in> set (sinks env)" "r \<noteq> XmlFile" "r \<noteq> OutFile" for r k
    using that dr_file_handle_res [of "le_opens env" XmlFile "le_xml_file env"] dr_file_handle_res [of "le_opens env" OutFile "le_out_file env"]
    by (auto simp: sinks_def file_sink_def Let_def split: if_splits)
  have nq: "DetectorLib \<notin> holds ?q" "DetectorObj \<notin> holds ?q" using no(3,4) k unfolding q(2) by auto
  have lq: "log_res ?q \<subseteq> holds ?q" using log q(2) by auto
  obtain u where u: "start_detector env ?q = Some u" "s = (log_line u)\<lparr>lf_syms := lf_syms u - 1\<rparr>"
    using assms by (auto simp: dr_client_main_def parts_started_def Let_def bind_eq_Some_conv split: if_splits)
  have su: "sound env u \<and> holds u = insert DetectorObj (holds ?q \<union> (if detector_static env then {} else {DetectorLib}))
      \<and> lf_log_file u = lf_log_file ?q \<and> lf_log_owners u = lf_log_owners ?q \<and> lf_log_target u = lf_log_target ?q \<and> lf_stats u = lf_stats ?q
      \<and> lf_syms u = lf_syms ?q \<and> lf_tracker u = lf_tracker ?q \<and> lf_memory u = lf_memory ?q \<and> lf_collector u = lf_collector ?q
      \<and> lf_detector u \<and> lf_lib u = (\<not> detector_static env \<or> lf_lib ?q) \<and> lf_tls u = lf_tls ?q \<and> lf_live u = lf_live ?q \<and> log_res u = log_res ?q"
    using u(1) nq lq q(1) parts_started_state(1)
    by (auto simp: start_detector_def life_needs_def bind_eq_Some_conv split: if_splits)
  have h: "holds u = core env \<union> files env"
    using su q(2) parts_started_state(2) by (auto simp: core_def files_def)
  have "log_res u \<subseteq> holds u" using su lq by auto
  then show ?thesis using su h q u(2) by (simp add: running_def parts_started_fields)
qed

section \<open>Threads come and go\<close>

lemma thread_res_needs [simp]: "r \<in> thread_res c \<Longrightarrow> life_needs env r = {}" "r \<in> thread_res c \<Longrightarrow> r \<notin> life_needs env q"
  by (auto simp: thread_res_def life_needs_def split: if_splits)

lemma res_not_file: "files env \<subseteq> file_res"
proof -
  have "sink_res k \<subseteq> file_res" if "k \<in> set (sinks env)" for k
    using that dr_file_handle_res [of "le_opens env" XmlFile "le_xml_file env"] dr_file_handle_res [of "le_opens env" OutFile "le_out_file env"]
    by (auto simp: sinks_def file_sink_def file_res_def Let_def split: if_splits)
  then show ?thesis using log_opened(4) [of env] by (auto simp: files_def file_res_def)
qed

lemma thread_not_held:
  assumes "running env s" "c \<notin> lf_live s"
  shows "SlotMem c \<notin> holds s" "MutexBook c \<notin> holds s" "RefBuffer c \<notin> holds s"
  using assms res_not_file [of env] by (auto simp: running_def core_def thread_res_def file_res_def)

lemma running_log: "running env s \<Longrightarrow> log_res s \<subseteq> holds s"
  by (auto simp: running_def log_res_def files_def)

lemma running_ext: "running env s \<Longrightarrow> ExtMgr \<in> holds s \<and> (TlsField \<in> holds s \<longleftrightarrow> lf_tls s) \<and> StatsLock \<in> holds s \<and> DetectorObj \<in> holds s"
  using res_not_file [of env] by (auto simp: running_def core_def thread_res_def file_res_def)

lemma tag_running:
  assumes "running env s"
  shows "running env (if lf_tagged s then s else log_line (s\<lparr>lf_tagged := True\<rparr>))"
    "lf_live (if lf_tagged s then s else log_line (s\<lparr>lf_tagged := True\<rparr>)) = lf_live s"
  using assms running_log [OF assms] by (simp_all add: running_def)

lemma tls_running:
  assumes "running env s"
  shows "running env (if lf_tls s then s else (call [Acq TlsField] s)\<lparr>lf_tls := True\<rparr>)"
proof (cases "lf_tls s")
  case False
  then have "TlsField \<notin> holds s" "ExtMgr \<in> holds s" "lf_live s = {}" using running_ext [OF assms] assms by (auto simp: running_def)
  then show ?thesis using assms False by (simp add: running_def life_needs_def)
qed (use assms in simp)

lemma thread_begins_running:
  assumes "running env s" "c \<notin> lf_live s"
  shows "\<exists>t. thread_begins c s = Some t \<and> running env t \<and> lf_live t = insert c (lf_live s)"
proof -
  define s1 where "s1 = (if lf_tagged s then s else log_line (s\<lparr>lf_tagged := True\<rparr>))"
  define s2 where "s2 = (if lf_tls s1 then s1 else (call [Acq TlsField] s1)\<lparr>lf_tls := True\<rparr>)"
  define t where "t = log_line (call [Acq (RefBuffer c)] ((call [Acq (SlotMem c), Acq (MutexBook c), Use TlsField] s2)\<lparr>lf_live := insert c (lf_live s2)\<rparr>))"
  have s2: "running env s2" "lf_live s2 = lf_live s" "lf_tls s2"
    using tls_running [OF tag_running(1) [OF assms(1)]] tag_running(2) [OF assms(1)] by (auto simp: s1_def s2_def)
  then have n: "SlotMem c \<notin> holds s2" "MutexBook c \<notin> holds s2" "RefBuffer c \<notin> holds s2" using thread_not_held assms(2) by simp_all
  have e: "TlsField \<in> holds s2" using running_ext [OF s2(1)] s2(3) by simp
  have "holds t = holds s2 \<union> thread_res c" by (auto simp: t_def thread_res_def)
  moreover have "sound env t" using n e s2(1) running_log [OF s2(1)] by (auto simp: t_def life_needs_def running_def)
  moreover have "thread_begins c s = Some t"
    unfolding thread_begins_def Let_def s1_def [symmetric] s2_def [symmetric] using s2(1) by (simp add: running_def t_def)
  moreover have "lf_live t = insert c (lf_live s)" by (simp add: t_def s2(2))
  ultimately show ?thesis using s2 by (auto simp: running_def t_def)
qed

lemma thread_ends_running:
  assumes "running env s" "c \<in> lf_live s"
  shows "\<exists>t. thread_ends env c s = Some t \<and> running env t \<and> lf_live t = lf_live s - {c}"
proof -
  define s2 where "s2 = (let s = call [Use TlsField, Use DetectorObj, Use StatsLock] s in if le_stats_show env then log_line s else s)"
  define t where "t = log_line ((call [Rel (RefBuffer c), Use TlsField, Rel (MutexBook c), Rel (SlotMem c)] s2)\<lparr>lf_live := lf_live s2 - {c}\<rparr>)"
  let ?A = "core env \<union> files env \<union> {TlsField}"
  have tls: "lf_tls s" using assms by (auto simp: running_def)
  have s2: "running env s2" "lf_tls s2" "lf_live s2 = lf_live s"
    using assms(1) tls running_ext [OF assms(1)] running_log [OF assms(1)] by (simp_all add: s2_def running_def Let_def)
  then have hs: "holds s2 = ?A \<union> \<Union> (thread_res ` lf_live s)" by (simp add: running_def)
  then have h: "SlotMem c \<in> holds s2" "MutexBook c \<in> holds s2" "RefBuffer c \<in> holds s2" "TlsField \<in> holds s2"
    using assms(2) by (auto simp: thread_res_def)
  have "?A \<inter> thread_res c = {}"
    using res_not_file [of env] by (auto simp: core_def thread_res_def file_res_def)
  moreover have "\<Union> (thread_res ` lf_live s) - thread_res c = \<Union> (thread_res ` (lf_live s - {c}))"
    by (auto simp: thread_res_def)
  ultimately have d: "holds s2 - thread_res c = ?A \<union> \<Union> (thread_res ` (lf_live s - {c}))"
    unfolding hs by blast
  have t: "holds t = holds s2 - thread_res c" by (auto simp: t_def thread_res_def)
  have "log_res s2 \<inter> thread_res c = {}"
    using s2(1) res_not_file [of env] by (auto simp: running_def log_res_def files_def thread_res_def file_res_def)
  then have "log_res s2 \<subseteq> holds s2 - {RefBuffer c} - {MutexBook c} - {SlotMem c}" using running_log [OF s2(1)] by (auto simp: thread_res_def)
  then have "sound env t" using h s2(1) by (simp add: t_def running_def life_needs_def)
  moreover have "thread_ends env c s = Some t" using assms by (simp add: thread_ends_def running_def t_def s2_def Let_def)
  moreover have "lf_live t = lf_live s - {c}" "lf_log_file t = lf_log_file s2" "lf_log_owners t = lf_log_owners s2"
    "lf_log_target t = lf_log_target s2" "lf_stats t = lf_stats s2" "lf_syms t = lf_syms s2" "lf_tracker t = lf_tracker s2" "lf_memory t = lf_memory s2"
    "lf_collector t = lf_collector s2" "lf_detector t = lf_detector s2" "lf_lib t = lf_lib s2" "lf_tls t = lf_tls s2"
    by (simp_all add: t_def s2(3))
  ultimately show ?thesis using s2(1,2) t d by (simp add: running_def)
qed

text \<open>A thread begins once before it ends; what runs after a sequence of events.\<close>

fun threads_proper :: "thread_event list \<Rightarrow> nat set \<Rightarrow> bool" where
  "threads_proper [] L = True"
| "threads_proper (Begins c # es) L = (c \<notin> L \<and> threads_proper es (insert c L))"
| "threads_proper (Ends c # es) L = (c \<in> L \<and> threads_proper es (L - {c}))"

fun threads_left :: "thread_event list \<Rightarrow> nat set \<Rightarrow> nat set" where
  "threads_left [] L = L"
| "threads_left (Begins c # es) L = threads_left es (insert c L)"
| "threads_left (Ends c # es) L = threads_left es (L - {c})"

lemma thread_events_running:
  assumes "running env s" "threads_proper es (lf_live s)"
  shows "\<exists>t. thread_events env es s = Some t \<and> running env t \<and> lf_live t = threads_left es (lf_live s)"
  using assms
proof (induction es arbitrary: s)
  case (Cons e es)
  show ?case
  proof (cases e)
    case (Begins c)
    then obtain t where "thread_begins c s = Some t" "running env t" "lf_live t = insert c (lf_live s)"
      using thread_begins_running [OF Cons.prems(1), of c] Cons.prems(2) by auto
    then show ?thesis using Cons.IH [of t] Cons.prems(2) Begins by simp
  next
    case (Ends c)
    then obtain t where "thread_ends env c s = Some t" "running env t" "lf_live t = lf_live s - {c}"
      using thread_ends_running [OF Cons.prems(1), of c] Cons.prems(2) by auto
    then show ?thesis using Cons.IH [of t] Cons.prems(2) Ends by simp
  qed
qed simp

section \<open>Everything is given back\<close>

lemma needs_only [simp]: "r \<noteq> ExtMgr \<Longrightarrow> r \<noteq> DetectorLib \<Longrightarrow> r \<notin> life_needs env q"
  by (auto simp: life_needs_def split: if_splits)

lemma write_report_effect:
  assumes "r \<in> file_res" "r \<notin> holds s" "log_res s \<subseteq> holds s"
  shows "sound env (write_report env r n s) = sound env s" "holds (write_report env r n s) = holds s" "log_res (write_report env r n s) = log_res s"
proof -
  let ?f = "dr_file_new (le_opens env) r n"
  have h: "handle_res (df_handle ?f) \<subseteq> file_res" "handle_res (df_handle ?f) \<inter> holds s = {}"
    using dr_file_handle_res [of "le_opens env" r n] assms(1,2) by auto
  have a: "legal (life_needs env) (holds s) (handle_calls Acq (df_handle ?f))" by (simp add: handle_acq h)
  have b: "holds s \<union> handle_res (df_handle ?f) - handle_res (df_handle ?f) = holds s" using h(2) by blast
  note d = dr_file_delete_effect [OF refl assms(1)]
  show "sound env (write_report env r n s) = sound env s" "holds (write_report env r n s) = holds s" "log_res (write_report env r n s) = log_res s"
    using a b assms(3) by (auto simp: write_report_def Let_def d)
qed

lemma write_report_frame [simp]:
  "lf_log_file (write_report env r n s) = lf_log_file s" "lf_log_owners (write_report env r n s) = lf_log_owners s"
  "lf_stats (write_report env r n s) = lf_stats s" "lf_syms (write_report env r n s) = lf_syms s" "lf_tracker (write_report env r n s) = lf_tracker s"
  "lf_memory (write_report env r n s) = lf_memory s" "lf_collector (write_report env r n s) = lf_collector s"
  "lf_lib (write_report env r n s) = lf_lib s" "lf_tls (write_report env r n s) = lf_tls s" "lf_live (write_report env r n s) = lf_live s"
  by (simp_all add: write_report_def Let_def)

lemma write_summary_effect:
  assumes "RacesLock \<in> holds s" "ExtSyms \<in> holds s" "log_res s \<subseteq> holds s" "le_delayed env \<longrightarrow> XmlFile \<notin> holds s \<and> OutFile \<notin> holds s"
  shows "sound env (write_summary env s) = sound env s" "holds (write_summary env s) = holds s" "log_res (write_summary env s) = log_res s"
    "lf_log_file (write_summary env s) = lf_log_file s" "lf_log_owners (write_summary env s) = lf_log_owners s"
    "lf_stats (write_summary env s) = lf_stats s" "lf_syms (write_summary env s) = lf_syms s" "lf_tracker (write_summary env s) = lf_tracker s"
    "lf_memory (write_summary env s) = lf_memory s" "lf_collector (write_summary env s) = lf_collector s"
    "lf_lib (write_summary env s) = lf_lib s" "lf_tls (write_summary env s) = lf_tls s" "lf_live (write_summary env s) = lf_live s"
proof -
  let ?c = "call [Use RacesLock, Use ExtSyms] s"
  have o: "sound env (write_report env OutFile n ?c) = sound env s" "holds (write_report env OutFile n ?c) = holds s"
    "log_res (write_report env OutFile n ?c) = log_res s" if "le_delayed env" for n
    using write_report_effect [of OutFile ?c env n] assms that by (simp_all add: file_res_def)
  have x: "sound env (write_report env XmlFile m (write_report env OutFile n ?c)) = sound env s"
    "holds (write_report env XmlFile m (write_report env OutFile n ?c)) = holds s"
    "log_res (write_report env XmlFile m (write_report env OutFile n ?c)) = log_res s" if "le_delayed env" for m n
    using write_report_effect [of XmlFile "write_report env OutFile n ?c" env m] o [OF that] assms that by (simp_all add: file_res_def)
  show "sound env (write_summary env s) = sound env s" "holds (write_summary env s) = holds s" "log_res (write_summary env s) = log_res s"
    using x by (simp_all add: write_summary_def)
qed (simp_all add: write_summary_def)

lemma drop_log_kept:
  assumes "lf_log_owners s = 2"
  shows "drop_log s = s\<lparr>lf_log_owners := 1\<rparr>"
  using assms by (simp add: drop_log_def)

text \<open>The sinks are destroyed: their files are closed, the log file stays open for its other owner.\<close>

lemma file_sink_end:
  assumes "k \<in> set (file_sink env r n)" "r \<in> file_res" "sink_res k \<subseteq> holds s"
  shows "sound env (end_sink k s) = sound env s" "holds (end_sink k s) = holds s - sink_res k"
    "lf_log_owners (end_sink k s) = lf_log_owners s" "log_res (end_sink k s) = log_res s"
proof -
  let ?f = "dr_file_new (le_opens env) r n"
  have k: "k = FileSink ?f" using assms(1) by (auto simp: file_sink_def Let_def split: if_splits)
  note d = dr_file_delete_effect [OF refl assms(2)]
  show "sound env (end_sink k s) = sound env s" "holds (end_sink k s) = holds s - sink_res k"
    "lf_log_owners (end_sink k s) = lf_log_owners s" "log_res (end_sink k s) = log_res s"
    using assms(3) by (auto simp: k d)
qed

lemma drop_log_frame [simp]:
  "lf_log_file (drop_log s) = lf_log_file s" "lf_log_target (drop_log s) = lf_log_target s" "lf_stats (drop_log s) = lf_stats s"
  "lf_syms (drop_log s) = lf_syms s" "lf_lib (drop_log s) = lf_lib s" "lf_tls (drop_log s) = lf_tls s" "lf_live (drop_log s) = lf_live s"
  by (simp_all add: drop_log_def Let_def)

lemma end_sink_frame [simp]:
  "lf_log_file (end_sink k s) = lf_log_file s" "lf_log_target (end_sink k s) = lf_log_target s" "lf_stats (end_sink k s) = lf_stats s"
  "lf_syms (end_sink k s) = lf_syms s" "lf_lib (end_sink k s) = lf_lib s" "lf_tls (end_sink k s) = lf_tls s" "lf_live (end_sink k s) = lf_live s"
  by (cases k; simp)+

lemma end_sinks_frame [simp]:
  "lf_log_file (fold end_sink ks s) = lf_log_file s" "lf_log_target (fold end_sink ks s) = lf_log_target s" "lf_stats (fold end_sink ks s) = lf_stats s"
  "lf_syms (fold end_sink ks s) = lf_syms s" "lf_lib (fold end_sink ks s) = lf_lib s" "lf_tls (fold end_sink ks s) = lf_tls s"
  "lf_live (fold end_sink ks s) = lf_live s"
  by (induction ks arbitrary: s) simp_all

lemma file_sinks_end:
  assumes "r \<in> file_res" "\<Union> (sink_res ` set (file_sink env r n)) \<subseteq> holds s"
  defines "t \<equiv> fold end_sink (file_sink env r n) s"
  shows "sound env t = sound env s" "holds t = holds s - \<Union> (sink_res ` set (file_sink env r n))"
    "lf_log_owners t = lf_log_owners s"
proof -
  show "sound env t = sound env s" "holds t = holds s - \<Union> (sink_res ` set (file_sink env r n))" "lf_log_owners t = lf_log_owners s"
  proof (atomize (full), cases "file_sink env r n")
    case (Cons k ks)
    then have "ks = []" by (auto simp: file_sink_def Let_def split: if_splits)
    then show "sound env t = sound env s \<and> holds t = holds s - \<Union> (sink_res ` set (file_sink env r n)) \<and> lf_log_owners t = lf_log_owners s"
      using file_sink_end [of k env r n s] assms(1,2) Cons by (simp add: t_def)
  qed (simp add: t_def)
qed

lemma sinks_end:
  assumes "lf_log_owners s = (if dr_file_good (log_file env) then 2 else 1)" "\<Union> (sink_res ` set (sinks env)) \<subseteq> holds s"
  defines "t \<equiv> fold end_sink (sinks env) s"
  shows "sound env t = sound env s" "holds t = holds s - \<Union> (sink_res ` set (sinks env))" "lf_log_owners t = 1"
proof -
  define s1 where "s1 = fold end_sink (if dr_file_good (log_file env) then [LogSink] else []) s"
  have s1: "sound env s1 = sound env s" "holds s1 = holds s" "lf_log_owners s1 = 1"
    using assms(1) by (auto simp: s1_def drop_log_kept)
  let ?X = "file_sink env XmlFile (le_xml_file env)" and ?O = "file_sink env OutFile (le_out_file env)"
  show "sound env t = sound env s" "holds t = holds s - \<Union> (sink_res ` set (sinks env))" "lf_log_owners t = 1"
  proof (atomize (full), cases "le_delayed env")
    case False
    have t: "t = fold end_sink ?O (fold end_sink ?X s1)" using False by (simp add: t_def s1_def sinks_def)
    have u: "\<Union> (sink_res ` set (sinks env)) = \<Union> (sink_res ` set ?X) \<union> \<Union> (sink_res ` set ?O)" using False by (auto simp: sinks_def)
    have d: "\<Union> (sink_res ` set ?X) \<subseteq> {XmlFile}" "\<Union> (sink_res ` set ?O) \<subseteq> {OutFile}"
      using dr_file_handle_res [of "le_opens env" XmlFile "le_xml_file env"] dr_file_handle_res [of "le_opens env" OutFile "le_out_file env"]
      by (simp_all add: file_sink_def Let_def)
    have x: "sound env (fold end_sink ?X s1) = sound env s" "holds (fold end_sink ?X s1) = holds s - \<Union> (sink_res ` set ?X)"
        "lf_log_owners (fold end_sink ?X s1) = 1"
      using file_sinks_end [of XmlFile env "le_xml_file env" s1] s1 assms(2) u by (simp_all add: file_res_def)
    have "\<Union> (sink_res ` set ?O) \<subseteq> holds (fold end_sink ?X s1)" unfolding x(2) using assms(2) u d by auto
    from file_sinks_end [OF _ this] x u
    show "sound env t = sound env s \<and> holds t = holds s - \<Union> (sink_res ` set (sinks env)) \<and> lf_log_owners t = 1"
      unfolding t by (auto simp: file_res_def)
  qed (use s1 in \<open>simp add: t_def s1_def sinks_def\<close>)
qed

lemma sink_res_sinks: "\<Union> (sink_res ` set (sinks env)) \<subseteq> (if le_delayed env then {} else {XmlFile, OutFile})"
  using dr_file_handle_res [of "le_opens env" XmlFile "le_xml_file env"] dr_file_handle_res [of "le_opens env" OutFile "le_out_file env"]
  by (auto simp: sinks_def file_sink_def Let_def split: if_splits)

text \<open>The first half: events, summary, module tracker and memory tracker.\<close>

definition trackers_ended :: "life_env \<Rightarrow> life \<Rightarrow> life" where
  "trackers_ended env s =
     (let s = write_summary env (call [Rel ThreadInitEvent, Rel ThreadExitEvent] s)
      in end_memory (end_tracker (log_line (if le_stats_show env then log_line s else s))))"

definition half_free :: "res set" where
  "half_free = {ThreadInitEvent, ThreadExitEvent, ModLoadEvent, ModUnloadEvent, ModLock, CodeCache, RegVector, App2AppEvent, BbEvent, ExtReg, StatsLock}"

lemma trackers_ended_state:
  assumes r: "running env s"
  defines "t \<equiv> trackers_ended env s"
  shows "sound env t" "holds t = holds s - half_free" "log_res t = log_res s" "lf_log_file t = lf_log_file s" "lf_log_owners t = lf_log_owners s"
    "lf_stats t = 1" "lf_syms t = 1" "lf_collector t = lf_collector s" "lf_lib t = lf_lib s" "lf_tls t = lf_tls s" "lf_live t = lf_live s"
proof -
  let ?c = "call [Rel ThreadInitEvent, Rel ThreadExitEvent] s"
  have core: "core env \<subseteq> holds s" using r by (auto simp: running_def)
  then have m: "ThreadInitEvent \<in> holds s" "ThreadExitEvent \<in> holds s" "RacesLock \<in> holds s" "ExtSyms \<in> holds s" "ModLoadEvent \<in> holds s"
    "ModUnloadEvent \<in> holds s" "ModLock \<in> holds s" "CodeCache \<in> holds s" "RegVector \<in> holds s" "App2AppEvent \<in> holds s" "BbEvent \<in> holds s"
    "ExtReg \<in> holds s" "StatsLock \<in> holds s"
    by (auto simp: core_def)
  have l: "log_res s \<subseteq> holds s" "log_res s \<subseteq> {LogFile}"
    using running_log [OF r] r log_opened(4) [of env] by (auto simp: running_def log_res_def)
  have files: "XmlFile \<notin> holds s \<and> OutFile \<notin> holds s" if "le_delayed env"
    using r sink_res_sinks [of env] log_opened(4) [of env] that by (auto simp: running_def core_def files_def thread_res_def)
  have lc: "log_res ?c \<subseteq> holds ?c" using l by auto
  have "sound env ?c" using r m by (simp add: running_def)
  then have w: "sound env (write_summary env ?c)" "holds (write_summary env ?c) = holds s - {ThreadInitEvent, ThreadExitEvent}"
      "log_res (write_summary env ?c) = log_res s"
    using write_summary_effect(1-3) [of ?c env] m lc files by auto
  have f: "lf_log_file (write_summary env ?c) = lf_log_file s" "lf_log_owners (write_summary env ?c) = lf_log_owners s"
    "lf_stats (write_summary env ?c) = lf_stats s" "lf_syms (write_summary env ?c) = lf_syms s" "lf_tracker (write_summary env ?c) = lf_tracker s"
    "lf_memory (write_summary env ?c) = lf_memory s" "lf_collector (write_summary env ?c) = lf_collector s"
    "lf_lib (write_summary env ?c) = lf_lib s" "lf_tls (write_summary env ?c) = lf_tls s" "lf_live (write_summary env ?c) = lf_live s"
    using write_summary_effect(4-13) [of ?c env] m lc files by auto
  have k: "lf_tracker s" "lf_memory s" "lf_syms s = 2" "lf_stats s = 2" using r by (simp_all add: running_def)
  have lw: "log_res s \<subseteq> holds s - {ThreadInitEvent, ThreadExitEvent}" using l by auto
  have h: "holds s - {ThreadInitEvent, ThreadExitEvent} - {ModLoadEvent} - {ModUnloadEvent} - {ModLock} - {CodeCache} - {RegVector} - {App2AppEvent}
      - {BbEvent} - {ExtReg} - {StatsLock} = holds s - half_free"
    by (auto simp: half_free_def)
  have t: "t = end_memory (end_tracker (log_line (if le_stats_show env then log_line (write_summary env ?c) else write_summary env ?c)))"
    by (simp add: t_def trackers_ended_def Let_def)
  show "sound env t" "log_res t = log_res s" "lf_log_file t = lf_log_file s" "lf_log_owners t = lf_log_owners s"
    "lf_stats t = 1" "lf_syms t = 1" "lf_collector t = lf_collector s" "lf_lib t = lf_lib s" "lf_tls t = lf_tls s" "lf_live t = lf_live s"
    using w f k m lw by (simp_all add: t end_memory_def end_tracker_def drop_syms_def drop_stats_def)
  show "holds t = holds s - half_free"
    using w(2) f k by (simp add: t end_memory_def end_tracker_def drop_syms_def drop_stats_def h)
qed

lemma end_sinks_log_res [simp]: "log_res (fold end_sink ks s) = log_res s"
  by (simp add: log_res_def)

text \<open>The second half: race collector, statistics, detector, thread-local state, extensions and the log.\<close>

definition rest_ended :: "life \<Rightarrow> life" where
  "rest_ended s =
     (let s = end_thread_state (end_detector (call [Rel ExtWrap] (drop_stats (end_collector s))))
      in drop_log (log_line (call [Rel ExtUtil, Rel ExtMgr] s)))"

lemma event_exit_halves:
  assumes "running env s"
  shows "event_exit env s = Some (rest_ended (trackers_ended env s))"
  using assms by (simp add: event_exit_def rest_ended_def trackers_ended_def running_def Let_def)

lemma exit_gives_back:
  assumes r: "running env s"
  shows "\<exists>t. event_exit env s = Some t \<and> sound env t \<and> holds t = insert ExitEvent (\<Union> (thread_res ` lf_live s))"
proof -
  let ?S = "\<Union> (sink_res ` set (sinks env))" and ?L = "handle_res (df_handle (log_file env))"
  define a where "a = trackers_ended env s"
  note a = trackers_ended_state [OF r, folded a_def]
  have S: "?S \<subseteq> {XmlFile, OutFile}" "?S \<subseteq> holds s" using sink_res_sinks [of env] r by (auto simp: running_def files_def split: if_splits)
  have L: "?L \<subseteq> {LogFile}" "?L \<subseteq> holds s" using log_opened(4) r by (auto simp: running_def files_def)
  have H: "holds s = core env \<union> files env \<union> (if lf_tls s then {TlsField} else {}) \<union> \<Union> (thread_res ` lf_live s)" using r by (simp add: running_def)
  define b where "b = fold end_sink (sinks env) (a\<lparr>lf_collector := None\<rparr>)"
  have "?S \<subseteq> holds (a\<lparr>lf_collector := None\<rparr>)" using S by (auto simp: a half_free_def)
  then have b: "sound env b" "holds b = holds s - half_free - ?S" "lf_log_owners b = 1"
    using sinks_end [of "a\<lparr>lf_collector := None\<rparr>" env] a r unfolding b_def by (simp_all add: running_def)
  define c where "c = call [Rel ExtWrap] (drop_stats (call [Rel RacesLock] (drop_syms b)))"
  have bs: "lf_syms b = 1" "lf_stats b = 1" by (simp_all add: b_def a)
  have m: "SymFile \<in> holds b" "SymName \<in> holds b" "ExtSyms \<in> holds b" "RacesLock \<in> holds b" "LowMemoryEvent \<in> holds b" "ExtWrap \<in> holds b"
    "DetectorObj \<in> holds b" "ExtUtil \<in> holds b" "ExtMgr \<in> holds b"
    using S(1) unfolding b(2) H by (auto simp: core_def half_free_def)
  have c: "sound env c" "holds c = holds b - {SymFile, SymName, ExtSyms, RacesLock, LowMemoryEvent, ExtWrap}"
    using b(1) m bs by (auto simp: c_def drop_syms_def drop_stats_def)
  have cf: "lf_lib c = (\<not> detector_static env)" "lf_tls c = lf_tls s" "lf_log_owners c = 1" "lf_log_file c = log_file env" "log_res c = log_res s"
    using r b(3) by (simp_all add: c_def drop_syms_def drop_stats_def b_def a running_def)
  define d where "d = end_thread_state (end_detector c)"
  have lib: "DetectorLib \<in> holds c \<longleftrightarrow> \<not> detector_static env" "TlsField \<in> holds c \<longleftrightarrow> lf_tls s" "DetectorObj \<in> holds c"
    using S(1) L(1) unfolding c(2) b(2) H files_def by (auto simp: core_def half_free_def thread_res_def)
  have d: "sound env d" "holds d = holds c - {DetectorObj, DetectorLib, TlsField}" "lf_log_owners d = 1" "lf_log_file d = log_file env" "log_res d = log_res s"
    using c(1) lib cf by (auto simp: d_def end_detector_def end_thread_state_def life_needs_def Let_def split: if_splits)
  define e where "e = call [Rel ExtUtil, Rel ExtMgr] d"
  have rest: "holds d = {ExtUtil, ExtMgr, ExitEvent} \<union> ?L \<union> \<Union> (thread_res ` lf_live s)"
    using S(1) L(1) unfolding d(2) c(2) b(2) H files_def by (auto simp: core_def half_free_def thread_res_def)
  then have e: "sound env e" "holds e = {ExitEvent} \<union> ?L \<union> \<Union> (thread_res ` lf_live s)" "lf_log_owners e = 1" "lf_log_file e = log_file env"
      "log_res e = log_res s"
    using d L(1) by (auto simp: e_def life_needs_def thread_res_def)
  have "log_res s \<subseteq> ?L" using r by (auto simp: running_def log_res_def)
  then have "log_res e \<subseteq> holds e" using e by auto
  moreover have "held (holds e) (dr_file_delete (log_file env)) = holds e - ?L"
      "legal (life_needs env) (holds e) (dr_file_delete (log_file env)) \<longleftrightarrow> ?L \<subseteq> holds e"
    using dr_file_delete_effect [OF log_file_def] by (simp_all add: file_res_def)
  ultimately have "sound env (drop_log (log_line e)) \<and> holds (drop_log (log_line e)) = holds e - ?L"
    using e by (auto simp: drop_log_def)
  moreover have "holds e - ?L = insert ExitEvent (\<Union> (thread_res ` lf_live s))"
    unfolding e(2) using L(1) by (auto simp: thread_res_def)
  moreover have "rest_ended a = drop_log (log_line e)"
    using r by (simp add: rest_ended_def e_def d_def c_def b_def end_collector_def a running_def Let_def)
  ultimately show ?thesis using event_exit_halves [OF r] by (simp add: a_def)
qed


definition demo_life :: life_env where
  "demo_life = \<lparr>le_logfile = ''drace.log'', le_opens = (\<lambda>f. f \<noteq> ''forbidden.xml''), le_config_ok = True, le_unix = True, le_detector = ''fasttrack'',
     le_lib_loads = (\<lambda>l. l = ''libdrace.detector.fasttrack.so''), le_delayed = False, le_xml_file = ''report.xml'', le_out_file = [],
     le_stats_show = True, le_extctrl = False, le_msr_connects = False\<rparr>"


end
