(* ===== verification/ClientCli.thy ===== *)
theory ClientCli
  imports MemTracker TextFormat
begin

text \<open>
  The command line of the client (\<^verbatim>\<open>drace-client/include/RuntimeConfig.h\<close>, \<^verbatim>\<open>src/RuntimeConfig.cpp\<close>) and what it
  prints about itself: its configuration, the statistics (\<^verbatim>\<open>include/statistics.h\<close>), and the detectors that
  only answer or print (\<^verbatim>\<open>detectors/dummy\<close>, \<^verbatim>\<open>detectors/printer\<close>). The options are declared to a
  library that parses the arguments; the declarations are modelled, the parser is not. How the C library
  prints a pointer and a stream prints a share are arguments.
\<close>

section \<open>The configuration\<close>

text \<open>The members the memory tracker reads are those of \<^verbatim>\<open>params\<close>.\<close>

record client_config = params +
  cc_delayed_sym_lookup :: bool
  cc_annotations :: bool
  cc_suppression_level :: u32
  cc_break_on_race :: bool
  cc_stats_show :: bool
  cc_stack_size :: u32
  cc_config_file :: string
  cc_out_file :: string
  cc_xml_file :: string
  cc_logfile :: string
  cc_detector :: string
  cc_filter_file :: string
  cc_detector_options :: "string list"

definition client_config_init :: client_config where
  "client_config_init = \<lparr>pa_sampling_rate = 1, pa_instr_rate = 1, pa_lossy = False, pa_lossy_flush = False,
     pa_excl_traces = False, pa_excl_stack = False, pa_exclude_master = False, pa_extctrl = False,
     cc_delayed_sym_lookup = False, cc_annotations = True, cc_suppression_level = 1, cc_break_on_race = False, cc_stats_show = False,
     cc_stack_size = 31, cc_config_file = ''drace.ini'', cc_out_file = [], cc_xml_file = [], cc_logfile = ''stderr'', cc_detector = ''tsan'',
     cc_filter_file = ''race_suppressions.txt'', cc_detector_options = []\<rparr>"

section \<open>The options\<close>

text \<open>An option sets a switch, takes a text, a text and more texts, or a number, or is only an order or known.\<close>

datatype option_kind = Switch "client_config \<Rightarrow> client_config" | Text "string \<Rightarrow> client_config \<Rightarrow> client_config"
  | Texts "string \<Rightarrow> string list \<Rightarrow> client_config \<Rightarrow> client_config" | Number "u32 \<Rightarrow> client_config \<Rightarrow> client_config" | Order | Known

type_synonym cli = "(string list \<times> option_kind) list"

definition drace_cli :: cli where
  "drace_cli =
     [([''-c'', ''--config''], Text (\<lambda>v c. c\<lparr>cc_config_file := v\<rparr>)),
      ([''-d'', ''--detector''], Texts (\<lambda>v vs c. c\<lparr>cc_detector := v, cc_detector_options := vs\<rparr>)),
      ([''-s'', ''--sample-rate''], Number (\<lambda>n c. c\<lparr>pa_sampling_rate := n\<rparr>)),
      ([''-i'', ''--instr-rate''], Number (\<lambda>n c. c\<lparr>pa_instr_rate := n\<rparr>)),
      ([''--lossy''], Switch (\<lambda>c. c\<lparr>pa_lossy := True\<rparr>)),
      ([''--lossy-flush''], Switch (\<lambda>c. c\<lparr>pa_lossy_flush := True\<rparr>)),
      ([''--excl-traces''], Switch (\<lambda>c. c\<lparr>pa_excl_traces := True\<rparr>)),
      ([''--excl-stack''], Switch (\<lambda>c. c\<lparr>pa_excl_stack := True\<rparr>)),
      ([''--excl-master''], Switch (\<lambda>c. c\<lparr>pa_exclude_master := True\<rparr>)),
      ([''--stacksz''], Number (\<lambda>n c. c\<lparr>cc_stack_size := n\<rparr>)),
      ([''--no-annotations''], Switch (\<lambda>c. c\<lparr>cc_annotations := False\<rparr>)),
      ([''--delay-syms''], Switch (\<lambda>c. c\<lparr>cc_delayed_sym_lookup := True\<rparr>)),
      ([''--suplevel''], Number (\<lambda>n c. c\<lparr>cc_suppression_level := n\<rparr>)),
      ([''--sup-races''], Text (\<lambda>v c. c\<lparr>cc_filter_file := v\<rparr>)),
      ([''--xml-file'', ''-x''], Text (\<lambda>v c. c\<lparr>cc_xml_file := v\<rparr>)),
      ([''--out-file'', ''-o''], Text (\<lambda>v c. c\<lparr>cc_out_file := v\<rparr>)),
      ([''--logfile'', ''-l''], Text (\<lambda>v c. c\<lparr>cc_logfile := v\<rparr>)),
      ([''--extctrl''], Switch (\<lambda>c. c\<lparr>pa_extctrl := True\<rparr>)),
      ([''--brkonrace''], Switch (\<lambda>c. c\<lparr>cc_break_on_race := True\<rparr>)),
      ([''--stats''], Switch (\<lambda>c. c\<lparr>cc_stats_show := True\<rparr>)),
      ([''--version''], Order),
      ([''-h'', ''--usage''], Order)]"

definition detector_cli :: cli where
  "detector_cli = [([''--heap-only''], Known)]"

fun option_for :: "cli \<Rightarrow> string \<Rightarrow> option_kind option" where
  "option_for [] flag = None"
| "option_for ((flags, k) # os) flag = (if flag \<in> set flags then Some k else option_for os flag)"

fun takes_value :: "option_kind \<Rightarrow> bool" where
  "takes_value (Text f) = True"
| "takes_value (Texts f) = True"
| "takes_value (Number f) = True"
| "takes_value _ = False"

text \<open>No two options have a flag in common, also not with those of the detectors.\<close>

lemma flags_distinct: "distinct (concat (map fst (drace_cli @ detector_cli)))"
  by (simp add: drace_cli_def detector_cli_def)

text \<open>The default size of the stack is outside the range the help text gives.\<close>

lemma default_stack_size: "unat (cc_stack_size client_config_init) = 31 \<and> (31 :: nat) > max_stack_size - 1"
  by (simp add: client_config_init_def max_stack_size_def)

section \<open>Output\<close>

definition nl :: string where
  "nl = [CHR 0x0A]"

definition tabs :: "nat \<Rightarrow> string" where
  "tabs n = replicate n (CHR 0x09)"

definition config_row :: "string \<Rightarrow> nat \<Rightarrow> string \<Rightarrow> string" where
  "config_row label n v = ''< '' @ label @ tabs n @ v @ nl"

definition on_off :: "bool \<Rightarrow> string" where
  "on_off b = (if b then ''ON'' else ''OFF'')"

definition print_config :: "bool \<Rightarrow> client_config \<Rightarrow> string" where
  "print_config private_caches c =
     ''< Runtime Configuration:'' @ nl @
     config_row ''Race Detector:'' 1 (cc_detector c) @
     config_row ''Sampling Rate:'' 1 (fmt_int (sint (pa_sampling_rate c))) @
     config_row ''Instr. Rate:'' 2 (fmt_int (sint (pa_instr_rate c))) @
     config_row ''Lossy:'' 2 (on_off (pa_lossy c)) @
     config_row ''Lossy-Flush:'' 2 (on_off (pa_lossy_flush c)) @
     config_row ''Exclude Traces:'' 1 (on_off (pa_excl_traces c)) @
     config_row ''Exclude Stack:'' 1 (on_off (pa_excl_stack c)) @
     config_row ''Exclude Master:'' 1 (on_off (pa_exclude_master c)) @
     config_row ''Annotation Sup.:'' 1 (on_off (cc_annotations c)) @
     config_row ''Delayed Sym Lookup:'' 1 (on_off (cc_delayed_sym_lookup c)) @
     config_row ''Config File:'' 2 (cc_config_file c) @
     config_row ''Output File:'' 2 (if cc_out_file c \<noteq> [] then cc_out_file c else ''OFF'') @
     config_row ''XML File:'' 2 (if cc_xml_file c \<noteq> [] then cc_xml_file c else ''OFF'') @
     config_row ''Stack-Size:'' 2 (fmt_int (sint (cc_stack_size c))) @
     config_row ''External Ctrl:'' 1 (on_off (pa_extctrl c)) @
     config_row ''Log Target:'' 2 (cc_logfile c) @
     config_row ''Private Caches:'' 1 (on_off private_caches)"

definition stat_row :: "string \<Rightarrow> nat \<Rightarrow> string \<Rightarrow> string" where
  "stat_row label n v = label @ tabs n @ v @ nl"

definition top_page :: "u64 \<times> nat \<Rightarrow> string" where
  "top_page p = ''('' @ to_base 16 (unat (fst p)) @ '','' @ fmt_nat (snd p) @ ''),''"

definition set_width :: "nat \<Rightarrow> string \<Rightarrow> string" where
  "set_width w s = replicate (w - length s) (CHR '' '') @ s"

definition pc_share :: "u64 lcm \<Rightarrow> nat \<Rightarrow> rat" where
  "pc_share m n = of_nat n / of_nat (lc_total m) * (100 + lc_error m)"

definition top_pc :: "(rat \<Rightarrow> string) \<Rightarrow> u64 lcm \<Rightarrow> u64 \<times> nat \<Rightarrow> string" where
  "top_pc fmt_share m p =
     ''('' @ set_width 8 (to_base 16 (unat (fst p))) @ '','' @ set_width 2 (fmt_share (pc_share m (snd p))) @ ''%),''"

definition print_summary :: "(rat \<Rightarrow> string) \<Rightarrow> statistics \<Rightarrow> string" where
  "print_summary fmt_share s =
     stat_row ''mutex_ops:'' 2 (fmt_nat (unat (sc_mutex_ops s))) @
     stat_row ''all-flushes:'' 2 (fmt_nat (unat (sc_flush_events s))) @
     stat_row ''flushes:'' 2 (fmt_nat (unat (sc_flushes s))) @
     (if sc_flushes s > 0 then stat_row ''avg. buffer size:'' 1 (fmt_nat (unat (sc_total_refs s div ucast (sc_flushes s)))) else []) @
     stat_row ''e-flushes:'' 2 (fmt_nat (unat (sc_external_flushes s))) @
     stat_row ''analyzed-refs:'' 2 (fmt_nat (unat (sc_proc_refs s))) @
     stat_row ''total-refs:'' 2 (fmt_nat (unat (sc_total_refs s))) @
     stat_row ''module loads:'' 2 (fmt_nat (unat (sc_module_loads s))) @
     stat_row ''mod. load time(total):'' 1 (fmt_int (sint (sc_module_load_duration s)) @ ''ms'') @
     ''top pages:'' @ tabs 2 @ concat (map top_page (sc_freq_hits s)) @ nl @
     ''top pcs:'' @ tabs 2 @ concat (map (top_pc fmt_share (sc_pc_hits s)) (sc_freq_pc_hist s)) @ nl @
     replicate 20 (CHR ''-'') @ nl"

text \<open>The text is then taken as a format: every frequent pc adds a conversion that has no argument.\<close>

lemma summary_is_a_format: "sc_freq_pc_hist s \<noteq> [] \<Longrightarrow> CHR ''%'' \<in> set (print_summary fmt_share s)"
  by (cases "sc_freq_pc_hist s") (auto simp: print_summary_def top_pc_def)

section \<open>Detectors that do not detect\<close>

definition dummy_fork :: "u32 \<Rightarrow> addr" where
  "dummy_fork child = 42 + ucast child"

definition printer_fork :: "u32 \<Rightarrow> addr" where
  "printer_fork child = 0xFF0000 + ucast child"

definition column :: "string \<Rightarrow> string \<Rightarrow> string" where
  "column p name = p @ '' | '' @ name @ replicate (15 - length name) (CHR '' '') @ ''|''"

definition flag_digit :: "bool \<Rightarrow> string" where
  "flag_digit b = (if b then ''1'' else ''0'')"

text \<open>One line for each call; \<open>ptr\<close> prints a pointer. A size is printed in decimal, a thread id as a signed number.\<close>

fun printer_line :: "(addr \<Rightarrow> string) \<Rightarrow> detector_call \<Rightarrow> string" where
  "printer_line ptr (DFuncEnter tls pc) = column (ptr tls) ''func_enter'' @ '' pc='' @ ptr pc @ nl"
| "printer_line ptr (DFuncExit tls) = column (ptr tls) ''func_exit'' @ nl"
| "printer_line ptr (DAcquire tls mutex recursive write) =
     column (ptr tls) ''acquire'' @ '' m='' @ ptr mutex @ '' rec='' @ fmt_int recursive @ '' w='' @ flag_digit write @ nl"
| "printer_line ptr (DRelease tls mutex write) = column (ptr tls) ''release'' @ '' m='' @ ptr mutex @ '', w='' @ flag_digit write @ nl"
| "printer_line ptr (DHappensBefore tls identifier) = column (ptr tls) ''happens_before'' @ '' '' @ ptr identifier @ nl"
| "printer_line ptr (DHappensAfter tls identifier) = column (ptr tls) ''happens_after'' @ '' '' @ ptr identifier @ nl"
| "printer_line ptr (DRead tls pc addr n) =
     column (ptr tls) ''read'' @ '' pc='' @ ptr pc @ '', addr='' @ ptr addr @ '', s='' @ fmt_nat (unat n) @ nl"
| "printer_line ptr (DWrite tls pc addr n) =
     column (ptr tls) ''write'' @ '' pc='' @ ptr pc @ '', addr='' @ ptr addr @ '', s='' @ fmt_nat (unat n) @ nl"
| "printer_line ptr (DAllocate tls pc addr n) =
     column (ptr tls) ''allocate'' @ '' pc='' @ ptr pc @ '', addr='' @ ptr addr @ '', s='' @ fmt_nat (unat n) @ nl"
| "printer_line ptr (DDeallocate tls addr) = column (ptr tls) ''deallocate'' @ '' addr='' @ ptr addr @ nl"
| "printer_line ptr (DFork parent child tls) =
     column (ptr tls) ''fork'' @ '' par='' @ fmt_int (sint parent) @ '', child='' @ fmt_int (sint child) @ nl"
| "printer_line ptr (DJoin parent child) =
     column (ptr 0) ''join'' @ '' par='' @ fmt_int (sint parent) @ '', child='' @ fmt_int (sint child) @ nl"
| "printer_line ptr (DDetach tls tid) = column (ptr tls) ''detach'' @ '' tid='' @ fmt_int (sint tid) @ nl"
| "printer_line ptr (DFinish tls tid) = column (ptr tls) ''finish'' @ '' tid='' @ fmt_int (sint tid) @ nl"

text \<open>What the client relies on in a detector that hands out handles: none is null, so a thread is forked only once, and
  no two threads share one.\<close>

locale detector_handles =
  fixes handle :: "u32 \<Rightarrow> addr"
  assumes not_null: "handle tid \<noteq> 0"
    and distinct_handles: "handle s = handle t \<Longrightarrow> s = t"
begin

lemma initialised_once:
  assumes "me_handle me = handle"
  shows "th_detector_data (fst (delayed_initialize_thread me td g)) \<noteq> 0"
  using not_null assms by (simp add: delayed_initialize_thread_def clear_buffer_def Let_def)

end

lemma offset_handles:
  assumes "a < 2 ^ 32" "a \<noteq> 0"
  shows "(of_nat a :: addr) + ucast (t :: u32) \<noteq> 0" "(of_nat a :: addr) + ucast (s :: u32) = of_nat a + ucast t \<Longrightarrow> s = t"
proof -
  have a: "unat (of_nat a :: addr) = a" using assms(1) by (simp add: unat_of_nat)
  have t: "unat (ucast t :: addr) = unat t" "unat t < 2 ^ 32" using unat_bound [of t] by (simp_all add: unat_ucast_mod)
  have "unat ((of_nat a :: addr) + ucast t) = a + unat t"
    using assms(1) t by (subst unat_add_no_wrap) (simp_all add: a)
  then show "(of_nat a :: addr) + ucast t \<noteq> 0" using assms(2) by (metis add_is_0 unat_0)
  show "(of_nat a :: addr) + ucast s = of_nat a + ucast t \<Longrightarrow> s = t"
  proof -
    assume "(of_nat a :: addr) + ucast s = of_nat a + ucast t"
    then have "(ucast s :: addr) = ucast t" by simp
    then have "unat (ucast s :: addr) = unat (ucast t :: addr)" by simp
    then have "unat s = unat t" using unat_bound [of s] unat_bound [of t] by (simp add: unat_ucast_mod)
    then show ?thesis by (simp add: word_unat_eq_iff)
  qed
qed

interpretation dummy: detector_handles dummy_fork
proof unfold_locales
  show "dummy_fork tid \<noteq> 0" for tid
    using offset_handles(1) [of 42 tid] by (simp add: dummy_fork_def)
  show "dummy_fork s = dummy_fork t \<Longrightarrow> s = t" for s t
    using offset_handles(2) [of 42 s t] by (simp add: dummy_fork_def)
qed

interpretation printer: detector_handles printer_fork
proof unfold_locales
  show "printer_fork tid \<noteq> 0" for tid
    using offset_handles(1) [of 16711680 tid] by (simp add: printer_fork_def)
  show "printer_fork s = printer_fork t \<Longrightarrow> s = t" for s t
    using offset_handles(2) [of 16711680 s t] by (simp add: printer_fork_def)
qed

end
