(* ===== verification/GuiCommand.thy ===== *)
theory GuiCommand
  imports Prelude
begin

text \<open>
  The core of the graphical front end (\<^verbatim>\<open>tools/DRaceGUI\<close>): the command line put together from the fields of the
  window (\<^verbatim>\<open>Command_Handler.cpp\<close>), the report command (\<^verbatim>\<open>Report_Handler.cpp\<close>), and saving and loading the
  configuration (\<^verbatim>\<open>Data_Handler.cpp\<close>, \<^verbatim>\<open>Load_Save.cpp\<close>). Whether a program answers as expected and the
  binary format of the JSON library are arguments; windows and processes are left out.
\<close>

section \<open>The command line\<close>

datatype command_type = DYNAMORIO | DR_DEBUG | DR_ARGS | DRACE | DETECTOR | DETECTOR_ARGS | FLAGS | REPORT_FLAG | EXT_CTRL
  | EXCL_STACK | CONFIGURATION | EXECUTABLE | EXECUTABLE_ARGS | REPORT_CMD | REPORT_OPEN_CMD

definition command_types :: "command_type list" where
  "command_types = [DYNAMORIO, DR_DEBUG, DR_ARGS, DRACE, DETECTOR, DETECTOR_ARGS, FLAGS, REPORT_FLAG, EXT_CTRL,
     EXCL_STACK, CONFIGURATION, EXECUTABLE, EXECUTABLE_ARGS, REPORT_CMD, REPORT_OPEN_CMD]"

record command_handler =
  ch_entire :: string
  ch_msr_path :: string
  ch_command :: "command_type \<Rightarrow> string"

definition white :: "char \<Rightarrow> bool" where
  "white c = (c = CHR '' '' \<or> (9 \<le> (of_char c :: nat) \<and> (of_char c :: nat) \<le> 13))"

definition has_space :: "string \<Rightarrow> bool" where
  "has_space s = list_ex white s"

definition quote :: string where
  "quote = [CHR 0x27]"

definition quoted :: "string \<Rightarrow> string" where
  "quoted s = (if has_space s then quote @ s @ quote else s)"

definition make_command :: "command_handler \<Rightarrow> command_handler" where
  "make_command c =
     (let prefix = (if ch_command c DYNAMORIO \<noteq> [] \<and> has_space (ch_command c DYNAMORIO) then ''.'' else []);
          parts = concat (map (\<lambda>t. if ch_command c t \<noteq> [] then ch_command c t @ '' '' else []) command_types)
      in c\<lparr>ch_entire := prefix @ parts\<rparr>)"

definition update_command :: "string \<Rightarrow> command_type \<Rightarrow> command_handler \<Rightarrow> command_handler" where
  "update_command arg position c =
     (let text = (if (position = REPORT_CMD \<or> position = REPORT_OPEN_CMD) \<and> arg \<noteq> [] then ''; '' @ arg else arg)
      in make_command (c\<lparr>ch_command := (ch_command c)(position := text)\<rparr>))"

definition make_entry :: "string \<Rightarrow> command_type \<Rightarrow> string \<Rightarrow> bool \<Rightarrow> command_handler \<Rightarrow> command_handler" where
  "make_entry path position prefix no_quotes c =
     (if path \<noteq> [] then
        (let temp = (if has_space path \<and> \<not> no_quotes then quote @ path @ quote else path);
             temp = (if prefix \<noteq> [] then prefix @ '' '' @ temp else temp)
         in update_command temp position c)
      else update_command [] position c)"

definition command_handler_new :: "string \<Rightarrow> command_handler" where
  "command_handler_new default_detector =
     make_entry default_detector DETECTOR ''-d'' False \<lparr>ch_entire = [], ch_msr_path = [], ch_command = (\<lambda>_. [])\<rparr>"

definition make_flag_entry :: "string \<Rightarrow> command_handler \<Rightarrow> command_handler" where
  "make_flag_entry arg c = (if arg \<noteq> [] then update_command arg FLAGS c else update_command [] FLAGS c)"

definition make_text_entry :: "string \<Rightarrow> command_type \<Rightarrow> command_handler \<Rightarrow> command_handler" where
  "make_text_entry arg position c = update_command arg position c"

definition report_open_text :: string where
  "report_open_text = ''$report ; If ($report -contains '' @ quote @ ''Report creation successful'' @ quote @
     '') {$folder = $report -match '' @ quote @ ''drace_report_*'' @ quote @ '' ; Invoke-Item $folder/index.html}''"

definition make_report_auto_open_entry :: "int \<Rightarrow> command_handler \<Rightarrow> command_handler" where
  "make_report_auto_open_entry arg c = (if arg \<noteq> 0 then update_command report_open_text REPORT_OPEN_CMD c else update_command [] REPORT_OPEN_CMD c)"

definition make_extctrl :: "bool \<Rightarrow> command_handler \<Rightarrow> command_handler" where
  "make_extctrl set_it c = make_command (c\<lparr>ch_command := (ch_command c)(EXT_CTRL := if set_it then ''--extctrl'' else [])\<rparr>)"

text \<open>The resolver next to the client library: \<open>parent\<close> is the absolute directory above a path, \<open>exe_msr\<close> whether
  a program answers as the resolver does.\<close>

definition eval_msr_path :: "(string \<Rightarrow> string) \<Rightarrow> (string \<Rightarrow> bool) \<Rightarrow> command_handler \<Rightarrow> string" where
  "eval_msr_path parent exe_msr c =
     (let str_dir = ch_command c DRACE in
      if str_dir \<noteq> [] then
        (let cmd = parent (drop 3 str_dir) @ ''/msr.exe'' in if exe_msr cmd then cmd else [])
      else [])"

definition validate_and_set_msr :: "(string \<Rightarrow> string) \<Rightarrow> (string \<Rightarrow> bool) \<Rightarrow> bool \<Rightarrow> command_handler \<Rightarrow> bool \<times> command_handler" where
  "validate_and_set_msr parent exe_msr on c =
     (let c = make_extctrl False c in
      if on then
        (let cmd = eval_msr_path parent exe_msr c in
         if cmd \<noteq> [] then (True, (make_extctrl True c)\<lparr>ch_msr_path := cmd\<rparr>) else (False, c\<lparr>ch_msr_path := cmd\<rparr>))
      else (True, c\<lparr>ch_msr_path := []\<rparr>))"

definition command_is_valid :: "command_handler \<Rightarrow> bool" where
  "command_is_valid c = (ch_command c DYNAMORIO \<noteq> [] \<and> ch_command c DRACE \<noteq> [] \<and> ch_command c DETECTOR \<noteq> [] \<and> ch_command c EXECUTABLE \<noteq> [])"

section \<open>The report command\<close>

record report_handler =
  rh_conv_cmd :: string
  rh_name :: string
  rh_srcdirs :: string
  rh_create :: bool
  rh_is_python :: bool
  rh_auto_open :: bool

text \<open>The member for the Python script has no initial value.\<close>

definition report_handler_init :: "bool \<Rightarrow> report_handler" where
  "report_handler_init py = \<lparr>rh_conv_cmd = [], rh_name = ''test_report.xml'', rh_srcdirs = [], rh_create = False, rh_is_python = py,
     rh_auto_open = False\<rparr>"

text \<open>\<^verbatim>\<open>split("/").last()\<close>, then the parts before the first and after the last dot.\<close>

definition last_part :: "string \<Rightarrow> string" where
  "last_part s = rev (takeWhile (\<lambda>c. c \<noteq> CHR ''/'') (rev s))"

definition first_dot :: "string \<Rightarrow> string" where
  "first_dot s = takeWhile (\<lambda>c. c \<noteq> CHR ''.'') s"

definition last_dot :: "string \<Rightarrow> string" where
  "last_dot s = rev (takeWhile (\<lambda>c. c \<noteq> CHR ''.'') (rev s))"

definition eval_rep_conv :: "bool \<Rightarrow> string \<Rightarrow> report_handler \<Rightarrow> bool \<times> report_handler" where
  "eval_rep_conv python3 name r =
     (let file = last_part name in
      if first_dot file = ''ReportConverter'' then
        (if last_dot file = ''exe'' then (True, r\<lparr>rh_conv_cmd := name, rh_is_python := False\<rparr>)
         else if last_dot file = ''py'' \<and> python3 then (True, r\<lparr>rh_conv_cmd := name, rh_is_python := True\<rparr>)
         else (False, r))
      else (False, r))"

fun find_in :: "bool \<Rightarrow> string list \<Rightarrow> report_handler \<Rightarrow> bool \<times> report_handler" where
  "find_in python3 [] r = (False, r)"
| "find_in python3 (f # fs) r = (case eval_rep_conv python3 f r of (True, r') \<Rightarrow> (True, r') | (False, r') \<Rightarrow> find_in python3 fs r')"

text \<open>The files of the current directory, then those of the converter's.\<close>

definition find_report_converter :: "bool \<Rightarrow> string list \<Rightarrow> string list \<Rightarrow> report_handler \<Rightarrow> report_handler" where
  "find_report_converter python3 here there r =
     (case find_in python3 here r of (True, r') \<Rightarrow> r' | (False, r') \<Rightarrow> snd (find_in python3 there r'))"

definition report_command_valid :: "report_handler \<Rightarrow> bool" where
  "report_command_valid r = (rh_conv_cmd r \<noteq> [] \<and> rh_name r \<noteq> [] \<and> rh_create r)"

definition report_command :: "report_handler \<Rightarrow> string" where
  "report_command r =
     (let base = quoted (rh_conv_cmd r) @ '' -i '' @ quoted (rh_name r)
      in if rh_srcdirs r \<noteq> [] then base @ '' -s '' @ quoted (rh_srcdirs r) else base)"

definition set_report_command :: "report_handler \<Rightarrow> command_handler \<Rightarrow> bool \<times> command_handler" where
  "set_report_command r c =
     (let valid = report_command_valid r;
          cmd = (if valid then report_command r else []);
          prefix = (if valid then if rh_is_python r then ''python '' else [] else []);
          c = (if valid then make_entry (rh_name r) REPORT_FLAG ''--xml-file'' False c else make_entry [] REPORT_FLAG [] False c);
          prefix = (if rh_auto_open r then ''$report = '' @ prefix else prefix)
      in (valid, make_entry cmd REPORT_CMD prefix True c))"

section \<open>Saving and loading\<close>

record process_options =
  po_run_separately :: bool
  po_wrap_text :: bool

datatype json = JStr string | JBool bool

type_synonym config = "string \<rightharpoonup> json"

text \<open>The initial configuration, with the keys that \<^verbatim>\<open>at\<close> finds.\<close>

definition config_init :: config where
  "config_init = map_of ([(''report_is_python'', JBool False), (''create_report'', JBool False), (''run_separately'', JBool False),
     (''wrap_text_output'', JBool True)] @ map (\<lambda>k. (k, JStr [])) [''report_name'', ''report_converter'', ''report_srcdirs'',
     ''dynamorio'', ''dr_debug'', ''dr_args'', ''drace'', ''detector'', ''detector_args'', ''flags'', ''ext_ctrl'', ''configuration'',
     ''executable'', ''executable_args'', ''msr'', ''excl_stack'', ''report_auto_open''])"

text \<open>The entries of the command array that are saved, with their keys.\<close>

definition saved_entries :: "(string \<times> command_type) list" where
  "saved_entries = [(''dynamorio'', DYNAMORIO), (''dr_debug'', DR_DEBUG), (''dr_args'', DR_ARGS), (''drace'', DRACE),
     (''detector'', DETECTOR), (''detector_args'', DETECTOR_ARGS), (''flags'', FLAGS), (''ext_ctrl'', EXT_CTRL),
     (''configuration'', CONFIGURATION), (''executable'', EXECUTABLE), (''executable_args'', EXECUTABLE_ARGS),
     (''excl_stack'', EXCL_STACK), (''report_auto_open'', REPORT_OPEN_CMD)]"

definition get_data :: "report_handler \<Rightarrow> command_handler \<Rightarrow> process_options \<Rightarrow> config \<Rightarrow> config" where
  "get_data r c p j =
     (let j = j(''report_name'' \<mapsto> JStr (rh_name r), ''report_converter'' \<mapsto> JStr (rh_conv_cmd r), ''report_srcdirs'' \<mapsto> JStr (rh_srcdirs r),
            ''report_is_python'' \<mapsto> JBool (rh_is_python r), ''create_report'' \<mapsto> JBool (rh_create r));
          j = fold (\<lambda>(k, t) j. j(k \<mapsto> JStr (ch_command c t))) saved_entries j
      in j(''msr'' \<mapsto> JStr (ch_msr_path c), ''run_separately'' \<mapsto> JBool (po_run_separately p), ''wrap_text_output'' \<mapsto> JBool (po_wrap_text p)))"

text \<open>\<^verbatim>\<open>value\<close> with a default; \<open>None\<close>: the value has another type (an exception that is not caught).\<close>

definition str_value :: "config \<Rightarrow> string \<Rightarrow> string \<Rightarrow> string option" where
  "str_value j k d = (case j k of None \<Rightarrow> Some d | Some (JStr s) \<Rightarrow> Some s | Some (JBool _) \<Rightarrow> None)"

definition bool_value :: "config \<Rightarrow> string \<Rightarrow> bool \<Rightarrow> bool option" where
  "bool_value j k d = (case j k of None \<Rightarrow> Some d | Some (JBool b) \<Rightarrow> Some b | Some (JStr _) \<Rightarrow> None)"

fun set_entries :: "config \<Rightarrow> (string \<times> command_type) list \<Rightarrow> command_handler \<Rightarrow> command_handler option" where
  "set_entries j [] c = Some c"
| "set_entries j ((k, t) # es) c =
     Option.bind (str_value j k []) (\<lambda>s. set_entries j es (c\<lparr>ch_command := (ch_command c)(t := s)\<rparr>))"

definition set_data :: "config \<Rightarrow> report_handler \<Rightarrow> command_handler \<Rightarrow> process_options \<Rightarrow>
    (report_handler \<times> command_handler \<times> process_options) option" where
  "set_data j r c p =
     Option.bind (str_value j ''report_name'' []) (\<lambda>name.
     Option.bind (str_value j ''report_converter'' []) (\<lambda>conv.
     Option.bind (str_value j ''report_srcdirs'' []) (\<lambda>dirs.
     Option.bind (bool_value j ''create_report'' False) (\<lambda>create.
     Option.bind (bool_value j ''report_is_python'' False) (\<lambda>py.
     let r = r\<lparr>rh_name := name, rh_conv_cmd := conv, rh_srcdirs := dirs, rh_create := create, rh_is_python := py\<rparr>;
         c = snd (set_report_command r c) in
     Option.bind (set_entries j saved_entries c) (\<lambda>c.
     Option.bind (str_value j ''msr'' []) (\<lambda>msr.
     Option.bind (bool_value j ''run_separately'' False) (\<lambda>sep.
     Option.bind (bool_value j ''wrap_text_output'' True) (\<lambda>wrap.
     Some (r, c\<lparr>ch_msr_path := msr\<rparr>, \<lparr>po_run_separately = sep, po_wrap_text = wrap\<rparr>))))))))))"

text \<open>\<open>pack\<close> and \<open>unpack\<close> are the binary format of the library; a file that cannot be unpacked changes nothing.\<close>

definition save :: "(config \<Rightarrow> u8 list) \<Rightarrow> report_handler \<Rightarrow> command_handler \<Rightarrow> process_options \<Rightarrow> u8 list" where
  "save pack r c p = pack (get_data r c p config_init)"

definition load :: "(u8 list \<Rightarrow> config option) \<Rightarrow> u8 list \<Rightarrow> report_handler \<Rightarrow> command_handler \<Rightarrow> process_options \<Rightarrow>
    (bool \<times> report_handler \<times> command_handler \<times> process_options) option" where
  "load unpack file r c p =
     (case unpack file of
        None \<Rightarrow> Some (False, r, c, p)
      | Some j \<Rightarrow> map_option (\<lambda>s. (True, s)) (set_data j r c p))"

section \<open>What the window shows\<close>

text \<open>\<^verbatim>\<open>remove_quotes\<close> looks at the first character only.\<close>

definition remove_quotes :: "string \<Rightarrow> string" where
  "remove_quotes s = (if s \<noteq> [] \<and> (hd s = CHR 0x27 \<or> hd s = CHR 0x22) then butlast (tl s) else s)"

definition path_field :: "string \<Rightarrow> string" where
  "path_field entry = remove_quotes (drop 3 entry)"

section \<open>A saved configuration comes back\<close>

definition report_flag_text :: "report_handler \<Rightarrow> string" where
  "report_flag_text r = (if report_command_valid r then ''--xml-file'' @ '' '' @ quoted (rh_name r) else [])"

definition report_cmd_text :: "report_handler \<Rightarrow> string" where
  "report_cmd_text r =
     (if report_command_valid r
      then (let prefix = (if rh_auto_open r then ''$report = '' else []) @ (if rh_is_python r then ''python '' else [])
            in ''; '' @ (if prefix \<noteq> [] then prefix @ '' '' @ report_command r else report_command r))
      else [])"

lemma update_command_at [simp]:
  "ch_command (update_command arg t c) = (ch_command c)(t := if (t = REPORT_CMD \<or> t = REPORT_OPEN_CMD) \<and> arg \<noteq> [] then ''; '' @ arg else arg)"
  by (simp add: update_command_def make_command_def Let_def)

lemma update_command_msr [simp]: "ch_msr_path (update_command arg t c) = ch_msr_path c"
  by (simp add: update_command_def make_command_def Let_def)

lemma report_command_nonempty [simp]: "report_command r \<noteq> []"
  by (simp add: report_command_def Let_def)

lemma set_report_command_entries:
  "ch_command (snd (set_report_command r c)) = (ch_command c)(REPORT_FLAG := report_flag_text r, REPORT_CMD := report_cmd_text r)"
  by (auto simp: set_report_command_def make_entry_def report_flag_text_def report_cmd_text_def report_command_valid_def quoted_def Let_def)

lemma set_report_command_msr [simp]: "ch_msr_path (snd (set_report_command r c)) = ch_msr_path c"
  by (simp add: set_report_command_def make_entry_def Let_def)

text \<open>The report entries of the command are those the report handler would set.\<close>

definition report_consistent :: "report_handler \<Rightarrow> command_handler \<Rightarrow> bool" where
  "report_consistent r c = (ch_command c REPORT_FLAG = report_flag_text r \<and> ch_command c REPORT_CMD = report_cmd_text r)"

lemma set_report_command_consistent: "report_consistent r (snd (set_report_command r c))"
  by (simp add: report_consistent_def set_report_command_entries)

lemma update_command_consistent: "report_consistent r c \<Longrightarrow> t \<noteq> REPORT_FLAG \<Longrightarrow> t \<noteq> REPORT_CMD \<Longrightarrow> report_consistent r (update_command s t c)"
  by (simp add: report_consistent_def)

lemma set_entries_saved:
  assumes "\<And>k t. (k, t) \<in> set es \<Longrightarrow> j k = Some (JStr (ch_command c t))" "distinct (map snd es)"
  shows "\<exists>c2. set_entries j es c0 = Some c2 \<and> ch_msr_path c2 = ch_msr_path c0
    \<and> (\<forall>t. ch_command c2 t = (if t \<in> snd ` set es then ch_command c t else ch_command c0 t))"
  using assms
proof (induction es arbitrary: c0)
  case (Cons x es)
  obtain k t where x: "x = (k, t)" by (cases x)
  have jk: "j k = Some (JStr (ch_command c t))" using Cons.prems(1) [of k t] by (simp add: x)
  let ?c0 = "c0\<lparr>ch_command := (ch_command c0)(t := ch_command c t)\<rparr>"
  obtain c2 where "set_entries j es ?c0 = Some c2" "ch_msr_path c2 = ch_msr_path ?c0"
      "\<forall>u. ch_command c2 u = (if u \<in> snd ` set es then ch_command c u else ch_command ?c0 u)"
    using Cons.IH [of ?c0] Cons.prems by auto
  then show ?case using jk by (auto simp: x str_value_def)
qed simp

lemma get_data_values:
  fixes r c p defines "j \<equiv> get_data r c p config_init"
  shows "j ''report_name'' = Some (JStr (rh_name r))" "j ''report_converter'' = Some (JStr (rh_conv_cmd r))"
    "j ''report_srcdirs'' = Some (JStr (rh_srcdirs r))" "j ''create_report'' = Some (JBool (rh_create r))"
    "j ''report_is_python'' = Some (JBool (rh_is_python r))" "j ''msr'' = Some (JStr (ch_msr_path c))"
    "j ''run_separately'' = Some (JBool (po_run_separately p))" "j ''wrap_text_output'' = Some (JBool (po_wrap_text p))"
  by (simp_all add: j_def get_data_def saved_entries_def)

lemma get_data_all: "list_all (\<lambda>(k, t). get_data r c p config_init k = Some (JStr (ch_command c t))) saved_entries"
  by (simp add: get_data_def saved_entries_def)

lemma get_data_entries: "(k, t) \<in> set saved_entries \<Longrightarrow> get_data r c p config_init k = Some (JStr (ch_command c t))"
  using get_data_all [of r c p] by (auto simp: list_all_iff)

lemma saved_types: "snd ` set saved_entries = - {REPORT_FLAG, REPORT_CMD}"
proof (rule set_eqI)
  fix t
  show "t \<in> snd ` set saved_entries \<longleftrightarrow> t \<in> - {REPORT_FLAG, REPORT_CMD}"
    by (cases t) (simp_all add: saved_entries_def)
qed

lemma entire_cong:
  assumes "ch_command c = ch_command d"
  shows "ch_entire (make_command c) = ch_entire (make_command d)"
  unfolding make_command_def Let_def assms by simp

text \<open>Loading a saved configuration, into whatever state the window is in, brings back the report settings, the path of the
  resolver, the options and the whole command line, provided the binary format of the library brings back what was written. Only the
  choice to open the report automatically is not saved: it stays as it is, and the report command follows it.\<close>

theorem load_after_save:
  assumes "unpack (pack (get_data r c p config_init)) = Some (get_data r c p config_init)" and "report_consistent r c"
  shows "\<exists>c2. load unpack (save pack r c p) r' c' p' = Some (True, r\<lparr>rh_auto_open := rh_auto_open r'\<rparr>, c2, p)
    \<and> ch_msr_path c2 = ch_msr_path c
    \<and> ch_command c2 = (ch_command c)(REPORT_CMD := report_cmd_text (r\<lparr>rh_auto_open := rh_auto_open r'\<rparr>))
    \<and> (if rh_auto_open r' = rh_auto_open r then ch_entire (make_command c2) = ch_entire (make_command c) else True)"
proof -
  let ?j = "get_data r c p config_init" and ?r = "r\<lparr>rh_auto_open := rh_auto_open r'\<rparr>"
  let ?c0 = "snd (set_report_command ?r c')"
  have r2: "r'\<lparr>rh_name := rh_name r, rh_conv_cmd := rh_conv_cmd r, rh_srcdirs := rh_srcdirs r, rh_create := rh_create r,
      rh_is_python := rh_is_python r\<rparr> = ?r" by simp
  obtain c1 where c1: "set_entries ?j saved_entries ?c0 = Some c1"
      "\<forall>t. ch_command c1 t = (if t \<in> snd ` set saved_entries then ch_command c t else ch_command ?c0 t)"
    using set_entries_saved [of saved_entries ?j c ?c0] get_data_entries by (auto simp: saved_entries_def)
  let ?c2 = "c1\<lparr>ch_msr_path := ch_msr_path c\<rparr>"
  have "set_data ?j r' c' p' = Some (?r, ?c2, p)"
    using c1(1) by (simp add: set_data_def str_value_def bool_value_def get_data_values r2 Let_def)
  moreover have cmd: "ch_command ?c2 = (ch_command c)(REPORT_CMD := report_cmd_text ?r)"
  proof
    fix t
    show "ch_command ?c2 t = ((ch_command c)(REPORT_CMD := report_cmd_text ?r)) t"
      using c1(2) assms(2) unfolding saved_types
      by (auto simp: set_report_command_entries report_consistent_def report_flag_text_def report_command_valid_def)
  qed
  moreover have "ch_command ?c2 = ch_command c" if "rh_auto_open r' = rh_auto_open r"
    using cmd assms(2) that by (auto simp: report_consistent_def)
  then have "if rh_auto_open r' = rh_auto_open r then ch_entire (make_command ?c2) = ch_entire (make_command c) else True"
    using entire_cong [of ?c2 c] by simp
  ultimately show ?thesis using assms(1) by (auto simp: load_def save_def)
qed

definition demo_report :: report_handler where
  "demo_report = \<lparr>rh_conv_cmd = ''ReportConverter.py'', rh_name = ''my report.xml'', rh_srcdirs = [], rh_create = True, rh_is_python = True,
     rh_auto_open = True\<rparr>"

definition demo_command :: command_handler where
  "demo_command = snd (set_report_command demo_report (make_entry ''C:/my app/a.exe'' EXECUTABLE ''--'' False (command_handler_new ''tsan'')))"

definition demo_options :: process_options where
  "demo_options = \<lparr>po_run_separately = True, po_wrap_text = False\<rparr>"

theorem load_after_save_witness:
  "\<exists>pack unpack c2. load unpack (save pack demo_report demo_command demo_options) (report_handler_init False) (command_handler_new ''tsan'')
       \<lparr>po_run_separately = False, po_wrap_text = True\<rparr> = Some (True, demo_report\<lparr>rh_auto_open := False\<rparr>, c2, demo_options)
    \<and> ch_command c2 EXECUTABLE = ''-- '' @ quote @ ''C:/my app/a.exe'' @ quote"
proof -
  let ?pack = "\<lambda>_ :: config. [1 :: u8]" and ?unpack = "\<lambda>f :: u8 list. Some (get_data demo_report demo_command demo_options config_init)"
  have "report_consistent demo_report demo_command"
    unfolding demo_command_def by (rule set_report_command_consistent)
  from load_after_save [where pack = ?pack and unpack = ?unpack and p = demo_options and r' = "report_handler_init False"
      and c' = "command_handler_new ''tsan''" and p' = "\<lparr>po_run_separately = False, po_wrap_text = True\<rparr>", OF refl this]
  obtain c2 where c2: "load ?unpack (save ?pack demo_report demo_command demo_options) (report_handler_init False) (command_handler_new ''tsan'')
       \<lparr>po_run_separately = False, po_wrap_text = True\<rparr> = Some (True, demo_report\<lparr>rh_auto_open := False\<rparr>, c2, demo_options)"
     "ch_command c2 = (ch_command demo_command)(REPORT_CMD := report_cmd_text (demo_report\<lparr>rh_auto_open := False\<rparr>))"
    by (auto simp: report_handler_init_def)
  moreover have "ch_command c2 EXECUTABLE = ''-- '' @ quote @ ''C:/my app/a.exe'' @ quote"
    using c2(2) by (simp add: demo_command_def set_report_command_entries make_entry_def has_space_def white_def)
  ultimately show ?thesis by blast
qed

text \<open>The text field of a path shows the path again, unless it starts with a quotation mark.\<close>

lemma path_field_entry:
  assumes "length prefix = 2" "path \<noteq> []" "hd path \<noteq> CHR 0x27" "hd path \<noteq> CHR 0x22" "t \<noteq> REPORT_CMD" "t \<noteq> REPORT_OPEN_CMD"
  shows "path_field (ch_command (make_entry path t prefix False c) t) = path"
  using assms by (auto simp: path_field_def make_entry_def remove_quotes_def quote_def Let_def)

text \<open>A client library in a path with white space is quoted, and the resolver is searched next to the quoted path.\<close>

lemma msr_search_quoted:
  assumes "path \<noteq> []" "has_space path" "ch_command c DRACE = ch_command (make_entry path DRACE ''-c'' False c0) DRACE"
  shows "eval_msr_path parent exe_msr c =
    (if exe_msr (parent (quote @ path @ quote) @ ''/msr.exe'') then parent (quote @ path @ quote) @ ''/msr.exe'' else [])"
  using assms by (simp add: eval_msr_path_def make_entry_def Let_def)

end
