(* ===== verification/GuiDialogs.thy ===== *)
theory GuiDialogs
  imports GuiCommand TextFormat "HOL-Library.Sublist"
begin

text \<open>
  The programs the front end calls (\<^verbatim>\<open>tools/DRaceGUI/src/Executor.cpp\<close>) and two of its dialogs: the
  configuration of the report (\<^verbatim>\<open>qt/Report_Config.cpp\<close>) and the options of the detector
  (\<^verbatim>\<open>qt/Detector_Options_Dialog.cpp\<close>). A program is the text it prints for its arguments, \<open>None\<close> if it does not
  finish in time; the file system and the checks of file names are arguments. A text field tells its handler
  when its text becomes another one, as the widget library documents.
\<close>

section \<open>Texts\<close>

definition occurs :: "string \<Rightarrow> string \<Rightarrow> bool" where
  "occurs t s = list_ex (prefix t) (suffixes s)"

definition lower :: "char \<Rightarrow> char" where
  "lower c = (let n = of_char c :: nat in if 65 \<le> n \<and> n \<le> 90 then char_of (n + 32) else c)"

definition occurs_ci :: "string \<Rightarrow> string \<Rightarrow> bool" where
  "occurs_ci t s = occurs (map lower t) (map lower s)"

text \<open>\<^verbatim>\<open>QString::replace\<close> and \<^verbatim>\<open>remove\<close> treat all occurrences, from the left.\<close>

function replace_all :: "string \<Rightarrow> string \<Rightarrow> string \<Rightarrow> string" where
  "replace_all old new s =
     (if old \<noteq> [] \<and> prefix old s then new @ replace_all old new (drop (length old) s)
      else (case s of [] \<Rightarrow> [] | c # cs \<Rightarrow> c # replace_all old new cs))"
  by pat_completeness auto
termination
  by (relation "measure (\<lambda>(old, new, s). length s)") (auto simp: prefix_def)

declare replace_all.simps [simp del]

definition trimmed :: "string \<Rightarrow> string" where
  "trimmed s = rev (dropWhile white (rev (dropWhile white s)))"

fun split_at :: "char \<Rightarrow> string \<Rightarrow> string list" where
  "split_at d [] = [[]]"
| "split_at d (c # s) =
     (if c = d then [] # split_at d s
      else (case split_at d s of [] \<Rightarrow> [[c]] | p # ps \<Rightarrow> (c # p) # ps))"

fun join_with :: "string \<Rightarrow> string list \<Rightarrow> string" where
  "join_with sep [] = []"
| "join_with sep [s] = s"
| "join_with sep (s # t # ss) = s @ sep @ join_with sep (t # ss)"

section \<open>Programs\<close>

type_synonym programs = "string \<Rightarrow> string list \<Rightarrow> string option"

definition answers :: "programs \<Rightarrow> string \<Rightarrow> string list \<Rightarrow> string \<Rightarrow> bool" where
  "answers run cmd args text = (case run cmd args of Some out \<Rightarrow> occurs_ci text out | None \<Rightarrow> False)"

definition exe_drrun :: "programs \<Rightarrow> string \<Rightarrow> bool" where
  "exe_drrun run cmd =
     (if suffix ''drrun'' cmd \<or> suffix ''drrun.exe'' cmd then answers run cmd [''-version''] ''drrun version 8.'' else False)"

definition exe_python3 :: "programs \<Rightarrow> bool" where
  "exe_python3 run = answers run ''python'' [''-V''] ''Python 3.''"

definition exe_msr :: "programs \<Rightarrow> string \<Rightarrow> bool" where
  "exe_msr run cmd = answers run cmd [''--version''] ''Managed Symbol Resolver''"

text \<open>What the window does to the world outside: message boxes, commands given to the system, a program started
  in a window of its own or in the embedded one, the clipboard.\<close>

datatype gui_effect = Message string | System string | Shell string string | Embedded string "string list" | Clipboard string

definition execute :: "string \<Rightarrow> gui_effect" where
  "execute cmd = Shell ''powershell.exe'' (''-NoExit '' @ cmd)"

definition execute_embedded :: "string \<Rightarrow> gui_effect" where
  "execute_embedded cmd = Embedded ''powershell.exe'' [''-Command'', cmd]"

definition newline :: string where
  "newline = [CHR 0x0A]"

definition stop_embedded :: "nat \<Rightarrow> gui_effect" where
  "stop_embedded pid =
     (if pid \<noteq> 0
      then Shell ''powershell.exe''
        (''function Stop-Embedded { Param([int]$ppid)'' @ newline @ ''Get-CimInstance Win32_Process | Where-Object { $_.ParentProcessId -eq $ppid } | ForEach-Object { Stop-Embedded $_.ProcessId }'' @ newline @
         ''Stop-Process -Id $ppid }'' @ newline @ ''Stop-Embedded '' @ fmt_nat pid)
      else Message ''No process is currently running.'')"

definition launch_msr :: "string \<Rightarrow> gui_effect" where
  "launch_msr cmd = System (''start powershell -NoExit '' @ cmd @ '' --once'')"

section \<open>The surroundings of the window\<close>

record gui_env =
  ge_run :: programs
  ge_exists :: "string \<Rightarrow> bool"
  ge_readable :: "string \<Rightarrow> bool"
  ge_regular :: "string \<Rightarrow> bool"
  ge_portable :: "string \<Rightarrow> bool"
  ge_windows_name :: "string \<Rightarrow> bool"
  ge_parent :: "string \<Rightarrow> string"

section \<open>The report dialog\<close>

record report_dialog =
  rd_conv :: string
  rd_conv_green :: bool
  rd_name :: string
  rd_name_green :: bool
  rd_dirs :: "string list"
  rd_open :: bool
  rd_effects :: "gui_effect list"
  rd_rh :: report_handler
  rd_ch :: command_handler

text \<open>Typing a path already sets the converter if it is one.\<close>

definition conv_changed :: "gui_env \<Rightarrow> string \<Rightarrow> report_dialog \<Rightarrow> report_dialog" where
  "conv_changed env s d =
     (if ge_regular env s
      then (let (ok, r) = eval_rep_conv (exe_python3 (ge_run env)) s (rd_rh d) in d\<lparr>rd_rh := r, rd_conv_green := ok\<rparr>)
      else d\<lparr>rd_conv_green := False\<rparr>)"

definition set_conv :: "gui_env \<Rightarrow> string \<Rightarrow> report_dialog \<Rightarrow> report_dialog" where
  "set_conv env s d = (if s = rd_conv d then d else conv_changed env s (d\<lparr>rd_conv := s\<rparr>))"

definition set_name :: "gui_env \<Rightarrow> string \<Rightarrow> report_dialog \<Rightarrow> report_dialog" where
  "set_name env s d = (if s = rd_name d then d else d\<lparr>rd_name := s, rd_name_green := ge_windows_name env s\<rparr>)"

definition open_report_config :: "gui_env \<Rightarrow> report_handler \<Rightarrow> command_handler \<Rightarrow> report_dialog" where
  "open_report_config env r c =
     (let d = \<lparr>rd_conv = [], rd_conv_green = False, rd_name = [], rd_name_green = False, rd_dirs = [], rd_open = True, rd_effects = [],
              rd_rh = r, rd_ch = c\<rparr>;
          d = set_conv env (rh_conv_cmd (rd_rh d)) d;
          d = set_name env (rh_name (rd_rh d)) d
      in d\<lparr>rd_dirs := filter (\<lambda>s. s \<noteq> []) (split_at (CHR '','') (rh_srcdirs (rd_rh d)))\<rparr>)"

definition warn :: "string \<Rightarrow> report_dialog \<Rightarrow> report_dialog" where
  "warn text d = d\<lparr>rd_effects := rd_effects d @ [Message text]\<rparr>"

definition accept_report :: "gui_env \<Rightarrow> report_dialog \<Rightarrow> report_dialog" where
  "accept_report env d =
     (if ge_portable env (rd_name d)
      then (let d = d\<lparr>rd_rh := (rd_rh d)\<lparr>rh_name := rd_name d\<rparr>\<rparr> in
        if \<not> ge_regular env (rd_conv d) then warn ''ReportConverter-Path: File does not exist.'' d
        else (let d = d\<lparr>rd_rh := (rd_rh d)\<lparr>rh_srcdirs := join_with '','' (rd_dirs d)\<rparr>\<rparr>;
                  (ok, r) = eval_rep_conv (exe_python3 (ge_run env)) (rd_conv d) (rd_rh d);
                  d = d\<lparr>rd_rh := r\<rparr>
              in if ok then d\<lparr>rd_ch := snd (set_report_command (rd_rh d) (rd_ch d)), rd_open := False\<rparr>
                 else warn ''ReportConverter is not valid. Wrong name or probably Python is not installed, if the Python script is used.'' d))
      else warn ''Filename is not valid!'' d)"

datatype report_action = TypeConv string | BrowseConv string | TypeName string | AddDir string | DiscardDir nat | AcceptReport | RejectReport

fun report_do :: "gui_env \<Rightarrow> report_action \<Rightarrow> report_dialog \<Rightarrow> report_dialog" where
  "report_do env (TypeConv s) d = set_conv env s d"
| "report_do env (BrowseConv path) d = (if path \<noteq> [] then set_conv env path d else d)"
| "report_do env (TypeName s) d = set_name env s d"
| "report_do env (AddDir dir) d = (if dir \<noteq> [] then d\<lparr>rd_dirs := rd_dirs d @ [dir]\<rparr> else d)"
| "report_do env (DiscardDir row) d = d\<lparr>rd_dirs := take row (rd_dirs d) @ drop (Suc row) (rd_dirs d)\<rparr>"
| "report_do env AcceptReport d = accept_report env d"
| "report_do env RejectReport d = d\<lparr>rd_open := False\<rparr>"

fun report_session :: "gui_env \<Rightarrow> report_action list \<Rightarrow> report_dialog \<Rightarrow> report_dialog" where
  "report_session env [] d = d\<lparr>rd_open := False\<rparr>"
| "report_session env (a # as) d = (if rd_open d then report_session env as (report_do env a d) else d)"

section \<open>The detector dialog\<close>

definition heap_only :: string where
  "heap_only = ''--heap-only''"

text \<open>Ticking and unticking the box changes the text of the arguments.\<close>

definition heap_only_changed :: "bool \<Rightarrow> string \<Rightarrow> string" where
  "heap_only_changed on text =
     (if \<not> on then trimmed (if occurs heap_only text then replace_all heap_only [] text else [])
      else (let suffix = (if text \<noteq> [] then '' '' else [])
            in if \<not> occurs heap_only text then heap_only @ suffix @ text else text))"

definition accept_detector_args :: "string \<Rightarrow> command_handler \<Rightarrow> command_handler" where
  "accept_detector_args text c = make_text_entry text DETECTOR_ARGS c"

definition accept_dr_args :: "string \<Rightarrow> command_handler \<Rightarrow> command_handler" where
  "accept_dr_args text c = make_text_entry text DR_ARGS c"

section \<open>What a dialog leaves behind\<close>

definition up_to_date :: "command_handler \<Rightarrow> bool" where
  "up_to_date c \<longleftrightarrow> ch_entire c = ch_entire (make_command c)"

lemma make_command_entries [simp]: "ch_command (make_command c) = ch_command c" "ch_msr_path (make_command c) = ch_msr_path c"
  by (simp_all add: make_command_def Let_def)

lemma make_command_up_to_date [simp, intro]: "up_to_date (make_command c)"
  unfolding up_to_date_def by (rule entire_cong) simp

lemma update_command_up_to_date [simp, intro]: "up_to_date (update_command s t c)"
  by (simp add: update_command_def Let_def)

lemma make_entry_up_to_date [simp, intro]: "up_to_date (make_entry s t p q c)"
  by (simp add: make_entry_def Let_def)

lemma set_report_command_up_to_date [simp, intro]: "up_to_date (snd (set_report_command r c))"
  by (simp add: set_report_command_def Let_def)

lemma set_report_command_valid [simp]: "fst (set_report_command r c) = report_command_valid r"
  by (simp add: set_report_command_def Let_def)

lemma eval_rep_conv_effect:
  assumes "eval_rep_conv py s r = (ok, r')"
  shows "if ok then s \<noteq> [] \<and> (\<exists>b. r' = r\<lparr>rh_conv_cmd := s, rh_is_python := b\<rparr>) else r' = r"
  using assms by (auto simp: eval_rep_conv_def last_part_def first_dot_def Let_def split: if_splits)

text \<open>A dialog does not touch the check boxes, keeps the converter and the name filled in, and changes no other part
  of the command; the command either stays as it is or follows the settings.\<close>

definition dialog_inv :: "report_handler \<Rightarrow> command_handler \<Rightarrow> report_dialog \<Rightarrow> bool" where
  "dialog_inv r c d \<longleftrightarrow> rh_create (rd_rh d) = rh_create r \<and> rh_auto_open (rd_rh d) = rh_auto_open r
     \<and> (rh_conv_cmd r \<noteq> [] \<longrightarrow> rh_conv_cmd (rd_rh d) \<noteq> []) \<and> (rh_name r \<noteq> [] \<longrightarrow> rh_name (rd_rh d) \<noteq> [])
     \<and> (rd_ch d = c \<or> \<not> rd_open d \<and> rd_ch d = snd (set_report_command (rd_rh d) c))"

lemma conv_changed_inv: "dialog_inv r c d \<Longrightarrow> rd_open d \<Longrightarrow> dialog_inv r c (conv_changed env s d)"
  using eval_rep_conv_effect [of "exe_python3 (ge_run env)" s "rd_rh d"]
  by (auto simp: dialog_inv_def conv_changed_def split: prod.splits if_splits)

lemma set_conv_inv: "dialog_inv r c d \<Longrightarrow> rd_open d \<Longrightarrow> dialog_inv r c (set_conv env s d)"
  using conv_changed_inv [of r c "d\<lparr>rd_conv := s\<rparr>"] by (simp add: set_conv_def dialog_inv_def)

lemma set_conv_open [simp]: "rd_open (set_conv env s d) = rd_open d"
  by (simp add: set_conv_def conv_changed_def split: prod.splits)

lemma accept_report_inv:
  assumes "dialog_inv r c d" "rd_open d" "\<not> ge_portable env []"
  shows "dialog_inv r c (accept_report env d)"
proof -
  let ?r = "(rd_rh d)\<lparr>rh_name := rd_name d, rh_srcdirs := join_with '','' (rd_dirs d)\<rparr>"
  obtain ok r' where e: "eval_rep_conv (exe_python3 (ge_run env)) (rd_conv d) ?r = (ok, r')" by fastforce
  show ?thesis
    using assms eval_rep_conv_effect [OF e]
    by (cases "ge_portable env (rd_name d)"; cases ok) (auto simp: accept_report_def dialog_inv_def warn_def e Let_def)
qed

lemma report_do_inv:
  assumes "dialog_inv r c d" "rd_open d" "\<not> ge_portable env []"
  shows "dialog_inv r c (report_do env a d)"
proof (cases a)
  case (TypeConv s)
  then show ?thesis using set_conv_inv assms(1,2) by simp
next
  case (BrowseConv s)
  then show ?thesis using set_conv_inv assms(1,2) by simp
next
  case AcceptReport
  then show ?thesis using accept_report_inv assms by simp
qed (use assms in \<open>simp_all add: dialog_inv_def set_name_def\<close>)

lemma report_session_inv:
  "dialog_inv r c d \<Longrightarrow> \<not> ge_portable env [] \<Longrightarrow> dialog_inv r c (report_session env as d)"
proof (induction env as d rule: report_session.induct)
  case (1 env d)
  then show ?case by (auto simp: dialog_inv_def)
next
  case (2 env a as d)
  then show ?case using report_do_inv by simp
qed

lemma open_report_config_inv: "dialog_inv r c (open_report_config env r c)"
proof -
  let ?d = "\<lparr>rd_conv = [], rd_conv_green = False, rd_name = [], rd_name_green = False, rd_dirs = [], rd_open = True, rd_effects = [],
      rd_rh = r, rd_ch = c\<rparr>"
  have s: "dialog_inv r c (set_conv env (rh_conv_cmd r) ?d)"
    by (rule set_conv_inv) (simp_all add: dialog_inv_def)
  then have "dialog_inv r c (set_name env n (set_conv env (rh_conv_cmd r) ?d))" for n
    by (simp add: dialog_inv_def set_name_def)
  then show ?thesis by (simp add: open_report_config_def dialog_inv_def Let_def)
qed

section \<open>Where the dialogs surprise\<close>

text \<open>A dialog that is given up has changed the converter all the same, while the command still has the old one.\<close>

lemma cancel_keeps_converter:
  assumes "ge_regular env s" "eval_rep_conv (exe_python3 (ge_run env)) s (rd_rh d) = (True, r)" "s \<noteq> rd_conv d" "rd_open d"
  shows "rh_conv_cmd (rd_rh (report_session env [TypeConv s, RejectReport] d)) = s
    \<and> rd_ch (report_session env [TypeConv s, RejectReport] d) = rd_ch d"
  using assms eval_rep_conv_effect [OF assms(2)] by (auto simp: set_conv_def conv_changed_def)

text \<open>The directories are separated by commas; a directory with a comma in its name comes back as two.\<close>

lemma split_at_join:
  "ss \<noteq> [] \<Longrightarrow> \<forall>s \<in> set ss. CHR '','' \<notin> set s \<Longrightarrow> split_at (CHR '','') (join_with '','' ss) = ss"
proof (induction "'',''" ss rule: join_with.induct)
  case (2 s)
  then show ?case by (induction s) auto
next
  case (3 s t ss)
  have "split_at (CHR '','') (s @ CHR '','' # u) = s # split_at (CHR '','') u" if "CHR '','' \<notin> set s" for s u
    using that by (induction s) auto
  with 3 show ?case by simp
qed simp

lemma directories_come_back:
  assumes "\<forall>s \<in> set ss. s \<noteq> [] \<and> CHR '','' \<notin> set s"
  shows "filter (\<lambda>s. s \<noteq> []) (split_at (CHR '','') (join_with '','' ss)) = ss"
proof (cases "ss = []")
  case False
  with assms show ?thesis by (simp add: split_at_join filter_id_conv)
qed simp

lemma directory_with_comma: "filter (\<lambda>s. s \<noteq> []) (split_at (CHR '','') (join_with '','' [''a,b''])) = [''a'', ''b'']"
  by simp

text \<open>Unticking the box when its option has been deleted by hand deletes all other arguments as well.\<close>

lemma untick_deletes_arguments: "\<not> occurs heap_only text \<Longrightarrow> heap_only_changed False text = []"
  by (simp add: heap_only_changed_def trimmed_def)

lemma occurs_front [simp]: "occurs t (t @ s)"
  by (auto simp: occurs_def list_ex_iff intro!: bexI [of _ "t @ s"])

lemma occurs_self [simp]: "occurs t t"
  using occurs_front [of t "[]"] by simp

lemma tick_adds_option: "occurs heap_only (heap_only_changed True text)"
  using occurs_front [of heap_only "'' '' @ text"] by (auto simp: heap_only_changed_def Let_def)

end
