(* ===== verification/GuiWindow.thy ===== *)
theory GuiWindow
  imports GuiDialogs
begin

text \<open>
  The main window of the front end (\<^verbatim>\<open>tools/DRaceGUI/qt/draceGUI.cpp\<close>): its fields and boxes, the handlers of
  their signals, loading and saving, and running the command. A widget tells its handler when its value becomes
  another one, whoever changes it, as the widget library documents; a radio button tells it only when the user clicks it.
  Colours, the texts of the embedded process and the opening of
  finished reports are left out, but for the colour of a path that was found.
\<close>

section \<open>The window\<close>

datatype detector_btn = Tsan | Dummy | Fasttrack

fun btn_name :: "detector_btn \<Rightarrow> string" where
  "btn_name Tsan = ''tsan''"
| "btn_name Dummy = ''dummy''"
| "btn_name Fasttrack = ''fasttrack''"

datatype proc_state = NotRunning | Starting | Running

record window =
  w_dr_path :: string
  w_drace_path :: string
  w_config :: string
  w_exe :: string
  w_exe_args :: string
  w_flags :: string
  w_dr_green :: bool
  w_drace_green :: bool
  w_config_green :: bool
  w_dr_debug :: bool
  w_report :: bool
  w_msr :: bool
  w_excl :: bool
  w_auto :: bool
  w_auto_enabled :: bool
  w_separate :: bool
  w_wrap :: bool
  w_radio :: detector_btn
  w_output :: string
  w_proc :: proc_state
  w_run_enabled :: bool
  w_stop_enabled :: bool
  w_input_enabled :: bool
  w_effects :: "gui_effect list"
  w_ch :: command_handler
  w_rh :: report_handler
  w_po :: process_options

text \<open>The window as the form describes it, before the constructor fills in any text.\<close>

definition window_new :: "report_handler \<Rightarrow> window" where
  "window_new r =
     \<lparr>w_dr_path = [], w_drace_path = [], w_config = [], w_exe = [], w_exe_args = [], w_flags = [],
      w_dr_green = False, w_drace_green = False, w_config_green = False,
      w_dr_debug = False, w_report = False, w_msr = False, w_excl = False, w_auto = False, w_auto_enabled = False,
      w_separate = False, w_wrap = True, w_radio = Tsan, w_output = [],
      w_proc = NotRunning, w_run_enabled = True, w_stop_enabled = False, w_input_enabled = False, w_effects = [],
      w_ch = command_handler_new ''tsan'', w_rh = r, w_po = \<lparr>po_run_separately = False, po_wrap_text = True\<rparr>\<rparr>"

definition message :: "string \<Rightarrow> window \<Rightarrow> window" where
  "message text w = w\<lparr>w_effects := w_effects w @ [Message text]\<rparr>"

definition show_command :: "window \<Rightarrow> window" where
  "show_command w = w\<lparr>w_output := ch_entire (w_ch w)\<rparr>"

text \<open>\<^verbatim>\<open>ui->command_output->setText(ch->make_entry(...))\<close> and its likes.\<close>

definition show_entry :: "(command_handler \<Rightarrow> command_handler) \<Rightarrow> window \<Rightarrow> window" where
  "show_entry f w = show_command (w\<lparr>w_ch := f (w_ch w)\<rparr>)"

section \<open>Text fields\<close>

definition dr_path_changed :: "gui_env \<Rightarrow> string \<Rightarrow> window \<Rightarrow> window" where
  "dr_path_changed env s w =
     (show_entry (make_entry s DYNAMORIO [] False) w)\<lparr>w_dr_green := exe_drrun (ge_run env) s\<rparr>"

definition set_dr_path :: "gui_env \<Rightarrow> string \<Rightarrow> window \<Rightarrow> window" where
  "set_dr_path env s w = (if s = w_dr_path w then w else dr_path_changed env s (w\<lparr>w_dr_path := s\<rparr>))"

definition config_changed :: "gui_env \<Rightarrow> string \<Rightarrow> window \<Rightarrow> window" where
  "config_changed env s w =
     (show_entry (make_entry s CONFIGURATION ''-c'' False) w)\<lparr>w_config_green := ge_readable env s\<rparr>"

definition set_config :: "gui_env \<Rightarrow> string \<Rightarrow> window \<Rightarrow> window" where
  "set_config env s w = (if s = w_config w then w else config_changed env s (w\<lparr>w_config := s\<rparr>))"

text \<open>A client library that was found brings its configuration file along if none is set.\<close>

definition client_found :: "gui_env \<Rightarrow> string \<Rightarrow> bool" where
  "client_found env s \<longleftrightarrow> suffix ''drace-client.dll'' s \<and> ge_exists env s"

definition drace_path_changed :: "gui_env \<Rightarrow> string \<Rightarrow> window \<Rightarrow> window" where
  "drace_path_changed env s w =
     (let w = show_entry (make_entry s DRACE ''-c'' False) w;
          w = (if client_found env s \<and> w_config w = []
               then set_config env (replace_all ''drace-client.dll'' ''drace.ini'' s) w else w)
      in w\<lparr>w_drace_green := client_found env s\<rparr>)"

definition set_drace_path :: "gui_env \<Rightarrow> string \<Rightarrow> window \<Rightarrow> window" where
  "set_drace_path env s w = (if s = w_drace_path w then w else drace_path_changed env s (w\<lparr>w_drace_path := s\<rparr>))"

definition set_exe :: "string \<Rightarrow> window \<Rightarrow> window" where
  "set_exe s w = (if s = w_exe w then w else show_entry (make_entry s EXECUTABLE ''--'' False) (w\<lparr>w_exe := s\<rparr>))"

definition set_exe_args :: "string \<Rightarrow> window \<Rightarrow> window" where
  "set_exe_args s w = (if s = w_exe_args w then w else show_entry (make_text_entry s EXECUTABLE_ARGS) (w\<lparr>w_exe_args := s\<rparr>))"

definition set_flags :: "string \<Rightarrow> window \<Rightarrow> window" where
  "set_flags s w = (if s = w_flags w then w else show_entry (make_flag_entry s) (w\<lparr>w_flags := s\<rparr>))"

text \<open>A browse button, when the user has chosen a file.\<close>

definition browse :: "(string \<Rightarrow> window \<Rightarrow> window) \<Rightarrow> string \<Rightarrow> window \<Rightarrow> window" where
  "browse set_field path w = (if path \<noteq> [] then set_field path w else w)"

section \<open>Boxes and buttons\<close>

definition debug_changed :: "bool \<Rightarrow> window \<Rightarrow> window" where
  "debug_changed on w = show_entry (make_entry (if on then ''-debug'' else []) DR_DEBUG [] False) w"

definition set_debug :: "bool \<Rightarrow> window \<Rightarrow> window" where
  "set_debug on w = (if on = w_dr_debug w then w else debug_changed on (w\<lparr>w_dr_debug := on\<rparr>))"

definition excl_changed :: "bool \<Rightarrow> window \<Rightarrow> window" where
  "excl_changed on w = show_entry (make_entry (if on then ''--excl-stack'' else []) EXCL_STACK [] False) w"

definition set_excl :: "bool \<Rightarrow> window \<Rightarrow> window" where
  "set_excl on w = (if on = w_excl w then w else excl_changed on (w\<lparr>w_excl := on\<rparr>))"

text \<open>\<^verbatim>\<open>rh->set_report_command()\<close>: the command follows the report settings.\<close>

definition apply_report :: "window \<Rightarrow> window" where
  "apply_report w = w\<lparr>w_ch := snd (set_report_command (w_rh w) (w_ch w))\<rparr>"

definition auto_changed :: "bool \<Rightarrow> window \<Rightarrow> window" where
  "auto_changed on w =
     (let w = apply_report (w\<lparr>w_rh := (w_rh w)\<lparr>rh_auto_open := on\<rparr>\<rparr>);
          w = (if report_command_valid (w_rh w) then show_command w else w)
      in show_entry (make_report_auto_open_entry (if on then 2 else 0)) w)"

definition set_auto :: "bool \<Rightarrow> window \<Rightarrow> window" where
  "set_auto on w = (if on = w_auto w then w else auto_changed on (w\<lparr>w_auto := on\<rparr>))"

definition set_auto_report_checkable :: "bool \<Rightarrow> window \<Rightarrow> window" where
  "set_auto_report_checkable checked w =
     (if \<not> checked then (set_auto False w)\<lparr>w_auto_enabled := False\<rparr> else w\<lparr>w_auto_enabled := True\<rparr>)"

text \<open>The box for the report is unticked.\<close>

definition report_off :: "window \<Rightarrow> window" where
  "report_off w =
     (let w = apply_report (w\<lparr>w_rh := (w_rh w)\<lparr>rh_create := False\<rparr>\<rparr>)
      in set_auto_report_checkable False (show_command w))"

text \<open>It is ticked; \<open>as\<close> is what the user does in the dialog that opens if no converter is set.\<close>

definition run_report_config :: "gui_env \<Rightarrow> report_action list \<Rightarrow> window \<Rightarrow> window" where
  "run_report_config env as w =
     (let d = report_session env as (open_report_config env (w_rh w) (w_ch w))
      in w\<lparr>w_rh := rd_rh d, w_ch := rd_ch d, w_effects := w_effects w @ rd_effects d\<rparr>)"

definition report_on :: "gui_env \<Rightarrow> report_action list \<Rightarrow> window \<Rightarrow> window" where
  "report_on env as w =
     (let w = apply_report (w\<lparr>w_rh := (w_rh w)\<lparr>rh_create := True\<rparr>\<rparr>) in
      if report_command_valid (w_rh w) then set_auto_report_checkable True (show_command w)
      else (let w = apply_report (run_report_config env as w) in
        if report_command_valid (w_rh w) then set_auto_report_checkable True (show_command w)
        else report_off ((message ''ReportConverter is not set correctly'' w)\<lparr>w_report := False\<rparr>)))"

definition set_report :: "gui_env \<Rightarrow> report_action list \<Rightarrow> bool \<Rightarrow> window \<Rightarrow> window" where
  "set_report env as on w =
     (if on = w_report w then w
      else if on then report_on env as (w\<lparr>w_report := True\<rparr>) else report_off (w\<lparr>w_report := False\<rparr>))"

definition validate_msr :: "gui_env \<Rightarrow> bool \<Rightarrow> window \<Rightarrow> bool \<times> window" where
  "validate_msr env on w =
     (let (ok, c) = validate_and_set_msr (ge_parent env) (exe_msr (ge_run env)) on (w_ch w) in (ok, w\<lparr>w_ch := c\<rparr>))"

definition msr_off :: "gui_env \<Rightarrow> window \<Rightarrow> window" where
  "msr_off env w = show_command (snd (validate_msr env False w))"

definition msr_on :: "gui_env \<Rightarrow> window \<Rightarrow> window" where
  "msr_on env w =
     (let (ok, w) = validate_msr env True w;
          w = (if \<not> ok
               then msr_off env ((message ''DRace client path is not set or \"msr.exe\" is not at DRace path.'' w)\<lparr>w_msr := False\<rparr>)
               else w)
      in show_command w)"

definition set_msr_box :: "gui_env \<Rightarrow> bool \<Rightarrow> window \<Rightarrow> window" where
  "set_msr_box env on w =
     (if on = w_msr w then w
      else if on then msr_on env (w\<lparr>w_msr := True\<rparr>) else msr_off env (w\<lparr>w_msr := False\<rparr>))"

definition separate_changed :: "bool \<Rightarrow> window \<Rightarrow> window" where
  "separate_changed on w =
     (let w = w\<lparr>w_po := (w_po w)\<lparr>po_run_separately := on\<rparr>\<rparr>
      in if \<not> on then (if w_proc w \<noteq> NotRunning \<and> w_run_enabled w then w\<lparr>w_run_enabled := False\<rparr> else w)
         else (if \<not> w_run_enabled w then w\<lparr>w_run_enabled := True\<rparr> else w))"

definition set_separate :: "bool \<Rightarrow> window \<Rightarrow> window" where
  "set_separate on w = (if on = w_separate w then w else separate_changed on (w\<lparr>w_separate := on\<rparr>))"

definition set_wrap :: "bool \<Rightarrow> window \<Rightarrow> window" where
  "set_wrap on w = (if on = w_wrap w then w else w\<lparr>w_wrap := on, w_po := (w_po w)\<lparr>po_wrap_text := on\<rparr>\<rparr>)"

definition click_detector :: "detector_btn \<Rightarrow> window \<Rightarrow> window" where
  "click_detector b w = show_entry (make_entry (btn_name b) DETECTOR ''-d'' False) (w\<lparr>w_radio := b\<rparr>)"

definition detector_options :: "string \<Rightarrow> window \<Rightarrow> window" where
  "detector_options text w = show_entry (accept_detector_args text) w"

definition dr_options :: "string \<Rightarrow> window \<Rightarrow> window" where
  "dr_options text w = show_entry (accept_dr_args text) w"

definition configure_report :: "gui_env \<Rightarrow> report_action list \<Rightarrow> window \<Rightarrow> window" where
  "configure_report env as w = show_command (run_report_config env as w)"

section \<open>Running\<close>

fun proc_changed :: "proc_state \<Rightarrow> window \<Rightarrow> window" where
  "proc_changed NotRunning w = w\<lparr>w_proc := NotRunning, w_input_enabled := False, w_stop_enabled := False, w_run_enabled := True\<rparr>"
| "proc_changed Running w = w\<lparr>w_proc := Running, w_input_enabled := True, w_run_enabled := False, w_stop_enabled := True\<rparr>"
| "proc_changed Starting w = w\<lparr>w_proc := Starting, w_input_enabled := False, w_run_enabled := False, w_stop_enabled := True\<rparr>"

definition run_effects :: "window \<Rightarrow> gui_effect list" where
  "run_effects w =
     (if command_is_valid (w_ch w)
      then (let embedded = (\<not> po_run_separately (w_po w)) in
        if w_proc w \<noteq> NotRunning \<and> embedded then [Message ''A process is already running.'']
        else (let msr = ch_msr_path (w_ch w)
              in (if msr \<noteq> [] then [launch_msr msr] else []) @
                 [if embedded then execute_embedded (ch_entire (w_ch w)) else execute (ch_entire (w_ch w))]))
      else [Message ''The command is not valid!''])"

definition click_run :: "window \<Rightarrow> window" where
  "click_run w = w\<lparr>w_effects := w_effects w @ run_effects w\<rparr>"

definition click_copy :: "window \<Rightarrow> window" where
  "click_copy w = w\<lparr>w_effects := w_effects w @ [Clipboard (ch_entire (w_ch w))]\<rparr>"

definition click_stop :: "nat \<Rightarrow> window \<Rightarrow> window" where
  "click_stop pid w = (if w_proc w \<noteq> NotRunning then w\<lparr>w_effects := w_effects w @ [stop_embedded pid]\<rparr> else w)"

section \<open>Loading and saving\<close>

definition check_radio :: "string \<Rightarrow> window \<Rightarrow> window" where
  "check_radio detector w =
     (let w = (if occurs_ci ''tsan'' detector then w\<lparr>w_radio := Tsan\<rparr> else w);
          w = (if occurs_ci ''dummy'' detector then w\<lparr>w_radio := Dummy\<rparr> else w)
      in if occurs_ci ''fasttrack'' detector then w\<lparr>w_radio := Fasttrack\<rparr> else w)"

text \<open>After a load a box is set twice, by \<^verbatim>\<open>setChecked\<close> and by \<^verbatim>\<open>setCheckState\<close>: a handler that
  refuses is asked again.\<close>

definition set_box :: "(bool \<Rightarrow> window \<Rightarrow> window) \<Rightarrow> bool \<Rightarrow> window \<Rightarrow> window" where
  "set_box f on w = f on (f on w)"

definition set_boxes_after_load :: "gui_env \<Rightarrow> report_action list \<Rightarrow> window \<Rightarrow> window" where
  "set_boxes_after_load env as w =
     (let w = set_dr_path env (remove_quotes (ch_command (w_ch w) DYNAMORIO)) w;
          w = set_config env (path_field (ch_command (w_ch w) CONFIGURATION)) w;
          w = set_drace_path env (path_field (ch_command (w_ch w) DRACE)) w;
          w = set_exe (path_field (ch_command (w_ch w) EXECUTABLE)) w;
          w = set_exe_args (ch_command (w_ch w) EXECUTABLE_ARGS) w;
          w = set_flags (ch_command (w_ch w) FLAGS) w;
          w = set_box set_debug (ch_command (w_ch w) DR_DEBUG \<noteq> []) w;
          w = set_box (set_report env as) (report_command_valid (w_rh w)) w;
          w = set_box (set_msr_box env) (ch_msr_path (w_ch w) \<noteq> []) w;
          w = set_box set_excl (ch_command (w_ch w) EXCL_STACK \<noteq> []) w;
          w = set_box set_auto (ch_command (w_ch w) REPORT_OPEN_CMD \<noteq> []) w;
          w = check_radio (ch_command (w_ch w) DETECTOR) w;
          w = set_separate (po_run_separately (w_po w)) w;
          w = set_wrap (po_wrap_text (w_po w)) w
      in show_entry make_command w)"

text \<open>\<open>None\<close>: an exception that nobody catches.\<close>

definition load_config :: "gui_env \<Rightarrow> report_action list \<Rightarrow> (u8 list \<Rightarrow> GuiCommand.config option) \<Rightarrow> u8 list \<Rightarrow> window \<Rightarrow> window option" where
  "load_config env as unpack file w =
     (case load unpack file (w_rh w) (w_ch w) (w_po w) of
        None \<Rightarrow> None
      | Some (ok, r, c, p) \<Rightarrow>
          (let w = w\<lparr>w_rh := r, w_ch := c, w_po := p\<rparr>
           in Some (if ok then set_boxes_after_load env as w else message ''File is not valid!'' w)))"

definition save_config :: "(GuiCommand.config \<Rightarrow> u8 list) \<Rightarrow> window \<Rightarrow> u8 list" where
  "save_config pack w = save pack (w_rh w) (w_ch w) (w_po w)"

section \<open>Starting\<close>

text \<open>\<open>absolute\<close> is the absolute path of a file in the current directory.\<close>

definition window_start :: "gui_env \<Rightarrow> (string \<Rightarrow> string) \<Rightarrow> report_handler \<Rightarrow> window" where
  "window_start env absolute r =
     (let w = window_new r;
          w = set_dr_path env (if ge_exists env ''drrun.exe'' then absolute ''drrun.exe'' else ''drrun.exe'') w;
          w = show_command w
      in if ge_exists env ''drace-client.dll'' then set_drace_path env (absolute ''drace-client.dll'') w else w)"

section \<open>The user\<close>

datatype gui_action = BrowseDr string | BrowseDrace string | BrowseExe string | BrowseConfig string
  | DrPath string | Config string | DracePath string | Exe string | ExeArgs string | Flags string
  | DebugBox bool | ReportBox bool "report_action list" | MsrBox bool | ExclBox bool | AutoBox bool | SeparateBox bool | WrapBox bool
  | DetectorBtn detector_btn | DetectorOptions string | DrOptions string | ConfigureReport "report_action list"
  | Run | Copy | Stop nat | Process proc_state

text \<open>A box that is disabled takes no clicks, nor does a disabled button.\<close>

fun gui_step :: "gui_env \<Rightarrow> gui_action \<Rightarrow> window \<Rightarrow> window" where
  "gui_step env (BrowseDr s) w = browse (set_dr_path env) s w"
| "gui_step env (BrowseDrace s) w = browse (set_drace_path env) s w"
| "gui_step env (BrowseExe s) w = browse set_exe s w"
| "gui_step env (BrowseConfig s) w = browse (set_config env) s w"
| "gui_step env (DrPath s) w = set_dr_path env s w"
| "gui_step env (Config s) w = set_config env s w"
| "gui_step env (DracePath s) w = set_drace_path env s w"
| "gui_step env (Exe s) w = set_exe s w"
| "gui_step env (ExeArgs s) w = set_exe_args s w"
| "gui_step env (Flags s) w = set_flags s w"
| "gui_step env (DebugBox on) w = set_debug on w"
| "gui_step env (ReportBox on as) w = set_report env as on w"
| "gui_step env (MsrBox on) w = set_msr_box env on w"
| "gui_step env (ExclBox on) w = set_excl on w"
| "gui_step env (AutoBox on) w = (if w_auto_enabled w then set_auto on w else w)"
| "gui_step env (SeparateBox on) w = set_separate on w"
| "gui_step env (WrapBox on) w = set_wrap on w"
| "gui_step env (DetectorBtn b) w = click_detector b w"
| "gui_step env (DetectorOptions s) w = detector_options s w"
| "gui_step env (DrOptions s) w = dr_options s w"
| "gui_step env (ConfigureReport as) w = configure_report env as w"
| "gui_step env Run w = (if w_run_enabled w then click_run w else w)"
| "gui_step env Copy w = click_copy w"
| "gui_step env (Stop pid) w = (if w_stop_enabled w then click_stop pid w else w)"
| "gui_step env (Process st) w = proc_changed st w"

section \<open>The command is made of the fields\<close>

definition entry_text :: "string \<Rightarrow> string \<Rightarrow> string" where
  "entry_text flag path = (if path = [] then [] else if flag = [] then quoted path else flag @ '' '' @ quoted path)"

lemma make_entry_command [simp]:
  "t \<noteq> REPORT_CMD \<Longrightarrow> t \<noteq> REPORT_OPEN_CMD \<Longrightarrow>
    ch_command (make_entry path t flag False c) = (ch_command c)(t := entry_text flag path)"
  by (simp add: make_entry_def entry_text_def quoted_def Let_def)

lemma make_entry_msr [simp]: "ch_msr_path (make_entry path t flag q c) = ch_msr_path c"
  by (simp add: make_entry_def Let_def)

lemma other_entries [simp]:
  "ch_command (make_text_entry s t c) = (ch_command c)(t := if (t = REPORT_CMD \<or> t = REPORT_OPEN_CMD) \<and> s \<noteq> [] then ''; '' @ s else s)"
  "ch_command (make_flag_entry s c) = (ch_command c)(FLAGS := s)"
  "ch_command (make_report_auto_open_entry n c) = (ch_command c)(REPORT_OPEN_CMD := if n \<noteq> 0 then ''; '' @ report_open_text else [])"
  "ch_msr_path (make_text_entry s t c) = ch_msr_path c" "ch_msr_path (make_flag_entry s c) = ch_msr_path c"
  "ch_msr_path (make_report_auto_open_entry n c) = ch_msr_path c"
  by (auto simp: make_text_entry_def make_flag_entry_def make_report_auto_open_entry_def report_open_text_def)

lemma other_up_to_date [simp]:
  "up_to_date (make_text_entry s t c)" "up_to_date (make_flag_entry s c)" "up_to_date (make_report_auto_open_entry n c)"
  by (simp_all add: make_text_entry_def make_flag_entry_def make_report_auto_open_entry_def)

lemma entry_text_plain [simp]: "entry_text [] ''-debug'' = ''-debug''" "entry_text [] ''--excl-stack'' = ''--excl-stack''" "entry_text p [] = []"
  by (simp_all add: entry_text_def quoted_def has_space_def white_def)

lemma entry_text_btn [simp]: "entry_text ''-d'' (btn_name b) = ''-d '' @ btn_name b"
  by (cases b) (simp_all add: entry_text_def quoted_def has_space_def white_def)

text \<open>Fields, boxes and handlers say the same.\<close>

definition fields_fit :: "window \<Rightarrow> bool" where
  "fields_fit w \<longleftrightarrow> (let cmd = ch_command (w_ch w) in
     cmd DYNAMORIO = entry_text [] (w_dr_path w) \<and> cmd CONFIGURATION = entry_text ''-c'' (w_config w) \<and>
     cmd DRACE = entry_text ''-c'' (w_drace_path w) \<and> cmd EXECUTABLE = entry_text ''--'' (w_exe w) \<and>
     cmd EXECUTABLE_ARGS = w_exe_args w \<and> cmd FLAGS = w_flags w \<and> cmd DETECTOR = ''-d '' @ btn_name (w_radio w))"

definition boxes_fit :: "window \<Rightarrow> bool" where
  "boxes_fit w \<longleftrightarrow> (let cmd = ch_command (w_ch w) in
     cmd DR_DEBUG = (if w_dr_debug w then ''-debug'' else []) \<and> cmd EXCL_STACK = (if w_excl w then ''--excl-stack'' else []) \<and>
     cmd EXT_CTRL = (if w_msr w then ''--extctrl'' else []) \<and> (w_msr w \<longleftrightarrow> ch_msr_path (w_ch w) \<noteq> []) \<and>
     cmd REPORT_OPEN_CMD = (if w_auto w then ''; '' @ report_open_text else [])) \<and>
     (w_separate w \<longleftrightarrow> po_run_separately (w_po w)) \<and> (w_wrap w \<longleftrightarrow> po_wrap_text (w_po w))"

definition report_fits :: "window \<Rightarrow> bool" where
  "report_fits w \<longleftrightarrow> rh_create (w_rh w) = w_report w \<and> rh_auto_open (w_rh w) = w_auto w \<and>
     (w_report w \<longrightarrow> rh_conv_cmd (w_rh w) \<noteq> []) \<and> rh_name (w_rh w) \<noteq> [] \<and>
     (w_auto_enabled w \<longleftrightarrow> w_report w) \<and> (w_auto w \<longrightarrow> w_report w)"

definition shown :: "window \<Rightarrow> bool" where
  "shown w \<longleftrightarrow> up_to_date (w_ch w) \<and> w_output w = ch_entire (w_ch w)"

definition buttons_fit :: "window \<Rightarrow> bool" where
  "buttons_fit w \<longleftrightarrow> (w_run_enabled w \<or> w_proc w \<noteq> NotRunning) \<and> (w_stop_enabled w \<longleftrightarrow> w_proc w \<noteq> NotRunning) \<and>
     (w_input_enabled w \<longleftrightarrow> w_proc w = Running)"

definition window_ok :: "window \<Rightarrow> bool" where
  "window_ok w \<longleftrightarrow> fields_fit w \<and> boxes_fit w \<and> report_fits w \<and> shown w \<and> buttons_fit w"

lemmas fit_defs = fields_fit_def boxes_fit_def report_fits_def shown_def buttons_fit_def Let_def
lemmas show_defs = show_entry_def show_command_def message_def

lemma set_dr_path_ok: "window_ok w \<Longrightarrow> window_ok (set_dr_path env s w)"
  by (simp add: window_ok_def fit_defs set_dr_path_def dr_path_changed_def show_defs)

lemma set_config_ok: "window_ok w \<Longrightarrow> window_ok (set_config env s w)"
  by (simp add: window_ok_def fit_defs set_config_def config_changed_def show_defs)

lemma set_drace_path_ok:
  assumes "window_ok w"
  shows "window_ok (set_drace_path env s w)"
proof -
  have a: "window_ok (show_entry (make_entry s DRACE ''-c'' False) (w\<lparr>w_drace_path := s\<rparr>))"
    using assms by (simp add: window_ok_def fit_defs show_defs)
  have g: "window_ok (w\<lparr>w_drace_green := b\<rparr>) = window_ok w" for w b
    by (simp add: window_ok_def fit_defs)
  show ?thesis
    using assms a set_config_ok [OF a] by (simp add: set_drace_path_def drace_path_changed_def g Let_def)
qed

lemma text_fields_ok:
  "window_ok w \<Longrightarrow> window_ok (set_exe s w)" "window_ok w \<Longrightarrow> window_ok (set_exe_args s w)" "window_ok w \<Longrightarrow> window_ok (set_flags s w)"
  by (simp_all add: window_ok_def fit_defs set_exe_def set_exe_args_def set_flags_def show_defs)

lemma plain_boxes_ok:
  "window_ok w \<Longrightarrow> window_ok (set_debug on w)" "window_ok w \<Longrightarrow> window_ok (set_excl on w)"
  "window_ok w \<Longrightarrow> window_ok (set_separate on w)" "window_ok w \<Longrightarrow> window_ok (set_wrap on w)"
  by (auto simp: window_ok_def fit_defs set_debug_def debug_changed_def set_excl_def excl_changed_def set_separate_def
      separate_changed_def set_wrap_def show_defs)

lemma options_ok:
  "window_ok w \<Longrightarrow> window_ok (click_detector b w)" "window_ok w \<Longrightarrow> window_ok (detector_options s w)" "window_ok w \<Longrightarrow> window_ok (dr_options s w)"
  by (simp_all add: window_ok_def fit_defs click_detector_def detector_options_def dr_options_def accept_detector_args_def
      accept_dr_args_def show_defs)

lemma running_ok:
  "window_ok w \<Longrightarrow> window_ok (click_run w)" "window_ok w \<Longrightarrow> window_ok (click_copy w)" "window_ok w \<Longrightarrow> window_ok (click_stop pid w)"
  by (auto simp: window_ok_def fit_defs click_run_def click_copy_def click_stop_def)

lemma proc_changed_ok: "window_ok w \<Longrightarrow> window_ok (proc_changed st w)"
  by (cases st) (simp_all add: window_ok_def fit_defs)

section \<open>The report box\<close>

text \<open>What holds also while the report box is being ticked or unticked.\<close>

definition mid_ok :: "window \<Rightarrow> bool" where
  "mid_ok w \<longleftrightarrow> fields_fit w \<and> boxes_fit w \<and> buttons_fit w \<and> rh_name (w_rh w) \<noteq> [] \<and> rh_auto_open (w_rh w) = w_auto w"

lemma window_ok_mid: "window_ok w \<longleftrightarrow> mid_ok w \<and> report_fits w \<and> shown w"
  by (auto simp: window_ok_def mid_ok_def report_fits_def)

lemma window_mid_ok: "window_ok w \<Longrightarrow> mid_ok w"
  by (simp add: window_ok_mid)

lemma mid_ok_name: "mid_ok w \<Longrightarrow> rh_name (w_rh w) \<noteq> []"
  by (simp add: mid_ok_def)

lemma mid_ok_handlers:
  assumes "mid_ok w" "rh_name r \<noteq> []" "rh_auto_open r = w_auto w" "ch_msr_path c = ch_msr_path (w_ch w)"
    and "ch_command c = ch_command (w_ch w) \<or> (\<exists>x y. ch_command c = (ch_command (w_ch w))(REPORT_FLAG := x, REPORT_CMD := y))"
  shows "mid_ok (w\<lparr>w_rh := r, w_ch := c, w_effects := es\<rparr>)"
  using assms by (elim disjE exE) (simp_all add: mid_ok_def fit_defs)

lemma mid_ok_updates [simp]:
  "mid_ok (w\<lparr>w_report := on\<rparr>) = mid_ok w" "mid_ok (w\<lparr>w_effects := es\<rparr>) = mid_ok w" "mid_ok (show_command w) = mid_ok w"
  "mid_ok (w\<lparr>w_rh := (w_rh w)\<lparr>rh_create := b\<rparr>\<rparr>) = mid_ok w" "mid_ok (w\<lparr>w_auto_enabled := on\<rparr>) = mid_ok w"
  "mid_ok (message text w) = mid_ok w"
  by (simp_all add: mid_ok_def fit_defs show_defs)

lemma apply_report_mid [simp]: "mid_ok (apply_report w) = mid_ok w"
  by (simp add: mid_ok_def fit_defs apply_report_def set_report_command_entries)

lemma apply_report_frame [simp]:
  "w_rh (apply_report w) = w_rh w" "w_report (apply_report w) = w_report w" "w_auto (apply_report w) = w_auto w"
  "w_auto_enabled (apply_report w) = w_auto_enabled w" "w_effects (apply_report w) = w_effects w"
  by (simp_all add: apply_report_def)

lemma show_command_frame [simp]:
  "w_rh (show_command w) = w_rh w" "w_report (show_command w) = w_report w" "w_auto (show_command w) = w_auto w"
  "w_auto_enabled (show_command w) = w_auto_enabled w" "w_ch (show_command w) = w_ch w"
  by (simp_all add: show_command_def)

lemma shown_report [simp]: "shown (show_command (apply_report w))"
  by (simp add: shown_def show_command_def apply_report_def)

lemma shown_updates [simp]:
  "shown (w\<lparr>w_report := on\<rparr>) = shown w" "shown (w\<lparr>w_auto_enabled := on\<rparr>) = shown w" "shown (w\<lparr>w_rh := r\<rparr>) = shown w"
  by (simp_all add: shown_def)

lemma set_auto_mid:
  assumes "mid_ok w"
  shows "mid_ok (set_auto on w) \<and> w_rh (set_auto on w) = (w_rh w)\<lparr>rh_auto_open := on\<rparr> \<and> w_auto (set_auto on w) = on
    \<and> w_report (set_auto on w) = w_report w \<and> w_auto_enabled (set_auto on w) = w_auto_enabled w \<and> (shown w \<longrightarrow> shown (set_auto on w))"
  using assms
  by (auto simp: mid_ok_def fit_defs set_auto_def auto_changed_def apply_report_def set_report_command_entries show_defs)

lemma report_off_ok:
  assumes "mid_ok w" "\<not> w_report w"
  shows "window_ok (report_off w)"
proof -
  let ?w = "show_command (apply_report (w\<lparr>w_rh := (w_rh w)\<lparr>rh_create := False\<rparr>\<rparr>))"
  have "mid_ok ?w" using assms(1) by simp
  note s = set_auto_mid [OF this, of False]
  have "window_ok ((set_auto False ?w)\<lparr>w_auto_enabled := False\<rparr>)"
    using s assms(2) mid_ok_name [OF assms(1)] by (simp add: window_ok_mid report_fits_def)
  then show ?thesis by (simp add: report_off_def set_auto_report_checkable_def Let_def)
qed

lemma report_valid_ok:
  assumes "mid_ok w" "w_report w" "report_command_valid (w_rh w)"
  shows "window_ok (set_auto_report_checkable True (show_command (apply_report w)))"
  using assms
  by (simp add: set_auto_report_checkable_def window_ok_def mid_ok_def fit_defs report_command_valid_def)
    (simp add: show_defs apply_report_def set_report_command_entries)

lemma run_report_config_inv:
  assumes "\<not> ge_portable env []"
  shows "\<exists>d. run_report_config env as w = w\<lparr>w_rh := rd_rh d, w_ch := rd_ch d, w_effects := w_effects w @ rd_effects d\<rparr>
    \<and> dialog_inv (w_rh w) (w_ch w) d"
  using report_session_inv [OF open_report_config_inv assms] by (auto simp: run_report_config_def Let_def)

lemma run_report_config_mid:
  assumes "mid_ok w" "\<not> ge_portable env []"
  shows "mid_ok (run_report_config env as w) \<and> w_report (run_report_config env as w) = w_report w
    \<and> w_auto_enabled (run_report_config env as w) = w_auto_enabled w
    \<and> rh_create (w_rh (run_report_config env as w)) = rh_create (w_rh w)"
proof -
  from run_report_config_inv [OF assms(2), of as w] obtain d where
    d: "run_report_config env as w = w\<lparr>w_rh := rd_rh d, w_ch := rd_ch d, w_effects := w_effects w @ rd_effects d\<rparr>"
      "dialog_inv (w_rh w) (w_ch w) d" by blast
  have "rh_name (rd_rh d) \<noteq> []" "rh_auto_open (rd_rh d) = w_auto w" "rh_create (rd_rh d) = rh_create (w_rh w)"
    "ch_msr_path (rd_ch d) = ch_msr_path (w_ch w)"
    using d(2) assms(1) by (auto simp: dialog_inv_def mid_ok_def)
  moreover have "ch_command (rd_ch d) = ch_command (w_ch w) \<or> (\<exists>x y. ch_command (rd_ch d) = (ch_command (w_ch w))(REPORT_FLAG := x, REPORT_CMD := y))"
  proof (cases "rd_ch d = w_ch w")
    case False
    then have "rd_ch d = snd (set_report_command (rd_rh d) (w_ch w))" using d(2) by (auto simp: dialog_inv_def)
    then show ?thesis by (intro disjI2 exI) (simp add: set_report_command_entries)
  qed simp
  ultimately show ?thesis using mid_ok_handlers [OF assms(1)] by (simp add: d(1))
qed

lemma report_on_ok:
  assumes "mid_ok w" "w_report w" "\<not> ge_portable env []"
  shows "window_ok (report_on env as w)"
proof -
  let ?w1 = "w\<lparr>w_rh := (w_rh w)\<lparr>rh_create := True\<rparr>\<rparr>" and ?w2 = "run_report_config env as (apply_report (w\<lparr>w_rh := (w_rh w)\<lparr>rh_create := True\<rparr>\<rparr>))"
  have w1: "mid_ok ?w1" "w_report ?w1" using assms by simp_all
  have w2: "mid_ok ?w2" "w_report ?w2" using run_report_config_mid [of "apply_report ?w1" env as] assms w1 by simp_all
  show ?thesis
    using report_valid_ok [OF w1] report_valid_ok [OF w2]
      report_off_ok [of "(message ''ReportConverter is not set correctly'' (apply_report ?w2))\<lparr>w_report := False\<rparr>"] w2(1)
    by (simp add: report_on_def Let_def)
qed

lemma set_report_ok:
  assumes "window_ok w" "\<not> ge_portable env []"
  shows "window_ok (set_report env as on w)"
  using report_on_ok [of "w\<lparr>w_report := True\<rparr>" env as] report_off_ok [of "w\<lparr>w_report := False\<rparr>"] window_mid_ok [OF assms(1)] assms
  by (simp add: set_report_def)

lemma set_auto_ok:
  assumes "window_ok w" "w_auto_enabled w"
  shows "window_ok (set_auto on w)"
  using set_auto_mid [OF window_mid_ok [OF assms(1)], of on] assms by (auto simp: window_ok_mid report_fits_def)

lemma configure_report_ok:
  assumes "window_ok w" "\<not> ge_portable env []"
  shows "window_ok (configure_report env as w)"
proof -
  from run_report_config_inv [OF assms(2), of as w] obtain d where
    d: "run_report_config env as w = w\<lparr>w_rh := rd_rh d, w_ch := rd_ch d, w_effects := w_effects w @ rd_effects d\<rparr>"
      "dialog_inv (w_rh w) (w_ch w) d" by blast
  have "up_to_date (rd_ch d)" using d(2) assms(1) by (auto simp: dialog_inv_def window_ok_def shown_def)
  then have "shown (configure_report env as w)" by (simp add: configure_report_def d(1) shown_def show_command_def)
  moreover have "mid_ok (configure_report env as w)"
    using run_report_config_mid [OF window_mid_ok [OF assms(1)] assms(2)] by (simp add: configure_report_def)
  moreover have "report_fits (configure_report env as w)"
    using d assms(1) by (auto simp: configure_report_def dialog_inv_def window_ok_def report_fits_def show_command_def)
  ultimately show ?thesis by (simp add: window_ok_mid)
qed

section \<open>The resolver box\<close>

lemma make_extctrl_entries [simp]:
  "ch_command (make_extctrl b c) = (ch_command c)(EXT_CTRL := if b then ''--extctrl'' else [])" "ch_msr_path (make_extctrl b c) = ch_msr_path c"
  "up_to_date (make_extctrl b c)"
  by (simp_all add: make_extctrl_def)

lemma up_to_date_msr [simp]: "up_to_date (c\<lparr>ch_msr_path := p\<rparr>) = up_to_date c"
  using entire_cong [of "c\<lparr>ch_msr_path := p\<rparr>" c] by (simp add: up_to_date_def)

lemma set_msr_box_ok:
  assumes "window_ok w"
  shows "window_ok (set_msr_box env on w)"
  using assms
  by (auto simp: window_ok_def fit_defs set_msr_box_def msr_on_def msr_off_def validate_msr_def validate_and_set_msr_def show_defs
      split: prod.splits if_splits)

section \<open>Every window\<close>

lemma gui_step_ok:
  assumes "window_ok w" "\<not> ge_portable env []"
  shows "window_ok (gui_step env a w)"
  using assms set_report_ok [OF assms] configure_report_ok [OF assms] set_auto_ok [OF assms(1)]
  by (cases a) (simp_all add: browse_def set_dr_path_ok set_config_ok set_drace_path_ok text_fields_ok plain_boxes_ok options_ok running_ok
      proc_changed_ok set_msr_box_ok)

lemma window_new_mid:
  assumes "\<not> rh_create r" "\<not> rh_auto_open r" "rh_name r \<noteq> []"
  shows "fields_fit (window_new r) \<and> boxes_fit (window_new r) \<and> report_fits (window_new r) \<and> buttons_fit (window_new r)"
  using assms by (simp add: fit_defs window_new_def command_handler_new_def)
    (simp add: entry_text_def quoted_def has_space_def white_def)

end
