(* ===== verification/GuiLoad.thy ===== *)
theory GuiLoad
  imports GuiWindow
begin

text \<open>
  Loading a configuration into the main window (\<^verbatim>\<open>set_boxes_after_load\<close> in
  \<^verbatim>\<open>tools/DRaceGUI/qt/draceGUI.cpp\<close>): the handlers are loaded first, then every field and box is set from
  them, and each change runs the handler of its signal, which writes to the handlers again. The lemmas follow
  this step by step: no step changes an entry that was loaded.
\<close>

section \<open>What is saved\<close>

text \<open>A window without its colours, its output, the state of the process and the effects so far.\<close>

definition settings :: "window \<Rightarrow> window" where
  "settings w = w\<lparr>w_dr_green := False, w_drace_green := False, w_config_green := False, w_output := [], w_proc := NotRunning,
     w_run_enabled := True, w_stop_enabled := False, w_input_enabled := False, w_effects := [], w_ch := (w_ch w)\<lparr>ch_entire := []\<rparr>\<rparr>"

lemma command_handler_eq_iff:
  "(c :: command_handler)\<lparr>ch_entire := []\<rparr> = d\<lparr>ch_entire := []\<rparr> \<longleftrightarrow> ch_command c = ch_command d \<and> ch_msr_path c = ch_msr_path d"
  by (cases c; cases d) auto

lemma settings_eq_iff:
  "settings w = settings v \<longleftrightarrow> w_dr_path w = w_dr_path v \<and> w_drace_path w = w_drace_path v \<and> w_config w = w_config v \<and>
     w_exe w = w_exe v \<and> w_exe_args w = w_exe_args v \<and> w_flags w = w_flags v \<and> w_dr_debug w = w_dr_debug v \<and>
     w_report w = w_report v \<and> w_msr w = w_msr v \<and> w_excl w = w_excl v \<and> w_auto w = w_auto v \<and>
     w_auto_enabled w = w_auto_enabled v \<and> w_separate w = w_separate v \<and> w_wrap w = w_wrap v \<and> w_radio w = w_radio v \<and>
     ch_command (w_ch w) = ch_command (w_ch v) \<and> ch_msr_path (w_ch w) = ch_msr_path (w_ch v) \<and>
     w_rh w = w_rh v \<and> w_po w = w_po v"
  by (cases w; cases v) (auto simp: settings_def command_handler_eq_iff)

section \<open>One field after the other\<close>

lemma upd_same: "f t = x \<Longrightarrow> f(t := x) = f"
  by auto

lemma set_dr_path_settings:
  "settings w = settings v \<Longrightarrow> ch_command (w_ch v) DYNAMORIO = entry_text [] s \<Longrightarrow>
    settings (set_dr_path env s w) = settings (v\<lparr>w_dr_path := s\<rparr>)"
  by (auto simp: settings_eq_iff set_dr_path_def dr_path_changed_def show_defs upd_same)

lemma set_config_settings:
  "settings w = settings v \<Longrightarrow> ch_command (w_ch v) CONFIGURATION = entry_text ''-c'' s \<Longrightarrow>
    settings (set_config env s w) = settings (v\<lparr>w_config := s\<rparr>)"
  by (auto simp: settings_eq_iff set_config_def config_changed_def show_defs upd_same)

lemma set_drace_path_settings:
  "settings w = settings v \<Longrightarrow> ch_command (w_ch v) DRACE = entry_text ''-c'' s \<Longrightarrow> w_config v \<noteq> [] \<or> \<not> client_found env s \<Longrightarrow>
    settings (set_drace_path env s w) = settings (v\<lparr>w_drace_path := s\<rparr>)"
  by (auto simp: settings_eq_iff set_drace_path_def drace_path_changed_def show_defs upd_same Let_def)

lemma set_exe_settings:
  "settings w = settings v \<Longrightarrow> ch_command (w_ch v) EXECUTABLE = entry_text ''--'' s \<Longrightarrow>
    settings (set_exe s w) = settings (v\<lparr>w_exe := s\<rparr>)"
  by (auto simp: settings_eq_iff set_exe_def show_defs upd_same)

lemma set_exe_args_settings:
  "settings w = settings v \<Longrightarrow> ch_command (w_ch v) EXECUTABLE_ARGS = s \<Longrightarrow>
    settings (set_exe_args s w) = settings (v\<lparr>w_exe_args := s\<rparr>)"
  by (auto simp: settings_eq_iff set_exe_args_def show_defs upd_same)

lemma set_flags_settings:
  "settings w = settings v \<Longrightarrow> ch_command (w_ch v) FLAGS = s \<Longrightarrow>
    settings (set_flags s w) = settings (v\<lparr>w_flags := s\<rparr>)"
  by (auto simp: settings_eq_iff set_flags_def show_defs upd_same)

lemma set_debug_settings:
  "settings w = settings v \<Longrightarrow> ch_command (w_ch v) DR_DEBUG = (if on then ''-debug'' else []) \<Longrightarrow>
    settings (set_debug on w) = settings (v\<lparr>w_dr_debug := on\<rparr>)"
  by (auto simp: settings_eq_iff set_debug_def debug_changed_def show_defs upd_same)

lemma set_excl_settings:
  "settings w = settings v \<Longrightarrow> ch_command (w_ch v) EXCL_STACK = (if on then ''--excl-stack'' else []) \<Longrightarrow>
    settings (set_excl on w) = settings (v\<lparr>w_excl := on\<rparr>)"
  by (auto simp: settings_eq_iff set_excl_def excl_changed_def show_defs upd_same)

lemma set_separate_settings:
  "settings w = settings v \<Longrightarrow> po_run_separately (w_po v) = on \<Longrightarrow> settings (set_separate on w) = settings (v\<lparr>w_separate := on\<rparr>)"
  by (cases "w_po v") (auto simp: settings_eq_iff set_separate_def separate_changed_def Let_def)

lemma set_wrap_settings:
  "settings w = settings v \<Longrightarrow> po_wrap_text (w_po v) = on \<Longrightarrow> settings (set_wrap on w) = settings (v\<lparr>w_wrap := on\<rparr>)"
  by (cases "w_po v") (auto simp: settings_eq_iff set_wrap_def)

lemma show_make_command_settings: "settings w = settings v \<Longrightarrow> settings (show_entry make_command w) = settings v"
  by (simp add: settings_eq_iff show_defs)

lemma occurs_btn:
  "occurs_ci ''tsan'' (''-d '' @ btn_name b) = (b = Tsan)" "occurs_ci ''dummy'' (''-d '' @ btn_name b) = (b = Dummy)"
  "occurs_ci ''fasttrack'' (''-d '' @ btn_name b) = (b = Fasttrack)"
  by (cases b; simp; code_simp)+

lemma check_radio_settings:
  "settings w = settings v \<Longrightarrow> settings (check_radio (''-d '' @ btn_name b) w) = settings (v\<lparr>w_radio := b\<rparr>)"
  unfolding check_radio_def occurs_btn by (cases b) (simp_all add: settings_eq_iff)

lemma eval_msr_path_cong: "ch_command c DRACE = ch_command d DRACE \<Longrightarrow> eval_msr_path p e c = eval_msr_path p e d"
  by (simp add: eval_msr_path_def)

lemma set_msr_settings:
  assumes "settings w = settings v" "on = (ch_msr_path (w_ch v) \<noteq> [])" "ch_command (w_ch v) EXT_CTRL = (if on then ''--extctrl'' else [])"
    and "on \<longrightarrow> eval_msr_path (ge_parent env) (exe_msr (ge_run env)) (w_ch v) = ch_msr_path (w_ch v)"
  shows "settings (set_msr_box env on w) = settings (v\<lparr>w_msr := on\<rparr>)"
proof -
  have e: "eval_msr_path (ge_parent env) (exe_msr (ge_run env)) (make_extctrl False (w_ch w))
      = eval_msr_path (ge_parent env) (exe_msr (ge_run env)) (w_ch v)"
    using assms(1) by (intro eval_msr_path_cong) (simp add: settings_eq_iff)
  show ?thesis
    using assms e
    by (auto simp: settings_eq_iff set_msr_box_def msr_on_def msr_off_def validate_msr_def validate_and_set_msr_def show_defs upd_same)
qed

section \<open>The report boxes\<close>

lemma settings_show [simp]: "settings (show_command w) = settings w"
  by (simp add: settings_eq_iff show_command_def)

lemma settings_cong:
  "settings w = settings v \<Longrightarrow> settings (w\<lparr>w_auto_enabled := on\<rparr>) = settings (v\<lparr>w_auto_enabled := on\<rparr>)"
  by (simp add: settings_eq_iff)

lemma apply_report_settings:
  assumes "settings w = settings v" "report_consistent (w_rh v) (w_ch v)"
  shows "settings (apply_report w) = settings v"
  using assms by (auto simp: settings_eq_iff apply_report_def set_report_command_entries report_consistent_def upd_same)

lemma set_auto_settings:
  assumes "settings w = settings v" "rh_auto_open (w_rh v) = w_auto v" "report_consistent (w_rh v) (w_ch v)"
    and "ch_command (w_ch v) REPORT_OPEN_CMD = (if on then ''; '' @ report_open_text else [])"
  shows "settings (set_auto on w) = settings (v\<lparr>w_auto := on, w_rh := (w_rh v)\<lparr>rh_auto_open := on\<rparr>,
    w_ch := (w_ch v)\<lparr>ch_command := (ch_command (w_ch v))(REPORT_CMD := report_cmd_text ((w_rh v)\<lparr>rh_auto_open := on\<rparr>))\<rparr>\<rparr>)"
proof (cases "on = w_auto v")
  case True
  then have r: "(w_rh v)\<lparr>rh_auto_open := on\<rparr> = w_rh v" using assms(2) by simp
  have "(ch_command (w_ch v))(REPORT_CMD := report_cmd_text (w_rh v)) = ch_command (w_ch v)"
    using assms(3) by (simp add: report_consistent_def upd_same)
  then show ?thesis using assms(1) True unfolding r by (simp add: settings_eq_iff set_auto_def)
next
  case False
  let ?r = "(w_rh v)\<lparr>rh_auto_open := on\<rparr>"
  let ?w = "apply_report (w\<lparr>w_auto := on, w_rh := ?r\<rparr>)"
  let ?v = "v\<lparr>w_auto := on, w_rh := ?r, w_ch := (w_ch v)\<lparr>ch_command := (ch_command (w_ch v))(REPORT_CMD := report_cmd_text ?r)\<rparr>\<rparr>"
  have w: "w_rh w = w_rh v" "w_auto w = w_auto v" using assms(1) by (simp_all add: settings_eq_iff)
  have f: "(ch_command (w_ch v))(REPORT_FLAG := report_flag_text ?r) = ch_command (w_ch v)"
    using assms(3) by (intro upd_same) (simp add: report_consistent_def report_flag_text_def report_command_valid_def)
  have a: "settings ?w = settings ?v"
    using assms(1) by (simp add: settings_eq_iff apply_report_def set_report_command_entries f)
  have s: "set_auto on w = show_entry (make_report_auto_open_entry (if on then 2 else 0)) (if report_command_valid ?r then show_command ?w else ?w)"
    using False w by (simp add: set_auto_def auto_changed_def Let_def)
  have "settings (show_entry (make_report_auto_open_entry (if on then 2 else 0)) x) = settings ?v" if "settings x = settings ?v" for x
    using that assms(4) by (simp add: settings_eq_iff show_entry_def show_command_def fun_upd_twist upd_same)
  from this [of ?w] this [of "show_command ?w"] a show ?thesis unfolding s by simp
qed

lemma invalid_report_text: "\<not> report_command_valid r \<Longrightarrow> report_cmd_text r = [] \<and> report_flag_text r = []"
  by (simp add: report_cmd_text_def report_flag_text_def)

lemma set_report_settings:
  assumes "settings w = settings v" "rh_auto_open (w_rh v) = w_auto v" "report_consistent (w_rh v) (w_ch v)"
    and "w_auto_enabled v = w_report v" "w_auto v \<longrightarrow> w_report v" "report_command_valid (w_rh v) = on" "rh_create (w_rh v) = on"
    and "\<not> on \<longrightarrow> ch_command (w_ch v) REPORT_OPEN_CMD = []"
  shows "settings (set_report env as on w) = settings (v\<lparr>w_report := on, w_auto := (w_auto v \<and> on), w_auto_enabled := on,
    w_rh := (w_rh v)\<lparr>rh_auto_open := (w_auto v \<and> on)\<rparr>\<rparr>)"
proof (cases "on = w_report v")
  case True
  then show ?thesis using assms by (auto simp: settings_eq_iff set_report_def)
next
  case change: False
  show ?thesis
  proof (cases on)
    case True
    then have r: "(w_rh v)\<lparr>rh_create := True\<rparr> = w_rh v" "(w_rh v)\<lparr>rh_auto_open := False\<rparr> = w_rh v" "\<not> w_auto v"
      using assms change by auto
    let ?w = "w\<lparr>w_report := True, w_rh := (w_rh w)\<lparr>rh_create := True\<rparr>\<rparr>"
    have w: "w_rh w = w_rh v" "w_auto w = w_auto v" "w_report w = w_report v" using assms(1) by (simp_all add: settings_eq_iff)
    have "settings ?w = settings (v\<lparr>w_report := True\<rparr>)" using assms(1) r by (simp add: settings_eq_iff)
    then have a: "settings (apply_report ?w) = settings (v\<lparr>w_report := True\<rparr>)"
      by (rule apply_report_settings) (use assms(3) in simp)
    have "report_command_valid (w_rh ?w)" using assms(6) True r w by simp
    then have "set_report env as on w = (show_command (apply_report ?w))\<lparr>w_auto_enabled := True\<rparr>"
      using True change w by (simp add: set_report_def report_on_def set_auto_report_checkable_def)
    moreover have "settings ((show_command (apply_report ?w))\<lparr>w_auto_enabled := True\<rparr>) = settings (v\<lparr>w_report := True, w_auto_enabled := True\<rparr>)"
      using a by (intro settings_cong) simp
    moreover have "v\<lparr>w_report := on, w_auto := w_auto v \<and> on, w_auto_enabled := on, w_rh := (w_rh v)\<lparr>rh_auto_open := w_auto v \<and> on\<rparr>\<rparr>
        = v\<lparr>w_report := True, w_auto_enabled := True\<rparr>"
      using True r by (cases v) simp
    ultimately show ?thesis by simp
  next
    case off: False
    then have r: "(w_rh v)\<lparr>rh_create := False\<rparr> = w_rh v" using assms by auto
    let ?w = "show_command (apply_report (w\<lparr>w_report := False, w_rh := (w_rh w)\<lparr>rh_create := False\<rparr>\<rparr>))"
    have "settings (w\<lparr>w_report := False, w_rh := (w_rh w)\<lparr>rh_create := False\<rparr>\<rparr>) = settings (v\<lparr>w_report := False\<rparr>)"
      using assms(1) r by (simp add: settings_eq_iff)
    then have "settings ?w = settings (v\<lparr>w_report := False\<rparr>)"
      using apply_report_settings [of _ "v\<lparr>w_report := False\<rparr>"] assms(3) by (simp add: settings_eq_iff show_command_def)
    from set_auto_settings [OF this, of False] have s: "settings (set_auto False ?w) = settings (v\<lparr>w_report := False, w_auto := False,
        w_rh := (w_rh v)\<lparr>rh_auto_open := False\<rparr>,
        w_ch := (w_ch v)\<lparr>ch_command := (ch_command (w_ch v))(REPORT_CMD := report_cmd_text ((w_rh v)\<lparr>rh_auto_open := False\<rparr>))\<rparr>\<rparr>)"
      using assms off by simp
    have "report_cmd_text ((w_rh v)\<lparr>rh_auto_open := False\<rparr>) = ch_command (w_ch v) REPORT_CMD"
      using assms(3,6) off invalid_report_text [of "w_rh v"] invalid_report_text [of "(w_rh v)\<lparr>rh_auto_open := False\<rparr>"]
      by (simp add: report_consistent_def report_command_valid_def)
    with s off change assms(1) show ?thesis
      by (auto simp: set_report_def report_off_def set_auto_report_checkable_def settings_eq_iff upd_same Let_def)
  qed
qed


section \<open>Setting the fields and boxes from the handlers\<close>

lemma set_report_same: "on = w_report w \<Longrightarrow> set_report env as on w = w"
  by (simp add: set_report_def)

lemma set_auto_same: "on = w_auto w \<Longrightarrow> set_auto on w = w"
  by (simp add: set_auto_def)

lemma settings_flags: "settings w = settings v \<Longrightarrow> w_report w = w_report v" "settings w = settings v \<Longrightarrow> w_auto w = w_auto v"
  by (simp_all add: settings_eq_iff)

lemma set_box_settings:
  assumes "settings (f on w) = settings v'" "\<And>x. settings x = settings v' \<Longrightarrow> settings (f on x) = settings v'"
  shows "settings (set_box f on w) = settings v'"
  using assms by (simp add: set_box_def)

text \<open>A path that \<^verbatim>\<open>remove_quotes\<close> leaves alone.\<close>

definition plain_path :: "string \<Rightarrow> bool" where
  "plain_path s \<longleftrightarrow> s = [] \<or> hd s \<noteq> CHR 0x27 \<and> hd s \<noteq> CHR 0x22"

lemma remove_quotes_quoted: "plain_path s \<Longrightarrow> remove_quotes (quoted s) = s"
  by (auto simp: plain_path_def remove_quotes_def quoted_def quote_def)

lemma remove_quotes_entry: "plain_path s \<Longrightarrow> remove_quotes (entry_text [] s) = s"
  by (simp add: entry_text_def remove_quotes_quoted) (simp add: remove_quotes_def)

lemma path_field_text: "plain_path s \<Longrightarrow> length p = 2 \<Longrightarrow> path_field (entry_text p s) = s"
  by (auto simp: path_field_def entry_text_def remove_quotes_quoted) (simp add: remove_quotes_def)

lemma settings_command: "settings w = settings v \<Longrightarrow> ch_command (w_ch w) = ch_command (w_ch v)"
  by (simp add: settings_eq_iff)

lemma let_settings:
  "settings x = settings v \<Longrightarrow> (\<And>w. settings w = settings v \<Longrightarrow> settings (g w) = t) \<Longrightarrow> settings (Let x g) = t"
  by simp

lemma let_shown: "(\<And>w. shown (g w)) \<Longrightarrow> shown (Let x g)"
  by simp

lemma load_fields_settings:
  assumes "settings w = settings v"
  shows "ch_command (w_ch v) DYNAMORIO = entry_text [] s \<Longrightarrow> plain_path s \<Longrightarrow>
      settings (set_dr_path env (remove_quotes (ch_command (w_ch w) DYNAMORIO)) w) = settings (v\<lparr>w_dr_path := s\<rparr>)"
    "ch_command (w_ch v) CONFIGURATION = entry_text ''-c'' s \<Longrightarrow> plain_path s \<Longrightarrow>
      settings (set_config env (path_field (ch_command (w_ch w) CONFIGURATION)) w) = settings (v\<lparr>w_config := s\<rparr>)"
    "ch_command (w_ch v) DRACE = entry_text ''-c'' s \<Longrightarrow> plain_path s \<Longrightarrow> w_config v \<noteq> [] \<or> \<not> client_found env s \<Longrightarrow>
      settings (set_drace_path env (path_field (ch_command (w_ch w) DRACE)) w) = settings (v\<lparr>w_drace_path := s\<rparr>)"
    "ch_command (w_ch v) EXECUTABLE = entry_text ''--'' s \<Longrightarrow> plain_path s \<Longrightarrow>
      settings (set_exe (path_field (ch_command (w_ch w) EXECUTABLE)) w) = settings (v\<lparr>w_exe := s\<rparr>)"
    "ch_command (w_ch v) EXECUTABLE_ARGS = s \<Longrightarrow>
      settings (set_exe_args (ch_command (w_ch w) EXECUTABLE_ARGS) w) = settings (v\<lparr>w_exe_args := s\<rparr>)"
    "ch_command (w_ch v) FLAGS = s \<Longrightarrow> settings (set_flags (ch_command (w_ch w) FLAGS) w) = settings (v\<lparr>w_flags := s\<rparr>)"
  using assms settings_command [OF assms]
  by (simp_all add: remove_quotes_entry path_field_text set_dr_path_settings set_config_settings set_drace_path_settings
      set_exe_settings set_exe_args_settings set_flags_settings)

lemma load_boxes_settings:
  assumes "settings w = settings v"
  shows "ch_command (w_ch v) DR_DEBUG = (if on then ''-debug'' else []) \<Longrightarrow>
      settings (set_box set_debug (ch_command (w_ch w) DR_DEBUG \<noteq> []) w) = settings (v\<lparr>w_dr_debug := on\<rparr>)"
    "ch_command (w_ch v) EXCL_STACK = (if on then ''--excl-stack'' else []) \<Longrightarrow>
      settings (set_box set_excl (ch_command (w_ch w) EXCL_STACK \<noteq> []) w) = settings (v\<lparr>w_excl := on\<rparr>)"
proof -
  have c: "ch_command (w_ch w) = ch_command (w_ch v)" by (rule settings_command [OF assms])
  show "settings (set_box set_debug (ch_command (w_ch w) DR_DEBUG \<noteq> []) w) = settings (v\<lparr>w_dr_debug := on\<rparr>)"
    if d: "ch_command (w_ch v) DR_DEBUG = (if on then ''-debug'' else [])"
    using set_debug_settings [OF assms d] set_debug_settings [of _ "v\<lparr>w_dr_debug := on\<rparr>" on]
    by (cases on; intro set_box_settings) (simp_all add: c d)
  show "settings (set_box set_excl (ch_command (w_ch w) EXCL_STACK \<noteq> []) w) = settings (v\<lparr>w_excl := on\<rparr>)"
    if e: "ch_command (w_ch v) EXCL_STACK = (if on then ''--excl-stack'' else [])"
    using set_excl_settings [OF assms e] set_excl_settings [of _ "v\<lparr>w_excl := on\<rparr>" on]
    by (cases on; intro set_box_settings) (simp_all add: c e)
qed

lemma load_msr_settings:
  assumes "settings w = settings v" "on = (ch_msr_path (w_ch v) \<noteq> [])" "ch_command (w_ch v) EXT_CTRL = (if on then ''--extctrl'' else [])"
    and "on \<longrightarrow> eval_msr_path (ge_parent env) (exe_msr (ge_run env)) (w_ch v) = ch_msr_path (w_ch v)"
  shows "settings (set_box (set_msr_box env) (ch_msr_path (w_ch w) \<noteq> []) w) = settings (v\<lparr>w_msr := on\<rparr>)"
proof -
  have "ch_msr_path (w_ch w) = ch_msr_path (w_ch v)" using assms(1) by (simp add: settings_eq_iff)
  then show ?thesis
    using set_msr_settings [OF assms] set_msr_settings [of _ "v\<lparr>w_msr := on\<rparr>" on env] assms(2-)
    by (intro set_box_settings) simp_all
qed


lemma load_report_settings:
  assumes "settings w = settings v" "rh_auto_open (w_rh v) = w_auto v" "report_consistent (w_rh v) (w_ch v)"
    and "w_auto_enabled v = w_report v" "w_auto v \<longrightarrow> w_report v" "report_command_valid (w_rh v) = on" "rh_create (w_rh v) = on"
    and "\<not> on \<longrightarrow> ch_command (w_ch v) REPORT_OPEN_CMD = []"
  shows "settings (set_box (set_report env as) (report_command_valid (w_rh w)) w) = settings (v\<lparr>w_report := on,
    w_auto := (w_auto v \<and> on), w_auto_enabled := on, w_rh := (w_rh v)\<lparr>rh_auto_open := (w_auto v \<and> on)\<rparr>\<rparr>)"
proof -
  have "report_command_valid (w_rh w) = on" using assms(1,6) by (simp add: settings_eq_iff)
  moreover have "w_report (set_report env as on w) = on"
    using settings_flags(1) [OF set_report_settings [OF assms, of env as]] by simp
  ultimately show ?thesis
    using set_report_settings [OF assms, of env as] by (simp add: set_box_def set_report_same)
qed

lemma load_auto_settings:
  assumes "settings w = settings v" "rh_auto_open (w_rh v) = w_auto v" "report_consistent (w_rh v) (w_ch v)"
    and "ch_command (w_ch v) REPORT_OPEN_CMD = (if on then ''; '' @ report_open_text else [])"
  shows "settings (set_box set_auto (ch_command (w_ch w) REPORT_OPEN_CMD \<noteq> []) w) = settings (v\<lparr>w_auto := on,
    w_rh := (w_rh v)\<lparr>rh_auto_open := on\<rparr>,
    w_ch := (w_ch v)\<lparr>ch_command := (ch_command (w_ch v))(REPORT_CMD := report_cmd_text ((w_rh v)\<lparr>rh_auto_open := on\<rparr>))\<rparr>\<rparr>)"
proof -
  have "(ch_command (w_ch w) REPORT_OPEN_CMD \<noteq> []) = on" using settings_command [OF assms(1)] assms(4) by simp
  moreover have "w_auto (set_auto on w) = on"
    using settings_flags(2) [OF set_auto_settings [OF assms]] by simp
  ultimately show ?thesis
    using set_auto_settings [OF assms] by (simp add: set_box_def set_auto_same)
qed

lemma load_options_settings:
  assumes "settings w = settings v"
  shows "ch_command (w_ch v) DETECTOR = ''-d '' @ btn_name b \<Longrightarrow>
      settings (check_radio (ch_command (w_ch w) DETECTOR) w) = settings (v\<lparr>w_radio := b\<rparr>)"
    "settings (set_separate (po_run_separately (w_po w)) w) = settings (v\<lparr>w_separate := po_run_separately (w_po v)\<rparr>)"
    "settings (set_wrap (po_wrap_text (w_po w)) w) = settings (v\<lparr>w_wrap := po_wrap_text (w_po v)\<rparr>)"
proof -
  have "w_po w = w_po v" using assms by (simp add: settings_eq_iff)
  then show "settings (set_separate (po_run_separately (w_po w)) w) = settings (v\<lparr>w_separate := po_run_separately (w_po v)\<rparr>)"
    "settings (set_wrap (po_wrap_text (w_po w)) w) = settings (v\<lparr>w_wrap := po_wrap_text (w_po v)\<rparr>)"
    using assms by (simp_all add: set_separate_settings set_wrap_settings)
  show "settings (check_radio (ch_command (w_ch w) DETECTOR) w) = settings (v\<lparr>w_radio := b\<rparr>)"
    if "ch_command (w_ch v) DETECTOR = ''-d '' @ btn_name b"
    using check_radio_settings [OF assms] that settings_command [OF assms] by simp
qed

section \<open>A saved window comes back\<close>

text \<open>A window that can be saved: its paths carry no quotes of their own, the automatic configuration file has been taken,
  and the resolver is still where it was.\<close>

definition settled :: "gui_env \<Rightarrow> window \<Rightarrow> bool" where
  "settled env w \<longleftrightarrow> window_ok w \<and> report_consistent (w_rh w) (w_ch w)
     \<and> list_all plain_path [w_dr_path w, w_config w, w_drace_path w, w_exe w]
     \<and> (w_config w \<noteq> [] \<or> \<not> client_found env (w_drace_path w))
     \<and> (if w_msr w then eval_msr_path (ge_parent env) (exe_msr (ge_run env)) (w_ch w) = ch_msr_path (w_ch w) else True)"

text \<open>What the handlers hold after they were loaded.\<close>

definition handlers_loaded :: "window \<Rightarrow> window \<Rightarrow> bool" where
  "handlers_loaded w0 w \<longleftrightarrow> w_rh w = (w_rh w0)\<lparr>rh_auto_open := w_auto w\<rparr> \<and> w_po w = w_po w0
     \<and> ch_msr_path (w_ch w) = ch_msr_path (w_ch w0)
     \<and> ch_command (w_ch w) = (ch_command (w_ch w0))(REPORT_CMD := report_cmd_text ((w_rh w0)\<lparr>rh_auto_open := w_auto w\<rparr>))"

lemma report_flag_auto [simp]: "report_flag_text (r\<lparr>rh_auto_open := b\<rparr>) = report_flag_text r"
  by (simp add: report_flag_text_def report_command_valid_def)

lemma report_valid_auto [simp]: "report_command_valid (r\<lparr>rh_auto_open := b\<rparr>) = report_command_valid r"
  by (simp add: report_command_valid_def)

lemma handlers_consistent:
  assumes "handlers_loaded w0 w" "report_consistent (w_rh w0) (w_ch w0)"
  shows "report_consistent (w_rh w) (w_ch w)"
  using assms by (simp add: handlers_loaded_def report_consistent_def)

lemma report_off_consistent:
  assumes "report_consistent r c" "\<not> report_command_valid r"
  shows "report_consistent (r\<lparr>rh_auto_open := b\<rparr>) c"
  using assms invalid_report_text [of r] invalid_report_text [of "r\<lparr>rh_auto_open := b\<rparr>"] by (simp add: report_consistent_def)

lemma boxes_settings:
  assumes w0: "settled env w0" and w: "handlers_loaded w0 w" and box: "w_auto_enabled w = w_report w" "w_auto w \<longrightarrow> w_report w"
  shows "settings (set_boxes_after_load env as w) = settings w0"
proof -
  note fit = w0 [unfolded settled_def window_ok_def fields_fit_def boxes_fit_def report_fits_def Let_def]
  note h = w [unfolded handlers_loaded_def]
  have valid: "report_command_valid (w_rh w0) = w_report w0" using fit by (auto simp: report_command_valid_def)
  have same: "(w_rh w0)\<lparr>rh_auto_open := w_auto w0\<rparr> = w_rh w0" using fit by simp
  have cons: "report_consistent (w_rh w) (w_ch w)" using handlers_consistent [OF w] fit by simp
  have msr: "eval_msr_path (ge_parent env) (exe_msr (ge_run env)) (w_ch w) = ch_msr_path (w_ch w0)" if "w_msr w0"
    using that fit h eval_msr_path_cong [of "w_ch w" "w_ch w0"] by simp
  have off: "report_consistent ((w_rh w0)\<lparr>rh_auto_open := False\<rparr>) (w_ch w)" if "\<not> w_report w0"
    using that report_off_consistent [OF cons, of False] h valid by simp
  show ?thesis
    unfolding set_boxes_after_load_def
    apply (rule let_settings, rule load_fields_settings(1) [where s = "w_dr_path w0"], rule refl, (use fit h in simp), (use fit in simp))
    apply (rule let_settings, rule load_fields_settings(2) [where s = "w_config w0"], assumption, (use fit h in simp), (use fit in simp))
    apply (rule let_settings, rule load_fields_settings(3) [where s = "w_drace_path w0"], assumption, (use fit h in simp), (use fit in simp),
        (use fit in simp))
    apply (rule let_settings, rule load_fields_settings(4) [where s = "w_exe w0"], assumption, (use fit h in simp), (use fit in simp))
    apply (rule let_settings, rule load_fields_settings(5) [where s = "w_exe_args w0"], assumption, (use fit h in simp))
    apply (rule let_settings, rule load_fields_settings(6) [where s = "w_flags w0"], assumption, (use fit h in simp))
    apply (rule let_settings, rule load_boxes_settings(1) [where on = "w_dr_debug w0"], assumption, (use fit h in simp))
    apply (rule let_settings, rule load_report_settings [where on = "w_report w0"], assumption)
    subgoal by (simp add: h)
    subgoal using cons by (simp add: h)
    subgoal using box by simp
    subgoal using box by simp
    subgoal using valid h by simp
    subgoal using fit h by simp
    subgoal using fit h by simp
    apply (rule let_settings, rule load_msr_settings [where on = "w_msr w0"], assumption)
    subgoal using fit h by simp
    subgoal using fit h by simp
    subgoal using msr h by simp
    apply (rule let_settings, rule load_boxes_settings(2) [where on = "w_excl w0"], assumption, (use fit h in simp))
    apply (rule let_settings, rule load_auto_settings [where on = "w_auto w0"], assumption)
    subgoal by simp
    subgoal using cons off by (cases "w_report w0") (simp_all add: h)
    subgoal using fit h by simp
    apply (rule let_settings, rule load_options_settings(1) [where b = "w_radio w0"], assumption)
    subgoal using fit h by simp
    apply (rule let_settings, rule load_options_settings(2), assumption)
    apply (rule let_settings, rule load_options_settings(3), assumption)
    apply (rule trans, rule show_make_command_settings, assumption)
    subgoal premises
      using fit h upd_same [of "ch_command (w_ch w0)" REPORT_CMD] by (simp add: settings_eq_iff report_consistent_def same)
    done
qed

text \<open>No step changes the process; the buttons still fit.\<close>

lemma buttons_simple [simp]:
  "buttons_fit (show_command w) = buttons_fit w" "buttons_fit (show_entry f w) = buttons_fit w"
  "buttons_fit (message t w) = buttons_fit w" "buttons_fit (apply_report w) = buttons_fit w"
  "buttons_fit (run_report_config env as w) = buttons_fit w" "buttons_fit (set_dr_path env s w) = buttons_fit w"
  "buttons_fit (set_config env s w) = buttons_fit w" "buttons_fit (set_exe s w) = buttons_fit w"
  "buttons_fit (set_exe_args s w) = buttons_fit w" "buttons_fit (set_flags s w) = buttons_fit w"
  "buttons_fit (set_debug b w) = buttons_fit w" "buttons_fit (set_excl b w) = buttons_fit w"
  "buttons_fit (set_wrap b w) = buttons_fit w"  "buttons_fit (check_radio t w) = buttons_fit w"
  by (simp_all add: buttons_fit_def show_defs apply_report_def run_report_config_def set_dr_path_def dr_path_changed_def
      set_config_def config_changed_def set_exe_def set_exe_args_def set_flags_def set_debug_def debug_changed_def
      set_excl_def excl_changed_def set_wrap_def check_radio_def Let_def)

lemma buttons_fields [simp]:
  "buttons_fit (w\<lparr>w_report := b\<rparr>) = buttons_fit w" "buttons_fit (w\<lparr>w_auto := b\<rparr>) = buttons_fit w"
  "buttons_fit (w\<lparr>w_auto_enabled := b\<rparr>) = buttons_fit w" "buttons_fit (w\<lparr>w_rh := r\<rparr>) = buttons_fit w"
  "buttons_fit (w\<lparr>w_drace_path := s\<rparr>) = buttons_fit w" "buttons_fit (w\<lparr>w_drace_green := b\<rparr>) = buttons_fit w"
  "buttons_fit (w\<lparr>w_msr := b\<rparr>) = buttons_fit w" "buttons_fit (w\<lparr>w_ch := c\<rparr>) = buttons_fit w"
  by (simp_all add: buttons_fit_def)

lemma buttons_drace [simp]: "buttons_fit (set_drace_path env s w) = buttons_fit w"
  by (simp add: set_drace_path_def drace_path_changed_def Let_def)

lemma buttons_auto [simp]: "buttons_fit (set_auto on w) = buttons_fit w"
  by (simp add: set_auto_def auto_changed_def Let_def)

lemma buttons_report [simp]: "buttons_fit (set_report env as on w) = buttons_fit w"
  by (simp add: set_report_def report_on_def report_off_def set_auto_report_checkable_def Let_def)

lemma buttons_msr [simp]: "buttons_fit (set_msr_box env on w) = buttons_fit w"
  by (auto simp: set_msr_box_def msr_on_def msr_off_def validate_msr_def split: prod.splits)

lemma buttons_separate: "buttons_fit w \<Longrightarrow> buttons_fit (set_separate on w)"
  by (auto simp: set_separate_def separate_changed_def buttons_fit_def Let_def)

lemma buttons_boxes:
  assumes "buttons_fit w"
  shows "buttons_fit (set_boxes_after_load env as w)"
proof -
  have step: "buttons_fit (Let x g)" if "buttons_fit x" "\<And>w. buttons_fit w \<Longrightarrow> buttons_fit (g w)" for x :: window and g
    using that by simp
  show ?thesis
    unfolding set_boxes_after_load_def set_box_def
    by (intro step) (use assms buttons_separate in simp_all)
qed

lemma shown_boxes: "shown (set_boxes_after_load env as w)"
  unfolding set_boxes_after_load_def by (intro let_shown) (simp add: shown_def show_defs)

lemma settings_fit:
  assumes "settings w = settings v"
  shows "fields_fit w = fields_fit v" "boxes_fit w = boxes_fit v" "report_fits w = report_fits v"
  using assms by (simp_all add: settings_eq_iff fields_fit_def boxes_fit_def report_fits_def)

lemma shown_output:
  assumes "settings w = settings v" "shown w" "shown v"
  shows "w_output w = w_output v"
  using assms entire_cong [OF settings_command [OF assms(1)]] by (simp add: shown_def up_to_date_def)

text \<open>C18: Loading a saved configuration into the main window, whatever its fields show, brings every field and box back as it was
  saved and shows the same command again, provided the binary format brings back what was written.\<close>

theorem load_saved_window:
  assumes "unpack (pack (get_data (w_rh w0) (w_ch w0) (w_po w0) config_init)) = Some (get_data (w_rh w0) (w_ch w0) (w_po w0) config_init)"
    and w0: "settled env w0" and w: "report_fits w" "buttons_fit w"
  shows "\<exists>w2. load_config env as unpack (save_config pack w0) w = Some w2 \<and> window_ok w2 \<and> settings w2 = settings w0 \<and> w_output w2 = w_output w0"
proof -
  have fits: "window_ok w0" "report_consistent (w_rh w0) (w_ch w0)" using w0 by (simp_all add: settled_def)
  have box: "rh_auto_open (w_rh w) = w_auto w" "w_auto_enabled w = w_report w" "w_auto w \<longrightarrow> w_report w" using w(1) by (simp_all add: report_fits_def)
  obtain c2 where c2: "load unpack (save_config pack w0) (w_rh w) (w_ch w) (w_po w)
        = Some (True, (w_rh w0)\<lparr>rh_auto_open := w_auto w\<rparr>, c2, w_po w0)" "ch_msr_path c2 = ch_msr_path (w_ch w0)"
      "ch_command c2 = (ch_command (w_ch w0))(REPORT_CMD := report_cmd_text ((w_rh w0)\<lparr>rh_auto_open := w_auto w\<rparr>))"
    using load_after_save [of unpack pack, OF assms(1) fits(2), of "w_rh w" "w_ch w" "w_po w"] by (auto simp: save_config_def box(1))
  let ?w = "w\<lparr>w_rh := (w_rh w0)\<lparr>rh_auto_open := w_auto w\<rparr>, w_ch := c2, w_po := w_po w0\<rparr>"
  let ?w2 = "set_boxes_after_load env as ?w"
  have l: "load_config env as unpack (save_config pack w0) w = Some ?w2"
    by (simp add: load_config_def c2(1))
  have "handlers_loaded w0 ?w" by (simp add: handlers_loaded_def c2)
  then have s: "settings ?w2 = settings w0" by (rule boxes_settings [OF w0]) (use box in simp_all)
  have "buttons_fit ?w2" by (rule buttons_boxes) (use w(2) in \<open>simp add: buttons_fit_def\<close>)
  then have "window_ok ?w2" using fits(1) shown_boxes settings_fit [OF s] by (simp add: window_ok_def)
  then show ?thesis using l s shown_output [OF s shown_boxes] fits(1) by (auto simp: window_ok_def)
qed

section \<open>The window in use\<close>

lemma find_in_effect: "\<exists>b. snd (find_in py fs r) = r \<or> (\<exists>f. f \<noteq> [] \<and> snd (find_in py fs r) = r\<lparr>rh_conv_cmd := f, rh_is_python := b\<rparr>)"
proof (induction fs)
  case (Cons f fs)
  obtain ok r' where e: "eval_rep_conv py f r = (ok, r')" by fastforce
  show ?case using Cons.IH eval_rep_conv_effect [OF e] e by (cases ok) auto
qed simp

lemma find_in_fields:
  "rh_create (snd (find_in py fs r)) = rh_create r" "rh_auto_open (snd (find_in py fs r)) = rh_auto_open r" "rh_name (snd (find_in py fs r)) = rh_name r"
  using find_in_effect [of py fs r] by auto

lemma find_report_converter_fields:
  "rh_create (find_report_converter py fs gs r) = rh_create r" "rh_auto_open (find_report_converter py fs gs r) = rh_auto_open r"
  "rh_name (find_report_converter py fs gs r) = rh_name r"
  using find_in_fields [of py fs r] find_in_fields [of py gs "snd (find_in py fs r)"]
  by (auto simp: find_report_converter_def split: prod.splits bool.splits)

lemma window_start_ok:
  assumes "\<not> rh_create r" "\<not> rh_auto_open r" "rh_name r \<noteq> []"
  shows "window_ok (window_start env absolute r)"
proof -
  note m = window_new_mid [OF assms]
  have "up_to_date (w_ch (window_new r))" by (simp add: window_new_def command_handler_new_def)
  then have "window_ok (show_command (set_dr_path env s (window_new r)))" for s
    using m by (simp add: window_ok_def fit_defs set_dr_path_def dr_path_changed_def show_defs)
  from this set_drace_path_ok [OF this] show ?thesis by (simp add: window_start_def Let_def)
qed

lemma gui_steps_ok:
  assumes "\<not> ge_portable env []"
  shows "window_ok w \<Longrightarrow> window_ok (fold (gui_step env) as w)"
  using gui_step_ok assms by (induction as arbitrary: w) simp_all

lemma run_effects_shown:
  assumes "window_ok w" "e \<in> set (run_effects w)"
  shows "(\<exists>text. e = Message text) \<or> e = launch_msr (ch_msr_path (w_ch w)) \<and> w_msr w
    \<or> e \<in> {execute (w_output w), execute_embedded (w_output w)} \<and> w_dr_path w \<noteq> [] \<and> w_drace_path w \<noteq> [] \<and> w_exe w \<noteq> []"
proof -
  have out: "w_output w = ch_entire (w_ch w)" using assms(1) by (simp add: window_ok_def shown_def)
  have msr: "w_msr w = (ch_msr_path (w_ch w) \<noteq> [])" using assms(1) by (simp add: window_ok_def boxes_fit_def Let_def)
  have e: "ch_command (w_ch w) DYNAMORIO = entry_text [] (w_dr_path w)" "ch_command (w_ch w) DRACE = entry_text ''-c'' (w_drace_path w)"
    "ch_command (w_ch w) EXECUTABLE = entry_text ''--'' (w_exe w)"
    using assms(1) by (simp_all add: window_ok_def fields_fit_def Let_def)
  have valid: "command_is_valid (w_ch w) \<Longrightarrow> w_dr_path w \<noteq> [] \<and> w_drace_path w \<noteq> [] \<and> w_exe w \<noteq> []"
    using e by (auto simp: command_is_valid_def)
  show ?thesis
    using assms(2) valid by (simp add: run_effects_def out msr Let_def split: if_splits) blast+
qed


definition demo_env :: gui_env where
  "demo_env = \<lparr>ge_run = (\<lambda>cmd args. Some ''Managed Symbol Resolver''), ge_exists = (\<lambda>s. s \<noteq> ''drrun.exe''), ge_readable = (\<lambda>s. True),
     ge_regular = (\<lambda>s. True), ge_portable = (\<lambda>s. s \<noteq> []), ge_windows_name = (\<lambda>s. s \<noteq> []), ge_parent = (\<lambda>s. ''C:/d'')\<rparr>"

definition demo_start :: window where
  "demo_start = window_start demo_env (\<lambda>s. ''C:/d/'' @ s) (find_report_converter False [] [] (report_handler_init False))"

definition demo_actions :: "gui_action list" where
  "demo_actions = [DrPath ''C:/dyn rio/drrun.exe'', Exe ''a.exe'', Flags ''--lossy'', DebugBox True, MsrBox True, DetectorBtn Fasttrack,
     ReportBox True [TypeConv ''ReportConverter.exe'', AcceptReport], AutoBox True, SeparateBox True]"

definition demo_window :: window where
  "demo_window = fold (gui_step demo_env) demo_actions demo_start"

theorem load_saved_window_witness:
  "\<exists>pack unpack w2. load_config demo_env [] unpack (save_config pack demo_window) demo_start = Some w2
    \<and> settings w2 = settings demo_window \<and> w_output w2 = w_output demo_window"
proof -
  let ?pack = "\<lambda>_ :: config. [1 :: u8]"
  let ?unpack = "\<lambda>f :: u8 list. Some (get_data (w_rh demo_window) (w_ch demo_window) (w_po demo_window) config_init)"
  have "settled demo_env demo_window" "report_fits demo_start" "buttons_fit demo_start" by code_simp+
  from load_saved_window [where pack = ?pack and unpack = ?unpack and as = "[]", OF refl this] show ?thesis by blast
qed


end
