(* ===== verification/CliContract.thy ===== *)
theory CliContract
  imports ClientCli GuiLoad
begin

text \<open>
  The front end and the client together: what the client reads from the options the main window puts into the command.
  The texts the user types as further flags are left out.
\<close>

section \<open>From the window to the client\<close>

text \<open>The shell splits an entry at its first space and passes a quoted value without its quotes.\<close>

definition entry_flag :: "string \<Rightarrow> string" where
  "entry_flag e = takeWhile (\<lambda>c. c \<noteq> CHR '' '') e"

definition entry_value :: "string \<Rightarrow> string" where
  "entry_value e = remove_quotes (drop 1 (dropWhile (\<lambda>c. c \<noteq> CHR '' '') e))"

definition entry_effect :: "string \<Rightarrow> client_config \<Rightarrow> client_config option" where
  "entry_effect e c =
     (if e = [] then Some c
      else (case option_for drace_cli (entry_flag e) of
          Some (Switch f) \<Rightarrow> Some (f c)
        | Some (Text f) \<Rightarrow> Some (f (entry_value e) c)
        | Some (Texts f) \<Rightarrow> Some (f (entry_value e) [] c)
        | _ \<Rightarrow> None))"

fun client_sees :: "string list \<Rightarrow> client_config \<Rightarrow> client_config option" where
  "client_sees [] c = Some c"
| "client_sees (e # es) c = Option.bind (entry_effect e c) (client_sees es)"

definition client_entries :: "command_type list" where
  "client_entries = [DETECTOR, REPORT_FLAG, EXT_CTRL, EXCL_STACK, CONFIGURATION]"

lemma detector_entry:
  "entry_effect (''-d '' @ btn_name b) c = Some (c\<lparr>cc_detector := btn_name b, cc_detector_options := []\<rparr>)"
  by (cases b) (simp_all add: entry_effect_def entry_flag_def entry_value_def remove_quotes_def drace_cli_def)

lemma report_entry:
  "plain_path (rh_name r) \<Longrightarrow> entry_effect (report_flag_text r) c = Some (if report_command_valid r then c\<lparr>cc_xml_file := rh_name r\<rparr> else c)"
  by (simp add: entry_effect_def entry_flag_def entry_value_def report_flag_text_def remove_quotes_quoted drace_cli_def)

lemma switch_entries:
  "entry_effect (if b then ''--extctrl'' else []) c = Some (if b then c\<lparr>pa_extctrl := True\<rparr> else c)"
  "entry_effect (if b then ''--excl-stack'' else []) c = Some (if b then c\<lparr>pa_excl_stack := True\<rparr> else c)"
  by (simp_all add: entry_effect_def entry_flag_def drace_cli_def)

lemma config_entry:
  "plain_path s \<Longrightarrow> entry_effect (entry_text ''-c'' s) c = Some (if s \<noteq> [] then c\<lparr>cc_config_file := s\<rparr> else c)"
  by (simp add: entry_effect_def entry_flag_def entry_value_def entry_text_def remove_quotes_quoted drace_cli_def)


definition shows_fasttrack :: "window \<Rightarrow> bool" where
  "shows_fasttrack w \<longleftrightarrow> settled demo_env w \<and> plain_path (rh_name (w_rh w)) \<and> w_radio w = Fasttrack \<and> w_msr w \<and> \<not> w_excl w
     \<and> report_command_valid (w_rh w) \<and> rh_name (w_rh w) = ''test_report.xml''"


end
