(* ===== verification/Spec2Isabelle.thy ===== *)
theory Spec2Isabelle
  imports FasttrackProps RaceTheorem RingSpsc SpinLock TraceEvents RaceFilters TsanAdapter Utils
    LossyCounting ModTracker ModuleLoad WrapEvents
    LogOutput MsrProtocol SymbolQuery EndToEnd ExtControl AlignedBuf ClientLife CliContract
begin

text \<open>
  DRace finds data races in running programs. This development models its code in C++ and proves what makes the
  parts correct, and where the code does something else than it means to. File names are relative to the root of
  the repository.

  \<^bold>\<open>The program.\<close> DynamoRIO runs the program under test and calls the client (\<^verbatim>\<open>drace-client\<close>).
  When a module is loaded the client decides how far to instrument it and wraps the functions that lock, start
  threads or allocate. Memory accesses are recorded by inserted machine code into a buffer of the thread; when
  the buffer is full, and before every synchronisation, the buffer is handed to a detector. The detector
  (\<^verbatim>\<open>standalone/detectors/fasttrack\<close>, or an adapter to ThreadSanitizer, or a recorder) keeps vector clocks
  and reports races to the race collector, which removes duplicates, resolves symbols, applies the suppressions
  and feeds the report sinks. On Windows a second process (\<^verbatim>\<open>ManagedResolver\<close>) resolves the symbols of
  managed code, asked over a block of shared memory, and lets a user switch the detector.

  \<^bold>\<open>Foundations.\<close>
  \<^item> \<^verbatim>\<open>Prelude\<close>: machine types (\<open>u8\<close> to \<open>u64\<close>, \<open>addr\<close>), the collections \<open>find_simps\<close> and
    \<open>wf_intros\<close>, lemmas on lists, association lists and words.
  \<^item> \<^verbatim>\<open>HashMap\<close>, \<^verbatim>\<open>OrderedMap\<close>: the containers of the code as association lists in the order of their
    iteration. The locale \<open>hash_map\<close> states what an insertion or erasure does to a look-up, \<open>interval_index\<close> the
    search of the interval that contains a point; both are interpreted on the model's operations, and the
    detector's tables, the race filter and the module tracker rest on them.
  \<^item> \<^verbatim>\<open>TextFormat\<close>: numbers as text and back.

  \<^bold>\<open>The detector\<close> (\<^verbatim>\<open>standalone/detectors/fasttrack\<close>, \<^verbatim>\<open>common/detector/Detector.h\<close>).
  \<^item> \<^verbatim>\<open>DetectorApi\<close>: the calls a detector receives as a datatype, the entries of a report.
  \<^item> \<^verbatim>\<open>VectorClocks\<close>: ids packing thread and clock into 64 bits, the update loop as the least upper bound; its
    contract is the locale \<open>causal_clock\<close>.
  \<^item> \<^verbatim>\<open>StackDepot\<close>: the shared call tree, a refinement of plain stacks (locale \<open>call_depot\<close>).
  \<^item> \<^verbatim>\<open>VarStates\<close>, \<^verbatim>\<open>Fasttrack\<close>: thread and variable state, and every handler as a step from the tables to the new
    tables and the reported races, \<open>None\<close> being undefined behaviour. Every handler takes the locks of the
    detector and is atomic here.
  \<^item> \<^verbatim>\<open>FasttrackInv\<close>, \<^verbatim>\<open>FasttrackProps\<close>: the well-formedness of the tables, its preservation by all handlers, and
    what the runtime may rely on.
  \<^item> \<^verbatim>\<open>HappensOrder\<close>, \<^verbatim>\<open>FasttrackOrder\<close>, \<^verbatim>\<open>RaceCoverage\<close>, \<^verbatim>\<open>RaceTheorem\<close>: a log of events with a happens-before order that does
    not mention clocks; the clocks only grow along it; and the main theorem, that an access is ordered after the
    last write to its address by a living thread, or a race of the two was reported. Runs are bounded to fewer
    than \<open>2 ^ 32\<close> calls, because clocks have 32 bits (\<open>epoch_increment\<close> shows what happens at the bound).

  \<^bold>\<open>Other detectors and the exchange of events.\<close>
  \<^item> \<^verbatim>\<open>TsanAdapter\<close>: the adapter of \<^verbatim>\<open>drace-client/detectors/tsan\<close>; the library is the list of calls it receives.
  \<^item> \<^verbatim>\<open>TraceEvents\<close>: the recorded entries byte by byte and their replay (\<^verbatim>\<open>traceBinary\<close>, \<^verbatim>\<open>standalone/binarydecoder\<close>).
  \<^item> \<^verbatim>\<open>RingBuffer\<close>, \<^verbatim>\<open>RingSpsc\<close>: the lock-free queue of \<^verbatim>\<open>common/ipc/ringbuffer.hpp\<close>, sequentially as a bounded queue
    (locale \<open>bounded_fifo\<close>) and interleaved step by step; \<^verbatim>\<open>SpinLock\<close>: \<^verbatim>\<open>common/ipc/spinlock.h\<close>, a refinement of
    an abstract mutex with at most one owner.

  \<^bold>\<open>The client: from the program under test to the detector.\<close>
  \<^item> \<^verbatim>\<open>Utils\<close>: string helpers and the configuration. \<^verbatim>\<open>ModTracker\<close>, \<^verbatim>\<open>FunWrap\<close>, \<^verbatim>\<open>ModuleLoad\<close>: loaded modules, the wrapping of
    functions, the load event.
  \<^item> \<^verbatim>\<open>LossyCounting\<close>: the frequent-item counter; doubles are rationals.
  \<^item> \<^verbatim>\<open>AlignedBuf\<close>, \<^verbatim>\<open>ShadowStacks\<close>, \<^verbatim>\<open>MemTracker\<close>: the state of a thread, its buffer, sampling, exclusion, thread events.
    \<^verbatim>\<open>InstrMem\<close>: the choice of the instrumented instructions and the inserted code with an interpreter for it.
  \<^item> \<^verbatim>\<open>WrapEvents\<close>: the callbacks of wrapped functions and of calls and returns, up to the order in which a detector
    receives the events of a thread.
  \<^item> \<^verbatim>\<open>ExtControl\<close>: the interactive controller of the resolver process and its effect on the tracker.

  \<^bold>\<open>The client: from the detector to the reports.\<close>
  \<^item> \<^verbatim>\<open>RaceFilters\<close>, \<^verbatim>\<open>RaceCollect\<close>: suppression files, the search of native symbols, the collector.
  \<^item> \<^verbatim>\<open>Reports\<close>: the text and XML reports. The XML library is the sequence of its calls; \<open>xml_read\<close> says which tree
    they describe, \<open>read_report\<close> reads the races back. \<^verbatim>\<open>ClientReports\<close>: which sinks get which races.
  \<^item> \<^verbatim>\<open>EndToEnd\<close>: detector, collector and report together, from an unordered access to the line in the XML file.

  \<^bold>\<open>The client as a whole.\<close>
  \<^item> \<^verbatim>\<open>SysHandles\<close>: what is taken from the system, as a sequence of calls that is \<open>legal\<close> or not; loaded libraries, files,
    thread-local objects (a refinement of a map from threads to objects) and the creation of shared memory.
  \<^item> \<^verbatim>\<open>ClientLife\<close>: \<^verbatim>\<open>dr_client_main\<close>, the thread events and \<^verbatim>\<open>event_exit\<close> with the constructors and destructors they
    run; \<open>running\<close> is the state in between, and everything is given back in an order that is legal. Shared pointers are
    counts of owners.
  \<^item> \<^verbatim>\<open>ClientCli\<close>: the options of the client as a table with what each sets, what the client prints about itself, and the
    detectors that only answer or print (locale \<open>detector_handles\<close>).

  \<^bold>\<open>The resolver process.\<close>
  \<^item> \<^verbatim>\<open>MsrProtocol\<close>: both ends of the dialogue over shared memory (\<^verbatim>\<open>MSR.cpp\<close>, \<^verbatim>\<open>ProtocolHandler.cpp\<close>) as one step
    relation. A wait ends with its event or, where timeouts are allowed, without; a long request is
    interrupted by heartbeats. Without timeouts the two take turns (\<open>msr_inv\<close>);
    a client whose resolver is gone gets no wrong answers (\<open>deserted_client\<close>).
  \<^item> \<^verbatim>\<open>ManagedLines\<close>: from an address to a source line (\<^verbatim>\<open>ManagedResolver.cpp\<close>). \<^verbatim>\<open>SymbolQuery\<close>: resolver, protocol and
    client together; the locale \<open>symbol_service\<close> is what the client relies on, interpreted on the dialogue.

  \<^bold>\<open>The front end\<close> (\<^verbatim>\<open>tools/DRaceGUI\<close>).
  \<^item> \<^verbatim>\<open>GuiCommand\<close>: the command line put together from the fields of the window, the report command, and saving and
    loading the configuration.
  \<^item> \<^verbatim>\<open>GuiDialogs\<close>: the programs the front end starts (\<^verbatim>\<open>Executor.cpp\<close>) and the report, detector and runtime
    dialogs, with an invariant over every session of the report dialog.
  \<^item> \<^verbatim>\<open>GuiWindow\<close>: the main window (\<^verbatim>\<open>draceGUI.cpp\<close>) as a state with one function per signal handler; setting a
    widget from a handler runs the handler of that widget, as in the code. The invariant \<open>window_ok\<close> says that fields,
    boxes, buttons, handlers and the text shown agree; every action of the user keeps it.
  \<^item> \<^verbatim>\<open>GuiLoad\<close>: \<open>set_boxes_after_load\<close> step by step: no handler that runs while the boxes are set changes what was
    loaded, so a saved window comes back; and what is run is what the window shows. \<^verbatim>\<open>CliContract\<close>: the client reads
    from the options of the window what the window shows.

  \<^bold>\<open>Conventions.\<close> A class is a record, a method a function from the old to the new state, a reference to a shared
  object its address in a store. A result \<open>None\<close> stands for undefined behaviour, a failed assertion or an endless
  loop, as the theory says. What is not part of the repository (DynamoRIO, the debugging interfaces of Windows, the
  ThreadSanitizer library, the ini and regular expression parsers, random numbers and clocks) is an argument.
  Loops that may not end are partial functions with a proof of when they do; no definition uses fuel except the
  64 attempts the code itself makes at a line (\<open>skip_markers\<close>). Where the Windows and Linux builds differ, the
  Windows build is modelled, and 64-bit addresses throughout.

  \<^bold>\<open>Not modelled.\<close>
  \<^item> \<^verbatim>\<open>drace-client/detectors/extsan\<close> and \<^verbatim>\<open>ManagedResolver/src/QueueHandler.cpp\<close> use an interface of the queue, of the
    entries and of the ThreadSanitizer library that the headers no longer have, and are not built.
  \<^item> The parsing of the command line, its rules on which options go together and its help text, by a library; the main program of the resolver, which parses
    its own and constructs the parts; the wrappers of locks, which forward each call; the functions that construct a detector.
  \<^item> In the front end the text of the embedded process, opening finished reports, the file association in the registry
    and the About box; the report converter (Python), examples, benchmarks and tests, the headers of the runtime's debugging interfaces and other
    generated or third-party code.
\<close>

end
